(* ===== verification/Prelude.thy ===== *)
theory Prelude
  imports Main "HOL-Library.Word" "HOL-Library.FSet" "HOL-Library.Finite_Map"
    "HOL-Library.List_Lexorder" "HOL-Library.Char_ord" "HOL-Library.Product_Lexorder"
    "HOL-Library.Option_ord"
begin

text \<open>
  Shared vocabulary of the development.

  A Rust \<open>Result<T, E>\<close> is the sum \<open>'e + 'a\<close>; \<open>Err\<close> and \<open>Ok\<close> abbreviate its
  injections and \<open>bindR\<close> is the \<open>?\<close> operator: the first error ends the computation.
  A \<open>BTreeMap\<close> is a finite map \<open>fmap\<close>, a \<open>BTreeSet\<close> a finite set \<open>fset\<close>; where the code
  iterates, it does so in key order, which is \<open>sorted_list_of_fset\<close> of the keys.
  A \<open>String\<close> is the list of its UTF-8 bytes (so \<open>length\<close> is Rust's \<open>len\<close>), compared
  lexicographically as Rust does. Collections of simplification rules used by the
  component theories are declared here.
\<close>

named_theorems result_simps \<open>decomposition of successful and failing results\<close>

type_synonym byte = "8 word"
type_synonym bytes = "byte list"

abbreviation (input) Ok :: "'a \<Rightarrow> 'e + 'a" where "Ok \<equiv> Inr"
abbreviation (input) Err :: "'e \<Rightarrow> 'e + 'a" where "Err \<equiv> Inl"

definition bindR :: "'e + 'a \<Rightarrow> ('a \<Rightarrow> 'e + 'b) \<Rightarrow> 'e + 'b" where
  "bindR m f = (case m of Inl e \<Rightarrow> Inl e | Inr x \<Rightarrow> f x)"

definition ok_or :: "'a option \<Rightarrow> 'e \<Rightarrow> 'e + 'a" where
  "ok_or x e = (case x of None \<Rightarrow> Inl e | Some v \<Rightarrow> Inr v)"

definition requireR :: "bool \<Rightarrow> 'e \<Rightarrow> 'e + unit" where
  "requireR b e = (if b then Inr () else Inl e)"

definition map_errR :: "('e \<Rightarrow> 'f) \<Rightarrow> 'e + 'a \<Rightarrow> 'f + 'a" where
  "map_errR g m = (case m of Inl e \<Rightarrow> Inl (g e) | Inr x \<Rightarrow> Inr x)"

definition is_ok :: "'e + 'a \<Rightarrow> bool" where
  "is_ok m = (case m of Inl _ \<Rightarrow> False | Inr _ \<Rightarrow> True)"

text \<open>A \<open>for\<close> loop whose body may return early with an error, and the collecting form.\<close>

fun each :: "('a \<Rightarrow> 'e + unit) \<Rightarrow> 'a list \<Rightarrow> 'e + unit" where
  "each f [] = Ok ()"
| "each f (x # xs) = bindR (f x) (\<lambda>_. each f xs)"

fun mapR :: "('a \<Rightarrow> 'e + 'b) \<Rightarrow> 'a list \<Rightarrow> 'e + 'b list" where
  "mapR f [] = Ok []"
| "mapR f (x # xs) = bindR (f x) (\<lambda>y. bindR (mapR f xs) (\<lambda>ys. Ok (y # ys)))"

fun foldR :: "('s \<Rightarrow> 'a \<Rightarrow> 'e + 's) \<Rightarrow> 's \<Rightarrow> 'a list \<Rightarrow> 'e + 's" where
  "foldR f s [] = Ok s"
| "foldR f s (x # xs) = bindR (f s x) (\<lambda>s'. foldR f s' xs)"

lemma bindR_simps [simp]: "bindR (Inr x) f = f x" "bindR (Inl e) f = Inl e"
  by (simp_all add: bindR_def)

lemma bindR_Inr [simp, result_simps]: "bindR m f = Inr y \<longleftrightarrow> (\<exists>x. m = Inr x \<and> f x = Inr y)"
  by (cases m) auto

lemma bindR_Inl [result_simps]:
  "bindR m f = Inl e \<longleftrightarrow> m = Inl e \<or> (\<exists>x. m = Inr x \<and> f x = Inl e)"
  by (cases m) auto

lemma if_Err_Inr [simp, result_simps]:
  "(if b then Inl e else m) = Inr x \<longleftrightarrow> \<not> b \<and> m = Inr x"
  "(if b then m else Inl e) = Inr x \<longleftrightarrow> b \<and> m = Inr x"
  by simp_all

lemma bindR_assoc: "bindR (bindR m f) g = bindR m (\<lambda>x. bindR (f x) g)"
  by (cases m) auto

lemma bindR_cong [fundef_cong]:
  "m = m' \<Longrightarrow> (\<And>x. m' = Inr x \<Longrightarrow> f x = g x) \<Longrightarrow> bindR m f = bindR m' g"
  by (cases m') auto

lemma ok_or_simps [simp]: "ok_or None e = Inl e" "ok_or (Some v) e = Inr v"
  by (simp_all add: ok_or_def)

lemma ok_or_Inr [simp, result_simps]: "ok_or x e = Inr v \<longleftrightarrow> x = Some v"
  by (cases x) auto

lemma ok_or_Inl [simp, result_simps]: "ok_or x e = Inl e' \<longleftrightarrow> x = None \<and> e' = e"
  by (cases x) auto

lemma requireR_Inr [simp, result_simps]: "requireR b e = Inr u \<longleftrightarrow> b"
  by (simp add: requireR_def)

lemma requireR_Inl [simp, result_simps]: "requireR b e = Inl e' \<longleftrightarrow> \<not> b \<and> e' = e"
  by (auto simp: requireR_def)

lemma map_errR_Inr [simp, result_simps]: "map_errR g m = Inr x \<longleftrightarrow> m = Inr x"
  by (cases m) (auto simp: map_errR_def)

lemma map_errR_simps [simp]: "map_errR g (Inr x) = Inr x" "map_errR g (Inl e) = Inl (g e)"
  by (simp_all add: map_errR_def)

lemma is_ok_simps [simp]: "is_ok (Inr x)" "\<not> is_ok (Inl e)"
  by (simp_all add: is_ok_def)

lemma is_ok_ex: "is_ok m \<longleftrightarrow> (\<exists>x. m = Inr x)"
  by (cases m) auto

lemma each_Inr [simp, result_simps]: "each f xs = Inr u \<longleftrightarrow> (\<forall>x \<in> set xs. f x = Inr ())"
  by (induction xs) auto

lemma each_Inl: "each f xs = Inl e \<Longrightarrow> \<exists>x \<in> set xs. f x = Inl e"
  by (induction xs) (auto simp: bindR_Inl)

lemma mapR_Inr: "mapR f xs = Inr ys \<longleftrightarrow> list_all2 (\<lambda>x y. f x = Inr y) xs ys"
proof (induction xs arbitrary: ys)
  case (Cons x xs)
  then show ?case by (cases ys) auto
qed auto

lemma mapR_set: "mapR f xs = Inr ys \<Longrightarrow> y \<in> set ys \<Longrightarrow> \<exists>x \<in> set xs. f x = Inr y"
  by (induction xs arbitrary: ys) auto

lemma mapR_length: "mapR f xs = Inr ys \<Longrightarrow> length ys = length xs"
  by (auto simp: mapR_Inr dest: list_all2_lengthD)

lemma foldR_invariant:
  "foldR f s xs = Inr s' \<Longrightarrow> P s \<Longrightarrow> (\<And>s x s'. x \<in> set xs \<Longrightarrow> P s \<Longrightarrow> f s x = Inr s' \<Longrightarrow> P s') \<Longrightarrow> P s'"
proof (induction xs arbitrary: s)
  case (Cons x xs)
  then obtain t where t: "f s x = Inr t" "foldR f t xs = Inr s'" by auto
  then have "P t" using Cons.prems by auto
  then show ?case using Cons.IH [OF t(2)] Cons.prems(3) by auto
qed simp

text \<open>Unsigned arithmetic of the source: \<open>u64\<close> counters with \<open>checked_add\<close> and saturation.\<close>

definition U64_MAX :: nat where
  "U64_MAX = 2 ^ 64 - 1"

definition checked_add :: "nat \<Rightarrow> nat \<Rightarrow> nat option" where
  "checked_add a b = (if a + b \<le> U64_MAX then Some (a + b) else None)"

definition saturating_add :: "nat \<Rightarrow> nat \<Rightarrow> nat" where
  "saturating_add a b = min U64_MAX (a + b)"

lemma checked_add_Some [simp]: "checked_add a b = Some c \<longleftrightarrow> c = a + b \<and> a + b \<le> U64_MAX"
  by (auto simp: checked_add_def)

lemma Some_checked_add [simp]: "Some c = checked_add a b \<longleftrightarrow> c = a + b \<and> a + b \<le> U64_MAX"
  by (auto simp: checked_add_def)

text \<open>Rust's three-way comparison.\<close>

datatype ordering = Less | Equal | Greater

definition cmp :: "'a::linorder \<Rightarrow> 'a \<Rightarrow> ordering" where
  "cmp x y = (if x < y then Less else if x = y then Equal else Greater)"

lemma cmp_iff [simp]:
  "cmp x y = Less \<longleftrightarrow> x < y" "cmp x y = Equal \<longleftrightarrow> x = y" "cmp x y = Greater \<longleftrightarrow> y < x"
  by (auto simp: cmp_def)

text \<open>Lexicographic comparison of vectors through their common prefix.\<close>

definition common_prefix :: "'a list \<Rightarrow> 'a list \<Rightarrow> nat" where
  "common_prefix xs ys = length (takeWhile (\<lambda>(a, b). a = b) (zip xs ys))"

lemma common_prefix_simps [simp]:
  "common_prefix [] ys = 0" "common_prefix xs [] = 0"
  "common_prefix (x # xs) (y # ys) = (if x = y then Suc (common_prefix xs ys) else 0)"
  by (simp_all add: common_prefix_def)

lemma common_prefix_take: "take (common_prefix xs ys) xs = take (common_prefix xs ys) ys"
  by (induction xs ys rule: list_induct2') auto

lemma lex_less_common:
  fixes xs ys :: "'a::linorder list"
  assumes "xs < ys"
  shows "common_prefix xs ys < length ys
    \<and> (common_prefix xs ys < length xs
        \<longrightarrow> xs ! common_prefix xs ys < ys ! common_prefix xs ys)
    \<and> common_prefix xs ys \<le> length xs"
  using assms by (induction xs ys rule: list_induct2') auto

lemma lex_less_append [simp]: "(xs :: 'a::linorder list) < xs @ ys \<longleftrightarrow> ys \<noteq> []"
  by (induction xs) (cases ys; auto)+

lemma lex_less_at:
  fixes p :: "'a::linorder list"
  shows "x < y \<Longrightarrow> p @ x # xs < p @ y # ys"
  by (induction p) auto

lemma lex_split_at: "i < length xs \<Longrightarrow> take i xs @ xs ! i # drop (Suc i) xs = xs"
  by (metis id_take_nth_drop)

text \<open>Little-endian encoding of a \<open>u64\<close>, as \<open>to_le_bytes\<close> writes it.\<close>

fun le_bytes :: "nat \<Rightarrow> nat \<Rightarrow> bytes" where
  "le_bytes 0 n = []"
| "le_bytes (Suc k) n = of_nat (n mod 256) # le_bytes k (n div 256)"

fun le_value :: "bytes \<Rightarrow> nat" where
  "le_value [] = 0"
| "le_value (b # bs) = unat b + 256 * le_value bs"

lemma length_le_bytes [simp]: "length (le_bytes k n) = k"
  by (induction k arbitrary: n) auto

lemma unat_byte_mod: "unat (of_nat (n mod 256) :: byte) = n mod 256"
  by (simp add: unat_of_nat)

lemma le_value_le_bytes: "n < 256 ^ k \<Longrightarrow> le_value (le_bytes k n) = n"
proof (induction k arbitrary: n)
  case (Suc k)
  then have "n div 256 < 256 ^ k"
    by (simp add: less_mult_imp_div_less mult.commute)
  with Suc.IH show ?case by (simp add: unat_byte_mod)
qed simp

lemma le_bytes_inj: "m < 256 ^ k \<Longrightarrow> n < 256 ^ k \<Longrightarrow> le_bytes k m = le_bytes k n \<longleftrightarrow> m = n"
  by (metis le_value_le_bytes)

text \<open>The bytes of an ASCII literal.\<close>

definition ascii :: "string \<Rightarrow> bytes" where
  "ascii s = map (\<lambda>c. of_nat (of_char c)) s"

lemma length_ascii [simp]: "length (ascii s) = length s"
  by (simp add: ascii_def)

text \<open>Finite maps in key order, as the iterators of \<open>BTreeMap\<close> yield them.\<close>

definition bt_keys :: "('k::linorder, 'v) fmap \<Rightarrow> 'k list" where
  "bt_keys m = sorted_list_of_fset (fmdom m)"

definition bt_iter :: "('k::linorder, 'v) fmap \<Rightarrow> ('k \<times> 'v) list" where
  "bt_iter m = List.map_filter (\<lambda>k. map_option (Pair k) (fmlookup m k)) (bt_keys m)"

definition bt_values :: "('k::linorder, 'v) fmap \<Rightarrow> 'v list" where
  "bt_values m = map snd (bt_iter m)"

definition bt_len :: "('k, 'v) fmap \<Rightarrow> nat" where
  "bt_len m = fcard (fmdom m)"

definition bt_contains :: "('k, 'v) fmap \<Rightarrow> 'k \<Rightarrow> bool" where
  "bt_contains m k = (fmlookup m k \<noteq> None)"

lemma set_bt_keys [simp]: "set (bt_keys m) = fset (fmdom m)"
  by (simp add: bt_keys_def)

lemma distinct_bt_keys [simp]: "distinct (bt_keys m)"
  by (simp add: bt_keys_def sorted_list_of_fset.rep_eq)

lemma sorted_bt_keys [simp]: "sorted (bt_keys m)"
  by (simp add: bt_keys_def sorted_list_of_fset.rep_eq)

lemma set_bt_iter [simp]: "(k, v) \<in> set (bt_iter m) \<longleftrightarrow> fmlookup m k = Some v"
  by (force simp: bt_iter_def List.map_filter_def fmlookup_dom_iff image_iff)

lemma set_bt_values: "v \<in> set (bt_values m) \<longleftrightarrow> (\<exists>k. fmlookup m k = Some v)"
  by (auto simp: bt_values_def image_iff Bex_def)

lemma ball_bt_iter [simp]:
  "(\<forall>x \<in> set (bt_iter m). P x) \<longleftrightarrow> (\<forall>k v. fmlookup m k = Some v \<longrightarrow> P (k, v))"
  by (metis old.prod.exhaust set_bt_iter)

lemma ball_bt_values: "(\<forall>v \<in> set (bt_values m). P v) \<longleftrightarrow> (\<forall>k v. fmlookup m k = Some v \<longrightarrow> P v)"
  by (auto simp: set_bt_values)

lemma bt_contains_dom: "bt_contains m k \<longleftrightarrow> k |\<in>| fmdom m"
  by (auto simp: bt_contains_def fmlookup_dom_iff)

lemma bt_contains_simps [simp]:
  "bt_contains (fmupd k v m) k' \<longleftrightarrow> k' = k \<or> bt_contains m k'"
  "bt_contains (fmdrop k m) k' \<longleftrightarrow> k' \<noteq> k \<and> bt_contains m k'"
  "\<not> bt_contains fmempty k'"
  by (auto simp: bt_contains_def)


lemma map_fst_bt_iter [simp]: "map fst (bt_iter m) = bt_keys m"
proof -
  have "map fst (List.map_filter (\<lambda>k. map_option (Pair k) (fmlookup m k)) ks) = ks"
    if "set ks \<subseteq> fset (fmdom m)" for ks
    using that by (induction ks) (auto simp: List.map_filter_def fmlookup_dom_iff)
  then show ?thesis by (simp add: bt_iter_def)
qed

lemma distinct_bt_iter [simp]: "distinct (bt_iter m)"
  by (metis distinct_bt_keys distinct_map map_fst_bt_iter)

lemma bt_len_0 [simp]: "bt_len m = 0 \<longleftrightarrow> m = fmempty"
  by (simp add: bt_len_def fcard_0_eq) (metis fmdom_empty fmrestrict_fset_dom fmrestrict_fset_null)

text \<open>Two maps that agree where both are defined, by what one has beyond the other.\<close>

definition agree :: "('k, 'v) fmap \<Rightarrow> ('k, 'v) fmap \<Rightarrow> bool" where
  "agree a b \<longleftrightarrow> (\<forall>k v w. fmlookup a k = Some v \<longrightarrow> fmlookup b k = Some w \<longrightarrow> w = v)"

lemma agree_eq:
  "agree a b \<Longrightarrow> (\<And>k. bt_contains b k \<longleftrightarrow> bt_contains a k) \<Longrightarrow> b = a"
proof (rule fmap_ext)
  fix k
  assume "agree a b" and "\<And>k. bt_contains b k \<longleftrightarrow> bt_contains a k"
  then show "fmlookup b k = fmlookup a k"
    unfolding agree_def bt_contains_def by (metis not_None_eq)
qed

lemma agree_add:
  assumes "agree a b" and "\<And>k. bt_contains b k \<longleftrightarrow> k = d \<or> bt_contains a k"
    and "fmlookup b d = Some v"
  shows "b = fmupd d v a"
proof (rule fmap_ext)
  fix k
  show "fmlookup b k = fmlookup (fmupd d v a) k"
    using assms unfolding agree_def bt_contains_def by (cases "k = d") (auto, metis not_None_eq)
qed

lemma agree_drop:
  assumes "agree a b" and "\<And>k. bt_contains b k \<longleftrightarrow> k \<noteq> d \<and> bt_contains a k"
  shows "b = fmdrop d a"
proof (rule fmap_ext)
  fix k
  show "fmlookup b k = fmlookup (fmdrop d a) k"
    using assms(1) assms(2) [of k] unfolding agree_def bt_contains_def
    by (cases "fmlookup a k"; cases "fmlookup b k") auto
qed


text \<open>
  A loop that repeats a pass over its state until the pass reports no change: the contract
  under which it ends, and what holds when it has ended.
\<close>

locale settling_loop =
  fixes pass :: "'s \<Rightarrow> 's \<times> bool"
    and loop :: "'s \<Rightarrow> 's"
    and weight :: "'s \<Rightarrow> nat"
  assumes loop_unfold: "loop s = (let (s', changed) = pass s in if changed then loop s' else s')"
    and pass_decreases: "pass s = (s', True) \<Longrightarrow> weight s' < weight s"
    and pass_stable: "pass s = (s', False) \<Longrightarrow> s' = s"
begin

lemma loop_settled: "pass (loop s) = (loop s, False)"
proof (induction s rule: measure_induct_rule [of weight])
  case (less s)
  obtain s' c where p: "pass s = (s', c)" by fastforce
  show ?case
  proof (cases c)
    case True
    then have "pass (loop s') = (loop s', False)" using less p by (simp add: pass_decreases)
    then show ?thesis using loop_unfold [of s] p True by simp
  next
    case False
    then have "s' = s" using p pass_stable [of s s'] by simp
    then show ?thesis using loop_unfold [of s] p False by simp
  qed
qed

lemma loop_invariant:
  assumes step: "\<And>s. P s \<Longrightarrow> P (fst (pass s))" and "P s"
  shows "P (loop s)"
  using assms(2)
proof (induction s rule: measure_induct_rule [of weight])
  case (less s)
  obtain s' c where p: "pass s = (s', c)" by fastforce
  then have "P s'" using step [of s] less.prems by simp
  then show ?case
    using less p pass_decreases [of s s'] loop_unfold [of s] by (cases c) simp_all
qed

lemma loop_weight: "weight (loop s) \<le> weight s"
proof (induction s rule: measure_induct_rule [of weight])
  case (less s)
  obtain s' c where p: "pass s = (s', c)" by fastforce
  show ?case
    using less [of s'] p pass_decreases [of s s'] pass_stable [of s s'] loop_unfold [of s]
    by (cases c) fastforce+
qed

end

end
