(* ===== verification/Core_Order.thy ===== *)
theory Core_Order
  imports Prelude Complex_Main
begin

text \<open>
  \<open>crates/taypeer-core/src/order.rs\<close>: dense sibling positions. The third-party crate
  \<open>fractional_index\<close> is the record \<open>fi_lib\<close>, a parameter of the operations; its
  documented behaviour is the predicate \<open>fi_laws\<close>. A position is a list of segments
  (a fractional rank and the identity of the operation that allocated it), compared
  lexicographically after appending the object's own identity.
\<close>

record 'f fi_lib =
  fi_default :: 'f
  fi_before :: "'f \<Rightarrow> 'f"
  fi_after :: "'f \<Rightarrow> 'f"
  fi_between :: "'f \<Rightarrow> 'f \<Rightarrow> 'f option"
  fi_as_bytes :: "'f \<Rightarrow> bytes"
  fi_from_bytes :: "bytes \<Rightarrow> 'f option"

text \<open>What \<open>new_before\<close>, \<open>new_after\<close> and \<open>new_between\<close> promise.\<close>

definition fi_laws :: "'f::linorder fi_lib \<Rightarrow> bool" where
  "fi_laws L \<longleftrightarrow>
     (\<forall>x. fi_before L x < x) \<and> (\<forall>x. x < fi_after L x) \<and>
     (\<forall>x y. x < y \<longrightarrow> (\<exists>z. fi_between L x y = Some z \<and> x < z \<and> z < y))"

datatype order_error = OrderError

datatype 'f segment = Segment (seg_rank: 'f) (seg_id: string)

datatype 'f order_key = OrderKey (segments: "'f segment list")

definition MAX_BYTES :: nat where
  "MAX_BYTES = 4096"

text \<open>The derived order of \<open>Segment\<close>: rank first, then identity.\<close>

instantiation segment :: (linorder) linorder
begin

definition less_segment :: "'a segment \<Rightarrow> 'a segment \<Rightarrow> bool" where
  "less_segment a b \<longleftrightarrow> (seg_rank a, seg_id a) < (seg_rank b, seg_id b)"

definition less_eq_segment :: "'a segment \<Rightarrow> 'a segment \<Rightarrow> bool" where
  "less_eq_segment a b \<longleftrightarrow> (seg_rank a, seg_id a) \<le> (seg_rank b, seg_id b)"

instance
proof
  fix a b c :: "'a segment"
  show "a < b \<longleftrightarrow> a \<le> b \<and> \<not> b \<le> a" and "a \<le> a" and "a \<le> b \<or> b \<le> a"
    unfolding less_segment_def less_eq_segment_def by (simp_all only: less_le_not_le order_refl linear)
  show "a \<le> b \<Longrightarrow> b \<le> c \<Longrightarrow> a \<le> c"
    unfolding less_eq_segment_def by (rule order_trans)
  show "a \<le> b \<Longrightarrow> b \<le> a \<Longrightarrow> a = b"
    unfolding less_eq_segment_def using segment.expand order_antisym by (metis prod.inject)
qed

end

definition complete :: "'f fi_lib \<Rightarrow> 'f order_key \<Rightarrow> string \<Rightarrow> 'f segment list" where
  "complete L key oid = segments key @ [Segment (fi_default L) oid]"

definition compare :: "'f::linorder fi_lib \<Rightarrow> 'f order_key \<Rightarrow> string \<Rightarrow> 'f order_key \<Rightarrow> string \<Rightarrow> ordering" where
  "compare L key oid other other_id = cmp (complete L key oid) (complete L other other_id)"

definition validate_key :: "'f fi_lib \<Rightarrow> 'f order_key \<Rightarrow> order_error + unit" where
  "validate_key L key =
     (if segments key = [] \<or> length (segments key) > MAX_BYTES
         \<or> (\<exists>s \<in> set (segments key). seg_id s = [])
         \<or> foldl (\<lambda>total s. saturating_add
              (saturating_add total (length (fi_as_bytes L (seg_rank s)))) (length (seg_id s)))
              0 (segments key) > MAX_BYTES
      then Err OrderError else Ok ())"

definition between ::
  "'f::linorder fi_lib \<Rightarrow> ('f order_key \<times> string) option \<Rightarrow> ('f order_key \<times> string) option
     \<Rightarrow> string \<Rightarrow> order_error + 'f order_key" where
  "between L left right operation =
     (if operation = [] then Err OrderError else
      let left = map_option (\<lambda>(key, oid). complete L key oid) left;
          right = map_option (\<lambda>(key, oid). complete L key oid) right;
          segment = (\<lambda>rank. Segment rank operation)
      in bindR
        (case (left, right) of
           (None, None) \<Rightarrow> Ok [segment (fi_default L)]
         | (None, Some right) \<Rightarrow> Ok [segment (fi_before L (seg_rank (right ! 0)))]
         | (Some left, None) \<Rightarrow> Ok [segment (fi_after L (seg_rank (left ! 0)))]
         | (Some left, Some right) \<Rightarrow>
             if left \<ge> right then Err OrderError
             else
               let common = common_prefix left right in
               if common = length left
               then Ok (left @ [segment (fi_before L (seg_rank (right ! common)))])
               else if seg_rank (left ! common) < seg_rank (right ! common)
               then bindR (ok_or (fi_between L (seg_rank (left ! common))
                                   (seg_rank (right ! common))) OrderError)
                      (\<lambda>rank. Ok (take common left @ [segment rank]))
               else Ok (left @ [segment (fi_default L)]))
        (\<lambda>path. bindR (validate_key L (OrderKey path)) (\<lambda>_. Ok (OrderKey path))))"

text \<open>The wire form: each segment is the pair of its rank's bytes and its identity.\<close>

definition serialize_key :: "'f fi_lib \<Rightarrow> 'f order_key \<Rightarrow> (bytes \<times> string) list" where
  "serialize_key L key = map (\<lambda>s. (fi_as_bytes L (seg_rank s), seg_id s)) (segments key)"

definition deserialize_key :: "'f fi_lib \<Rightarrow> (bytes \<times> string) list \<Rightarrow> order_error + 'f order_key" where
  "deserialize_key L raw =
     bindR (mapR (\<lambda>(bytes, identity).
              bindR (ok_or (fi_from_bytes L bytes) OrderError)
                (\<lambda>rank. Ok (Segment rank identity))) raw)
       (\<lambda>segs. bindR (validate_key L (OrderKey segs)) (\<lambda>_. Ok (OrderKey segs)))"

subsection \<open>Lemmas\<close>

lemma segment_less [simp]:
  "Segment r i < Segment r' i' \<longleftrightarrow> r < r' \<or> r = r' \<and> i < (i' :: string)"
  by (auto simp: less_segment_def)

lemma fi_lawsD [intro]:
  assumes "fi_laws L"
  shows "fi_before L x < x" and "x < fi_after L x"
    and "fi_between L x y = Some z \<Longrightarrow> x < y \<Longrightarrow> x < z"
    and "fi_between L x y = Some z \<Longrightarrow> x < y \<Longrightarrow> z < y"
    and "x < y \<Longrightarrow> \<exists>z. fi_between L x y = Some z"
  using assms unfolding fi_laws_def by fastforce+

lemma complete_nonempty [simp]: "complete L k i \<noteq> []"
  by (simp add: complete_def)

lemma complete_nth0: "complete L k i = complete L k i ! 0 # tl (complete L k i)"
  by (cases "complete L k i") (auto dest: arg_cong[where f = length])

lemma complete_inj: "complete L k i = complete L k' i' \<longleftrightarrow> k = k' \<and> i = i'"
  by (auto simp: complete_def order_key.expand)

text \<open>The slot-finding step of \<open>between\<close>: where the new path sits, whatever follows it.\<close>

lemma between_slot:
  fixes left right :: "'f::linorder segment list"
  assumes laws: "fi_laws L" and lt: "left < right"
    and c: "c = common_prefix left right"
  shows "c = length left \<Longrightarrow>
           left < left @ Segment (fi_before L (seg_rank (right ! c))) op # zs
           \<and> left @ Segment (fi_before L (seg_rank (right ! c))) op # zs < right"
    and "c \<noteq> length left \<Longrightarrow> seg_rank (left ! c) < seg_rank (right ! c) \<Longrightarrow>
           fi_between L (seg_rank (left ! c)) (seg_rank (right ! c)) = Some r \<Longrightarrow>
           left < take c left @ Segment r op # zs \<and> take c left @ Segment r op # zs < right"
    and "c \<noteq> length left \<Longrightarrow> \<not> seg_rank (left ! c) < seg_rank (right ! c) \<Longrightarrow>
           left < left @ y # zs \<and> left @ y # zs < right"
proof -
  note cp = lex_less_common [OF lt, folded c]
  have same: "take c left = take c right"
    unfolding c by (rule common_prefix_take)
  have right: "right = take c left @ right ! c # drop (Suc c) right"
    using cp lex_split_at [of c right] same by simp
  show "c = length left \<Longrightarrow>
           left < left @ Segment (fi_before L (seg_rank (right ! c))) op # zs
           \<and> left @ Segment (fi_before L (seg_rank (right ! c))) op # zs < right"
  proof -
    assume len: "c = length left"
    have "Segment (fi_before L (seg_rank (right ! c))) op < right ! c"
      using laws by (cases "right ! c") (simp add: fi_laws_def)
    then have "left @ Segment (fi_before L (seg_rank (right ! c))) op # zs < right"
      using right len by (metis lex_less_at take_all_iff order_refl)
    then show ?thesis by simp
  qed
  have left: "left = take c left @ left ! c # drop (Suc c) left" if "c \<noteq> length left"
    using cp that lex_split_at [of c left] by simp
  show "c \<noteq> length left \<Longrightarrow> seg_rank (left ! c) < seg_rank (right ! c) \<Longrightarrow>
           fi_between L (seg_rank (left ! c)) (seg_rank (right ! c)) = Some r \<Longrightarrow>
           left < take c left @ Segment r op # zs \<and> take c left @ Segment r op # zs < right"
  proof -
    assume ne: "c \<noteq> length left" and rk: "seg_rank (left ! c) < seg_rank (right ! c)"
      and r: "fi_between L (seg_rank (left ! c)) (seg_rank (right ! c)) = Some r"
    have "seg_rank (left ! c) < r" "r < seg_rank (right ! c)"
      using fi_lawsD(3,4) [OF laws r rk] by simp_all
    then have "left ! c < Segment r op" "Segment r op < right ! c"
      by (simp_all add: less_segment_def)
    then show ?thesis
      using left [OF ne] right by (metis lex_less_at)
  qed
  show "c \<noteq> length left \<Longrightarrow> \<not> seg_rank (left ! c) < seg_rank (right ! c) \<Longrightarrow>
           left < left @ y # zs \<and> left @ y # zs < right"
  proof -
    assume ne: "c \<noteq> length left"
    then have "left ! c < right ! c" using cp by simp
    then have "(take c left @ left ! c # drop (Suc c) left) @ y # zs < right"
      using right lex_less_at [of "left ! c" "right ! c"] by (metis append.assoc append_Cons)
    then show ?thesis using left [OF ne] by simp
  qed
qed

lemma between_bounds:
  assumes laws: "fi_laws L" and res: "between L left right operation = Ok key"
  shows "(\<forall>k i. left = Some (k, i) \<longrightarrow> compare L k i key oid = Less)
       \<and> (\<forall>k i. right = Some (k, i) \<longrightarrow> compare L key oid k i = Less)"
proof -
  let ?z = "Segment (fi_default L) oid"
  have op: "operation \<noteq> []" using res by (auto simp: between_def split: if_splits)
  show ?thesis
  proof (cases left)
    case None
    show ?thesis
    proof (cases right)
      case None
      with \<open>left = None\<close> show ?thesis by simp
    next
      case (Some b)
      obtain k i where b: "b = (k, i)" by fastforce
      have "key = OrderKey [Segment (fi_before L (seg_rank (complete L k i ! 0))) operation]"
        using res op None Some b by (auto simp: between_def Let_def)
      moreover have "Segment (fi_before L (seg_rank (complete L k i ! 0))) operation
          < complete L k i ! 0"
        using fi_lawsD(1) [OF laws] by (cases "complete L k i ! 0") simp
      ultimately have "complete L key oid < complete L k i"
        by (subst complete_nth0 [of L k i]) (simp add: complete_def)
      then show ?thesis using None Some b by (simp add: compare_def)
    qed
  next
    case (Some a)
    obtain k i where a: "a = (k, i)" by fastforce
    show ?thesis
    proof (cases right)
      case None
      have "key = OrderKey [Segment (fi_after L (seg_rank (complete L k i ! 0))) operation]"
        using res op None Some a by (auto simp: between_def Let_def)
      moreover have "complete L k i ! 0
          < Segment (fi_after L (seg_rank (complete L k i ! 0))) operation"
        using fi_lawsD(2) [OF laws] by (cases "complete L k i ! 0") simp
      ultimately have "complete L k i < complete L key oid"
        by (subst complete_nth0 [of L k i]) (simp add: complete_def)
      then show ?thesis using None Some a by (simp add: compare_def)
    next
      case (Some b)
      obtain k' i' where b: "b = (k', i')" by fastforce
      let ?l = "complete L k i" and ?r = "complete L k' i'"
      let ?c = "common_prefix ?l ?r"
      have lt: "?l < ?r"
        using res op \<open>left = Some a\<close> Some a b by (auto simp: between_def Let_def split: if_splits)
      note slot = between_slot [OF laws lt refl, where zs = "[?z]"]
      have "?l < complete L key oid \<and> complete L key oid < ?r"
        using res op \<open>left = Some a\<close> Some a b lt slot
        by (auto simp: between_def Let_def complete_def [of L "OrderKey _"] not_le
            split: if_splits)
      then show ?thesis using \<open>left = Some a\<close> Some a b by (simp add: compare_def)
    qed
  qed
qed

text \<open>
  A position allocated by \<open>between\<close> lies strictly between its bounds, whatever the
  identity of the object that will carry it, and whichever bounds are missing; in
  particular it separates siblings whose stored positions are equal.
\<close>

theorem between_strict:
  assumes laws: "fi_laws L" and res: "between L left right operation = Ok key"
  shows "(\<forall>k i. left = Some (k, i) \<longrightarrow> compare L k i key oid = Less)
       \<and> (\<forall>k i. right = Some (k, i) \<longrightarrow> compare L key oid k i = Less)"
  by (rule between_bounds [OF laws res])


text \<open>The rationals are a model of the library's laws; the witnesses run on them.\<close>

definition rat_fi :: "rat fi_lib" where
  "rat_fi = \<lparr>fi_default = 0, fi_before = (\<lambda>x. x - 1), fi_after = (\<lambda>x. x + 1),
     fi_between = (\<lambda>x y. if x < y then Some ((x + y) / 2) else None),
     fi_as_bytes = (\<lambda>x. if x = 0 then [128] else [64, 128]),
     fi_from_bytes = (\<lambda>b. if b = [128] then Some 0 else if b = [64, 128] then Some 1 else None)\<rparr>"

lemma rat_fi_laws: "fi_laws rat_fi"
proof -
  have "\<exists>z. fi_between rat_fi x y = Some z \<and> x < z \<and> z < y" if "x < y" for x y
    by (rule exI [of _ "(x + y) / 2"]) (use that in \<open>simp add: rat_fi_def\<close>)
  then show ?thesis by (simp add: fi_laws_def) (simp add: rat_fi_def)
qed

theorem between_strict_witness:
  "\<exists>key. between rat_fi (Some (OrderKey [Segment 0 ''q''], ''a''))
            (Some (OrderKey [Segment 0 ''q''], ''z'')) ''op'' = Ok key
    \<and> compare rat_fi (OrderKey [Segment 0 ''q'']) ''a'' key ''x'' = Less
    \<and> compare rat_fi key ''x'' (OrderKey [Segment 0 ''q'']) ''z'' = Less"
proof -
  have res: "between rat_fi (Some (OrderKey [Segment 0 ''q''], ''a''))
            (Some (OrderKey [Segment 0 ''q''], ''z'')) ''op''
      = Ok (OrderKey [Segment 0 ''q'', Segment 0 ''a'', Segment 0 ''op''])"
    by (simp add: between_def complete_def rat_fi_def validate_key_def MAX_BYTES_def
        saturating_add_def U64_MAX_def not_le)
  show ?thesis
    using between_strict [OF rat_fi_laws res, of "''x''"] res by simp
qed

text \<open>
  The wire form is lossless and checked: a valid position survives a
  serialise/deserialise round trip, and nothing that fails validation is accepted.
\<close>

theorem order_key_roundtrip:
  assumes "\<forall>s \<in> set (segments key). fi_from_bytes L (fi_as_bytes L (seg_rank s)) = Some (seg_rank s)"
  shows "deserialize_key L (serialize_key L key) = bindR (validate_key L key) (\<lambda>_. Ok key)"
proof -
  have "mapR (\<lambda>(bytes, identity). bindR (ok_or (fi_from_bytes L bytes) OrderError)
            (\<lambda>rank. Ok (Segment rank identity))) (serialize_key L key) = Ok (segments key)"
    using assms by (auto simp: serialize_key_def mapR_Inr list_all2_conv_all_nth)
  then show ?thesis by (simp add: deserialize_key_def)
qed

theorem order_key_roundtrip_witness:
  "deserialize_key rat_fi (serialize_key rat_fi (OrderKey [Segment 0 ''a'', Segment 1 ''b'']))
     = Ok (OrderKey [Segment 0 ''a'', Segment 1 ''b''])"
  by (subst order_key_roundtrip)
    (simp_all add: rat_fi_def validate_key_def MAX_BYTES_def saturating_add_def U64_MAX_def)

end
