(* ===== verification/Core_Schema.thy ===== *)
theory Core_Schema
  imports Prelude
begin

text \<open>
  \<open>crates/taypeer-core/src/compatibility.rs\<close> and \<open>compatibility/schema.rs\<close>: schema
  descriptors, the compiled schema contracts and the compatibility report of a client.
  A \<open>u16\<close> is a \<open>16 word\<close>; a \<open>BTreeSet<FeatureId>\<close> is a finite set.
\<close>

type_synonym u16 = "16 word"

datatype feature_id = FeatureId (feature_str: string)

datatype descriptor_error = DescriptorError

definition feature_byte :: "char \<Rightarrow> bool" where
  "feature_byte b \<longleftrightarrow> (CHR ''a'' \<le> b \<and> b \<le> CHR ''z'') \<or> (CHR ''0'' \<le> b \<and> b \<le> CHR ''9'')
     \<or> b \<in> set ''._-''"

definition feature_new :: "string \<Rightarrow> descriptor_error + feature_id" where
  "feature_new v =
     (if v = [] \<or> length v > 96 \<or> \<not> list_all feature_byte v
      then Err DescriptorError else Ok (FeatureId v))"

record schema_descriptor =
  sd_version :: u16
  required_read_features :: "feature_id fset"
  required_write_features :: "feature_id fset"

record schema_definition =
  def_version :: u16
  def_read :: "string list"
  def_write :: "string list"

definition features :: "string list \<Rightarrow> feature_id fset" where
  "features ids = fset_of_list (map FeatureId ids)"

definition STABLE_V1_FEATURES :: "string list" where
  "STABLE_V1_FEATURES =
    [''taypeer.entries'', ''taypeer.history'', ''taypeer.lifecycle'', ''taypeer.binary'',
     ''taypeer.auto_merge'', ''taypeer.required_group'', ''taypeer.object_history'']"

definition STABLE_V1 :: schema_definition where
  "STABLE_V1 = \<lparr>def_version = 1, def_read = STABLE_V1_FEATURES, def_write = STABLE_V1_FEATURES\<rparr>"

definition SUPPORTED :: "schema_definition list" where
  "SUPPORTED = [STABLE_V1]"

definition CURRENT_SCHEMA :: u16 where
  "CURRENT_SCHEMA = def_version STABLE_V1"

definition schema_lookup :: "u16 \<Rightarrow> schema_definition option" where
  "schema_lookup version = List.find (\<lambda>d. def_version d = version) SUPPORTED"

definition supported_read_features :: "feature_id fset" where
  "supported_read_features = ffUnion (fset_of_list (map (\<lambda>d. features (def_read d)) SUPPORTED))"

definition supported_write_features :: "feature_id fset" where
  "supported_write_features = ffUnion (fset_of_list (map (\<lambda>d. features (def_write d)) SUPPORTED))"

definition descriptor_new ::
  "u16 \<Rightarrow> feature_id fset \<Rightarrow> feature_id fset \<Rightarrow> descriptor_error + schema_descriptor" where
  "descriptor_new version rd wr =
     (if version = 0 \<or> fcard rd > 128 \<or> fcard wr > 128 then Err DescriptorError
      else if (case schema_lookup version of None \<Rightarrow> False
               | Some d \<Rightarrow> \<not> features (def_read d) |\<subseteq>| rd \<or> \<not> features (def_write d) |\<subseteq>| wr)
      then Err DescriptorError
      else Ok \<lparr>sd_version = version, required_read_features = rd, required_write_features = wr\<rparr>)"

definition descriptor_current :: schema_descriptor where
  "descriptor_current = \<lparr>sd_version = CURRENT_SCHEMA,
     required_read_features = features (def_read STABLE_V1),
     required_write_features = features (def_write STABLE_V1)\<rparr>"

record client_capabilities =
  cap_read :: "feature_id fset"
  cap_write :: "feature_id fset"

definition capabilities_default :: client_capabilities where
  "capabilities_default = \<lparr>cap_read = supported_read_features, cap_write = supported_write_features\<rparr>"

definition restricted :: "client_capabilities \<Rightarrow> feature_id fset \<Rightarrow> feature_id fset \<Rightarrow> client_capabilities" where
  "restricted c rd wr = c\<lparr>cap_read := ffilter (\<lambda>f. f |\<in>| rd) (cap_read c),
                           cap_write := ffilter (\<lambda>f. f |\<in>| wr) (cap_write c)\<rparr>"

datatype compatibility_access =
    Supported
  | UnsupportedSchema u16
  | MissingFeatures "feature_id fset"
  | ReadingUnavailable

definition is_supported :: "compatibility_access \<Rightarrow> bool" where
  "is_supported a \<longleftrightarrow> a = Supported"

record compatibility_report =
  rep_schema :: schema_descriptor
  rep_read :: compatibility_access
  rep_write :: compatibility_access
  rep_receive :: compatibility_access

definition missing :: "feature_id fset \<Rightarrow> feature_id fset \<Rightarrow> compatibility_access" where
  "missing required available =
     (let fs = required |-| available
      in if fs = {||} then Supported else MissingFeatures fs)"

definition assess :: "client_capabilities \<Rightarrow> schema_descriptor \<Rightarrow> compatibility_report" where
  "assess c d =
     (let rd = (if schema_lookup (sd_version d) = None then UnsupportedSchema (sd_version d)
                else missing (required_read_features d) (cap_read c));
          wr = (if is_supported rd then missing (required_write_features d) (cap_write c)
                else ReadingUnavailable)
      in \<lparr>rep_schema = d, rep_read = rd, rep_write = wr, rep_receive = Supported\<rparr>)"

subsection \<open>Lemmas\<close>

lemma missing_Supported [simp]: "missing r a = Supported \<longleftrightarrow> r |\<subseteq>| a"
  by (auto simp: missing_def Let_def)

lemma assess_read:
  "is_supported (rep_read (assess c d)) \<longleftrightarrow>
     schema_lookup (sd_version d) \<noteq> None \<and> required_read_features d |\<subseteq>| cap_read c"
  by (simp add: assess_def Let_def is_supported_def)

lemma assess_write:
  "is_supported (rep_write (assess c d)) \<longleftrightarrow>
     is_supported (rep_read (assess c d)) \<and> required_write_features d |\<subseteq>| cap_write c"
  by (simp add: assess_def Let_def is_supported_def)

text \<open>
  A report grants writing exactly when the schema is compiled in and the client has
  every required read and write feature; what it reports missing is exactly the set
  difference; receipt of ciphertext is never refused by compatibility; and restricting a
  client never grants it anything.
\<close>

theorem assess_correct:
  "(is_supported (rep_write (assess c d)) \<longleftrightarrow>
      schema_lookup (sd_version d) \<noteq> None
      \<and> required_read_features d |\<subseteq>| cap_read c \<and> required_write_features d |\<subseteq>| cap_write c)
   \<and> (rep_read (assess c d) = MissingFeatures fs \<longleftrightarrow>
      schema_lookup (sd_version d) \<noteq> None
      \<and> fs = required_read_features d |-| cap_read c \<and> fs \<noteq> {||})
   \<and> is_supported (rep_receive (assess c d))
   \<and> (is_supported (rep_read (assess (restricted c rd wr) d)) \<longleftrightarrow>
      is_supported (rep_read (assess c d)) \<and> required_read_features d |\<subseteq>| rd)
   \<and> (is_supported (rep_write (assess (restricted c rd wr) d)) \<longleftrightarrow>
      is_supported (rep_write (assess c d))
      \<and> required_read_features d |\<subseteq>| rd \<and> required_write_features d |\<subseteq>| wr)"
proof -
  have "rep_read (assess c d) = MissingFeatures fs \<longleftrightarrow>
      schema_lookup (sd_version d) \<noteq> None
      \<and> fs = required_read_features d |-| cap_read c \<and> fs \<noteq> {||}"
    by (auto simp: assess_def Let_def missing_def split: if_splits)
  moreover have "required_read_features d |\<subseteq>| cap_read (restricted c rd wr) \<longleftrightarrow>
      required_read_features d |\<subseteq>| cap_read c \<and> required_read_features d |\<subseteq>| rd"
    and "required_write_features d |\<subseteq>| cap_write (restricted c rd wr) \<longleftrightarrow>
      required_write_features d |\<subseteq>| cap_write c \<and> required_write_features d |\<subseteq>| wr"
    by (auto simp: restricted_def)
  moreover have "is_supported (rep_receive (assess c d))"
    by (simp add: assess_def Let_def is_supported_def)
  ultimately show ?thesis
    unfolding assess_read assess_write by (simp only:) blast
qed

text \<open>
  The descriptor written by this build passes the checks it imposes on others, and a
  client with its default capabilities can read and write it.
\<close>

theorem current_descriptor_accepted:
  "descriptor_new (sd_version descriptor_current) (required_read_features descriptor_current)
     (required_write_features descriptor_current) = Ok descriptor_current
   \<and> rep_read (assess capabilities_default descriptor_current) = Supported
   \<and> rep_write (assess capabilities_default descriptor_current) = Supported"
proof -
  have look: "schema_lookup 1 = Some STABLE_V1"
    by (simp add: schema_lookup_def SUPPORTED_def STABLE_V1_def)
  have card: "fcard (features STABLE_V1_FEATURES) \<le> 128"
  proof -
    have "fcard (features STABLE_V1_FEATURES) \<le> length STABLE_V1_FEATURES"
      by (simp add: features_def fcard.rep_eq fset_of_list.rep_eq card_length
          del: set_map) (metis card_length length_map list.set_map)
    then show ?thesis by (simp add: STABLE_V1_FEATURES_def)
  qed
  show ?thesis
    using look card
    by (simp add: descriptor_new_def descriptor_current_def CURRENT_SCHEMA_def STABLE_V1_def
        assess_def is_supported_def capabilities_default_def supported_read_features_def
        supported_write_features_def SUPPORTED_def Let_def)
qed

end
