(* ===== verification/Core_Values.thy ===== *)
theory Core_Values
  imports Core_Order
begin

text \<open>
  \<open>crates/taypeer-core/src\<close>: the platform-independent values (\<open>lib.rs\<close>, \<open>binary.rs\<close>,
  \<open>patch.rs\<close>, \<open>history.rs\<close>), the shared policy (\<open>policy.rs\<close>) and the session policy
  (\<open>session.rs\<close>). The opaque identifiers are newtypes over \<open>String\<close> and are strings here.
  Types that carry a sibling position have the rank type of the fractional-index library
  as their parameter. A \<open>Timestamp\<close> is an \<open>i64\<close>, only compared, hence an \<open>int\<close>.
\<close>

type_synonym database_id = string
type_synonym generation_id = string
type_synonym group_id = string
type_synonym operation_id = string
type_synonym entry_id = string
type_synonym attachment_id = string
type_synonym blob_id = string
type_synonym attribute_id = string
type_synonym revision_id = string
type_synonym timestamp = int

subsection \<open>Binary references and presentation (\<open>binary.rs\<close>)\<close>

definition MIB :: nat where "MIB = 1024 * 1024"
definition ATTACHMENT_LIMIT :: nat where "ATTACHMENT_LIMIT = 10 * MIB"
definition DATABASE_ATTACHMENT_LIMIT :: nat where "DATABASE_ATTACHMENT_LIMIT = 100 * MIB"
definition ICON_LIMIT :: nat where "ICON_LIMIT = MIB"

record attachment =
  att_id :: attachment_id
  att_name :: string
  att_blob :: blob_id

datatype color = Color "byte \<times> byte \<times> byte \<times> byte"

datatype lucide_key = LucideKey string

datatype invalid_icon = InvalidIcon

definition LUCIDE_KEYS :: "string list" where
  "LUCIDE_KEYS = [''key-round'', ''lock'', ''globe'', ''mail'', ''user'', ''users'', ''folder'',
     ''folder-open'', ''file'', ''file-key-2'', ''shield'', ''credit-card'', ''wallet'', ''server'',
     ''database'', ''terminal'', ''smartphone'', ''laptop'', ''home'', ''star'', ''heart'', ''bookmark'']"

definition lucide_try_from :: "string \<Rightarrow> invalid_icon + lucide_key" where
  "lucide_try_from v = (if v \<in> set LUCIDE_KEYS then Ok (LucideKey v) else Err InvalidIcon)"

datatype icon_source = IconFile | IconUrl string | IconFavicon string

datatype icon_ref = IconDefault | IconLucide lucide_key | IconImage blob_id icon_source

definition icon_blob :: "icon_ref \<Rightarrow> blob_id option" where
  "icon_blob i = (case i of IconImage blob _ \<Rightarrow> Some blob | _ \<Rightarrow> None)"

record appearance =
  app_icon :: icon_ref
  app_foreground :: "color option"
  app_background :: "color option"

definition appearance_default :: appearance where
  "appearance_default = \<lparr>app_icon = IconDefault, app_foreground = None, app_background = None\<rparr>"

subsection \<open>Groups (\<open>lib.rs\<close>)\<close>

datatype group_ref = GroupRef (gr_id: group_id) (gr_generation: generation_id)

datatype 'f group_placement = GroupPlacement (gp_parent: "group_ref option") (gp_order: "'f order_key")

record 'f group =
  g_id :: group_id
  g_name :: string
  g_parent :: "group_id option"
  g_order :: "'f order_key"
  g_generation :: generation_id
  g_icon :: icon_ref
  g_created_at :: timestamp
  g_modified_at :: timestamp

instantiation group_ref :: linorder
begin

definition less_group_ref :: "group_ref \<Rightarrow> group_ref \<Rightarrow> bool" where
  "less_group_ref a b \<longleftrightarrow> (gr_id a, gr_generation a) < (gr_id b, gr_generation b)"

definition less_eq_group_ref :: "group_ref \<Rightarrow> group_ref \<Rightarrow> bool" where
  "less_eq_group_ref a b \<longleftrightarrow> (gr_id a, gr_generation a) \<le> (gr_id b, gr_generation b)"

instance
proof
  fix a b c :: group_ref
  show "a < b \<longleftrightarrow> a \<le> b \<and> \<not> b \<le> a" and "a \<le> a" and "a \<le> b \<or> b \<le> a"
    unfolding less_group_ref_def less_eq_group_ref_def
    by (simp_all only: less_le_not_le order_refl linear)
  show "a \<le> b \<Longrightarrow> b \<le> c \<Longrightarrow> a \<le> c"
    unfolding less_eq_group_ref_def by (rule order_trans)
  show "a \<le> b \<Longrightarrow> b \<le> a \<Longrightarrow> a = b"
    unfolding less_eq_group_ref_def using group_ref.expand order_antisym by (metis prod.inject)
qed

end

subsection \<open>Entries (\<open>lib.rs\<close>)\<close>

record attribute_value =
  av_value :: string
  av_protected :: bool

record attribute =
  attr_id :: attribute_id
  attr_name :: string
  attr_value :: attribute_value

record entry_fields =
  ef_title :: string
  ef_username :: "string option"
  ef_password :: "string option"
  ef_url :: "string option"
  ef_notes :: "string option"
  ef_tags :: "string fset"
  ef_expires_at :: "timestamp option"
  ef_attributes :: "(attribute_id, attribute) fmap"
  ef_attachments :: "(attachment_id, attachment) fmap"
  ef_appearance :: appearance

definition entry_fields_default :: entry_fields where
  "entry_fields_default = \<lparr>ef_title = [], ef_username = None, ef_password = None, ef_url = None,
     ef_notes = None, ef_tags = {||}, ef_expires_at = None, ef_attributes = fmempty,
     ef_attachments = fmempty, ef_appearance = appearance_default\<rparr>"

datatype validation_error =
    EmptyGroupName | EmptyAttachmentName | AttachmentIdentityMismatch | EmptyTitle
  | EmptyAttributeName | DuplicateAttributeName | AttributeIdentityMismatch

definition validate_group_name :: "string \<Rightarrow> validation_error + unit" where
  "validate_group_name name = (if name = [] then Err EmptyGroupName else Ok ())"

definition validate_attribute_names :: "string list \<Rightarrow> validation_error + unit" where
  "validate_attribute_names names =
     each (\<lambda>name. if name = [] then Err EmptyAttributeName else Ok ()) names"

definition fields_validate :: "entry_fields \<Rightarrow> validation_error + unit" where
  "fields_validate f =
     (if ef_title f = [] then Err EmptyTitle else
      bindR (each (\<lambda>(id', a). if id' \<noteq> att_id a then Err AttachmentIdentityMismatch
                             else if att_name a = [] then Err EmptyAttachmentName else Ok ())
              (bt_iter (ef_attachments f))) (\<lambda>_.
      bindR (each (\<lambda>(id', a). if id' \<noteq> attr_id a then Err AttributeIdentityMismatch else Ok ())
              (bt_iter (ef_attributes f))) (\<lambda>_.
      validate_attribute_names (map attr_name (bt_values (ef_attributes f))))))"

datatype entry_field =
    FTitle | FUsername | FPassword | FUrl | FNotes | FTags | FExpiresAt
  | FAttributeName attribute_id | FAttributeValue attribute_id | FAttributePresence attribute_id
  | FAttachmentName attachment_id | FAttachmentBlob attachment_id | FAttachmentPresence attachment_id
  | FIcon | FForeground | FBackground

datatype field_value =
    VText "string option" | VTags "string fset" | VTimestamp "timestamp option"
  | VAttribute attribute_value | VPresence bool | VBlob blob_id | VIcon icon_ref
  | VColor "color option"

record value_variant =
  vv_value :: field_value
  vv_origins :: "string list"

record field_state =
  fs_field :: entry_field
  fs_variants :: "value_variant list"

record entry_snapshot =
  es_id :: entry_id
  es_group_id :: group_id
  es_generation :: generation_id
  es_placements :: "group_ref list"
  es_placement :: group_ref
  es_placement_alternatives :: "group_ref list"
  es_fields :: "entry_fields option"
  es_conflicts :: "field_state list"
  es_values :: "field_state list"
  es_created_at :: timestamp
  es_modified_at :: timestamp

definition has_conflicts :: "entry_snapshot \<Rightarrow> bool" where
  "has_conflicts s \<longleftrightarrow> es_conflicts s \<noteq> [] \<or> length (es_placement_alternatives s) > 1"

datatype revision_kind = RCreate | RSave | RClone | RRestore | RResolve

record saved_revision =
  sr_id :: revision_id
  sr_entry_id :: entry_id
  sr_saved_at :: timestamp
  sr_kind :: revision_kind
  sr_base :: "string list"
  sr_snapshot :: entry_snapshot

subsection \<open>Group and database history (\<open>history.rs\<close>)\<close>

record 'f group_snapshot =
  gs_group :: "'f group"
  gs_description :: "string option"

record 'f saved_group_revision =
  sgr_id :: revision_id
  sgr_group_id :: group_id
  sgr_saved_at :: timestamp
  sgr_kind :: revision_kind
  sgr_base :: "string list"
  sgr_snapshot :: "'f group_snapshot"

record database_snapshot =
  ds_database_id :: database_id
  ds_name :: string
  ds_description :: "string option"

record saved_database_revision =
  sdr_id :: revision_id
  sdr_saved_at :: timestamp
  sdr_kind :: revision_kind
  sdr_base :: "string list"
  sdr_snapshot :: database_snapshot

subsection \<open>Addressed updates (\<open>patch.rs\<close>)\<close>

datatype 'a field_update = Keep | Set 'a | Clear

record group_metadata_patch =
  gmp_name :: "string field_update"
  gmp_description :: "string field_update"
  gmp_icon :: "icon_ref field_update"
  gmp_parent :: "group_id field_update"

record database_metadata_patch =
  dmp_name :: "string field_update"
  dmp_description :: "string field_update"

subsection \<open>Shared policy (\<open>policy.rs\<close>) and session policy (\<open>session.rs\<close>)\<close>

record database_policy =
  dp_attachment :: nat
  dp_total :: nat
  dp_target_ms :: nat

datatype policy_error = PolicyError

record policy_fields =
  pf_attachment_bytes :: nat
  pf_total_attachment_bytes :: nat
  pf_kdf_target_ms :: nat

definition policy_new :: "nat \<Rightarrow> nat \<Rightarrow> nat \<Rightarrow> policy_error + database_policy" where
  "policy_new attachment_bytes total_bytes target_ms =
     (if \<not> (1 \<le> attachment_bytes \<and> attachment_bytes \<le> 100 * 1024 * 1024)
        \<or> \<not> (1 \<le> total_bytes \<and> total_bytes \<le> 1024 * 1024 * 1024)
        \<or> \<not> (500 \<le> target_ms \<and> target_ms \<le> 5000)
      then Err PolicyError
      else Ok \<lparr>dp_attachment = attachment_bytes, dp_total = total_bytes, dp_target_ms = target_ms\<rparr>)"

definition policy_default :: database_policy where
  "policy_default = \<lparr>dp_attachment = ATTACHMENT_LIMIT, dp_total = DATABASE_ATTACHMENT_LIMIT,
     dp_target_ms = 1000\<rparr>"

definition policy_try_from :: "policy_fields \<Rightarrow> policy_error + database_policy" where
  "policy_try_from v = policy_new (pf_attachment_bytes v) (pf_total_attachment_bytes v) (pf_kdf_target_ms v)"

definition policy_into :: "database_policy \<Rightarrow> policy_fields" where
  "policy_into p = \<lparr>pf_attachment_bytes = dp_attachment p, pf_total_attachment_bytes = dp_total p,
     pf_kdf_target_ms = dp_target_ms p\<rparr>"

record session_policy =
  idle_seconds :: nat

definition session_policy_default :: session_policy where
  "session_policy_default = \<lparr>idle_seconds = 300\<rparr>"

definition session_policy_new :: "nat \<Rightarrow> session_policy option" where
  "session_policy_new s = (if s = 0 then None else Some \<lparr>idle_seconds = s\<rparr>)"

definition idle_duration_ms :: "session_policy \<Rightarrow> nat" where
  "idle_duration_ms p = 1000 * idle_seconds p"

subsection \<open>Lemmas\<close>

lemma validate_group_name_Ok [simp]: "validate_group_name n = Ok u \<longleftrightarrow> n \<noteq> []"
  by (simp add: validate_group_name_def)

lemma validate_attribute_names_Ok [simp]:
  "validate_attribute_names ns = Ok u \<longleftrightarrow> (\<forall>n \<in> set ns. n \<noteq> [])"
  by (auto simp: validate_attribute_names_def split: if_splits)

definition fields_wf :: "entry_fields \<Rightarrow> bool" where
  "fields_wf f \<longleftrightarrow> ef_title f \<noteq> []
     \<and> fmpred (\<lambda>k a. k = att_id a \<and> att_name a \<noteq> []) (ef_attachments f)
     \<and> fmpred (\<lambda>k a. k = attr_id a \<and> attr_name a \<noteq> []) (ef_attributes f)"

lemma fields_valid: "fields_validate f = Ok () \<longleftrightarrow> fields_wf f"
  by (fastforce simp: fields_validate_def fields_wf_def fmpred_iff ball_bt_values)

text \<open>
  Form validation accepts exactly the forms with a nonempty title whose attachments
  and attributes are stored under their own identity with nonempty names; duplicate names
  of distinct attributes are allowed, and nothing is normalised (the form is not changed).
\<close>

theorem fields_validate_iff: "fields_validate f = Ok () \<longleftrightarrow> fields_wf f"
  by (rule fields_valid)

text \<open>
  A database policy built by the checked constructor or by default survives the
  serde round trip, is within the product's bounds, and decoding accepts nothing else.
\<close>

theorem policy_checked_roundtrip:
  "(policy_try_from v = Ok p \<longleftrightarrow> policy_into p = v
      \<and> dp_attachment p \<in> {1..100 * MIB} \<and> dp_total p \<in> {1..1024 * MIB}
      \<and> dp_target_ms p \<in> {500..5000})
   \<and> policy_try_from (policy_into policy_default) = Ok policy_default"
  by (cases v; cases p) (auto simp: policy_try_from_def policy_new_def policy_into_def MIB_def
      policy_default_def ATTACHMENT_LIMIT_def DATABASE_ATTACHMENT_LIMIT_def)

end
