(* ===== verification/Trust_Types.thy ===== *)
theory Trust_Types
  imports Core_Schema Core_Values
begin

text \<open>
  The data of \<open>crates/taypeer-trust/src\<close> (\<open>lib.rs\<close>, \<open>identity.rs\<close> and the records of
  \<open>control.rs\<close>, \<open>manifest.rs\<close>, \<open>invitation.rs\<close>) and the operations of \<open>identity.rs\<close>.

  A fixed-width value (\<open>Digest\<close>, \<open>DeviceId\<close>, \<open>PublicKey\<close>, \<dots>) is its byte list. The
  cryptographic crates (\<open>sha2\<close>, \<open>ed25519_dalek\<close>) and \<open>serde_json\<close> are not part of the
  repository: they are the record \<open>crypto\<close>, an argument of every operation that uses them,
  and \<open>crypto_laws\<close> states what their documentation promises. What is hashed or signed is a
  \<open>payload\<close>, one constructor per serialised type. Counters are natural numbers bounded by
  \<open>checked_add\<close>.
\<close>

type_synonym digest = bytes
type_synonym device_id = bytes
type_synonym trust_set_id = bytes
type_synonym public_key = bytes
type_synonym signature = bytes

datatype trust_error =
    Invalid | UnsupportedVersion | SignatureErr | Unauthorized | Stale | Fork
  | InvitationUnavailable | OperationMismatch | Limit | RandomErr
  | Panicked \<comment> \<open>not a variant of the source: a failed index of a map, which panics in Rust\<close>

record identity =
  id_device :: device_id
  id_author :: public_key
  id_transport :: public_key

subsection \<open>Records of \<open>control.rs\<close>\<close>

record member =
  m_identity :: identity
  admitted_at :: nat

record handoff_consent =
  hc_previous :: digest
  hc_recipient :: device_id
  hc_operation :: digest
  hc_signature :: signature

record control =
  c_version :: nat
  c_database :: database_id
  c_trust_set :: trust_set_id
  c_sequence :: nat
  c_previous :: "digest option"
  c_epoch :: nat
  c_manager :: device_id
  c_members :: "(device_id, member) fmap"
  c_policy :: digest
  c_schema :: schema_descriptor
  c_operation :: "digest option"
  c_intent :: "digest option"
  c_handoff :: "handoff_consent option"

record signed_control =
  sc_body :: control
  sc_signature :: signature

datatype control_transition =
    Admit identity
  | Rotate "device_id option" digest
  | PolicyChange digest
  | Transfer handoff_consent

subsection \<open>Records of \<open>manifest.rs\<close>\<close>

datatype object_kind = Checkpoint | Change | BlobObject | Baseline | Retained | LocalDraft

record cipher_object =
  co_digest :: digest
  co_length :: nat
  co_kind :: object_kind

record manifest =
  mf_version :: nat
  mf_database :: database_id
  mf_trust_set :: trust_set_id
  mf_control :: digest
  mf_generation :: nat
  mf_signer :: device_id
  mf_objects :: "(digest, cipher_object) fmap"
  mf_checkpoint :: digest
  mf_baseline :: digest
  mf_auxiliary :: digest

record signed_manifest =
  sm_body :: manifest
  sm_signature :: signature

record envelope_body =
  eb_version :: nat
  eb_database :: database_id
  eb_trust_set :: trust_set_id
  eb_control :: digest
  eb_epoch :: nat
  eb_kind :: object_kind
  eb_author :: device_id
  eb_length :: nat
  eb_ciphertext :: digest

record object_envelope = envelope_body +
  oe_signature :: signature

record source_body =
  sp_version :: nat
  sp_database :: database_id
  sp_trust_set :: trust_set_id
  sp_control :: digest
  sp_author :: device_id
  sp_schema :: u16
  sp_change :: digest
  sp_blobs :: "(blob_id, digest) fmap"

record source_proof = source_body +
  sp_signature :: signature

subsection \<open>Records of \<open>invitation.rs\<close>\<close>

record invitation_body =
  inv_version :: nat
  inv_database :: database_id
  inv_trust_set :: trust_set_id
  inv_root :: digest
  inv_control :: digest
  inv_manager :: device_id
  inv_transport :: public_key
  inv_token :: digest
  inv_issued_at :: nat
  inv_expires_at :: nat

record invitation = invitation_body +
  inv_signature :: signature

record join_proof =
  jp_invitation :: digest
  jp_recipient :: identity
  jp_signature :: signature

subsection \<open>Serialised payloads and the external cryptography\<close>

datatype payload =
    PControl control
  | PSignedControl signed_control
  | PHandoff digest device_id digest
  | PIntent control_transition
  | PManifest manifest
  | PSignedManifest signed_manifest
  | PEnvelope envelope_body
  | PSource source_body
  | PInvitationBody invitation_body
  | PInvitation invitation
  | PJoin digest identity

record crypto =
  sha256 :: "bytes \<Rightarrow> bytes"
  to_json :: "payload \<Rightarrow> bytes option"
  key_decodes :: "public_key \<Rightarrow> bool"
  key_is_weak :: "public_key \<Rightarrow> bool"
  verify_strict :: "public_key \<Rightarrow> bytes \<Rightarrow> signature \<Rightarrow> bool"
  seed_public :: "bytes \<Rightarrow> public_key"
  seed_sign :: "bytes \<Rightarrow> bytes \<Rightarrow> signature"

text \<open>
  Documented behaviour used by some theorems: serialisation of these types does not fail, and
  a signature made with a seed verifies under the seed's public key.
\<close>

definition crypto_laws :: "crypto \<Rightarrow> bool" where
  "crypto_laws K \<longleftrightarrow>
     (\<forall>p. \<exists>b. to_json K p = Some b) \<and>
     (\<forall>seed msg. key_decodes K (seed_public K seed)
        \<and> verify_strict K (seed_public K seed) msg (seed_sign K seed msg))"

subsection \<open>Operations of \<open>lib.rs\<close> and \<open>identity.rs\<close>\<close>

definition canonical :: "crypto \<Rightarrow> bytes \<Rightarrow> payload \<Rightarrow> trust_error + bytes" where
  "canonical K domain value =
     bindR (ok_or (to_json K value) Invalid)
       (\<lambda>body. Ok (domain @ le_bytes 8 (length body) @ body))"

definition hex_byte :: "byte \<Rightarrow> bool" where
  "hex_byte b \<longleftrightarrow> (48 \<le> b \<and> b \<le> 57) \<or> (97 \<le> b \<and> b \<le> 102)"

definition hex_digit :: "byte \<Rightarrow> byte" where
  "hex_digit b = (if b \<le> 57 then b - 48 else b - 97 + 10)"

fun hex_pairs :: "bytes \<Rightarrow> bytes" where
  "hex_pairs (a # b # rest) = (hex_digit a * 16 + hex_digit b) # hex_pairs rest"
| "hex_pairs _ = []"

definition hex_decode :: "nat \<Rightarrow> bytes \<Rightarrow> trust_error + bytes" where
  "hex_decode n text =
     (if length text \<noteq> n * 2 \<or> \<not> list_all hex_byte text then Err Invalid
      else Ok (hex_pairs text))"

definition hex_char :: "byte \<Rightarrow> byte" where
  "hex_char d = (if d < 10 then 48 + d else 87 + d)"

definition hex_encode :: "bytes \<Rightarrow> bytes" where
  "hex_encode bs = concat (map (\<lambda>b. [hex_char (b div 16), hex_char (b mod 16)]) bs)"

definition digest_object :: "crypto \<Rightarrow> bytes \<Rightarrow> payload \<Rightarrow> trust_error + digest" where
  "digest_object K domain value = bindR (canonical K domain value) (\<lambda>bs. Ok (sha256 K bs))"

definition key_validate :: "crypto \<Rightarrow> public_key \<Rightarrow> trust_error + unit" where
  "key_validate K key =
     (if \<not> key_decodes K key then Err Invalid
      else if key_is_weak K key then Err Invalid else Ok ())"

definition key_verify ::
  "crypto \<Rightarrow> public_key \<Rightarrow> bytes \<Rightarrow> payload \<Rightarrow> signature \<Rightarrow> trust_error + unit" where
  "key_verify K key domain body sig =
     (if \<not> key_decodes K key then Err SignatureErr
      else bindR (canonical K domain body)
        (\<lambda>msg. if verify_strict K key msg sig then Ok () else Err SignatureErr))"

definition device_id_of :: "crypto \<Rightarrow> public_key \<Rightarrow> device_id" where
  "device_id_of K public = sha256 K (ascii ''taypeer/device/1'' @ public)"

definition identity_validate :: "crypto \<Rightarrow> identity \<Rightarrow> trust_error + unit" where
  "identity_validate K i =
     bindR (key_validate K (id_author i)) (\<lambda>_.
     bindR (key_validate K (id_transport i)) (\<lambda>_.
     if id_author i = id_transport i \<or> id_device i \<noteq> device_id_of K (id_author i)
     then Err Invalid else Ok ()))"

definition identity_new :: "crypto \<Rightarrow> public_key \<Rightarrow> public_key \<Rightarrow> trust_error + identity" where
  "identity_new K author transport =
     (let identity = \<lparr>id_device = device_id_of K author, id_author = author, id_transport = transport\<rparr>
      in bindR (identity_validate K identity) (\<lambda>_. Ok identity))"

text \<open>Secret keys: the seed of the signing key, for authors and for transports.\<close>

datatype author_key = AuthorKey (author_seed: bytes)
datatype transport_key = TransportKey (transport_seed: bytes)

definition author_public :: "crypto \<Rightarrow> author_key \<Rightarrow> public_key" where
  "author_public K key = seed_public K (author_seed key)"

definition author_device :: "crypto \<Rightarrow> author_key \<Rightarrow> device_id" where
  "author_device K key = device_id_of K (author_public K key)"

definition author_sign :: "crypto \<Rightarrow> author_key \<Rightarrow> bytes \<Rightarrow> payload \<Rightarrow> trust_error + signature" where
  "author_sign K key domain body =
     bindR (canonical K domain body) (\<lambda>msg. Ok (seed_sign K (author_seed key) msg))"

definition transport_public :: "crypto \<Rightarrow> transport_key \<Rightarrow> public_key" where
  "transport_public K key = seed_public K (transport_seed key)"

definition transport_sign :: "crypto \<Rightarrow> transport_key \<Rightarrow> bytes \<Rightarrow> payload \<Rightarrow> trust_error + signature" where
  "transport_sign K key domain body =
     bindR (canonical K domain body) (\<lambda>msg. Ok (seed_sign K (transport_seed key) msg))"

text \<open>The signature domains of the protocol.\<close>

definition CONTROL_DOMAIN :: bytes where "CONTROL_DOMAIN = ascii ''taypeer/control/2''"
definition HANDOFF_DOMAIN :: bytes where "HANDOFF_DOMAIN = ascii ''taypeer/handoff-consent/1''"
definition INTENT_DOMAIN :: bytes where "INTENT_DOMAIN = ascii ''taypeer/control-intent/1''"
definition MANIFEST_DOMAIN :: bytes where "MANIFEST_DOMAIN = ascii ''taypeer/manifest/1''"
definition SOURCE_DOMAIN :: bytes where "SOURCE_DOMAIN = ascii ''taypeer/source/1''"
definition ENVELOPE_DOMAIN :: bytes where "ENVELOPE_DOMAIN = ascii ''taypeer/encrypted-object/1''"
definition INVITATION_DOMAIN :: bytes where "INVITATION_DOMAIN = ascii ''taypeer/invitation/1''"
definition JOIN_DOMAIN :: bytes where "JOIN_DOMAIN = ascii ''taypeer/join/1''"

definition domains :: "bytes list" where
  "domains = [CONTROL_DOMAIN, HANDOFF_DOMAIN, INTENT_DOMAIN, MANIFEST_DOMAIN, SOURCE_DOMAIN,
     ENVELOPE_DOMAIN, INVITATION_DOMAIN, JOIN_DOMAIN]"

end
