(* ===== verification/Trust_Identity.thy ===== *)
theory Trust_Identity
  imports Trust_Types "HOL-Library.Sublist"
begin

text \<open>
  Correctness of \<open>crates/taypeer-trust/src/identity.rs\<close> and of the canonical framing in
  \<open>lib.rs\<close>: hexadecimal text, domain separation of signed payloads, device bindings, and
  the sign/verify law every signed type of the crate rests on.
\<close>

subsection \<open>Hexadecimal text\<close>

lemma hex_digit_char: "d < 16 \<Longrightarrow> hex_digit (hex_char d) = d \<and> hex_byte (hex_char d)"
proof -
  assume "d < 16"
  then have "unat d < 16" by (simp add: word_less_nat_alt)
  then have "unat d = 0 \<or> unat d = 1 \<or> unat d = 2 \<or> unat d = 3 \<or> unat d = 4 \<or> unat d = 5
      \<or> unat d = 6 \<or> unat d = 7 \<or> unat d = 8 \<or> unat d = 9 \<or> unat d = 10 \<or> unat d = 11
      \<or> unat d = 12 \<or> unat d = 13 \<or> unat d = 14 \<or> unat d = 15"
    by arith
  moreover have "d = of_nat (unat d)" by simp
  ultimately have "d \<in> {0,1,2,3,4,5,6,7,8,9,10,11,12,13,14,15}"
    by (elim disjE) (simp_all only: of_nat_0 of_nat_1 of_nat_numeral, auto)
  then show ?thesis by (auto simp: hex_digit_def hex_char_def hex_byte_def)
qed

lemma hex_byte_cases:
  assumes "hex_byte b"
  shows "hex_char (hex_digit b) = b" and "hex_digit b < 16"
proof -
  have "(48 \<le> unat b \<and> unat b \<le> 57) \<or> (97 \<le> unat b \<and> unat b \<le> 102)"
    using assms by (simp add: hex_byte_def word_le_nat_alt)
  then have "unat b = 48 \<or> unat b = 49 \<or> unat b = 50 \<or> unat b = 51 \<or> unat b = 52 \<or> unat b = 53
      \<or> unat b = 54 \<or> unat b = 55 \<or> unat b = 56 \<or> unat b = 57 \<or> unat b = 97 \<or> unat b = 98
      \<or> unat b = 99 \<or> unat b = 100 \<or> unat b = 101 \<or> unat b = 102"
    by arith
  moreover have "b = of_nat (unat b)" by simp
  ultimately have "b \<in> {48,49,50,51,52,53,54,55,56,57,97,98,99,100,101,102}"
    by (elim disjE) (simp_all only: of_nat_numeral, auto)
  then show "hex_char (hex_digit b) = b" and "hex_digit b < 16"
    by (auto simp: hex_digit_def hex_char_def)
qed

lemma byte_nibbles: "(b div 16 :: byte) < 16" "(b mod 16 :: byte) < 16"
  "b div 16 * 16 + b mod 16 = (b :: byte)"
proof -
  have "unat b < 256" using unsigned_less [of b] by simp
  then have "unat b div 16 < 16" by simp
  then show "(b div 16 :: byte) < 16" by (simp add: word_less_nat_alt unat_div)
  show "(b mod 16 :: byte) < 16" by (simp add: word_less_nat_alt unat_mod)
  show "b div 16 * 16 + b mod 16 = b" by (rule div_mult_mod_eq)
qed

lemma nibble_split:
  assumes "(x :: byte) < 16" and "y < 16"
  shows "(x * 16 + y) div 16 = x" and "(x * 16 + y) mod 16 = y"
proof -
  have x: "unat x < 16" and y: "unat y < 16" using assms by (simp_all add: word_less_nat_alt)
  then have u: "unat (x * 16 + y) = unat x * 16 + unat y"
    by (simp add: unat_word_ariths)
  show "(x * 16 + y) div 16 = x" and "(x * 16 + y) mod 16 = y"
    using x y by (simp_all add: word_unat_eq_iff unat_div unat_mod u)
qed

lemma hex_encode_simps [simp]:
  "hex_encode [] = []"
  "hex_encode (b # bs) = hex_char (b div 16) # hex_char (b mod 16) # hex_encode bs"
  by (simp_all add: hex_encode_def)

lemma length_hex_encode [simp]: "length (hex_encode bs) = length bs * 2"
  by (induction bs) auto

lemma hex_pairs_encode: "hex_pairs (hex_encode bs) = bs"
  by (induction bs) (simp_all add: hex_digit_char byte_nibbles)

lemma hex_encode_hex: "list_all hex_byte (hex_encode bs)"
  by (induction bs) (simp_all add: hex_digit_char byte_nibbles)

lemma hex_encode_pairs:
  "list_all hex_byte t \<Longrightarrow> even (length t) \<Longrightarrow> hex_encode (hex_pairs t) = t"
  by (induction t rule: hex_pairs.induct) (simp_all add: hex_byte_cases nibble_split)

lemma length_hex_pairs: "length (hex_pairs t) = length t div 2"
  by (induction t rule: hex_pairs.induct) simp_all

text \<open>
  The textual form of a fixed-width value is canonical: decoding accepts exactly the
  lowercase hexadecimal encodings of values of that width, and inverts encoding.
\<close>

theorem hex_decode_iff:
  "hex_decode n text = Ok bs \<longleftrightarrow> length bs = n \<and> text = hex_encode bs"
proof
  assume "hex_decode n text = Ok bs"
  then have "length text = n * 2" "list_all hex_byte text" "bs = hex_pairs text"
    by (auto simp: hex_decode_def)
  then show "length bs = n \<and> text = hex_encode bs"
    by (simp add: length_hex_pairs hex_encode_pairs)
next
  assume "length bs = n \<and> text = hex_encode bs"
  then show "hex_decode n text = Ok bs"
    by (simp add: hex_decode_def hex_encode_hex hex_pairs_encode)
qed

subsection \<open>Canonical payloads\<close>

lemma ascii_inj [simp]: "ascii s = ascii t \<longleftrightarrow> s = t"
proof -
  have "inj (\<lambda>c :: char. (of_nat (of_char c) :: byte))"
  proof (rule injI)
    fix c d :: char
    assume "(of_nat (of_char c) :: byte) = of_nat (of_char d)"
    then have "unat (of_nat (of_char c) :: byte) = unat (of_nat (of_char d) :: byte)" by simp
    then have "(of_char c :: nat) = of_char d"
      by (simp add: unat_of_nat)
    then show "c = d" by (metis char_of_char)
  qed
  then show ?thesis by (simp add: ascii_def inj_map_eq_map)
qed

lemma prefix_ascii [simp]: "prefix (ascii s) (ascii t) \<longleftrightarrow> prefix s t"
proof
  assume "prefix (ascii s) (ascii t)"
  then have "take (length s) (ascii t) = ascii s"
    by (metis append_eq_conv_conj length_ascii prefixE)
  then have "ascii (take (length s) t) = ascii s" by (simp add: ascii_def take_map)
  then show "prefix s t" by (metis ascii_inj take_is_prefix)
next
  assume "prefix s t"
  then show "prefix (ascii s) (ascii t)" by (auto simp: prefix_def ascii_def)
qed

lemmas domain_defs = CONTROL_DOMAIN_def HANDOFF_DOMAIN_def INTENT_DOMAIN_def MANIFEST_DOMAIN_def
  SOURCE_DOMAIN_def ENVELOPE_DOMAIN_def INVITATION_DOMAIN_def JOIN_DOMAIN_def

lemma domains_prefix_free:
  assumes "d \<in> set domains" and "d' \<in> set domains" and "prefix d d'"
  shows "d = d'"
  using assms by (auto simp: domains_def domain_defs)

lemma canonical_Ok:
  "canonical K d v = Ok m \<longleftrightarrow>
     (\<exists>body. to_json K v = Some body \<and> m = d @ le_bytes 8 (length body) @ body)"
  by (auto simp: canonical_def)

text \<open>
  No signed or hashed payload of one protocol domain is the canonical form of a payload
  of another: equal canonical bytes have the same domain and the same serialised body, so a
  signature made in one domain is never a signature in another.
\<close>

theorem canonical_separates_domains:
  assumes "d \<in> set domains" and "d' \<in> set domains"
    and "canonical K d v = Ok m" and "canonical K d' v' = Ok m"
  shows "d = d' \<and> to_json K v = to_json K v'"
proof -
  obtain b b' where b: "to_json K v = Some b" and m: "m = d @ le_bytes 8 (length b) @ b"
    and b': "to_json K v' = Some b'" and m': "m = d' @ le_bytes 8 (length b') @ b'"
    using assms(3,4) by (auto simp: canonical_Ok)
  have "prefix d d' \<or> prefix d' d"
    using m m' by (metis prefixI prefix_same_cases)
  then have "d = d'" using domains_prefix_free assms(1,2) by blast
  moreover from this have "b = b'" using m m' by simp
  ultimately show ?thesis using b b' by simp
qed

text \<open>A concrete cryptography for the witnesses: identity hashing and reversible signatures.\<close>

fun json_tag :: "payload \<Rightarrow> bytes" where
  "json_tag (PControl c) = le_bytes 8 (c_sequence c) @ le_bytes 8 (c_epoch c) @ c_manager c"
| "json_tag (PSignedControl s) = 1 # le_bytes 8 (c_sequence (sc_body s))"
| "json_tag (PHandoff a b c) = 2 # a @ b @ c"
| "json_tag (PIntent t) = 3 # (case t of Admit i \<Rightarrow> 0 # id_device i | Rotate None p \<Rightarrow> 1 # p
     | Rotate (Some d) p \<Rightarrow> 2 # d @ p | PolicyChange p \<Rightarrow> 3 # p | Transfer h \<Rightarrow> 4 # hc_recipient h)"
| "json_tag (PManifest m) = 4 # mf_auxiliary m"
| "json_tag (PSignedManifest m) = 5 # sm_signature m"
| "json_tag (PEnvelope e) = 6 # eb_ciphertext e"
| "json_tag (PSource s) = 7 # sp_change s"
| "json_tag (PInvitationBody i) = 8 # inv_token i"
| "json_tag (PInvitation i) = 9 # inv_token i"
| "json_tag (PJoin d i) = 10 # d @ id_device i"

definition toy_crypto :: crypto where
  "toy_crypto = \<lparr>sha256 = (\<lambda>m. m), to_json = (\<lambda>p. Some (json_tag p)), key_decodes = (\<lambda>k. k \<noteq> []),
     key_is_weak = (\<lambda>k. k = [0]), verify_strict = (\<lambda>k m s. s = k @ m),
     seed_public = (\<lambda>s. 1 # s), seed_sign = (\<lambda>s m. 1 # s @ m)\<rparr>"

lemma toy_crypto_laws: "crypto_laws toy_crypto"
  by (simp add: crypto_laws_def toy_crypto_def)

theorem canonical_separates_domains_witness:
  "\<exists>m. canonical toy_crypto JOIN_DOMAIN (PJoin [] \<lparr>id_device = [], id_author = [], id_transport = []\<rparr>) = Ok m
    \<and> \<not> canonical toy_crypto SOURCE_DOMAIN (PIntent (PolicyChange [])) = Ok m"
proof -
  let ?p = "PJoin [] \<lparr>id_device = [], id_author = [], id_transport = []\<rparr>"
  obtain m where m: "canonical toy_crypto JOIN_DOMAIN ?p = Ok m"
    by (simp add: canonical_def toy_crypto_def)
  have "JOIN_DOMAIN \<in> set domains" "SOURCE_DOMAIN \<in> set domains" "JOIN_DOMAIN \<noteq> SOURCE_DOMAIN"
    by (simp_all add: domains_def domain_defs)
  then show ?thesis using canonical_separates_domains [OF _ _ m] m by blast
qed

subsection \<open>Signing and verifying\<close>

lemma author_sign_verify:
  "crypto_laws K \<Longrightarrow> author_sign K key d p = Ok s \<Longrightarrow> key_verify K (author_public K key) d p s = Ok ()"
  by (auto simp: author_sign_def key_verify_def author_public_def crypto_laws_def)

lemma transport_sign_verify:
  "crypto_laws K \<Longrightarrow> transport_sign K key d p = Ok s
    \<Longrightarrow> key_verify K (transport_public K key) d p s = Ok ()"
  by (auto simp: transport_sign_def key_verify_def transport_public_def crypto_laws_def)

lemma author_sign_total: "crypto_laws K \<Longrightarrow> \<exists>s. author_sign K key d p = Ok s"
  by (fastforce simp: author_sign_def canonical_def crypto_laws_def)

lemma digest_object_total: "crypto_laws K \<Longrightarrow> \<exists>h. digest_object K d p = Ok h"
  by (fastforce simp: digest_object_def canonical_def crypto_laws_def)

lemma identity_validate_Ok:
  "identity_validate K i = Ok () \<longleftrightarrow>
     key_validate K (id_author i) = Ok () \<and> key_validate K (id_transport i) = Ok ()
     \<and> id_author i \<noteq> id_transport i \<and> id_device i = device_id_of K (id_author i)"
  by (auto simp: identity_validate_def)

end
