(* ===== verification/Trust_Control.thy ===== *)
theory Trust_Control
  imports Trust_Identity
begin

text \<open>
  \<open>crates/taypeer-trust/src/control.rs\<close>: the signed chain of authority. A chain is the
  list of its signed controls, genesis first. \<open>validate\<close> accepts a chain against a pinned
  root, \<open>transition\<close> prepares a successor, \<open>reconcile\<close> compares two verified chains.
\<close>

definition MAX_CONTROLS :: nat where "MAX_CONTROLS = 100000"
definition MAX_MEMBERS :: nat where "MAX_MEMBERS = 1024"

type_synonym control_chain = "signed_control list"

text \<open>\<open>m[&k]\<close> of the source, which panics when the key is absent.\<close>

definition map_index :: "('k, 'v) fmap \<Rightarrow> 'k \<Rightarrow> trust_error + 'v" where
  "map_index m k = ok_or (fmlookup m k) Panicked"

subsection \<open>Signed controls and chains\<close>

definition sc_hash :: "crypto \<Rightarrow> signed_control \<Rightarrow> trust_error + digest" where
  "sc_hash K s = digest_object K CONTROL_DOMAIN (PSignedControl s)"

definition sc_signed :: "crypto \<Rightarrow> control \<Rightarrow> author_key \<Rightarrow> trust_error + signed_control" where
  "sc_signed K body key =
     bindR (author_sign K key CONTROL_DOMAIN (PControl body))
       (\<lambda>sig. Ok \<lparr>sc_body = body, sc_signature = sig\<rparr>)"

definition sc_verify :: "crypto \<Rightarrow> signed_control \<Rightarrow> public_key \<Rightarrow> trust_error + unit" where
  "sc_verify K s key = key_verify K key CONTROL_DOMAIN (PControl (sc_body s)) (sc_signature s)"

definition head :: "control_chain \<Rightarrow> control" where
  "head ch = sc_body (last ch)"

definition chain_root :: "crypto \<Rightarrow> control_chain \<Rightarrow> trust_error + digest" where
  "chain_root K ch = sc_hash K (ch ! 0)"

definition head_hash :: "crypto \<Rightarrow> control_chain \<Rightarrow> trust_error + digest" where
  "head_hash K ch = sc_hash K (last ch)"

fun find_control :: "crypto \<Rightarrow> control_chain \<Rightarrow> digest \<Rightarrow> control option" where
  "find_control K [] h = None"
| "find_control K (c # cs) h =
     (case sc_hash K c of Inr i \<Rightarrow> if i = h then Some (sc_body c) else find_control K cs h
      | Inl _ \<Rightarrow> find_control K cs h)"

definition control_at :: "crypto \<Rightarrow> control_chain \<Rightarrow> digest \<Rightarrow> trust_error + control" where
  "control_at K ch h = ok_or (find_control K ch h) Stale"

definition admit_transport :: "control_chain \<Rightarrow> public_key \<Rightarrow> trust_error + device_id" where
  "admit_transport ch key =
     ok_or (map_option (\<lambda>m. id_device (m_identity m))
       (List.find (\<lambda>m. id_transport (m_identity m) = key) (bt_values (c_members (head ch)))))
       Unauthorized"

definition continuous :: "crypto \<Rightarrow> control_chain \<Rightarrow> device_id \<Rightarrow> digest \<Rightarrow> trust_error + bool" where
  "continuous K ch device from_hash =
     bindR (control_at K ch from_hash) (\<lambda>old.
       case fmlookup (c_members old) device of
         None \<Rightarrow> Ok False
       | Some member \<Rightarrow>
           Ok (case fmlookup (c_members (head ch)) device of
                 None \<Rightarrow> False | Some current \<Rightarrow> current = member))"

definition reconcile :: "crypto \<Rightarrow> control_chain \<Rightarrow> control_chain \<Rightarrow> trust_error + control_chain" where
  "reconcile K self incoming =
     bindR (chain_root K self) (\<lambda>r. bindR (chain_root K incoming) (\<lambda>r'.
       if r \<noteq> r' then Err Unauthorized
       else if list_ex (\<lambda>(a, b). a \<noteq> b) (zip self incoming) then Err Fork
       else Ok (if length incoming > length self then incoming else self)))"

subsection \<open>Handoff consent\<close>

definition consent_sign :: "crypto \<Rightarrow> control_chain \<Rightarrow> author_key \<Rightarrow> digest \<Rightarrow> trust_error + handoff_consent" where
  "consent_sign K ch key operation =
     (let recipient = author_device K key in
      if \<not> bt_contains (c_members (head ch)) recipient \<or> recipient = c_manager (head ch)
      then Err Unauthorized
      else bindR (head_hash K ch) (\<lambda>previous.
           bindR (author_sign K key HANDOFF_DOMAIN (PHandoff previous recipient operation)) (\<lambda>sig.
           Ok \<lparr>hc_previous = previous, hc_recipient = recipient, hc_operation = operation,
               hc_signature = sig\<rparr>)))"

definition consent_verify :: "crypto \<Rightarrow> handoff_consent \<Rightarrow> signed_control \<Rightarrow> trust_error + unit" where
  "consent_verify K c prior =
     bindR (sc_hash K prior) (\<lambda>h.
     if hc_previous c \<noteq> h \<or> hc_recipient c = c_manager (sc_body prior) then Err Stale
     else bindR (ok_or (fmlookup (c_members (sc_body prior)) (hc_recipient c)) Unauthorized) (\<lambda>m.
          key_verify K (id_author (m_identity m)) HANDOFF_DOMAIN
            (PHandoff (hc_previous c) (hc_recipient c) (hc_operation c)) (hc_signature c)))"

subsection \<open>Validation\<close>

definition validate_member ::
  "crypto \<Rightarrow> nat \<Rightarrow> public_key fset \<Rightarrow> device_id \<times> member \<Rightarrow> trust_error + public_key fset" where
  "validate_member K sequence transports = (\<lambda>(dev, member).
     bindR (identity_validate K (m_identity member)) (\<lambda>_.
     if dev \<noteq> id_device (m_identity member) \<or> admitted_at member > sequence
        \<or> id_transport (m_identity member) |\<in>| transports
     then Err Invalid
     else Ok (finsert (id_transport (m_identity member)) transports)))"

definition validate_body :: "crypto \<Rightarrow> control \<Rightarrow> trust_error + unit" where
  "validate_body K c =
     (if c_version c \<noteq> 2 then Err UnsupportedVersion
      else if bt_len (c_members c) = 0 \<or> bt_len (c_members c) > MAX_MEMBERS
        \<or> \<not> bt_contains (c_members c) (c_manager c)
        \<or> c_database c = [] \<or> length (c_database c) > 128
      then Err Invalid
      else bindR (foldR (validate_member K (c_sequence c)) {||} (bt_iter (c_members c)))
             (\<lambda>_. Ok ()))"

text \<open>The transition a successor must have been signed for, from what it changes.\<close>

definition members_added :: "control \<Rightarrow> control \<Rightarrow> device_id list" where
  "members_added a b = filter (\<lambda>dev. \<not> bt_contains (c_members a) dev) (bt_keys (c_members b))"

definition members_removed :: "control \<Rightarrow> control \<Rightarrow> device_id list" where
  "members_removed a b = filter (\<lambda>dev. \<not> bt_contains (c_members b) dev) (bt_keys (c_members a))"

definition infer_transition ::
  "crypto \<Rightarrow> signed_control \<Rightarrow> control \<Rightarrow> trust_error + control_transition" where
  "infer_transition K prior b =
     (let a = sc_body prior;
          added = members_added a b;
          removed = members_removed a b
      in if list_ex (\<lambda>(dev, m). case fmlookup (c_members b) dev of None \<Rightarrow> False
                                 | Some n \<Rightarrow> n \<noteq> m) (bt_iter (c_members a))
      then Err Invalid
      else if c_manager b \<noteq> c_manager a then
        bindR (ok_or (c_handoff b) Unauthorized) (\<lambda>consent.
        bindR (consent_verify K consent prior) (\<lambda>_.
        if hc_recipient consent \<noteq> c_manager b \<or> Some (hc_operation consent) \<noteq> c_operation b
           \<or> c_members b \<noteq> c_members a \<or> c_epoch b \<noteq> c_epoch a \<or> c_policy b \<noteq> c_policy a
        then Err Invalid else Ok (Transfer consent)))
      else if c_handoff b \<noteq> None then Err Invalid
      else if c_epoch b = c_epoch a then
        (if removed \<noteq> [] \<or> length added > 1 then Err Unauthorized
         else case added of
           dev # _ \<Rightarrow> bindR (map_index (c_members b) dev) (\<lambda>member.
             if admitted_at member \<noteq> c_sequence b \<or> c_policy b \<noteq> c_policy a then Err Invalid
             else Ok (Admit (m_identity member)))
         | [] \<Rightarrow> Ok (PolicyChange (c_policy b)))
      else if Some (c_epoch b) \<noteq> checked_add (c_epoch a) 1 \<or> added \<noteq> [] \<or> length removed > 1
      then Err Invalid
      else Ok (Rotate (case removed of [] \<Rightarrow> None | dev # _ \<Rightarrow> Some dev) (c_policy b)))"

definition validate_successor :: "crypto \<Rightarrow> signed_control \<Rightarrow> signed_control \<Rightarrow> trust_error + unit" where
  "validate_successor K prior nxt =
     (let a = sc_body prior; b = sc_body nxt in
      bindR (validate_body K b) (\<lambda>_.
      bindR (map_index (c_members a) (c_manager a)) (\<lambda>manager.
      bindR (sc_verify K nxt (id_author (m_identity manager))) (\<lambda>_.
      if c_database b \<noteq> c_database a \<or> c_trust_set b \<noteq> c_trust_set a \<or> c_schema b \<noteq> c_schema a
      then Err Invalid
      else bindR (sc_hash K prior) (\<lambda>h.
      if c_previous b \<noteq> Some h \<or> Some (c_sequence b) \<noteq> checked_add (c_sequence a) 1
         \<or> c_operation b = None \<or> c_intent b = None
      then Err Invalid
      else bindR (infer_transition K prior b) (\<lambda>inferred.
      bindR (digest_object K INTENT_DOMAIN (PIntent inferred)) (\<lambda>i.
      if c_intent b \<noteq> Some i then Err Invalid else Ok ())))))))"

fun validate_links :: "crypto \<Rightarrow> digest fset \<Rightarrow> control_chain \<Rightarrow> trust_error + unit" where
  "validate_links K operations (prior # nxt # rest) =
     bindR (validate_successor K prior nxt) (\<lambda>_.
     bindR (ok_or (c_operation (sc_body nxt)) Invalid) (\<lambda>op.
     if op |\<in>| operations then Err Invalid
     else validate_links K (finsert op operations) (nxt # rest)))"
| "validate_links K operations _ = Ok ()"

definition validate_genesis :: "crypto \<Rightarrow> signed_control \<Rightarrow> trust_error + unit" where
  "validate_genesis K first =
     (let c = sc_body first in
      bindR (validate_body K c) (\<lambda>_.
      if c_sequence c \<noteq> 0 \<or> c_epoch c \<noteq> 0 \<or> c_previous c \<noteq> None \<or> bt_len (c_members c) \<noteq> 1
         \<or> c_operation c \<noteq> None \<or> c_intent c \<noteq> None \<or> c_handoff c \<noteq> None
         \<or> list_ex (\<lambda>m. admitted_at m \<noteq> 0) (bt_values (c_members c))
      then Err Invalid
      else bindR (map_index (c_members c) (c_manager c)) (\<lambda>manager.
           sc_verify K first (id_author (m_identity manager)))))"

definition validate :: "crypto \<Rightarrow> signed_control list \<Rightarrow> digest \<Rightarrow> trust_error + control_chain" where
  "validate K records pinned_root =
     (if records = [] \<or> length records > MAX_CONTROLS then Err Limit
      else bindR (sc_hash K (records ! 0)) (\<lambda>h.
      if h \<noteq> pinned_root then Err Unauthorized
      else bindR (validate_genesis K (records ! 0)) (\<lambda>_.
      bindR (validate_links K {||} records) (\<lambda>_. Ok records))))"

subsection \<open>Genesis and transition\<close>

definition genesis ::
  "crypto \<Rightarrow> trust_error + trust_set_id \<Rightarrow> database_id \<Rightarrow> identity \<Rightarrow> author_key \<Rightarrow> digest
     \<Rightarrow> schema_descriptor \<Rightarrow> trust_error + control_chain" where
  "genesis K random database identity key policy schema =
     bindR (identity_validate K identity) (\<lambda>_.
     if id_author identity \<noteq> author_public K key then Err Unauthorized
     else bindR random (\<lambda>trust_set.
     let manager = id_device identity;
         members = fmupd manager \<lparr>m_identity = identity, admitted_at = 0\<rparr> fmempty;
         body = \<lparr>c_version = 2, c_database = database, c_trust_set = trust_set, c_sequence = 0,
           c_previous = None, c_epoch = 0, c_manager = manager, c_members = members,
           c_policy = policy, c_schema = schema, c_operation = None, c_intent = None,
           c_handoff = None\<rparr>
     in bindR (sc_signed K body key) (\<lambda>s. Ok [s])))"

definition apply_intent ::
  "crypto \<Rightarrow> control_chain \<Rightarrow> digest \<Rightarrow> control_transition \<Rightarrow> control \<Rightarrow> trust_error + control" where
  "apply_intent K ch operation intent nxt =
     (case intent of
        Admit identity \<Rightarrow>
          bindR (identity_validate K identity) (\<lambda>_.
          if bt_contains (c_members nxt) (id_device identity) then Err Invalid
          else Ok (nxt\<lparr>c_members := fmupd (id_device identity)
                 \<lparr>m_identity = identity, admitted_at = c_sequence nxt\<rparr> (c_members nxt)\<rparr>))
      | Rotate revoke policy \<Rightarrow>
          bindR (ok_or (checked_add (c_epoch (head ch)) 1) Limit) (\<lambda>epoch.
          let nxt = nxt\<lparr>c_epoch := epoch, c_policy := policy\<rparr> in
          case revoke of
            None \<Rightarrow> Ok nxt
          | Some device \<Rightarrow>
              if device = c_manager (head ch) \<or> \<not> bt_contains (c_members nxt) device
              then Err Unauthorized
              else Ok (nxt\<lparr>c_members := fmdrop device (c_members nxt)\<rparr>))
      | PolicyChange policy \<Rightarrow> Ok (nxt\<lparr>c_policy := policy\<rparr>)
      | Transfer consent \<Rightarrow>
          bindR (consent_verify K consent (last ch)) (\<lambda>_.
          if hc_operation consent \<noteq> operation then Err OperationMismatch
          else Ok (nxt\<lparr>c_manager := hc_recipient consent, c_handoff := Some consent\<rparr>)))"

definition transition ::
  "crypto \<Rightarrow> control_chain \<Rightarrow> author_key \<Rightarrow> digest \<Rightarrow> control_transition \<Rightarrow> trust_error + control_chain" where
  "transition K ch key operation intent =
     bindR (digest_object K INTENT_DOMAIN (PIntent intent)) (\<lambda>intent_hash.
     case List.find (\<lambda>c. c_operation (sc_body c) = Some operation) ch of
       Some prior \<Rightarrow>
         if c_intent (sc_body prior) = Some intent_hash then Ok ch else Err OperationMismatch
     | None \<Rightarrow>
         if author_device K key \<noteq> c_manager (head ch) then Err Unauthorized
         else bindR (head_hash K ch) (\<lambda>previous.
         bindR (ok_or (checked_add (c_sequence (head ch)) 1) Limit) (\<lambda>sequence.
         let nxt = (head ch)\<lparr>c_previous := Some previous, c_sequence := sequence,
               c_operation := Some operation, c_intent := Some intent_hash, c_handoff := None\<rparr>
         in bindR (apply_intent K ch operation intent nxt) (\<lambda>nxt.
         bindR (sc_signed K nxt key) (\<lambda>s.
         bindR (chain_root K ch) (\<lambda>r. validate K (ch @ [s]) r))))))"

end
