(* ===== verification/Trust_Authority.thy ===== *)
theory Trust_Authority
  imports Trust_Control
begin

text \<open>
  What the control chain promises. The abstract machine \<open>authority_step\<close> has one rule per
  administrative action; a successor accepted by \<open>validate_successor\<close> is one of its steps,
  signed by the preceding manager for exactly that step, and \<open>transition\<close> produces exactly
  the successors that validation accepts.
\<close>

subsection \<open>Well-formed bodies\<close>

definition member_wf :: "crypto \<Rightarrow> nat \<Rightarrow> device_id \<Rightarrow> member \<Rightarrow> bool" where
  "member_wf K sequence dev m \<longleftrightarrow> identity_validate K (m_identity m) = Ok ()
     \<and> dev = id_device (m_identity m) \<and> admitted_at m \<le> sequence"

definition transports_unique :: "(device_id, member) fmap \<Rightarrow> bool" where
  "transports_unique ms \<longleftrightarrow> (\<forall>d d' m m'. fmlookup ms d = Some m \<longrightarrow> fmlookup ms d' = Some m' \<longrightarrow>
     id_transport (m_identity m) = id_transport (m_identity m') \<longrightarrow> d = d')"

definition body_wf :: "crypto \<Rightarrow> control \<Rightarrow> bool" where
  "body_wf K c \<longleftrightarrow> c_version c = 2 \<and> bt_len (c_members c) \<le> MAX_MEMBERS
     \<and> bt_contains (c_members c) (c_manager c)
     \<and> c_database c \<noteq> [] \<and> length (c_database c) \<le> 128
     \<and> fmpred (member_wf K (c_sequence c)) (c_members c) \<and> transports_unique (c_members c)"

lemma fold_members:
  "foldR (validate_member K q) T xs = Ok T' \<Longrightarrow>
     (\<forall>(d, m) \<in> set xs. member_wf K q d m \<and> id_transport (m_identity m) |\<notin>| T)
     \<and> distinct (map (\<lambda>(d, m). id_transport (m_identity m)) xs)"
  by (induction xs arbitrary: T) (fastforce simp: validate_member_def member_wf_def)+

lemma fold_members_complete:
  assumes "\<forall>(d, m) \<in> set xs. member_wf K q d m \<and> id_transport (m_identity m) |\<notin>| T"
    and "distinct (map (\<lambda>(d, m). id_transport (m_identity m)) xs)"
  shows "\<exists>T'. foldR (validate_member K q) T xs = Ok T'"
  using assms
proof (induction xs arbitrary: T)
  case (Cons x xs)
  obtain d m where x: "x = (d, m)" by fastforce
  have "validate_member K q T x = Ok (finsert (id_transport (m_identity m)) T)"
    using Cons.prems(1) x by (simp add: validate_member_def member_wf_def)
  moreover have "\<exists>T'. foldR (validate_member K q) (finsert (id_transport (m_identity m)) T) xs = Ok T'"
    using Cons.prems x by (intro Cons.IH) (auto simp: image_iff split: prod.splits)
  ultimately show ?case by simp
qed simp

lemma distinct_transports:
  "distinct (map (\<lambda>(d, m). id_transport (m_identity m)) (bt_iter ms)) \<longleftrightarrow> transports_unique ms"
  unfolding distinct_map
  by (auto simp: transports_unique_def inj_on_def) (metis option.inject)

lemma validate_body_iff: "validate_body K c = Ok () \<longleftrightarrow> body_wf K c"
proof
  assume "validate_body K c = Ok ()"
  then obtain T where T: "foldR (validate_member K (c_sequence c)) {||} (bt_iter (c_members c)) = Ok T"
    and rest: "c_version c = 2" "bt_len (c_members c) \<le> MAX_MEMBERS"
      "bt_contains (c_members c) (c_manager c)" "c_database c \<noteq> []" "length (c_database c) \<le> 128"
    by (auto simp: validate_body_def not_less)
  show "body_wf K c"
    using fold_members [OF T] rest
    by (auto simp: body_wf_def fmpred_iff distinct_transports)
next
  assume wf: "body_wf K c"
  then have "\<exists>T. foldR (validate_member K (c_sequence c)) {||} (bt_iter (c_members c)) = Ok T"
    by (intro fold_members_complete) (auto simp: body_wf_def fmpred_iff distinct_transports)
  moreover have "c_members c \<noteq> fmempty" using wf by (auto simp: body_wf_def)
  ultimately show "validate_body K c = Ok ()"
    using wf by (auto simp: validate_body_def body_wf_def not_less)
qed

subsection \<open>The abstract machine\<close>

record authority =
  au_database :: database_id
  au_trust_set :: trust_set_id
  au_schema :: schema_descriptor
  au_sequence :: nat
  au_epoch :: nat
  au_manager :: device_id
  au_members :: "(device_id, member) fmap"
  au_policy :: digest

definition abs_control :: "control \<Rightarrow> authority" where
  "abs_control c = \<lparr>au_database = c_database c, au_trust_set = c_trust_set c,
     au_schema = c_schema c, au_sequence = c_sequence c, au_epoch = c_epoch c,
     au_manager = c_manager c, au_members = c_members c, au_policy = c_policy c\<rparr>"

inductive authority_step :: "authority \<Rightarrow> control_transition \<Rightarrow> authority \<Rightarrow> bool" where
  admit: "\<not> bt_contains (au_members A) (id_device i) \<Longrightarrow>
     authority_step A (Admit i)
       (A\<lparr>au_sequence := Suc (au_sequence A), au_members := fmupd (id_device i)
            \<lparr>m_identity = i, admitted_at = Suc (au_sequence A)\<rparr> (au_members A)\<rparr>)"
| rotate: "authority_step A (Rotate None p)
       (A\<lparr>au_sequence := Suc (au_sequence A), au_epoch := Suc (au_epoch A), au_policy := p\<rparr>)"
| revoke: "bt_contains (au_members A) d \<Longrightarrow> d \<noteq> au_manager A \<Longrightarrow>
     authority_step A (Rotate (Some d) p)
       (A\<lparr>au_sequence := Suc (au_sequence A), au_epoch := Suc (au_epoch A), au_policy := p,
          au_members := fmdrop d (au_members A)\<rparr>)"
| policy: "authority_step A (PolicyChange p)
       (A\<lparr>au_sequence := Suc (au_sequence A), au_policy := p\<rparr>)"
| transfer: "bt_contains (au_members A) (hc_recipient c) \<Longrightarrow> hc_recipient c \<noteq> au_manager A \<Longrightarrow>
     authority_step A (Transfer c)
       (A\<lparr>au_sequence := Suc (au_sequence A), au_manager := hc_recipient c\<rparr>)"

inductive_cases authority_stepE: "authority_step A t B"

lemma abs_control_simps [simp]:
  "au_database (abs_control c) = c_database c" "au_trust_set (abs_control c) = c_trust_set c"
  "au_schema (abs_control c) = c_schema c" "au_sequence (abs_control c) = c_sequence c"
  "au_epoch (abs_control c) = c_epoch c" "au_manager (abs_control c) = c_manager c"
  "au_members (abs_control c) = c_members c" "au_policy (abs_control c) = c_policy c"
  by (simp_all add: abs_control_def)

text \<open>Frame and membership facts of one step, used by every trace argument.\<close>

lemma step_frame:
  "authority_step A t B \<Longrightarrow> au_database B = au_database A \<and> au_trust_set B = au_trust_set A
     \<and> au_schema B = au_schema A \<and> au_sequence B = Suc (au_sequence A)
     \<and> au_epoch A \<le> au_epoch B \<and> au_epoch B \<le> Suc (au_epoch A)"
  by (erule authority_stepE) auto

lemma step_manager_member:
  "authority_step A t B \<Longrightarrow> bt_contains (au_members A) (au_manager A)
    \<Longrightarrow> bt_contains (au_members B) (au_manager B)"
  by (erule authority_stepE) auto

lemma step_member:
  "authority_step A t B \<Longrightarrow>
     (case fmlookup (au_members A) d of
        Some m \<Rightarrow> fmlookup (au_members B) d \<in> {Some m, None}
      | None \<Rightarrow> (case fmlookup (au_members B) d of None \<Rightarrow> True | Some m \<Rightarrow> admitted_at m = au_sequence B))"
  by (erule authority_stepE) (auto simp: bt_contains_def split: option.splits if_splits)

lemma step_revokes_only_with_new_epoch:
  "authority_step A t B \<Longrightarrow> bt_contains (au_members A) d \<Longrightarrow> \<not> bt_contains (au_members B) d
    \<Longrightarrow> au_epoch B = Suc (au_epoch A)"
  by (erule authority_stepE) auto


subsection \<open>Inferred transitions\<close>

lemma consent_verify_Ok:
  "consent_verify K c p = Ok () \<Longrightarrow>
     sc_hash K p = Ok (hc_previous c) \<and> hc_recipient c \<noteq> c_manager (sc_body p)
     \<and> (\<exists>m. fmlookup (c_members (sc_body p)) (hc_recipient c) = Some m
          \<and> key_verify K (id_author (m_identity m)) HANDOFF_DOMAIN
               (PHandoff (hc_previous c) (hc_recipient c) (hc_operation c)) (hc_signature c) = Ok ())"
  by (auto simp: consent_verify_def)

lemma filter_keys_Nil: "filter P (bt_keys m) = [] \<longleftrightarrow> (\<forall>k. bt_contains m k \<longrightarrow> \<not> P k)"
  by (auto simp: filter_empty_conv bt_contains_dom)

lemma filter_keys_one:
  assumes "filter P (bt_keys m) = d # rest" and "\<not> length (filter P (bt_keys m)) > 1"
  shows "bt_contains m k \<and> P k \<longleftrightarrow> k = d"
proof -
  have "rest = []" using assms by simp
  then have "set (filter P (bt_keys m)) = {d}" using assms(1) by simp
  then show ?thesis by (auto simp: bt_contains_dom)
qed

lemma agree_iff:
  "\<not> list_ex (\<lambda>(dev, m). case fmlookup b dev of None \<Rightarrow> False | Some n \<Rightarrow> n \<noteq> m) (bt_iter a)
     \<longleftrightarrow> agree a b"
  by (auto simp: list_ex_iff agree_def split: option.splits)

definition handoff_matches :: "crypto \<Rightarrow> signed_control \<Rightarrow> control_transition \<Rightarrow> control \<Rightarrow> bool" where
  "handoff_matches K p t b \<longleftrightarrow>
     (case t of Transfer c \<Rightarrow> c_handoff b = Some c \<and> consent_verify K c p = Ok ()
                  \<and> c_operation b = Some (hc_operation c)
      | _ \<Rightarrow> c_handoff b = None)"

definition same_lineage :: "control \<Rightarrow> control \<Rightarrow> bool" where
  "same_lineage a b \<longleftrightarrow> c_database b = c_database a \<and> c_trust_set b = c_trust_set a
     \<and> c_schema b = c_schema a \<and> c_sequence b = Suc (c_sequence a)"

lemma same_lineage_abs:
  assumes "same_lineage a b"
  shows "abs_control b = (abs_control a)\<lparr>au_sequence := Suc (c_sequence a), au_epoch := c_epoch b,
    au_manager := c_manager b, au_members := c_members b, au_policy := c_policy b\<rparr>"
  using assms by (simp add: same_lineage_def abs_control_def)

lemma infer_agree: "infer_transition K p b = Ok t \<Longrightarrow> agree (c_members (sc_body p)) (c_members b)"
  by (simp add: infer_transition_def Let_def agree_iff)

lemma members_added_cases:
  assumes ag: "agree (c_members a) (c_members b)" and rm: "members_removed a b = []"
    and one: "\<not> length (members_added a b) > 1"
  shows "members_added a b = [] \<Longrightarrow> c_members b = c_members a"
    and "members_added a b = d # rest \<Longrightarrow> fmlookup (c_members b) d = Some m \<Longrightarrow>
           \<not> bt_contains (c_members a) d \<and> c_members b = fmupd d m (c_members a)"
proof -
  have sub: "bt_contains (c_members a) k \<Longrightarrow> bt_contains (c_members b) k" for k
    using rm by (auto simp: members_removed_def filter_keys_Nil)
  then show "members_added a b = [] \<Longrightarrow> c_members b = c_members a"
    by (intro agree_eq [OF ag]) (auto simp: members_added_def filter_keys_Nil)
  assume add: "members_added a b = d # rest" and m: "fmlookup (c_members b) d = Some m"
  have "bt_contains (c_members b) k \<and> \<not> bt_contains (c_members a) k \<longleftrightarrow> k = d" for k
    using filter_keys_one add one unfolding members_added_def by blast
  then have "\<not> bt_contains (c_members a) d"
    and "bt_contains (c_members b) k \<longleftrightarrow> k = d \<or> bt_contains (c_members a) k" for k
    using sub by blast+
  then show "\<not> bt_contains (c_members a) d \<and> c_members b = fmupd d m (c_members a)"
    using agree_add [OF ag _ m] by blast
qed

lemma members_removed_cases:
  assumes ag: "agree (c_members a) (c_members b)" and add: "members_added a b = []"
    and one: "\<not> length (members_removed a b) > 1"
  shows "members_removed a b = [] \<Longrightarrow> c_members b = c_members a"
    and "members_removed a b = d # rest \<Longrightarrow> bt_contains (c_members a) d
           \<and> \<not> bt_contains (c_members b) d \<and> c_members b = fmdrop d (c_members a)"
proof -
  have sub: "bt_contains (c_members b) k \<Longrightarrow> bt_contains (c_members a) k" for k
    using add by (auto simp: members_added_def filter_keys_Nil)
  then show "members_removed a b = [] \<Longrightarrow> c_members b = c_members a"
    by (intro agree_eq [OF ag]) (auto simp: members_removed_def filter_keys_Nil)
  assume rem: "members_removed a b = d # rest"
  have "bt_contains (c_members a) k \<and> \<not> bt_contains (c_members b) k \<longleftrightarrow> k = d" for k
    using filter_keys_one rem one unfolding members_removed_def by blast
  then have "bt_contains (c_members a) d" "\<not> bt_contains (c_members b) d"
    and "bt_contains (c_members b) k \<longleftrightarrow> k \<noteq> d \<and> bt_contains (c_members a) k" for k
    using sub by blast+
  then show "bt_contains (c_members a) d \<and> \<not> bt_contains (c_members b) d
      \<and> c_members b = fmdrop d (c_members a)"
    using agree_drop [OF ag] by blast
qed

lemma infer_transfer:
  assumes inf: "infer_transition K p b = Ok t" and lin: "same_lineage (sc_body p) b"
    and mgr: "c_manager b \<noteq> c_manager (sc_body p)"
  shows "authority_step (abs_control (sc_body p)) t (abs_control b) \<and> handoff_matches K p t b"
proof -
  obtain c where c: "t = Transfer c" "c_handoff b = Some c" "consent_verify K c p = Ok ()"
    "hc_recipient c = c_manager b" "c_operation b = Some (hc_operation c)"
    "c_members b = c_members (sc_body p)" "c_epoch b = c_epoch (sc_body p)"
    "c_policy b = c_policy (sc_body p)"
    using inf mgr by (auto simp: infer_transition_def Let_def)
  have "bt_contains (c_members (sc_body p)) (hc_recipient c)" "hc_recipient c \<noteq> c_manager (sc_body p)"
    using consent_verify_Ok [OF c(3)] by (auto simp: bt_contains_def)
  moreover have "abs_control b = (abs_control (sc_body p))
      \<lparr>au_sequence := Suc (c_sequence (sc_body p)), au_manager := hc_recipient c\<rparr>"
    using same_lineage_abs [OF lin] c by (simp add: abs_control_def)
  ultimately show ?thesis
    using authority_step.transfer [of "abs_control (sc_body p)" c] c
    by (simp add: handoff_matches_def)
qed

lemma infer_same_epoch:
  assumes inf: "infer_transition K p b = Ok t" and wf: "body_wf K b"
    and lin: "same_lineage (sc_body p) b"
    and mgr: "c_manager b = c_manager (sc_body p)" and ep: "c_epoch b = c_epoch (sc_body p)"
  shows "authority_step (abs_control (sc_body p)) t (abs_control b) \<and> handoff_matches K p t b"
proof -
  let ?a = "sc_body p"
  have rm: "members_removed ?a b = []" and ad: "\<not> length (members_added ?a b) > 1"
    and ho: "c_handoff b = None"
    using inf mgr ep by (auto simp: infer_transition_def Let_def)
  note cases = members_added_cases [OF infer_agree [OF inf] rm ad]
  note abs = same_lineage_abs [OF lin, unfolded mgr ep]
  show ?thesis
  proof (cases "members_added ?a b")
    case Nil
    then have "t = PolicyChange (c_policy b)"
      using inf mgr ep rm by (auto simp: infer_transition_def Let_def)
    then show ?thesis
      using authority_step.policy [of "abs_control ?a" "c_policy b"] cases(1) [OF Nil] abs ho
      by (simp add: handoff_matches_def abs_control_def)
  next
    case (Cons d rest)
    obtain m where m: "fmlookup (c_members b) d = Some m" "admitted_at m = c_sequence b"
      "c_policy b = c_policy ?a" "t = Admit (m_identity m)"
      using inf mgr ep rm ad Cons by (auto simp: infer_transition_def Let_def map_index_def)
    have "d = id_device (m_identity m)"
      using wf m(1) by (auto simp: body_wf_def fmpred_iff member_wf_def)
    moreover have "\<lparr>m_identity = m_identity m, admitted_at = Suc (c_sequence ?a)\<rparr> = m"
      using m(2) lin by (simp add: same_lineage_def)
    ultimately show ?thesis
      using authority_step.admit [of "abs_control ?a" "m_identity m"] cases(2) [OF Cons m(1)] abs m ho
      by (simp add: handoff_matches_def abs_control_def)
  qed
qed

lemma infer_rotate:
  assumes inf: "infer_transition K p b = Ok t" and wf: "body_wf K b"
    and lin: "same_lineage (sc_body p) b"
    and mgr: "c_manager b = c_manager (sc_body p)" and ep: "c_epoch b \<noteq> c_epoch (sc_body p)"
  shows "authority_step (abs_control (sc_body p)) t (abs_control b) \<and> handoff_matches K p t b"
proof -
  let ?a = "sc_body p"
  have ad: "members_added ?a b = []" and rm: "\<not> length (members_removed ?a b) > 1"
    and ho: "c_handoff b = None" and e: "c_epoch b = Suc (c_epoch ?a)"
    and t: "t = Rotate (case members_removed ?a b of [] \<Rightarrow> None | dev # _ \<Rightarrow> Some dev) (c_policy b)"
    using inf mgr ep by (auto simp: infer_transition_def Let_def)
  note cases = members_removed_cases [OF infer_agree [OF inf] ad rm]
  note abs = same_lineage_abs [OF lin, unfolded mgr e]
  show ?thesis
  proof (cases "members_removed ?a b")
    case Nil
    show ?thesis
      using authority_step.rotate [of "abs_control ?a" "c_policy b"] cases(1) [OF Nil] abs ho t Nil
      by (simp add: handoff_matches_def abs_control_def)
  next
    case (Cons d rest)
    have "d \<noteq> c_manager ?a"
      using cases(2) [OF Cons] wf mgr by (auto simp: body_wf_def)
    then show ?thesis
      using authority_step.revoke [of "abs_control ?a" d "c_policy b"] cases(2) [OF Cons] abs ho t Cons
      by (simp add: handoff_matches_def abs_control_def)
  qed
qed

lemma infer_sound:
  assumes "infer_transition K p b = Ok t" and "body_wf K b" and "same_lineage (sc_body p) b"
  shows "authority_step (abs_control (sc_body p)) t (abs_control b) \<and> handoff_matches K p t b"
  using assms infer_transfer infer_same_epoch infer_rotate by blast


lemma distinct_singleton: "distinct xs \<Longrightarrow> set xs = {d} \<Longrightarrow> xs = [d]"
  by (cases xs) (auto dest: subset_singletonD)

lemma members_added_one:
  "\<not> bt_contains (c_members a) d \<Longrightarrow> c_members b = fmupd d m (c_members a) \<Longrightarrow> members_added a b = [d]"
  unfolding members_added_def by (rule distinct_singleton) (auto simp: bt_contains_dom)

lemma members_removed_one:
  "bt_contains (c_members a) d \<Longrightarrow> c_members b = fmdrop d (c_members a) \<Longrightarrow> members_removed a b = [d]"
  unfolding members_removed_def by (rule distinct_singleton) (auto simp: bt_contains_dom)

lemma members_added_none:
  "c_members b = c_members a \<Longrightarrow> members_added a b = []"
  "c_members b = fmdrop d (c_members a) \<Longrightarrow> members_added a b = []"
  by (auto simp: members_added_def filter_keys_Nil)

lemma members_removed_none:
  "c_members b = c_members a \<Longrightarrow> members_removed a b = []"
  "c_members b = fmupd d m (c_members a) \<Longrightarrow> members_removed a b = []"
  by (auto simp: members_removed_def filter_keys_Nil)

lemma agree_simps [simp]:
  "agree a a" "agree a (fmdrop d a)" "\<not> bt_contains a d \<Longrightarrow> agree a (fmupd d m a)"
  by (auto simp: agree_def bt_contains_def)

lemma infer_complete:
  assumes step: "authority_step (abs_control (sc_body p)) t (abs_control b)"
    and ho: "handoff_matches K p t b"
    and ep: "c_epoch b = c_epoch (sc_body p) \<or> c_epoch b \<le> U64_MAX"
  shows "infer_transition K p b = Ok t"
proof -
  have proj: "au_members A = au_members B" "au_epoch A = au_epoch B" "au_manager A = au_manager B"
    "au_policy A = au_policy B" "au_sequence A = au_sequence B" if "A = B" for A B :: authority
    using that by simp_all
  show ?thesis
    using step
  proof (cases rule: authority_step.cases)
    case (admit i)
    note f = proj [OF admit(2), simplified]
    have "agree (c_members (sc_body p)) (c_members b)"
      unfolding f using admit(3) by simp
    note ag = this [folded agree_iff]
    show ?thesis
      using admit(1,3) f ho ag
      by (simp add: infer_transition_def Let_def members_added_one members_removed_none
          map_index_def handoff_matches_def)
  next
    case (rotate q)
    note f = proj [OF rotate(2), simplified]
    show ?thesis
      using rotate(1) f ho ep
      by (simp add: infer_transition_def Let_def agree_iff members_added_none members_removed_none
          handoff_matches_def)
  next
    case (revoke d q)
    note f = proj [OF revoke(2), simplified]
    have "agree (c_members (sc_body p)) (c_members b)"
      unfolding f by simp
    note ag = this [folded agree_iff]
    show ?thesis
      using revoke(1,3,4) f ho ep ag
      by (simp add: infer_transition_def Let_def members_added_none members_removed_one
          handoff_matches_def)
  next
    case (policy q)
    note f = proj [OF policy(2), simplified]
    show ?thesis
      using policy(1) f ho
      by (simp add: infer_transition_def Let_def agree_iff members_added_none members_removed_none
          handoff_matches_def)
  next
    case (transfer c)
    note f = proj [OF transfer(2), simplified]
    show ?thesis
      using transfer(1,3,4) f ho
      by (simp add: infer_transition_def Let_def agree_iff handoff_matches_def)
  qed
qed

subsection \<open>Successors\<close>

definition signed_by_manager :: "crypto \<Rightarrow> signed_control \<Rightarrow> signed_control \<Rightarrow> bool" where
  "signed_by_manager K p n \<longleftrightarrow>
     (\<exists>m. fmlookup (c_members (sc_body p)) (c_manager (sc_body p)) = Some m
        \<and> sc_verify K n (id_author (m_identity m)) = Ok ())"

text \<open>The signed intent of a successor names the very step it makes.\<close>

definition signed_step :: "crypto \<Rightarrow> signed_control \<Rightarrow> control_transition \<Rightarrow> control \<Rightarrow> bool" where
  "signed_step K p t b \<longleftrightarrow> authority_step (abs_control (sc_body p)) t (abs_control b)
     \<and> handoff_matches K p t b
     \<and> (\<exists>i. digest_object K INTENT_DOMAIN (PIntent t) = Ok i \<and> c_intent b = Some i)"

definition linked :: "crypto \<Rightarrow> signed_control \<Rightarrow> control \<Rightarrow> bool" where
  "linked K p b \<longleftrightarrow> (\<exists>h. sc_hash K p = Ok h \<and> c_previous b = Some h) \<and> c_operation b \<noteq> None
     \<and> c_sequence b \<le> U64_MAX \<and> (c_epoch b = c_epoch (sc_body p) \<or> c_epoch b \<le> U64_MAX)"

lemma successor_accepted:
  "validate_successor K p n = Ok () \<longleftrightarrow>
     body_wf K (sc_body n) \<and> signed_by_manager K p n \<and> linked K p (sc_body n)
     \<and> (\<exists>t. signed_step K p t (sc_body n))"
proof
  let ?a = "sc_body p" and ?b = "sc_body n"
  assume v: "validate_successor K p n = Ok ()"
  then obtain t where t: "infer_transition K p ?b = Ok t" and wf: "body_wf K ?b"
    and sig: "signed_by_manager K p n" and lin: "same_lineage ?a ?b"
    and prev: "\<exists>h. sc_hash K p = Ok h \<and> c_previous ?b = Some h" "c_operation ?b \<noteq> None"
      "c_sequence ?b \<le> U64_MAX"
    and i: "\<exists>i. digest_object K INTENT_DOMAIN (PIntent t) = Ok i \<and> c_intent ?b = Some i"
    by (auto simp: validate_successor_def Let_def validate_body_iff signed_by_manager_def
        same_lineage_def map_index_def)
  have "c_epoch ?b = c_epoch ?a \<or> c_epoch ?b \<le> U64_MAX"
    using t by (auto simp: infer_transition_def Let_def split: if_splits)
  then show "body_wf K ?b \<and> signed_by_manager K p n \<and> linked K p ?b \<and> (\<exists>t. signed_step K p t ?b)"
    using infer_sound [OF t wf lin] wf sig prev i by (auto simp: signed_step_def linked_def)
next
  let ?a = "sc_body p" and ?b = "sc_body n"
  assume r: "body_wf K ?b \<and> signed_by_manager K p n \<and> linked K p ?b \<and> (\<exists>t. signed_step K p t ?b)"
  then obtain t where t: "signed_step K p t ?b" by blast
  have "infer_transition K p ?b = Ok t"
    using t r infer_complete by (auto simp: signed_step_def linked_def)
  moreover have "c_database ?b = c_database ?a \<and> c_trust_set ?b = c_trust_set ?a
      \<and> c_schema ?b = c_schema ?a \<and> c_sequence ?b = Suc (c_sequence ?a)"
    using t step_frame by (fastforce simp: signed_step_def)
  ultimately show "validate_successor K p n = Ok ()"
    using r t by (auto simp: validate_successor_def Let_def validate_body_iff signed_by_manager_def
        linked_def map_index_def signed_step_def)
qed

text \<open>
  C3: the validator accepts a successor exactly when it is well formed, signed by the
  manager of its predecessor, linked to it by hash, and is one step of the abstract
  authority machine whose transition is the one the signed intent commits to (with the
  recipient's own consent when management moves).
\<close>

theorem validate_successor_iff:
  "validate_successor K p n = Ok () \<longleftrightarrow>
     body_wf K (sc_body n) \<and> signed_by_manager K p n \<and> linked K p (sc_body n)
     \<and> (\<exists>t. signed_step K p t (sc_body n))"
  by (rule successor_accepted)

end
