(* ===== verification/Trust_Genesis.thy ===== *)
theory Trust_Genesis
  imports Trust_Authority
begin

text \<open>
  The start of a lineage (\<open>ControlChain::genesis\<close> in \<open>crates/taypeer-trust/src/control.rs\<close>):
  what it produces is what \<open>validate_genesis\<close> accepts. The concrete lineage at the end
  serves the witnesses of the trust theories.
\<close>

lemma bt_keys_single [simp]: "bt_keys (fmupd k v fmempty) = [k]"
  by (simp add: bt_keys_def sorted_list_of_fset_def)

lemma bt_iter_single [simp]: "bt_iter (fmupd k v fmempty) = [(k, v)]"
  by (simp add: bt_iter_def List.map_filter_simps)

lemma bt_values_single [simp]: "bt_values (fmupd k v fmempty) = [v]"
  by (simp add: bt_values_def)

lemma bt_len_single [simp]: "bt_len (fmupd k v fmempty) = 1"
  by (simp add: bt_len_def fcard.rep_eq)

definition genesis_body ::
  "database_id \<Rightarrow> trust_set_id \<Rightarrow> identity \<Rightarrow> digest \<Rightarrow> schema_descriptor \<Rightarrow> control" where
  "genesis_body database trust_set i p schema =
     \<lparr>c_version = 2, c_database = database, c_trust_set = trust_set, c_sequence = 0,
      c_previous = None, c_epoch = 0, c_manager = id_device i,
      c_members = fmupd (id_device i) \<lparr>m_identity = i, admitted_at = 0\<rparr> fmempty,
      c_policy = p, c_schema = schema, c_operation = None, c_intent = None, c_handoff = None\<rparr>"

lemma genesis_Ok:
  "genesis K random database i key p schema = Ok ch \<longleftrightarrow>
     identity_validate K i = Ok () \<and> id_author i = author_public K key
     \<and> (\<exists>ts s. random = Ok ts \<and> sc_signed K (genesis_body database ts i p schema) key = Ok s \<and> ch = [s])"
  by (auto simp: genesis_def genesis_body_def Let_def)

lemma genesis_body_wf:
  "identity_validate K i = Ok () \<Longrightarrow>
     body_wf K (genesis_body database ts i p schema) \<longleftrightarrow> database \<noteq> [] \<and> length database \<le> 128"
  by (auto simp: body_wf_def genesis_body_def MAX_MEMBERS_def member_wf_def transports_unique_def
      fmpred_iff split: if_splits)

lemma genesis_validate_genesis:
  assumes "crypto_laws K" and "genesis K random database i key p schema = Ok ch"
  shows "\<exists>s. ch = [s] \<and> (validate_genesis K s = Ok () \<longleftrightarrow> database \<noteq> [] \<and> length database \<le> 128)"
proof -
  obtain ts s where i: "identity_validate K i = Ok ()" "id_author i = author_public K key"
    and s: "sc_signed K (genesis_body database ts i p schema) key = Ok s" and ch: "ch = [s]"
    using assms(2) by (auto simp: genesis_Ok)
  have b: "sc_body s = genesis_body database ts i p schema"
    and "sc_verify K s (author_public K key) = Ok ()"
    using s author_sign_verify [OF assms(1)] by (auto simp: sc_signed_def sc_verify_def)
  then have "validate_genesis K s = Ok () \<longleftrightarrow> body_wf K (genesis_body database ts i p schema)"
    using i by (auto simp: validate_genesis_def Let_def validate_body_iff genesis_body_def map_index_def)
  then show ?thesis using ch genesis_body_wf [OF i(1)] by blast
qed

lemma genesis_chain:
  assumes "crypto_laws K" and "genesis K random database i key p schema = Ok ch"
  shows "(\<exists>r. chain_root K ch = Ok r \<and> validate K ch r = Ok ch)
    \<longleftrightarrow> database \<noteq> [] \<and> length database \<le> 128"
proof -
  obtain s where s: "ch = [s]"
    "validate_genesis K s = Ok () \<longleftrightarrow> database \<noteq> [] \<and> length database \<le> 128"
    using genesis_validate_genesis [OF assms] by blast
  obtain r where "sc_hash K s = Ok r"
    using digest_object_total [OF assms(1)] by (metis sc_hash_def)
  then show ?thesis using s by (auto simp: validate_def chain_root_def MAX_CONTROLS_def)
qed

text \<open>
  A device whose identity is valid and bound to its author key can always start a
  lineage, with itself as manager and only member at sequence 0 and epoch 0; the chain
  validates against its own root exactly when the database identifier has 1 to 128 bytes.
\<close>

theorem genesis_accepted:
  assumes "crypto_laws K" and "identity_validate K i = Ok ()" and "id_author i = author_public K key"
  shows "\<exists>ch. genesis K (Ok ts) database i key p schema = Ok ch
    \<and> c_manager (head ch) = author_device K key \<and> c_trust_set (head ch) = ts
    \<and> c_sequence (head ch) = 0 \<and> c_epoch (head ch) = 0
    \<and> bt_keys (c_members (head ch)) = [author_device K key]
    \<and> ((\<exists>r. chain_root K ch = Ok r \<and> validate K ch r = Ok ch)
        \<longleftrightarrow> database \<noteq> [] \<and> length database \<le> 128)"
proof -
  obtain s where s: "sc_signed K (genesis_body database ts i p schema) key = Ok s"
    using author_sign_total [OF assms(1)] by (auto simp: sc_signed_def) blast
  then have g: "genesis K (Ok ts) database i key p schema = Ok [s]"
    using assms by (auto simp: genesis_Ok)
  have "sc_body s = genesis_body database ts i p schema" using s by (auto simp: sc_signed_def)
  moreover have "id_device i = author_device K key"
    using assms by (simp add: identity_validate_Ok author_device_def)
  ultimately show ?thesis
    using g genesis_chain [OF assms(1) g] by (auto simp: head_def genesis_body_def)
qed

subsection \<open>A concrete lineage for the witnesses\<close>

definition toy_key :: author_key where "toy_key = AuthorKey [7]"
definition toy_transport :: transport_key where "toy_transport = TransportKey [8]"

definition toy_identity :: identity where
  "toy_identity = \<lparr>id_device = device_id_of toy_crypto [1, 7], id_author = [1, 7], id_transport = [1, 8]\<rparr>"

definition toy_schema :: schema_descriptor where
  "toy_schema = \<lparr>sd_version = 1, required_read_features = {||}, required_write_features = {||}\<rparr>"

definition toy_signed :: signed_control where
  "toy_signed =
     (let b = genesis_body ''db'' [9] toy_identity [3] toy_schema
      in \<lparr>sc_body = b, sc_signature = (1 # [7]) @ projr (canonical toy_crypto CONTROL_DOMAIN (PControl b))\<rparr>)"

abbreviation toy_chain :: control_chain where "toy_chain \<equiv> [toy_signed]"

lemma toy_identity_valid: "identity_validate toy_crypto toy_identity = Ok ()"
  by (simp add: identity_validate_def key_validate_def toy_identity_def toy_crypto_def)

lemma toy_key_simps:
  "author_public toy_crypto toy_key = [1, 7]" "id_author toy_identity = [1, 7]"
  "author_device toy_crypto toy_key = id_device toy_identity"
  "transport_public toy_crypto toy_transport = id_transport toy_identity"
  by (simp_all add: author_public_def author_device_def transport_public_def toy_key_def toy_identity_def
      toy_transport_def, simp_all add: toy_crypto_def)

lemma toy_genesis: "genesis toy_crypto (Ok [9]) ''db'' toy_identity toy_key [3] toy_schema = Ok toy_chain"
  by (simp add: genesis_Ok toy_identity_valid toy_key_simps sc_signed_def author_sign_def toy_signed_def
      Let_def canonical_def, simp add: toy_key_def toy_crypto_def)

lemma toy_body: "sc_body toy_signed = genesis_body ''db'' [9] toy_identity [3] toy_schema"
  by (simp add: toy_signed_def Let_def)

definition toy_root :: digest where "toy_root = projr (sc_hash toy_crypto toy_signed)"

lemma toy_hash: "sc_hash toy_crypto toy_signed = Ok toy_root"
  by (simp add: toy_root_def sc_hash_def digest_object_def canonical_def toy_crypto_def)

lemma toy_valid: "validate toy_crypto toy_chain toy_root = Ok toy_chain"
  using genesis_chain [OF toy_crypto_laws toy_genesis] toy_hash by (auto simp: chain_root_def)

lemma toy_head:
  "head toy_chain = genesis_body ''db'' [9] toy_identity [3] toy_schema"
  "fmlookup (c_members (head toy_chain)) (id_device toy_identity) = Some \<lparr>m_identity = toy_identity, admitted_at = 0\<rparr>"
  "c_manager (head toy_chain) = id_device toy_identity" "head_hash toy_crypto toy_chain = Ok toy_root"
  "control_at toy_crypto toy_chain toy_root = Ok (head toy_chain)"
  by (simp_all add: head_def toy_body genesis_body_def head_hash_def toy_hash control_at_def)

theorem genesis_accepted_witness:
  "\<exists>ch. genesis toy_crypto (Ok [9]) ''db'' toy_identity toy_key [3] toy_schema = Ok ch
    \<and> c_manager (head ch) = id_device toy_identity"
  using genesis_accepted [OF toy_crypto_laws toy_identity_valid, of toy_key "[9]" "''db''" "[3]" toy_schema]
  by (auto simp: toy_key_simps)

end
