(* ===== verification/Trust_Chain.thy ===== *)
theory Trust_Chain
  imports Trust_Genesis
begin

text \<open>
  Whole chains of \<open>crates/taypeer-trust/src/control.rs\<close>: the invariants of a validated
  chain, uninterrupted membership, the exact success condition of \<open>transition\<close>, its
  idempotent retry, and reconciliation of two chains.
\<close>

subsection \<open>Validated chains\<close>

abbreviation operation_of :: "signed_control \<Rightarrow> digest option" where
  "operation_of s \<equiv> c_operation (sc_body s)"

lemma validate_links_iff:
  "validate_links K ops ch = Ok () \<longleftrightarrow>
     successively (\<lambda>p n. validate_successor K p n = Ok ()) ch
     \<and> distinct (map operation_of (tl ch))
     \<and> (\<forall>s \<in> set (tl ch). \<exists>op. operation_of s = Some op \<and> op |\<notin>| ops)"
proof (induction K ops ch rule: validate_links.induct)
  case (1 K ops p n rest)
  show ?case
  proof (cases "\<exists>op. operation_of n = Some op \<and> op |\<notin>| ops")
    case True
    then obtain op where op: "operation_of n = Some op" "op |\<notin>| ops" by blast
    have "validate_links K ops (p # n # rest) = Ok () \<longleftrightarrow>
        validate_successor K p n = Ok () \<and> validate_links K (finsert op ops) (n # rest) = Ok ()"
      using op by auto
    moreover have "validate_successor K p n = Ok () \<Longrightarrow>
        validate_links K (finsert op ops) (n # rest) = Ok () \<longleftrightarrow>
          successively (\<lambda>p n. validate_successor K p n = Ok ()) (n # rest)
          \<and> distinct (map operation_of rest)
          \<and> (\<forall>s \<in> set rest. \<exists>o'. operation_of s = Some o' \<and> o' |\<notin>| finsert op ops)"
      using 1 op by simp
    ultimately show ?thesis
      using op by (auto simp: image_iff) (metis option.inject)+
  next
    case False
    then show ?thesis by auto
  qed
qed auto

lemma validate_Ok:
  "validate K recs r = Ok ch \<longleftrightarrow>
     ch = recs \<and> recs \<noteq> [] \<and> length recs \<le> MAX_CONTROLS \<and> sc_hash K (recs ! 0) = Ok r
     \<and> validate_genesis K (recs ! 0) = Ok () \<and> validate_links K {||} recs = Ok ()"
  by (auto simp: validate_def not_less)

lemma validate_genesis_wf:
  "validate_genesis K s = Ok () \<Longrightarrow> body_wf K (sc_body s) \<and> c_sequence (sc_body s) = 0
     \<and> c_epoch (sc_body s) = 0 \<and> operation_of s = None"
  by (auto simp: validate_genesis_def Let_def validate_body_iff)

lemma successively_nth: "successively P xs \<Longrightarrow> Suc i < length xs \<Longrightarrow> P (xs ! i) (xs ! Suc i)"
proof (induction xs arbitrary: i rule: induct_list012)
  case (3 x y zs)
  then show ?case by (cases i) auto
qed auto

lemma chain_link:
  assumes "validate K recs r = Ok ch" and "Suc i < length ch"
  shows "body_wf K (sc_body (ch ! Suc i)) \<and> signed_by_manager K (ch ! i) (ch ! Suc i)
    \<and> linked K (ch ! i) (sc_body (ch ! Suc i)) \<and> (\<exists>t. signed_step K (ch ! i) t (sc_body (ch ! Suc i)))"
proof -
  have "successively (\<lambda>p n. validate_successor K p n = Ok ()) ch"
    using assms(1) by (simp add: validate_Ok validate_links_iff)
  from successively_nth [OF this assms(2)] show ?thesis
    by (simp add: successor_accepted)
qed

lemma chain_step:
  assumes "validate K recs r = Ok ch" and "Suc i < length ch"
  shows "\<exists>t. authority_step (abs_control (sc_body (ch ! i))) t (abs_control (sc_body (ch ! Suc i)))"
  using chain_link [OF assms] by (auto simp: signed_step_def)

lemma chain_wf:
  assumes v: "validate K recs r = Ok ch" and i: "i < length ch"
  shows "body_wf K (sc_body (ch ! i))"
proof (cases i)
  case 0
  then show ?thesis using v validate_genesis_wf by (auto simp: validate_Ok)
next
  case (Suc j)
  then show ?thesis using chain_link [OF v, of j] i by simp
qed

lemma chain_frame:
  assumes v: "validate K recs r = Ok ch" and "i \<le> j" and "j < length ch"
  shows "c_database (sc_body (ch ! j)) = c_database (sc_body (ch ! i))
    \<and> c_trust_set (sc_body (ch ! j)) = c_trust_set (sc_body (ch ! i))
    \<and> c_schema (sc_body (ch ! j)) = c_schema (sc_body (ch ! i))
    \<and> c_sequence (sc_body (ch ! j)) = c_sequence (sc_body (ch ! i)) + (j - i)
    \<and> c_epoch (sc_body (ch ! i)) \<le> c_epoch (sc_body (ch ! j))
    \<and> c_epoch (sc_body (ch ! j)) \<le> c_epoch (sc_body (ch ! i)) + (j - i)"
  using assms(2,3)
proof (induction j rule: dec_induct)
  case (step j)
  obtain t where "authority_step (abs_control (sc_body (ch ! j))) t (abs_control (sc_body (ch ! Suc j)))"
    using chain_step [OF v step.prems] by blast
  from step_frame [OF this] step show ?case by auto
qed simp

lemma chain_holds:
  assumes "validate K recs r = Ok ch" and "i < length ch"
  shows "c_sequence (sc_body (ch ! i)) = i
    \<and> c_database (sc_body (ch ! i)) = c_database (head ch)
    \<and> c_trust_set (sc_body (ch ! i)) = c_trust_set (head ch)
    \<and> c_schema (sc_body (ch ! i)) = c_schema (head ch)
    \<and> c_epoch (sc_body (ch ! i)) \<le> i
    \<and> c_epoch (sc_body (ch ! i)) \<le> c_epoch (head ch)
    \<and> body_wf K (sc_body (ch ! i))
    \<and> bt_contains (c_members (sc_body (ch ! i))) (c_manager (sc_body (ch ! i)))
    \<and> (0 < i \<longrightarrow> signed_by_manager K (ch ! (i - 1)) (ch ! i)
         \<and> sc_hash K (ch ! (i - 1)) = Ok (the (c_previous (sc_body (ch ! i)))))"
proof -
  have ne: "ch \<noteq> []" using assms(2) by auto
  then have hd: "head ch = sc_body (ch ! (length ch - 1))" by (simp add: head_def last_conv_nth)
  have g: "c_sequence (sc_body (ch ! 0)) = 0" "c_epoch (sc_body (ch ! 0)) = 0"
    using assms(1) validate_genesis_wf by (auto simp: validate_Ok)
  have "0 < i \<longrightarrow> signed_by_manager K (ch ! (i - 1)) (ch ! i)
         \<and> sc_hash K (ch ! (i - 1)) = Ok (the (c_previous (sc_body (ch ! i))))"
    using chain_link [OF assms(1), of "i - 1"] assms(2) by (auto simp: linked_def)
  moreover have "body_wf K (sc_body (ch ! i))" by (rule chain_wf [OF assms])
  moreover from this have "bt_contains (c_members (sc_body (ch ! i))) (c_manager (sc_body (ch ! i)))"
    by (simp add: body_wf_def)
  ultimately show ?thesis
    using chain_frame [OF assms(1), of 0 i] chain_frame [OF assms(1), of i "length ch - 1"] assms(2) g
    by (simp add: hd)
qed

text \<open>
  C4: in a validated chain the sequence number of every control is its position, the
  database, lineage and schema never change, the epoch never decreases and grows by at most
  one per control, every body is well formed with its manager among its members, and each
  control is signed by the manager of the one before it and names its hash.
\<close>

theorem chain_invariant:
  assumes "validate K recs r = Ok ch" and "i < length ch"
  shows "c_sequence (sc_body (ch ! i)) = i
    \<and> c_database (sc_body (ch ! i)) = c_database (head ch)
    \<and> c_trust_set (sc_body (ch ! i)) = c_trust_set (head ch)
    \<and> c_schema (sc_body (ch ! i)) = c_schema (head ch)
    \<and> c_epoch (sc_body (ch ! i)) \<le> i
    \<and> c_epoch (sc_body (ch ! i)) \<le> c_epoch (head ch)
    \<and> body_wf K (sc_body (ch ! i))
    \<and> bt_contains (c_members (sc_body (ch ! i))) (c_manager (sc_body (ch ! i)))
    \<and> (0 < i \<longrightarrow> signed_by_manager K (ch ! (i - 1)) (ch ! i)
         \<and> sc_hash K (ch ! (i - 1)) = Ok (the (c_previous (sc_body (ch ! i)))))"
  using assms by (rule chain_holds)

theorem chain_invariant_witness:
  "bt_contains (c_members (sc_body toy_signed)) (c_manager (sc_body toy_signed))"
  using chain_invariant [OF toy_valid, of 0] by simp

subsection \<open>Uninterrupted membership\<close>

lemma member_lost_for_good:
  assumes v: "validate K recs r = Ok ch" and "i \<le> j" and "j \<le> k" and "k < length ch"
    and m: "fmlookup (c_members (sc_body (ch ! i))) d = Some m"
    and lost: "fmlookup (c_members (sc_body (ch ! j))) d \<noteq> Some m"
  shows "fmlookup (c_members (sc_body (ch ! k))) d \<noteq> Some m"
  using assms(3,4)
proof (induction k rule: dec_induct)
  case base
  then show ?case using lost by simp
next
  case (step k)
  obtain t where t: "authority_step (abs_control (sc_body (ch ! k))) t (abs_control (sc_body (ch ! Suc k)))"
    using chain_step [OF v step.prems] by blast
  have "admitted_at m \<le> c_sequence (sc_body (ch ! i))"
    using chain_wf [OF v, of i] m step assms(2) by (auto simp: body_wf_def fmpred_iff member_wf_def)
  moreover have "c_sequence (sc_body (ch ! i)) < c_sequence (sc_body (ch ! Suc k))"
    using chain_frame [OF v, of i "Suc k"] step assms(2) by simp
  ultimately show ?case
    using step_member [OF t, of d] step
    by (auto split: option.splits)
qed

lemma find_control_Some:
  "find_control K ch h = Some c \<Longrightarrow> \<exists>i < length ch. sc_hash K (ch ! i) = Ok h \<and> sc_body (ch ! i) = c"
proof (induction ch)
  case (Cons s ch)
  show ?case
  proof (cases "sc_hash K s = Ok h")
    case True
    then show ?thesis using Cons.prems by (intro exI [of _ 0]) simp
  next
    case False
    then have "find_control K ch h = Some c" using Cons.prems by (auto split: sum.splits if_splits)
    then obtain i where "i < length ch" "sc_hash K (ch ! i) = Ok h" "sc_body (ch ! i) = c"
      using Cons.IH by blast
    then show ?thesis by (intro exI [of _ "Suc i"]) simp
  qed
qed simp

lemma continuous_uninterrupted:
  assumes "validate K recs r = Ok ch"
  shows "continuous K ch d h = Ok True \<longleftrightarrow>
    (\<exists>i m. i < length ch \<and> control_at K ch h = Ok (sc_body (ch ! i))
       \<and> (\<forall>k \<in> {i..<length ch}. fmlookup (c_members (sc_body (ch ! k))) d = Some m))"
    (is "?l \<longleftrightarrow> ?r")
proof -
  have ne: "ch \<noteq> []" using assms by (auto simp: validate_Ok)
  then have hd: "head ch = sc_body (ch ! (length ch - 1))" by (simp add: head_def last_conv_nth)
  show ?thesis
  proof
    assume l: ?l
    then obtain c m where c: "find_control K ch h = Some c" "fmlookup (c_members c) d = Some m"
      "fmlookup (c_members (head ch)) d = Some m"
      by (auto simp: continuous_def control_at_def split: option.splits)
    then obtain i where i: "i < length ch" "sc_body (ch ! i) = c"
      using find_control_Some by blast
    have "fmlookup (c_members (sc_body (ch ! k))) d = Some m" if "k \<in> {i..<length ch}" for k
    proof (rule ccontr)
      assume "\<not> ?thesis"
      moreover have "i \<le> k" "k \<le> length ch - 1" "length ch - 1 < length ch" using that ne by auto
      ultimately show False
        using member_lost_for_good [OF assms, of i k "length ch - 1" d m] c i by (simp add: hd)
    qed
    then show ?r using i c by (auto simp: control_at_def)
  next
    assume ?r
    then obtain i m where i: "i < length ch" "control_at K ch h = Ok (sc_body (ch ! i))"
      and all: "\<forall>k \<in> {i..<length ch}. fmlookup (c_members (sc_body (ch ! k))) d = Some m" by blast
    have "fmlookup (c_members (sc_body (ch ! i))) d = Some m" "fmlookup (c_members (head ch)) d = Some m"
      using all i ne by (auto simp: hd)
    then show ?l using i by (simp add: continuous_def)
  qed
qed

text \<open>
  C31: \<open>continuous\<close> answers true exactly when the device holds one and the same admission
  in every control from the given one through the head: a revocation in between is
  detected even if the same keys were admitted again later.
\<close>

theorem continuous_iff_uninterrupted:
  assumes "validate K recs r = Ok ch"
  shows "continuous K ch d h = Ok True \<longleftrightarrow>
    (\<exists>i m. i < length ch \<and> control_at K ch h = Ok (sc_body (ch ! i))
       \<and> (\<forall>k \<in> {i..<length ch}. fmlookup (c_members (sc_body (ch ! k))) d = Some m))"
  using assms by (rule continuous_uninterrupted)

theorem continuous_iff_uninterrupted_witness:
  "continuous toy_crypto toy_chain (id_device toy_identity) toy_root = Ok True"
  unfolding continuous_iff_uninterrupted [OF toy_valid]
  using toy_head by (auto simp: head_def)


subsection \<open>Transitions\<close>

text \<open>When an administrative intent is lawful against the head of a chain.\<close>

definition lawful :: "crypto \<Rightarrow> control_chain \<Rightarrow> digest \<Rightarrow> control_transition \<Rightarrow> bool" where
  "lawful K ch operation intent \<longleftrightarrow>
     (case intent of
        Admit i \<Rightarrow> identity_validate K i = Ok () \<and> \<not> bt_contains (c_members (head ch)) (id_device i)
          \<and> (\<forall>m \<in> set (bt_values (c_members (head ch))). id_transport (m_identity m) \<noteq> id_transport i)
          \<and> bt_len (c_members (head ch)) < MAX_MEMBERS
      | Rotate revoked p \<Rightarrow> c_epoch (head ch) < U64_MAX
          \<and> (case revoked of None \<Rightarrow> True
              | Some d \<Rightarrow> d \<noteq> c_manager (head ch) \<and> bt_contains (c_members (head ch)) d)
      | PolicyChange p \<Rightarrow> True
      | Transfer c \<Rightarrow> consent_verify K c (last ch) = Ok () \<and> hc_operation c = operation)"

definition successor_base :: "control \<Rightarrow> digest \<Rightarrow> nat \<Rightarrow> digest \<Rightarrow> digest \<Rightarrow> control" where
  "successor_base a previous sequence operation intent_hash =
     a\<lparr>c_previous := Some previous, c_sequence := sequence, c_operation := Some operation,
        c_intent := Some intent_hash, c_handoff := None\<rparr>"

lemma apply_intent_step:
  assumes ap: "apply_intent K ch op t (successor_base (head ch) p (Suc (c_sequence (head ch))) op i) = Ok b"
  shows "authority_step (abs_control (head ch)) t (abs_control b) \<and> handoff_matches K (last ch) t b
    \<and> c_previous b = Some p \<and> c_operation b = Some op \<and> c_intent b = Some i
    \<and> c_version b = c_version (head ch)
    \<and> (c_epoch b = c_epoch (head ch) \<or> c_epoch b \<le> U64_MAX)"
proof (cases t)
  case (Admit i')
  then show ?thesis
    using ap authority_step.admit [of "abs_control (head ch)" i']
    by (auto simp: apply_intent_def successor_base_def abs_control_def handoff_matches_def)
next
  case (Rotate r q)
  show ?thesis
  proof (cases r)
    case None
    then show ?thesis
      using ap Rotate authority_step.rotate [of "abs_control (head ch)" q]
      by (auto simp: apply_intent_def successor_base_def abs_control_def handoff_matches_def Let_def)
  next
    case (Some d)
    then show ?thesis
      using ap Rotate authority_step.revoke [of "abs_control (head ch)" d q]
      by (auto simp: apply_intent_def successor_base_def abs_control_def handoff_matches_def Let_def)
  qed
next
  case (PolicyChange q)
  then show ?thesis
    using ap authority_step.policy [of "abs_control (head ch)" q]
    by (auto simp: apply_intent_def successor_base_def abs_control_def handoff_matches_def)
next
  case (Transfer c)
  then have cv: "consent_verify K c (last ch) = Ok ()" and b: "hc_operation c = op"
    "b = (successor_base (head ch) p (Suc (c_sequence (head ch))) op i)
       \<lparr>c_manager := hc_recipient c, c_handoff := Some c\<rparr>"
    using ap by (auto simp: apply_intent_def)
  have "bt_contains (c_members (head ch)) (hc_recipient c)" "hc_recipient c \<noteq> c_manager (head ch)"
    using consent_verify_Ok [OF cv] by (auto simp: bt_contains_def head_def)
  then show ?thesis
    using authority_step.transfer [of "abs_control (head ch)" c] Transfer cv b
    by (simp add: successor_base_def abs_control_def handoff_matches_def)
qed

lemma bt_len_upd: "\<not> bt_contains m k \<Longrightarrow> bt_len (fmupd k v m) = Suc (bt_len m)"
  by (simp add: bt_len_def bt_contains_dom fcard_finsert_disjoint)

lemma bt_len_drop_le: "bt_len (fmdrop k m) \<le> bt_len m"
  by (auto simp: bt_len_def intro!: fcard_mono)

lemma member_wf_mono: "member_wf K q d m \<Longrightarrow> q \<le> q' \<Longrightarrow> member_wf K q' d m"
  by (simp add: member_wf_def)

lemma transports_unique_upd:
  assumes "\<not> bt_contains ms d"
  shows "transports_unique (fmupd d m ms) \<longleftrightarrow> transports_unique ms
    \<and> (\<forall>m' \<in> set (bt_values ms). id_transport (m_identity m') \<noteq> id_transport (m_identity m))"
    (is "?l \<longleftrightarrow> ?r")
proof
  have new: "fmlookup ms d = None" using assms by (simp add: bt_contains_def)
  assume l: ?l
  then have "d1 = d2" if "fmlookup ms d1 = Some m1" "fmlookup ms d2 = Some m2"
      "id_transport (m_identity m1) = id_transport (m_identity m2)" for d1 d2 m1 m2
    using that new unfolding transports_unique_def by (metis fmupd_lookup option.distinct(1))
  moreover have "id_transport (m_identity m') \<noteq> id_transport (m_identity m)"
    if "fmlookup ms d' = Some m'" for d' m'
    using l that new unfolding transports_unique_def by (metis fmupd_lookup option.distinct(1))
  ultimately show ?r by (auto simp: transports_unique_def ball_bt_values)
next
  assume ?r
  then show ?l by (auto simp: transports_unique_def ball_bt_values split: if_splits) metis+
qed

lemma transports_unique_drop: "transports_unique ms \<Longrightarrow> transports_unique (fmdrop d ms)"
  by (auto simp: transports_unique_def)

lemma fmpred_upd_new:
  "\<not> bt_contains m k \<Longrightarrow> fmpred P (fmupd k v m) \<longleftrightarrow> P k v \<and> fmpred P m"
  by (auto simp: fmpred_iff bt_contains_def split: if_splits)

lemma member_wf_grow: "body_wf K c \<Longrightarrow> c_sequence c \<le> q \<Longrightarrow> fmpred (member_wf K q) (c_members c)"
  by (fastforce simp: body_wf_def fmpred_iff member_wf_def)

lemma fmpred_drop': "fmpred P m \<Longrightarrow> fmpred P (fmdrop k m)"
  by (simp add: fmpred_iff)

lemma apply_intent_lawful:
  assumes wf: "body_wf K (head ch)" and q: "c_sequence (head ch) \<le> q"
  shows "lawful K ch op t \<longleftrightarrow>
    (\<exists>b. apply_intent K ch op t (successor_base (head ch) p q op i) = Ok b \<and> body_wf K b)"
proof -
  note grow = member_wf_grow [OF wf q]
  have wf': "c_version (head ch) = 2" "bt_len (c_members (head ch)) \<le> MAX_MEMBERS"
    "bt_contains (c_members (head ch)) (c_manager (head ch))" "c_database (head ch) \<noteq> []"
    "length (c_database (head ch)) \<le> 128" "transports_unique (c_members (head ch))"
    using wf by (simp_all add: body_wf_def)
  show ?thesis
  proof (cases t)
    case (Admit j)
    show ?thesis
    proof (cases "identity_validate K j = Ok () \<and> \<not> bt_contains (c_members (head ch)) (id_device j)")
      case True
      then show ?thesis
        using Admit wf' grow
        by (simp add: lawful_def apply_intent_def successor_base_def body_wf_def bt_len_upd
            transports_unique_upd fmpred_upd_new member_wf_def Suc_le_eq conj_commute)
    next
      case False
      then show ?thesis using Admit by (auto simp: lawful_def apply_intent_def successor_base_def)
    qed
  next
    case (Rotate r w)
    have drop: "bt_len (fmdrop d (c_members (head ch))) \<le> MAX_MEMBERS" for d
      using bt_len_drop_le wf'(2) by (rule order_trans)
    show ?thesis
      using Rotate wf' grow drop
      by (cases r) (auto simp: lawful_def apply_intent_def successor_base_def Let_def body_wf_def
          transports_unique_drop fmpred_drop')
  next
    case (PolicyChange w)
    then show ?thesis
      using wf' grow by (simp add: lawful_def apply_intent_def body_wf_def successor_base_def)
  next
    case (Transfer c)
    have "bt_contains (c_members (head ch)) (hc_recipient c)" if "consent_verify K c (last ch) = Ok ()"
      using consent_verify_Ok [OF that] by (auto simp: bt_contains_def head_def)
    then show ?thesis
      using wf' grow Transfer
      by (auto simp: lawful_def apply_intent_def body_wf_def successor_base_def)
  qed
qed


lemma validate_snoc:
  assumes v: "validate K recs r = Ok ch"
  shows "validate K (ch @ [s]) r = Ok ch' \<longleftrightarrow> ch' = ch @ [s] \<and> length ch < MAX_CONTROLS
    \<and> validate_successor K (last ch) s = Ok ()
    \<and> (\<exists>op. operation_of s = Some op \<and> (\<forall>c \<in> set ch. operation_of c \<noteq> Some op))"
proof -
  have ne: "ch \<noteq> []" and g: "operation_of (ch ! 0) = None"
    using v validate_genesis_wf by (auto simp: validate_Ok)
  then have tl: "tl (ch @ [s]) = tl ch @ [s]" and st: "set ch = insert (ch ! 0) (set (tl ch))"
    by (simp_all add: hd_conv_nth [symmetric]) (metis list.collapse list.simps(15))
  have "(\<exists>op. operation_of s = Some op \<and> (\<forall>c \<in> set ch. operation_of c \<noteq> Some op)) \<longleftrightarrow>
      (\<exists>op. operation_of s = Some op) \<and> operation_of s \<notin> set (map operation_of (tl ch))"
    using g st by (auto simp: image_iff) metis
  then show ?thesis
    using v ne
    by (auto simp: validate_Ok validate_links_iff tl successively_append_iff nth_append)
qed

lemma transition_fresh:
  assumes "\<forall>s \<in> set ch. operation_of s \<noteq> Some op"
  shows "transition K ch key op t = Ok ch' \<longleftrightarrow>
    (\<exists>i p b s r. digest_object K INTENT_DOMAIN (PIntent t) = Ok i
      \<and> author_device K key = c_manager (head ch) \<and> head_hash K ch = Ok p
      \<and> Suc (c_sequence (head ch)) \<le> U64_MAX
      \<and> apply_intent K ch op t (successor_base (head ch) p (Suc (c_sequence (head ch))) op i) = Ok b
      \<and> sc_signed K b key = Ok s \<and> chain_root K ch = Ok r \<and> validate K (ch @ [s]) r = Ok ch')"
proof -
  have "List.find (\<lambda>c. operation_of c = Some op) ch = None"
    using assms by (simp add: find_None_iff)
  then show ?thesis
    by (auto simp: transition_def Let_def successor_base_def)
qed

text \<open>
  C28: a transition that succeeds under a fresh operation identity extends the chain by one
  control, keeps everything before it, and that control is one step of the abstract
  machine for exactly the requested intent; the resulting chain validates.
\<close>

theorem transition_appends_step:
  assumes "validate K recs r = Ok ch" and "\<forall>s \<in> set ch. c_operation (sc_body s) \<noteq> Some op"
    and "transition K ch key op t = Ok ch'"
  shows "\<exists>s. ch' = ch @ [s] \<and> c_operation (sc_body s) = Some op
    \<and> authority_step (abs_control (head ch)) t (abs_control (head ch'))
    \<and> author_device K key = c_manager (head ch) \<and> validate K ch' r = Ok ch'"
proof -
  obtain i p b s r' where ap: "apply_intent K ch op t
        (successor_base (head ch) p (Suc (c_sequence (head ch))) op i) = Ok b"
    and s: "sc_signed K b key = Ok s" and r': "chain_root K ch = Ok r'"
    and v: "validate K (ch @ [s]) r' = Ok ch'" and k: "author_device K key = c_manager (head ch)"
    using assms(2,3) by (auto simp: transition_fresh)
  have "r' = r" using assms(1) r' by (auto simp: validate_Ok chain_root_def)
  moreover have "ch' = ch @ [s]" using v by (simp add: validate_Ok)
  moreover have "sc_body s = b" using s by (auto simp: sc_signed_def)
  ultimately show ?thesis
    using apply_intent_step [OF ap] v k by (auto simp: head_def)
qed

text \<open>What the manager prepares and signs on a valid chain passes the receiver's check.\<close>

lemma prepared_successor_valid:
  assumes laws: "crypto_laws K"
    and mgr: "fmlookup (c_members (head ch)) (c_manager (head ch)) = Some m"
    and key: "author_public K key = id_author (m_identity m)"
    and i: "digest_object K INTENT_DOMAIN (PIntent t) = Ok i" and p: "head_hash K ch = Ok p"
    and small: "Suc (c_sequence (head ch)) \<le> U64_MAX"
    and ap: "apply_intent K ch op t (successor_base (head ch) p (Suc (c_sequence (head ch))) op i) = Ok b"
    and b: "body_wf K b" and s: "sc_signed K b key = Ok s"
  shows "validate_successor K (last ch) s = Ok () \<and> operation_of s = Some op"
proof -
  have sb: "sc_body s = b" and "sc_verify K s (author_public K key) = Ok ()"
    using s author_sign_verify [OF laws] by (auto simp: sc_signed_def sc_verify_def)
  then have "signed_by_manager K (last ch) s"
    using mgr key by (auto simp: signed_by_manager_def head_def)
  moreover have "c_sequence b = Suc (c_sequence (head ch))"
    using apply_intent_step [OF ap] step_frame by fastforce
  ultimately show ?thesis
    using apply_intent_step [OF ap] b sb i p small
    by (auto simp: successor_accepted linked_def signed_step_def head_def head_hash_def)
qed

lemma chain_head:
  assumes v: "validate K recs r = Ok ch"
  shows "body_wf K (head ch)" and "c_sequence (head ch) = length ch - 1"
    and "Suc (c_sequence (head ch)) \<le> U64_MAX" and "chain_root K ch = Ok r" and "ch \<noteq> []"
proof -
  show ne: "ch \<noteq> []" using v by (auto simp: validate_Ok)
  then have hd: "head ch = sc_body (ch ! (length ch - 1))" by (simp add: head_def last_conv_nth)
  show "body_wf K (head ch)" using chain_wf [OF v] ne by (simp add: hd)
  show seq: "c_sequence (head ch) = length ch - 1"
    using chain_holds [OF v, of "length ch - 1"] ne by (simp add: hd)
  have "length ch \<le> MAX_CONTROLS" using v by (simp add: validate_Ok)
  then have "Suc (length ch - 1) \<le> U64_MAX" by (simp add: MAX_CONTROLS_def U64_MAX_def)
  then show "Suc (c_sequence (head ch)) \<le> U64_MAX" by (simp only: seq)
  show "chain_root K ch = Ok r" using v by (auto simp: validate_Ok chain_root_def)
qed

text \<open>When a prepared transition survives the validation that ends it.\<close>

lemma transition_Ok_iff:
  assumes laws: "crypto_laws K" and v: "validate K recs r = Ok ch"
    and fresh: "\<forall>s \<in> set ch. c_operation (sc_body s) \<noteq> Some op"
    and mgr: "fmlookup (c_members (head ch)) (c_manager (head ch)) = Some m"
    and key: "author_public K key = id_author (m_identity m)"
  shows "(\<exists>ch'. transition K ch key op t = Ok ch') \<longleftrightarrow>
    lawful K ch op t \<and> length ch < MAX_CONTROLS"
proof -
  note hd = chain_head [OF v]
  have "member_wf K (c_sequence (head ch)) (c_manager (head ch)) m"
    using hd(1) mgr by (auto simp: body_wf_def fmpred_iff)
  then have dev: "author_device K key = c_manager (head ch)"
    using key by (simp add: member_wf_def identity_validate_Ok author_device_def)
  obtain i p where i: "digest_object K INTENT_DOMAIN (PIntent t) = Ok i" and p: "head_hash K ch = Ok p"
    using digest_object_total [OF laws] by (metis head_hash_def sc_hash_def)
  let ?base = "successor_base (head ch) p (Suc (c_sequence (head ch))) op i"
  have law: "lawful K ch op t \<longleftrightarrow> (\<exists>b. apply_intent K ch op t ?base = Ok b \<and> body_wf K b)"
    by (rule apply_intent_lawful [OF hd(1)]) simp
  have tr: "transition K ch key op t = Ok ch' \<longleftrightarrow>
      (\<exists>b s. apply_intent K ch op t ?base = Ok b \<and> sc_signed K b key = Ok s
         \<and> validate K (ch @ [s]) r = Ok ch')" for ch'
    unfolding transition_fresh [OF fresh] i p hd(4) using dev hd(3) by simp
  show ?thesis
  proof
    assume "\<exists>ch'. transition K ch key op t = Ok ch'"
    then obtain ch' b s where ap: "apply_intent K ch op t ?base = Ok b" and s: "sc_signed K b key = Ok s"
      and v': "validate K (ch @ [s]) r = Ok ch'" unfolding tr by blast
    have "sc_body s = b" using s by (auto simp: sc_signed_def)
    moreover have "validate_successor K (last ch) s = Ok ()" "length ch < MAX_CONTROLS"
      using v' unfolding validate_snoc [OF v] by simp_all
    ultimately show "lawful K ch op t \<and> length ch < MAX_CONTROLS"
      unfolding law successor_accepted using ap by blast
  next
    assume r: "lawful K ch op t \<and> length ch < MAX_CONTROLS"
    then obtain b where ap: "apply_intent K ch op t ?base = Ok b" and wf: "body_wf K b"
      unfolding law by blast
    obtain s where s: "sc_signed K b key = Ok s"
      using author_sign_total [OF laws, of key CONTROL_DOMAIN "PControl b"] by (auto simp: sc_signed_def)
    have "validate K (ch @ [s]) r = Ok (ch @ [s])"
      unfolding validate_snoc [OF v]
      using prepared_successor_valid [OF laws mgr key i p hd(3) ap wf s] fresh r by simp
    then show "\<exists>ch'. transition K ch key op t = Ok ch'" unfolding tr using ap s by blast
  qed
qed


lemma toy_fresh: "\<forall>s \<in> set toy_chain. c_operation (sc_body s) \<noteq> Some [5]"
  by (simp add: toy_body genesis_body_def)

lemma toy_manager: "fmlookup (c_members (head toy_chain)) (c_manager (head toy_chain))
    = Some \<lparr>m_identity = toy_identity, admitted_at = 0\<rparr>"
  using toy_head by simp

lemma toy_key_matches:
  "author_public toy_crypto toy_key = id_author (m_identity \<lparr>m_identity = toy_identity, admitted_at = 0\<rparr>)"
  by (simp add: toy_key_simps)

lemma toy_transition: "\<exists>ch'. transition toy_crypto toy_chain toy_key [5] (PolicyChange [4]) = Ok ch'"
  unfolding transition_Ok_iff [OF toy_crypto_laws toy_valid toy_fresh toy_manager toy_key_matches]
  by (simp add: lawful_def MAX_CONTROLS_def)

theorem transition_appends_step_witness:
  "\<exists>ch' s. transition toy_crypto toy_chain toy_key [5] (PolicyChange [4]) = Ok ch'
    \<and> ch' = toy_chain @ [s] \<and> authority_step (abs_control (head toy_chain)) (PolicyChange [4]) (abs_control (head ch'))"
proof -
  obtain ch' where t: "transition toy_crypto toy_chain toy_key [5] (PolicyChange [4]) = Ok ch'"
    using toy_transition by blast
  show ?thesis using transition_appends_step [OF toy_valid toy_fresh t] t by blast
qed

text \<open>
  The manager's prepared transition is never refused by the validation that receivers
  run: with the manager's key, a fresh operation and room in the chain, \<open>transition\<close>
  succeeds exactly for lawful intents.
\<close>

theorem transition_succeeds_iff:
  assumes "crypto_laws K" and "validate K recs r = Ok ch"
    and "\<forall>s \<in> set ch. c_operation (sc_body s) \<noteq> Some op"
    and "fmlookup (c_members (head ch)) (c_manager (head ch)) = Some m"
    and "author_public K key = id_author (m_identity m)"
  shows "(\<exists>ch'. transition K ch key op t = Ok ch') \<longleftrightarrow>
    lawful K ch op t \<and> length ch < MAX_CONTROLS"
  by (rule transition_Ok_iff [OF assms])

theorem transition_succeeds_iff_witness:
  "(\<exists>ch'. transition toy_crypto toy_chain toy_key [5] (PolicyChange [4]) = Ok ch')
   \<and> \<not> (\<exists>ch'. transition toy_crypto toy_chain toy_key [5] (Rotate (Some [2]) [4]) = Ok ch')"
proof -
  note iff = transition_succeeds_iff [OF toy_crypto_laws toy_valid toy_fresh toy_manager]
  have "id_device toy_identity \<noteq> [2]" by (simp add: toy_identity_def device_id_of_def ascii_def toy_crypto_def)
  then show ?thesis
    unfolding iff [OF toy_key_matches] using toy_head(3)
    by (simp add: lawful_def MAX_CONTROLS_def) (simp add: toy_head(1) genesis_body_def)
qed


subsection \<open>Retries\<close>

lemma validate_unique_operation:
  assumes "validate K recs r = Ok ch" and "s \<in> set ch" and "s' \<in> set ch"
    and "operation_of s = Some op" and "operation_of s' = Some op"
  shows "s = s'"
proof -
  have "operation_of (hd ch) = None" "distinct (map operation_of (tl ch))" "ch \<noteq> []"
    using assms(1) validate_genesis_wf by (auto simp: validate_Ok validate_links_iff hd_conv_nth)
  moreover from this have "s \<in> set (tl ch)" "s' \<in> set (tl ch)"
    using assms(2-) by (metis list.collapse option.distinct(1) set_ConsD)+
  ultimately show ?thesis
    using assms(4,5) by (auto simp: distinct_map inj_on_def)
qed

lemma transition_known:
  assumes v: "validate K recs r = Ok ch" and s: "s \<in> set ch" "operation_of s = Some op"
    and i: "digest_object K INTENT_DOMAIN (PIntent t) = Ok i"
  shows "transition K ch key op t = (if c_intent (sc_body s) = Some i then Ok ch else Err OperationMismatch)"
proof -
  obtain s' where f: "List.find (\<lambda>c. operation_of c = Some op) ch = Some s'"
    using s by (cases "List.find (\<lambda>c. operation_of c = Some op) ch") (auto simp: find_None_iff)
  then have "s' = s"
    using validate_unique_operation [OF v _ s(1) _ s(2)] by (auto simp: find_Some_iff)
  then show ?thesis using f i by (simp add: transition_def)
qed

text \<open>
  An operation identity names one committed transition. Once a transition succeeded,
  repeating it (with any key, by whoever holds the operation) returns the same chain, and
  the same identity with an intent of another digest is a mismatch, never a second control.
\<close>

theorem transition_idempotent:
  assumes v: "validate K recs r = Ok ch" and t: "transition K ch key op t = Ok ch'"
    and i: "digest_object K INTENT_DOMAIN (PIntent t') = Ok i'"
  shows "transition K ch' key' op t = Ok ch'
    \<and> (digest_object K INTENT_DOMAIN (PIntent t) \<noteq> Ok i' \<longrightarrow>
         transition K ch' key' op t' = Err OperationMismatch)"
proof -
  obtain h where h: "digest_object K INTENT_DOMAIN (PIntent t) = Ok h"
    using t by (auto simp: transition_def)
  have "\<exists>s. s \<in> set ch' \<and> operation_of s = Some op \<and> c_intent (sc_body s) = Some h
      \<and> (\<exists>r. validate K ch' r = Ok ch')"
  proof (cases "\<forall>s \<in> set ch. operation_of s \<noteq> Some op")
    case True
    then obtain i p b s r where *: "digest_object K INTENT_DOMAIN (PIntent t) = Ok i"
      "apply_intent K ch op t (successor_base (head ch) p (Suc (c_sequence (head ch))) op i) = Ok b"
      "sc_signed K b key = Ok s" "validate K (ch @ [s]) r = Ok ch'"
      using t by (auto simp: transition_fresh)
    then have "ch' = ch @ [s]" "sc_body s = b" by (auto simp: validate_Ok sc_signed_def)
    moreover have "operation_of s = Some op" "c_intent b = Some i"
      using apply_intent_step [OF *(2)] \<open>sc_body s = b\<close> by auto
    ultimately show ?thesis using * h by (intro exI [of _ s]) auto
  next
    case False
    then obtain s where "s \<in> set ch" "operation_of s = Some op" by blast
    then show ?thesis
      using transition_known [OF v _ _ h, of s op key] t v by (auto simp: validate_Ok split: if_splits)
  qed
  then obtain s r where s: "s \<in> set ch'" "operation_of s = Some op" "c_intent (sc_body s) = Some h"
    and v': "validate K ch' r = Ok ch'" by blast
  show ?thesis
    using transition_known [OF v' s(1,2) h, of key'] transition_known [OF v' s(1,2) i, of key'] s(3) h
    by simp
qed

theorem transition_idempotent_witness:
  "\<exists>ch'. transition toy_crypto toy_chain toy_key [5] (PolicyChange [4]) = Ok ch'
    \<and> transition toy_crypto ch' toy_key [5] (PolicyChange [4]) = Ok ch'
    \<and> transition toy_crypto ch' toy_key [5] (PolicyChange [6]) = Err OperationMismatch"
proof -
  obtain ch' where t: "transition toy_crypto toy_chain toy_key [5] (PolicyChange [4]) = Ok ch'"
    using toy_transition by blast
  obtain i where i: "digest_object toy_crypto INTENT_DOMAIN (PIntent (PolicyChange [6])) = Ok i"
    using digest_object_total [OF toy_crypto_laws] by blast
  moreover have "digest_object toy_crypto INTENT_DOMAIN (PIntent (PolicyChange [4])) \<noteq> Ok i"
    using i by (auto simp: digest_object_def canonical_def toy_crypto_def)
  ultimately show ?thesis
    using transition_idempotent [OF toy_valid t i, of toy_key] t by blast
qed

subsection \<open>Reconciliation\<close>

lemma zip_agree_prefix:
  "\<not> list_ex (\<lambda>(a, b). a \<noteq> b) (zip xs ys) \<longleftrightarrow> prefix xs ys \<or> prefix ys xs"
  by (induction xs ys rule: list_induct2') auto

lemma chain_root_Err: "chain_root K ch = Err e \<Longrightarrow> e = Invalid"
  by (auto simp: chain_root_def sc_hash_def digest_object_def canonical_def bindR_Inl)

lemma longer_of_prefixes:
  "prefix a b \<or> prefix b a \<Longrightarrow> (if length a < length b then b else a) = c \<longleftrightarrow>
     prefix a b \<and> c = b \<or> prefix b a \<and> c = a"
  by (auto simp: prefix_def)

lemma reconcile_same_root:
  assumes "chain_root K a = Ok r" and "chain_root K b = Ok r"
  shows "reconcile K a b = (if prefix a b \<or> prefix b a
    then Ok (if length a < length b then b else a) else Err Fork)"
  using zip_agree_prefix [of a b] by (simp add: reconcile_def assms)

lemma reconcile_other:
  assumes "\<not> (\<exists>r. chain_root K a = Ok r \<and> chain_root K b = Ok r)"
  shows "\<exists>e. reconcile K a b = Err e \<and> e \<noteq> Fork"
  using assms chain_root_Err
  by (cases "chain_root K a"; cases "chain_root K b") (fastforce simp: reconcile_def)+

lemma reconcile_cases:
  "(reconcile K a b = Ok c \<longleftrightarrow>
      (\<exists>r. chain_root K a = Ok r \<and> chain_root K b = Ok r)
      \<and> (prefix a b \<and> c = b \<or> prefix b a \<and> c = a))
   \<and> (reconcile K a b = Err Fork \<longleftrightarrow>
      (\<exists>r. chain_root K a = Ok r \<and> chain_root K b = Ok r) \<and> \<not> prefix a b \<and> \<not> prefix b a)
   \<and> (reconcile K a b = Ok c \<longleftrightarrow> reconcile K b a = Ok c)"
proof -
  have ok: "reconcile K a b = Ok c \<longleftrightarrow> (\<exists>r. chain_root K a = Ok r \<and> chain_root K b = Ok r)
      \<and> (prefix a b \<and> c = b \<or> prefix b a \<and> c = a)" for a b
  proof (cases "\<exists>r. chain_root K a = Ok r \<and> chain_root K b = Ok r")
    case True
    then show ?thesis using longer_of_prefixes [of a b c] by (auto simp: reconcile_same_root)
  next
    case False
    then show ?thesis using reconcile_other [OF False] by auto
  qed
  moreover have "reconcile K a b = Err Fork \<longleftrightarrow> (\<exists>r. chain_root K a = Ok r \<and> chain_root K b = Ok r)
      \<and> \<not> prefix a b \<and> \<not> prefix b a"
  proof (cases "\<exists>r. chain_root K a = Ok r \<and> chain_root K b = Ok r")
    case True
    then show ?thesis by (auto simp: reconcile_same_root)
  next
    case False
    then show ?thesis using reconcile_other [OF False] by auto
  qed
  ultimately show ?thesis by blast
qed

text \<open>
  C37: reconciling two chains of the same root keeps the longer one when one extends the
  other and reports a fork exactly when neither does; the outcome does not depend on which
  of the two is the local chain, and no control of the local chain is ever dropped.
\<close>

theorem reconcile_iff:
  "(reconcile K a b = Ok c \<longleftrightarrow>
      (\<exists>r. chain_root K a = Ok r \<and> chain_root K b = Ok r)
      \<and> (prefix a b \<and> c = b \<or> prefix b a \<and> c = a))
   \<and> (reconcile K a b = Err Fork \<longleftrightarrow>
      (\<exists>r. chain_root K a = Ok r \<and> chain_root K b = Ok r) \<and> \<not> prefix a b \<and> \<not> prefix b a)
   \<and> (reconcile K a b = Ok c \<longleftrightarrow> reconcile K b a = Ok c)"
  by (rule reconcile_cases)

subsection \<open>No panic\<close>

lemma canonical_np: "canonical K d p \<noteq> Inl Panicked"
  by (auto simp: canonical_def bindR_Inl)

lemma digest_np: "digest_object K d p \<noteq> Inl Panicked"
  by (auto simp: digest_object_def bindR_Inl canonical_np)

lemma key_verify_np: "key_verify K k d p s \<noteq> Inl Panicked"
  by (auto simp: key_verify_def bindR_Inl canonical_np)

lemma identity_np: "identity_validate K i \<noteq> Inl Panicked"
  by (auto simp: identity_validate_def key_validate_def bindR_Inl)

lemmas no_panic = canonical_np digest_np key_verify_np identity_np

lemma members_np: "foldR (validate_member K q) T xs \<noteq> Inl Panicked"
proof (induction xs arbitrary: T)
  case (Cons x xs)
  have "validate_member K q T x \<noteq> Inl Panicked"
    by (cases x) (auto simp: validate_member_def bindR_Inl no_panic)
  then show ?case using Cons by (auto simp: bindR_Inl)
qed simp

lemma body_np: "validate_body K c \<noteq> Inl Panicked"
  by (auto simp: validate_body_def bindR_Inl members_np)

lemma consent_np: "consent_verify K c p \<noteq> Inl Panicked"
  by (auto simp: consent_verify_def bindR_Inl sc_hash_def no_panic)

lemma infer_np: "infer_transition K p b \<noteq> Inl Panicked"
proof -
  have "fmlookup (c_members b) d \<noteq> None" if "members_added (sc_body p) b = d # rest" for d rest
  proof -
    have "d \<in> set (members_added (sc_body p) b)" using that by simp
    then show ?thesis unfolding members_added_def by (auto simp: fmlookup_dom_iff)
  qed
  then show ?thesis
    by (auto simp: infer_transition_def Let_def bindR_Inl consent_np map_index_def split: list.splits)
qed

lemma successor_np:
  "body_wf K (sc_body p) \<Longrightarrow> validate_successor K p n \<noteq> Inl Panicked"
  by (auto simp: validate_successor_def Let_def bindR_Inl body_np infer_np map_index_def
      sc_verify_def sc_hash_def no_panic body_wf_def bt_contains_def)

lemma links_np:
  "ch \<noteq> [] \<Longrightarrow> body_wf K (sc_body (ch ! 0)) \<Longrightarrow> validate_links K ops ch \<noteq> Inl Panicked"
proof (induction K ops ch rule: validate_links.induct)
  case (1 K ops p n rest)
  then show ?case
    by (auto simp: bindR_Inl successor_np successor_accepted)
qed auto

text \<open>
  C40: the indexing of member maps during validation, which would panic on a missing key,
  never fails: whatever records a peer sends, \<open>validate\<close> returns a chain or an error.
\<close>

theorem validate_never_panics: "validate K recs r \<noteq> Err Panicked"
proof -
  have g: "validate_genesis K s \<noteq> Inl Panicked" for s
    by (auto simp: validate_genesis_def Let_def bindR_Inl body_np validate_body_iff map_index_def
        sc_verify_def no_panic body_wf_def bt_contains_def)
  show ?thesis
    using links_np [of recs K "{||}"] validate_genesis_wf
    by (auto simp: validate_def bindR_Inl sc_hash_def no_panic g)
qed

end
