(* ===== verification/Trust_Manifest.thy ===== *)
theory Trust_Manifest
  imports Trust_Chain
begin

text \<open>
  \<open>crates/taypeer-trust/src/manifest.rs\<close>: the signed composition of one portable file, the
  author-signed envelope of one encrypted object, and the proof that binds an original
  change to its author. Each is checked against the control its body names.
\<close>

definition GIB16 :: nat where "GIB16 = 16 * 1024 * 1024 * 1024"

subsection \<open>Manifests\<close>

definition manifest_object :: "nat \<Rightarrow> digest \<times> cipher_object \<Rightarrow> trust_error + nat" where
  "manifest_object tot = (\<lambda>(id', object).
     if id' \<noteq> co_digest object \<or> co_length object = 0 \<or> co_kind object = LocalDraft
     then Err Invalid
     else ok_or (checked_add tot (co_length object)) Limit)"

definition has_kind :: "(digest, cipher_object) fmap \<Rightarrow> digest \<Rightarrow> object_kind \<Rightarrow> bool" where
  "has_kind objects h kind =
     (case fmlookup objects h of None \<Rightarrow> False | Some x \<Rightarrow> co_kind x = kind)"

definition manifest_validate :: "crypto \<Rightarrow> manifest \<Rightarrow> control_chain \<Rightarrow> trust_error + unit" where
  "manifest_validate K body ch =
     (if mf_version body \<noteq> 1 then Err UnsupportedVersion
      else if mf_database body \<noteq> c_database (head ch) \<or> mf_trust_set body \<noteq> c_trust_set (head ch)
        \<or> bt_len (mf_objects body) = 0 \<or> bt_len (mf_objects body) > 100000
      then Err Invalid
      else bindR (control_at K ch (mf_control body)) (\<lambda>_.
           bindR (foldR manifest_object 0 (bt_iter (mf_objects body))) (\<lambda>tot.
           if tot > GIB16 then Err Limit
           else if \<not> has_kind (mf_objects body) (mf_checkpoint body) Checkpoint
             \<or> \<not> has_kind (mf_objects body) (mf_baseline body) Baseline
           then Err Invalid else Ok ())))"

definition manifest_sign ::
  "crypto \<Rightarrow> manifest \<Rightarrow> control_chain \<Rightarrow> transport_key \<Rightarrow> trust_error + signed_manifest" where
  "manifest_sign K body ch key =
     bindR (manifest_validate K body ch) (\<lambda>_.
     bindR (control_at K ch (mf_control body)) (\<lambda>control.
     bindR (ok_or (fmlookup (c_members control) (mf_signer body)) Unauthorized) (\<lambda>member.
     if id_transport (m_identity member) \<noteq> transport_public K key then Err Unauthorized
     else bindR (transport_sign K key MANIFEST_DOMAIN (PManifest body)) (\<lambda>sig.
       Ok \<lparr>sm_body = body, sm_signature = sig\<rparr>))))"

definition manifest_verify :: "crypto \<Rightarrow> signed_manifest \<Rightarrow> control_chain \<Rightarrow> trust_error + unit" where
  "manifest_verify K s ch =
     bindR (manifest_validate K (sm_body s) ch) (\<lambda>_.
     bindR (control_at K ch (mf_control (sm_body s))) (\<lambda>control.
     bindR (ok_or (fmlookup (c_members control) (mf_signer (sm_body s))) Unauthorized) (\<lambda>member.
     key_verify K (id_transport (m_identity member)) MANIFEST_DOMAIN (PManifest (sm_body s))
       (sm_signature s))))"

definition manifest_id :: "crypto \<Rightarrow> signed_manifest \<Rightarrow> trust_error + digest" where
  "manifest_id K s = digest_object K MANIFEST_DOMAIN (PSignedManifest s)"

subsection \<open>Encrypted-object envelopes\<close>

definition envelope_body_of :: "object_envelope \<Rightarrow> envelope_body" where
  "envelope_body_of e = envelope_body.truncate e"

definition envelope_verify :: "crypto \<Rightarrow> object_envelope \<Rightarrow> control_chain \<Rightarrow> trust_error + unit" where
  "envelope_verify K e ch =
     (if eb_version e \<noteq> 1 then Err UnsupportedVersion
      else if eb_database e \<noteq> c_database (head ch) \<or> eb_trust_set e \<noteq> c_trust_set (head ch)
        \<or> eb_length e = 0 \<or> eb_length e > GIB16
      then Err Invalid
      else bindR (control_at K ch (eb_control e)) (\<lambda>control.
      if eb_epoch e \<noteq> c_epoch control then Err Invalid
      else bindR (ok_or (fmlookup (c_members control) (eb_author e)) Unauthorized) (\<lambda>member.
      bindR (if eb_kind e = Baseline \<and> eb_author e \<noteq> c_manager control
             then bindR (ok_or (c_handoff control) Unauthorized) (\<lambda>handoff.
                  bindR (control_at K ch (hc_previous handoff)) (\<lambda>prior.
                  if c_manager prior \<noteq> eb_author e then Err Unauthorized else Ok ()))
             else Ok ()) (\<lambda>_.
      key_verify K (id_author (m_identity member)) ENVELOPE_DOMAIN (PEnvelope (envelope_body_of e))
        (oe_signature e)))))"

definition envelope_sign ::
  "crypto \<Rightarrow> control_chain \<Rightarrow> author_key \<Rightarrow> object_kind \<Rightarrow> nat \<Rightarrow> digest \<Rightarrow> trust_error + object_envelope" where
  "envelope_sign K ch key kind len ciphertext =
     bindR (head_hash K ch) (\<lambda>h.
     let e = \<lparr>eb_version = 1, eb_database = c_database (head ch), eb_trust_set = c_trust_set (head ch),
           eb_control = h, eb_epoch = c_epoch (head ch), eb_kind = kind,
           eb_author = author_device K key, eb_length = len, eb_ciphertext = ciphertext,
           oe_signature = replicate 64 0\<rparr>
     in bindR (author_sign K key ENVELOPE_DOMAIN (PEnvelope (envelope_body_of e))) (\<lambda>sig.
        let e = e\<lparr>oe_signature := sig\<rparr>
        in bindR (envelope_verify K e ch) (\<lambda>_. Ok e)))"

subsection \<open>Source proofs\<close>

definition source_body_of :: "source_proof \<Rightarrow> source_body" where
  "source_body_of s = source_body.truncate s"

definition source_sign_bound ::
  "crypto \<Rightarrow> control_chain \<Rightarrow> author_key \<Rightarrow> bytes \<Rightarrow> (blob_id, digest) fmap \<Rightarrow> trust_error + source_proof" where
  "source_sign_bound K ch key raw blobs =
     (let author = author_device K key in
      if \<not> bt_contains (c_members (head ch)) author then Err Unauthorized
      else bindR (head_hash K ch) (\<lambda>h.
      let proof' = \<lparr>sp_version = 1, sp_database = c_database (head ch),
            sp_trust_set = c_trust_set (head ch), sp_control = h, sp_author = author,
            sp_schema = sd_version (c_schema (head ch)), sp_change = sha256 K raw,
            sp_blobs = blobs, sp_signature = replicate 64 0\<rparr>
      in bindR (author_sign K key SOURCE_DOMAIN (PSource (source_body_of proof'))) (\<lambda>sig.
         Ok (proof'\<lparr>sp_signature := sig\<rparr>))))"

definition source_sign :: "crypto \<Rightarrow> control_chain \<Rightarrow> author_key \<Rightarrow> bytes \<Rightarrow> trust_error + source_proof" where
  "source_sign K ch key raw = source_sign_bound K ch key raw fmempty"

definition source_verify :: "crypto \<Rightarrow> source_proof \<Rightarrow> control_chain \<Rightarrow> bytes \<Rightarrow> trust_error + unit" where
  "source_verify K s ch raw =
     (if sp_version s \<noteq> 1 then Err UnsupportedVersion
      else if sp_database s \<noteq> c_database (head ch) \<or> sp_trust_set s \<noteq> c_trust_set (head ch)
      then Err Invalid
      else bindR (control_at K ch (sp_control s)) (\<lambda>control.
      if sp_schema s \<noteq> sd_version (c_schema control) \<or> sha256 K raw \<noteq> sp_change s
      then Err Invalid
      else bindR (control_at K ch (sp_control s)) (\<lambda>control.
      bindR (ok_or (fmlookup (c_members control) (sp_author s)) Unauthorized) (\<lambda>member.
      key_verify K (id_author (m_identity member)) SOURCE_DOMAIN (PSource (source_body_of s))
        (sp_signature s)))))"


subsection \<open>Manifest validation\<close>

lemma fold_objects:
  "foldR manifest_object t xs = Ok t' \<longleftrightarrow>
     (\<forall>(h, x) \<in> set xs. h = co_digest x \<and> co_length x \<noteq> 0 \<and> co_kind x \<noteq> LocalDraft)
     \<and> t' = t + sum_list (map (\<lambda>(h, x). co_length x) xs)
     \<and> (xs = [] \<or> t' \<le> U64_MAX)"
proof (induction xs arbitrary: t)
  case (Cons y xs)
  obtain h x where y: "y = (h, x)" by fastforce
  have "foldR manifest_object t (y # xs) = Ok t' \<longleftrightarrow>
      (h = co_digest x \<and> co_length x \<noteq> 0 \<and> co_kind x \<noteq> LocalDraft) \<and> t + co_length x \<le> U64_MAX
      \<and> foldR manifest_object (t + co_length x) xs = Ok t'"
    by (auto simp: manifest_object_def y)
  also have "\<dots> \<longleftrightarrow> (\<forall>(h, x) \<in> set (y # xs). h = co_digest x \<and> co_length x \<noteq> 0 \<and> co_kind x \<noteq> LocalDraft)
      \<and> t' = t + sum_list (map (\<lambda>(h, x). co_length x) (y # xs)) \<and> t' \<le> U64_MAX"
    unfolding Cons.IH y by auto
  finally show ?case by simp
qed auto

definition manifest_total :: "manifest \<Rightarrow> nat" where
  "manifest_total body = sum_list (map co_length (bt_values (mf_objects body)))"

lemma GIB16_small: "GIB16 < U64_MAX"
  by (simp add: GIB16_def U64_MAX_def)

lemma has_kind_iff: "has_kind objects h k \<longleftrightarrow> (\<exists>x. fmlookup objects h = Some x \<and> co_kind x = k)"
  by (auto simp: has_kind_def split: option.splits)

lemma manifest_total_iter:
  "manifest_total body = sum_list (map (\<lambda>(h, x). co_length x) (bt_iter (mf_objects body)))"
  by (simp add: manifest_total_def bt_values_def comp_def case_prod_unfold)

lemma composition_accepted:
  "manifest_validate K body ch = Ok () \<longleftrightarrow>
     mf_version body = 1 \<and> mf_database body = c_database (head ch)
     \<and> mf_trust_set body = c_trust_set (head ch)
     \<and> (\<exists>c. control_at K ch (mf_control body) = Ok c)
     \<and> 0 < bt_len (mf_objects body) \<and> bt_len (mf_objects body) \<le> 100000 \<and> manifest_total body \<le> GIB16
     \<and> fmpred (\<lambda>h x. h = co_digest x \<and> 0 < co_length x \<and> co_kind x \<noteq> LocalDraft) (mf_objects body)
     \<and> has_kind (mf_objects body) (mf_checkpoint body) Checkpoint
     \<and> has_kind (mf_objects body) (mf_baseline body) Baseline"
proof -
  have ob: "(\<exists>t. foldR manifest_object 0 (bt_iter (mf_objects body)) = Ok t \<and> t \<le> GIB16) \<longleftrightarrow>
      fmpred (\<lambda>h x. h = co_digest x \<and> 0 < co_length x \<and> co_kind x \<noteq> LocalDraft) (mf_objects body)
      \<and> manifest_total body \<le> GIB16"
    using GIB16_small by (auto simp: fold_objects manifest_total_iter fmpred_iff)
  have "manifest_validate K body ch = Ok () \<longleftrightarrow> mf_version body = 1
     \<and> mf_database body = c_database (head ch) \<and> mf_trust_set body = c_trust_set (head ch)
     \<and> 0 < bt_len (mf_objects body) \<and> bt_len (mf_objects body) \<le> 100000
     \<and> (\<exists>c. control_at K ch (mf_control body) = Ok c)
     \<and> (\<exists>t. foldR manifest_object 0 (bt_iter (mf_objects body)) = Ok t \<and> t \<le> GIB16)
     \<and> has_kind (mf_objects body) (mf_checkpoint body) Checkpoint
     \<and> has_kind (mf_objects body) (mf_baseline body) Baseline"
    by (auto simp: manifest_validate_def not_less simp del: bt_len_0)
  then show ?thesis unfolding ob by blast
qed

text \<open>
  C39: a manifest composition is accepted exactly when it belongs to the chain's lineage,
  names a control of the chain, is not empty and within the limits, lists every object
  under its own digest with a nonzero length and never a local draft, and names a
  checkpoint and a baseline that are such objects; the running total never overflows.
\<close>

theorem manifest_validate_iff:
  "manifest_validate K body ch = Ok () \<longleftrightarrow>
     mf_version body = 1 \<and> mf_database body = c_database (head ch)
     \<and> mf_trust_set body = c_trust_set (head ch)
     \<and> (\<exists>c. control_at K ch (mf_control body) = Ok c)
     \<and> 0 < bt_len (mf_objects body) \<and> bt_len (mf_objects body) \<le> 100000 \<and> manifest_total body \<le> GIB16
     \<and> fmpred (\<lambda>h x. h = co_digest x \<and> 0 < co_length x \<and> co_kind x \<noteq> LocalDraft) (mf_objects body)
     \<and> has_kind (mf_objects body) (mf_checkpoint body) Checkpoint
     \<and> has_kind (mf_objects body) (mf_baseline body) Baseline"
  by (rule composition_accepted)

subsection \<open>Objects checked at their origin\<close>

text \<open>A verified extension of a chain, as \<open>transition\<close> and \<open>reconcile\<close> produce.\<close>

definition grows :: "crypto \<Rightarrow> control_chain \<Rightarrow> control_chain \<Rightarrow> bool" where
  "grows K ch ch' \<longleftrightarrow> ch \<noteq> [] \<and> prefix ch ch' \<and> (\<exists>recs r. validate K recs r = Ok ch')"

lemma find_control_append: "find_control K ch h = Some c \<Longrightarrow> find_control K (ch @ ext) h = Some c"
  by (induction ch) (auto split: sum.splits if_splits)

lemma grows_control_at: "grows K ch ch' \<Longrightarrow> control_at K ch h = Ok c \<Longrightarrow> control_at K ch' h = Ok c"
  by (auto simp: grows_def prefix_def control_at_def find_control_append)

lemma head_nth: "ch \<noteq> [] \<Longrightarrow> head ch = sc_body (ch ! (length ch - 1))"
  by (simp add: head_def last_conv_nth)

lemma grows_lineage:
  assumes "grows K ch ch'"
  shows "c_database (head ch') = c_database (head ch) \<and> c_trust_set (head ch') = c_trust_set (head ch)"
proof -
  obtain recs r ext where v: "validate K recs r = Ok ch'" and ext: "ch' = ch @ ext" and ne: "ch \<noteq> []"
    using assms by (auto simp: grows_def prefix_def)
  have "head ch = sc_body (ch' ! (length ch - 1))" using ne ext by (simp add: head_nth nth_append)
  moreover have "head ch' = sc_body (ch' ! (length ch' - 1))" using ne ext by (simp add: head_nth)
  ultimately show ?thesis
    using chain_frame [OF v, of "length ch - 1" "length ch' - 1"] ne ext by simp
qed

lemma control_at_nth:
  "control_at K ch h = Ok c \<Longrightarrow> \<exists>i < length ch. sc_hash K (ch ! i) = Ok h \<and> sc_body (ch ! i) = c"
  using find_control_Some by (auto simp: control_at_def)

text \<open>
  The contract shared by the three signed objects: acceptance rests on the lineage of the
  chain, on the control the body names and on a key admitted by that control.
\<close>

locale origin_checked =
  fixes check :: "crypto \<Rightarrow> 's \<Rightarrow> control_chain \<Rightarrow> 'w \<Rightarrow> trust_error + unit"
    and lineage :: "'s \<Rightarrow> database_id \<times> trust_set_id"
    and origin :: "'s \<Rightarrow> digest"
    and signer :: "'s \<Rightarrow> device_id"
    and key_of :: "identity \<Rightarrow> public_key"
    and dom :: bytes
    and body_of :: "'s \<Rightarrow> payload"
    and sig_of :: "'s \<Rightarrow> signature"
  assumes check_lineage: "check K s ch w = Ok () \<Longrightarrow> lineage s = (c_database (head ch), c_trust_set (head ch))"
    and check_signer: "check K s ch w = Ok () \<Longrightarrow> \<exists>c m. control_at K ch (origin s) = Ok c
      \<and> fmlookup (c_members c) (signer s) = Some m
      \<and> key_verify K (key_of (m_identity m)) dom (body_of s) (sig_of s) = Ok ()"
    and check_grows: "check K s ch w = Ok () \<Longrightarrow> grows K ch ch' \<Longrightarrow> check K s ch' w = Ok ()"
begin

lemma signer_admitted:
  assumes "check K s ch w = Ok ()" and "validate K recs r = Ok ch"
  shows "\<exists>i m. i < length ch \<and> control_at K ch (origin s) = Ok (sc_body (ch ! i))
    \<and> fmlookup (c_members (sc_body (ch ! i))) (signer s) = Some m
    \<and> id_device (m_identity m) = signer s
    \<and> signer s = device_id_of K (id_author (m_identity m)) \<and> admitted_at m \<le> i
    \<and> key_verify K (key_of (m_identity m)) dom (body_of s) (sig_of s) = Ok ()"
proof -
  obtain c m where c: "control_at K ch (origin s) = Ok c" and m: "fmlookup (c_members c) (signer s) = Some m"
    and k: "key_verify K (key_of (m_identity m)) dom (body_of s) (sig_of s) = Ok ()"
    using check_signer [OF assms(1)] by blast
  obtain i where i: "i < length ch" "sc_body (ch ! i) = c" using control_at_nth [OF c] by blast
  have "member_wf K (c_sequence c) (signer s) m" "c_sequence c = i"
    using chain_holds [OF assms(2) i(1)] i(2) m by (auto simp: body_wf_def fmpred_iff)
  then show ?thesis using c i m k by (auto simp: member_wf_def identity_validate_Ok)
qed

lemma other_lineage_refused:
  "check K s ch w = Ok () \<Longrightarrow>
     (c_database (head ch'), c_trust_set (head ch')) \<noteq> (c_database (head ch), c_trust_set (head ch))
     \<Longrightarrow> check K s ch' w' \<noteq> Ok ()"
  using check_lineage by metis

end


lemma manifest_verify_Ok:
  "manifest_verify K s ch = Ok () \<longleftrightarrow> manifest_validate K (sm_body s) ch = Ok ()
     \<and> (\<exists>c m. control_at K ch (mf_control (sm_body s)) = Ok c
        \<and> fmlookup (c_members c) (mf_signer (sm_body s)) = Some m
        \<and> key_verify K (id_transport (m_identity m)) MANIFEST_DOMAIN (PManifest (sm_body s))
             (sm_signature s) = Ok ())"
  by (auto simp: manifest_verify_def)

text \<open>Who may certify a baseline: the manager, or the one who just handed management over.\<close>

definition baseline_authority :: "crypto \<Rightarrow> control_chain \<Rightarrow> control \<Rightarrow> device_id \<Rightarrow> bool" where
  "baseline_authority K ch c author \<longleftrightarrow> author = c_manager c
     \<or> (\<exists>h p. c_handoff c = Some h \<and> control_at K ch (hc_previous h) = Ok p \<and> c_manager p = author)"

lemma envelope_verify_Ok:
  "envelope_verify K e ch = Ok () \<longleftrightarrow> eb_version e = 1
     \<and> eb_database e = c_database (head ch) \<and> eb_trust_set e = c_trust_set (head ch)
     \<and> 0 < eb_length e \<and> eb_length e \<le> GIB16
     \<and> (\<exists>c m. control_at K ch (eb_control e) = Ok c \<and> eb_epoch e = c_epoch c
        \<and> fmlookup (c_members c) (eb_author e) = Some m
        \<and> (eb_kind e = Baseline \<longrightarrow> baseline_authority K ch c (eb_author e))
        \<and> key_verify K (id_author (m_identity m)) ENVELOPE_DOMAIN (PEnvelope (envelope_body_of e))
             (oe_signature e) = Ok ())"
proof -
  have "(if eb_kind e = Baseline \<and> eb_author e \<noteq> c_manager c
         then bindR (ok_or (c_handoff c) Unauthorized) (\<lambda>handoff.
              bindR (control_at K ch (hc_previous handoff)) (\<lambda>prior.
              if c_manager prior \<noteq> eb_author e then Err Unauthorized else Ok ()))
         else Ok ()) = Ok () \<longleftrightarrow>
      (eb_kind e = Baseline \<longrightarrow> baseline_authority K ch c (eb_author e))" for c
    by (auto simp: baseline_authority_def)
  then show ?thesis by (auto simp: envelope_verify_def not_less)
qed

lemma source_verify_Ok:
  "source_verify K s ch raw = Ok () \<longleftrightarrow> sp_version s = 1
     \<and> sp_database s = c_database (head ch) \<and> sp_trust_set s = c_trust_set (head ch)
     \<and> sp_change s = sha256 K raw
     \<and> (\<exists>c m. control_at K ch (sp_control s) = Ok c \<and> sp_schema s = sd_version (c_schema c)
        \<and> fmlookup (c_members c) (sp_author s) = Some m
        \<and> key_verify K (id_author (m_identity m)) SOURCE_DOMAIN (PSource (source_body_of s))
             (sp_signature s) = Ok ())"
  by (auto simp: source_verify_def)

lemma baseline_authority_grows:
  "grows K ch ch' \<Longrightarrow> baseline_authority K ch c d \<Longrightarrow> baseline_authority K ch' c d"
  using grows_control_at unfolding baseline_authority_def by blast

lemma manifest_validate_grows:
  "manifest_validate K b ch = Ok () \<Longrightarrow> grows K ch ch' \<Longrightarrow> manifest_validate K b ch' = Ok ()"
  using grows_control_at grows_lineage unfolding composition_accepted by metis

interpretation manifest_origin: origin_checked "\<lambda>K s ch (w :: unit). manifest_verify K s ch"
  "\<lambda>s. (mf_database (sm_body s), mf_trust_set (sm_body s))" "\<lambda>s. mf_control (sm_body s)"
  "\<lambda>s. mf_signer (sm_body s)" id_transport MANIFEST_DOMAIN "\<lambda>s. PManifest (sm_body s)" sm_signature
proof unfold_locales
  fix K s ch ch' and w :: unit
  assume "manifest_verify K s ch = Ok ()" and "grows K ch ch'"
  then show "manifest_verify K s ch' = Ok ()"
    using manifest_validate_grows grows_control_at unfolding manifest_verify_Ok by blast
qed (auto simp: manifest_verify_Ok composition_accepted)

interpretation envelope_origin: origin_checked "\<lambda>K s ch (w :: unit). envelope_verify K s ch"
  "\<lambda>s. (eb_database s, eb_trust_set s)" eb_control eb_author id_author ENVELOPE_DOMAIN
  "\<lambda>s. PEnvelope (envelope_body_of s)" oe_signature
proof unfold_locales
  fix K s ch ch' and w :: unit
  assume "envelope_verify K s ch = Ok ()" and "grows K ch ch'"
  then show "envelope_verify K s ch' = Ok ()"
    using baseline_authority_grows [OF \<open>grows K ch ch'\<close>]
    by (fastforce simp: envelope_verify_Ok grows_lineage dest: grows_control_at)
qed (auto simp: envelope_verify_Ok)

interpretation source_origin: origin_checked source_verify
  "\<lambda>s. (sp_database s, sp_trust_set s)" sp_control sp_author id_author SOURCE_DOMAIN
  "\<lambda>s. PSource (source_body_of s)" sp_signature
proof unfold_locales
  fix K s ch ch' w
  assume "source_verify K s ch w = Ok ()" and "grows K ch ch'"
  then show "source_verify K s ch' w = Ok ()"
    by (fastforce simp: source_verify_Ok grows_lineage dest: grows_control_at)
qed (auto simp: source_verify_Ok)


subsection \<open>What is signed verifies\<close>

text \<open>No two controls of the chain share a hash: SHA-256 does not collide on them.\<close>

definition collision_free :: "crypto \<Rightarrow> control_chain \<Rightarrow> bool" where
  "collision_free K ch \<longleftrightarrow> distinct (map (sc_hash K) ch)"

lemma find_control_nth:
  "collision_free K ch \<Longrightarrow> i < length ch \<Longrightarrow> sc_hash K (ch ! i) = Ok h
    \<Longrightarrow> find_control K ch h = Some (sc_body (ch ! i))"
proof (induction ch arbitrary: i)
  case (Cons s ch)
  show ?case
  proof (cases i)
    case 0
    then show ?thesis using Cons.prems by simp
  next
    case (Suc j)
    then have j: "j < length ch" "sc_hash K (ch ! j) = Ok h" using Cons.prems by auto
    moreover have "sc_hash K s \<noteq> Ok h"
    proof -
      have "sc_hash K (ch ! j) \<in> sc_hash K ` set ch" using j(1) by simp
      then show ?thesis using Cons.prems(1) j(2) by (auto simp: collision_free_def)
    qed
    moreover have "collision_free K ch" using Cons.prems by (simp add: collision_free_def)
    ultimately show ?thesis using Cons.IH [of j] Suc by (auto split: sum.splits)
  qed
qed simp

lemma control_at_head:
  "collision_free K ch \<Longrightarrow> ch \<noteq> [] \<Longrightarrow> head_hash K ch = Ok h \<Longrightarrow> control_at K ch h = Ok (head ch)"
  using find_control_nth [of K ch "length ch - 1" h]
  by (simp add: control_at_def head_hash_def head_def last_conv_nth)

lemma envelope_body_sig [simp]: "envelope_body_of (e\<lparr>oe_signature := s\<rparr>) = envelope_body_of e"
  by (simp add: envelope_body_of_def envelope_body.truncate_def)

lemma source_body_sig [simp]: "source_body_of (e\<lparr>sp_signature := s\<rparr>) = source_body_of e"
  by (simp add: source_body_of_def source_body.truncate_def)


lemma manifest_sign_verifies:
  "crypto_laws K \<Longrightarrow> manifest_sign K body ch tkey = Ok sm \<Longrightarrow>
     manifest_verify K sm ch = Ok () \<and> sm_body sm = body"
  using transport_sign_verify by (auto simp: manifest_sign_def manifest_verify_Ok)

lemma source_sign_verifies:
  assumes laws: "crypto_laws K" and at: "control_at K ch h = Ok (head ch)" and h: "head_hash K ch = Ok h"
    and m: "fmlookup (c_members (head ch)) (author_device K key) = Some m"
    and key: "author_public K key = id_author (m_identity m)"
  shows "\<exists>s. source_sign_bound K ch key raw blobs = Ok s
    \<and> (\<forall>raw'. source_verify K s ch raw' = Ok () \<longleftrightarrow> sha256 K raw' = sha256 K raw)"
proof -
  let ?p = "\<lparr>sp_version = 1, sp_database = c_database (head ch),
          sp_trust_set = c_trust_set (head ch), sp_control = h, sp_author = author_device K key,
          sp_schema = sd_version (c_schema (head ch)), sp_change = sha256 K raw,
          sp_blobs = blobs, sp_signature = replicate 64 0\<rparr>"
  obtain sig where sig: "author_sign K key SOURCE_DOMAIN (PSource (source_body_of ?p)) = Ok sig"
    using author_sign_total [OF laws] by blast
  have "source_sign_bound K ch key raw blobs = Ok (?p\<lparr>sp_signature := sig\<rparr>)"
    using m h sig by (simp add: source_sign_bound_def Let_def bt_contains_def)
  moreover have "source_verify K (?p\<lparr>sp_signature := sig\<rparr>) ch raw' = Ok ()
      \<longleftrightarrow> sha256 K raw' = sha256 K raw" for raw'
    using at m author_sign_verify [OF laws sig] key
    by (auto simp: source_verify_Ok source_body_of_def source_body.truncate_def)
  ultimately show ?thesis by blast
qed

lemma envelope_sign_iff:
  assumes laws: "crypto_laws K" and at: "control_at K ch h = Ok (head ch)" and h: "head_hash K ch = Ok h"
    and m: "fmlookup (c_members (head ch)) (author_device K key) = Some m"
    and key: "author_public K key = id_author (m_identity m)"
  shows "(\<exists>e. envelope_sign K ch key kind len c = Ok e) \<longleftrightarrow> 0 < len \<and> len \<le> GIB16
        \<and> (kind = Baseline \<longrightarrow> baseline_authority K ch (head ch) (author_device K key))"
proof -
  let ?e = "\<lparr>eb_version = 1, eb_database = c_database (head ch), eb_trust_set = c_trust_set (head ch),
         eb_control = h, eb_epoch = c_epoch (head ch), eb_kind = kind,
         eb_author = author_device K key, eb_length = len, eb_ciphertext = c,
         oe_signature = replicate 64 0\<rparr>"
  obtain sig where sig: "author_sign K key ENVELOPE_DOMAIN (PEnvelope (envelope_body_of ?e)) = Ok sig"
    using author_sign_total [OF laws] by blast
  have "(\<exists>e. envelope_sign K ch key kind len c = Ok e)
      \<longleftrightarrow> envelope_verify K (?e\<lparr>oe_signature := sig\<rparr>) ch = Ok ()"
    using h sig by (simp add: envelope_sign_def Let_def)
  then show ?thesis
    using at m author_sign_verify [OF laws sig] key
    by (auto simp: envelope_verify_Ok envelope_body_of_def envelope_body.truncate_def)
qed

lemma envelope_sign_verified:
  "envelope_sign K ch key kind len c = Ok e \<Longrightarrow> envelope_verify K e ch = Ok () \<and> eb_kind e = kind"
  by (auto simp: envelope_sign_def Let_def)

lemma toy_member:
  "fmlookup (c_members (head toy_chain)) (author_device toy_crypto toy_key)
     = Some \<lparr>m_identity = toy_identity, admitted_at = 0\<rparr>"
  using toy_head(2) by (simp add: toy_key_simps)

text \<open>
  What was accepted stays accepted: a manifest, an envelope and a source proof that
  verified against a chain verify against every verified extension of it, whatever members
  were revoked, keys rotated or managers changed since (current admission is a separate
  check of the caller).
\<close>

theorem accepted_survives_growth:
  assumes "grows K ch ch'"
  shows "(manifest_verify K m ch = Ok () \<longrightarrow> manifest_verify K m ch' = Ok ())
    \<and> (envelope_verify K e ch = Ok () \<longrightarrow> envelope_verify K e ch' = Ok ())
    \<and> (source_verify K s ch raw = Ok () \<longrightarrow> source_verify K s ch' raw = Ok ())"
  using manifest_origin.check_grows envelope_origin.check_grows source_origin.check_grows assms by blast

theorem accepted_survives_growth_witness:
  "\<exists>ch' s. ch' \<noteq> toy_chain \<and> grows toy_crypto toy_chain ch' \<and> source_verify toy_crypto s ch' [1, 2] = Ok ()"
proof -
  obtain ch' where t: "transition toy_crypto toy_chain toy_key [5] (PolicyChange [4]) = Ok ch'"
    using toy_transition by blast
  obtain s' where "ch' = toy_chain @ [s']" "\<exists>r. validate toy_crypto ch' r = Ok ch'"
    using t toy_fresh by (auto simp: transition_fresh validate_Ok)
  then have g: "grows toy_crypto toy_chain ch'" "ch' \<noteq> toy_chain" by (auto simp: grows_def)
  obtain s where "source_verify toy_crypto s toy_chain [1, 2] = Ok ()"
    using source_sign_verifies [OF toy_crypto_laws toy_head(5,4) toy_member toy_key_matches] by blast
  then show ?thesis using accepted_survives_growth [OF g(1)] g by blast
qed

text \<open>
  C32: in a validated chain an accepted object was authored by a device that the control it
  names had admitted under that very author key; a baseline moreover by the manager of that
  control or by the manager of the control directly before it, who handed management over.
\<close>

theorem envelope_authority:
  assumes v: "validate K recs r = Ok ch" and e: "envelope_verify K e ch = Ok ()"
  shows "\<exists>i m. i < length ch \<and> control_at K ch (eb_control e) = Ok (sc_body (ch ! i))
    \<and> fmlookup (c_members (sc_body (ch ! i))) (eb_author e) = Some m
    \<and> eb_author e = device_id_of K (id_author (m_identity m))
    \<and> key_verify K (id_author (m_identity m)) ENVELOPE_DOMAIN (PEnvelope (envelope_body_of e))
         (oe_signature e) = Ok ()
    \<and> (eb_kind e = Baseline \<and> eb_author e \<noteq> c_manager (sc_body (ch ! i)) \<longrightarrow>
         0 < i \<and> (\<exists>j < length ch. eb_author e = c_manager (sc_body (ch ! j))
           \<and> sc_hash K (ch ! j) = sc_hash K (ch ! (i - 1))))"
proof -
  obtain i m where i: "i < length ch" "control_at K ch (eb_control e) = Ok (sc_body (ch ! i))"
    "fmlookup (c_members (sc_body (ch ! i))) (eb_author e) = Some m"
    "eb_author e = device_id_of K (id_author (m_identity m))"
    "key_verify K (id_author (m_identity m)) ENVELOPE_DOMAIN (PEnvelope (envelope_body_of e))
       (oe_signature e) = Ok ()"
    using envelope_origin.signer_admitted [OF e v] by blast
  have "0 < i \<and> (\<exists>j < length ch. eb_author e = c_manager (sc_body (ch ! j))
      \<and> sc_hash K (ch ! j) = sc_hash K (ch ! (i - 1)))"
    if b: "eb_kind e = Baseline" and d: "eb_author e \<noteq> c_manager (sc_body (ch ! i))"
  proof -
    obtain h p where h: "c_handoff (sc_body (ch ! i)) = Some h" "control_at K ch (hc_previous h) = Ok p"
      "c_manager p = eb_author e"
      using e b d i(2) by (auto simp: envelope_verify_Ok baseline_authority_def)
    have "0 < i"
      using h(1) v by (cases i) (auto simp: validate_Ok validate_genesis_def Let_def)
    then obtain t where "handoff_matches K (ch ! (i - 1)) t (sc_body (ch ! i))"
      using chain_link [OF v, of "i - 1"] i(1) by (auto simp: signed_step_def)
    then have "sc_hash K (ch ! (i - 1)) = Ok (hc_previous h)"
      using h(1) consent_verify_Ok by (fastforce simp: handoff_matches_def split: control_transition.splits)
    then show ?thesis using control_at_nth [OF h(2)] h(3) \<open>0 < i\<close> by auto
  qed
  then show ?thesis using i by blast
qed

theorem envelope_authority_witness:
  "\<exists>e. envelope_verify toy_crypto e toy_chain = Ok () \<and> eb_kind e = Baseline
    \<and> eb_author e = id_device toy_identity"
proof -
  have "baseline_authority toy_crypto toy_chain (head toy_chain) (author_device toy_crypto toy_key)"
    using toy_head by (simp add: baseline_authority_def toy_key_simps)
  then obtain e where "envelope_sign toy_crypto toy_chain toy_key Baseline 5 [1] = Ok e"
    using envelope_sign_iff [OF toy_crypto_laws toy_head(5,4) toy_member toy_key_matches,
        of Baseline 5 "[1]"] by (auto simp: GIB16_def)
  then have e: "envelope_verify toy_crypto e toy_chain = Ok ()" "eb_kind e = Baseline"
    using envelope_sign_verified by blast+
  then show ?thesis
    using envelope_authority [OF toy_valid e(1)]
    by (auto simp: toy_body genesis_body_def split: if_splits)
qed

text \<open>
  Signing and verification agree. A manifest is signed only by the transport key its
  control admits for the named signer and then verifies; a member holding the author key of
  its admission always obtains a source proof, which verifies for the signed bytes and, for
  any other bytes, only if SHA-256 collides; an envelope is issued exactly when its length
  is within bounds and, for a baseline, when the author has the authority for it.
\<close>

theorem signed_objects_verify:
  assumes laws: "crypto_laws K" and v: "validate K recs r = Ok ch" and cf: "collision_free K ch"
    and m: "fmlookup (c_members (head ch)) (author_device K key) = Some m"
    and key: "author_public K key = id_author (m_identity m)"
  shows "(manifest_sign K body ch tkey = Ok sm \<longrightarrow> manifest_verify K sm ch = Ok () \<and> sm_body sm = body)
    \<and> (\<exists>s. source_sign_bound K ch key raw blobs = Ok s
        \<and> (source_verify K s ch raw' = Ok () \<longleftrightarrow> sha256 K raw' = sha256 K raw))
    \<and> ((\<exists>e. envelope_sign K ch key kind len c = Ok e) \<longleftrightarrow> 0 < len \<and> len \<le> GIB16
        \<and> (kind = Baseline \<longrightarrow> baseline_authority K ch (head ch) (author_device K key)))"
proof -
  have ne: "ch \<noteq> []" using v by (auto simp: validate_Ok)
  obtain h where h: "head_hash K ch = Ok h"
    using digest_object_total [OF laws] by (metis head_hash_def sc_hash_def)
  note at = control_at_head [OF cf ne h]
  show ?thesis
    using manifest_sign_verifies [OF laws] source_sign_verifies [OF laws at h m key]
      envelope_sign_iff [OF laws at h m key] by metis
qed

theorem signed_objects_verify_witness:
  "(\<exists>s. source_sign_bound toy_crypto toy_chain toy_key [1, 2] fmempty = Ok s
      \<and> source_verify toy_crypto s toy_chain [1, 2] = Ok ())
    \<and> (\<exists>e. envelope_sign toy_crypto toy_chain toy_key Baseline 5 [1] = Ok e)"
proof -
  have "collision_free toy_crypto toy_chain" by (simp add: collision_free_def)
  note w = signed_objects_verify [OF toy_crypto_laws toy_valid this toy_member toy_key_matches]
  have "baseline_authority toy_crypto toy_chain (head toy_chain) (author_device toy_crypto toy_key)"
    using toy_head by (simp add: baseline_authority_def toy_key_simps)
  then show ?thesis
    using w [where raw = "[1, 2]" and raw' = "[1, 2]" and blobs = fmempty and kind = Baseline
        and len = 5 and c = "[1]"]
    by (auto simp: GIB16_def)
qed

end
