(* ===== verification/Trust_Invitation.thy ===== *)
theory Trust_Invitation
  imports Trust_Manifest
begin

text \<open>
  \<open>crates/taypeer-trust/src/invitation.rs\<close>: a five-minute invitation signed by the manager,
  the recipient's join proof, and the one-time status record that binds a presentation.
\<close>

type_synonym invitation_secret = bytes

definition commitment :: "crypto \<Rightarrow> invitation_secret \<Rightarrow> digest" where
  "commitment K secret = sha256 K (ascii ''taypeer/invitation-secret/1'' @ secret)"

definition invitation_body_of :: "invitation \<Rightarrow> invitation_body" where
  "invitation_body_of i = invitation_body.truncate i"

definition invitation_create ::
  "crypto \<Rightarrow> control_chain \<Rightarrow> author_key \<Rightarrow> invitation_secret \<Rightarrow> nat \<Rightarrow> trust_error + invitation" where
  "invitation_create K ch key secret now =
     (let c = head ch in
      if c_manager c \<noteq> author_device K key then Err Unauthorized
      else bindR (chain_root K ch) (\<lambda>root.
      bindR (head_hash K ch) (\<lambda>control.
      bindR (map_index (c_members c) (c_manager c)) (\<lambda>member.
      bindR (ok_or (checked_add now 300) Limit) (\<lambda>expires.
      let result = \<lparr>inv_version = 1, inv_database = c_database c, inv_trust_set = c_trust_set c,
            inv_root = root, inv_control = control, inv_manager = c_manager c,
            inv_transport = id_transport (m_identity member), inv_token = commitment K secret,
            inv_issued_at = now, inv_expires_at = expires, inv_signature = replicate 64 0\<rparr>
      in bindR (author_sign K key INVITATION_DOMAIN (PInvitationBody (invitation_body_of result)))
           (\<lambda>sig. Ok (result\<lparr>inv_signature := sig\<rparr>)))))))"

definition invitation_verify :: "crypto \<Rightarrow> invitation \<Rightarrow> control_chain \<Rightarrow> nat \<Rightarrow> trust_error + unit" where
  "invitation_verify K i ch now =
     (if inv_version i \<noteq> 1 then Err Unauthorized
      else bindR (chain_root K ch) (\<lambda>root.
      if root \<noteq> inv_root i \<or> inv_database i \<noteq> c_database (head ch)
         \<or> inv_trust_set i \<noteq> c_trust_set (head ch) \<or> inv_manager i \<noteq> c_manager (head ch)
      then Err Unauthorized
      else if checked_add (inv_issued_at i) 300 \<noteq> Some (inv_expires_at i)
         \<or> now < inv_issued_at i \<or> now \<ge> inv_expires_at i
      then Err InvitationUnavailable
      else bindR (control_at K ch (inv_control i)) (\<lambda>issued.
      if c_manager issued \<noteq> inv_manager i
         \<or> list_ex (\<lambda>r. c_sequence (sc_body r) \<ge> c_sequence issued
              \<and> (c_manager (sc_body r) \<noteq> inv_manager i \<or> c_epoch (sc_body r) \<noteq> c_epoch issued)) ch
      then Err Stale
      else bindR (ok_or (fmlookup (c_members issued) (inv_manager i)) Unauthorized) (\<lambda>m.
      if id_transport (m_identity m) \<noteq> inv_transport i then Err Unauthorized
      else key_verify K (id_author (m_identity m)) INVITATION_DOMAIN
             (PInvitationBody (invitation_body_of i)) (inv_signature i)))))"

definition invitation_id :: "crypto \<Rightarrow> invitation \<Rightarrow> trust_error + digest" where
  "invitation_id K i = digest_object K INVITATION_DOMAIN (PInvitation i)"

definition join_sign ::
  "crypto \<Rightarrow> invitation \<Rightarrow> identity \<Rightarrow> author_key \<Rightarrow> trust_error + join_proof" where
  "join_sign K invite recipient key =
     bindR (identity_validate K recipient) (\<lambda>_.
     if author_public K key \<noteq> id_author recipient then Err Unauthorized
     else bindR (invitation_id K invite) (\<lambda>h.
     bindR (author_sign K key JOIN_DOMAIN (PJoin h recipient)) (\<lambda>sig.
     Ok \<lparr>jp_invitation = h, jp_recipient = recipient, jp_signature = sig\<rparr>)))"

definition join_verify :: "crypto \<Rightarrow> join_proof \<Rightarrow> invitation \<Rightarrow> public_key \<Rightarrow> trust_error + unit" where
  "join_verify K p invite peer =
     bindR (identity_validate K (jp_recipient p)) (\<lambda>_.
     bindR (invitation_id K invite) (\<lambda>h.
     if jp_invitation p \<noteq> h \<or> id_transport (jp_recipient p) \<noteq> peer then Err Unauthorized
     else key_verify K (id_author (jp_recipient p)) JOIN_DOMAIN
            (PJoin (jp_invitation p) (jp_recipient p)) (jp_signature p)))"

datatype invitation_status =
    Available
  | Requested join_proof
  | Accepted device_id digest
  | Rejected
  | Cancelled

text \<open>The new status; on an error the source leaves the status as it was.\<close>

definition request ::
  "crypto \<Rightarrow> invitation_status \<Rightarrow> invitation \<Rightarrow> invitation_secret \<Rightarrow> join_proof \<Rightarrow> public_key
     \<Rightarrow> control_chain \<Rightarrow> nat \<Rightarrow> trust_error + invitation_status" where
  "request K self invite secret p peer ch now =
     bindR (invitation_verify K invite ch now) (\<lambda>_.
     bindR (join_verify K p invite peer) (\<lambda>_.
     if commitment K secret \<noteq> inv_token invite then Err Unauthorized
     else (case self of
         Available \<Rightarrow> Ok (Requested p)
       | Requested existing \<Rightarrow> if existing = p then Ok self else Err InvitationUnavailable
       | _ \<Rightarrow> Err InvitationUnavailable)))"

subsection \<open>Issuing and checking\<close>

lemma invitation_verify_Ok:
  "invitation_verify K i ch now = Ok () \<longleftrightarrow> inv_version i = 1 \<and> chain_root K ch = Ok (inv_root i)
     \<and> inv_database i = c_database (head ch) \<and> inv_trust_set i = c_trust_set (head ch)
     \<and> inv_manager i = c_manager (head ch)
     \<and> inv_expires_at i = inv_issued_at i + 300 \<and> inv_issued_at i + 300 \<le> U64_MAX
     \<and> inv_issued_at i \<le> now \<and> now < inv_expires_at i
     \<and> (\<exists>c m. control_at K ch (inv_control i) = Ok c \<and> c_manager c = inv_manager i
        \<and> (\<forall>r \<in> set ch. c_sequence c \<le> c_sequence (sc_body r) \<longrightarrow>
             c_manager (sc_body r) = inv_manager i \<and> c_epoch (sc_body r) = c_epoch c)
        \<and> fmlookup (c_members c) (inv_manager i) = Some m
        \<and> id_transport (m_identity m) = inv_transport i
        \<and> key_verify K (id_author (m_identity m)) INVITATION_DOMAIN
             (PInvitationBody (invitation_body_of i)) (inv_signature i) = Ok ())"
  by (auto simp: invitation_verify_def list_ex_iff not_less not_le) (use leD in blast)+

lemma invitation_body_sig [simp]:
  "invitation_body_of (i\<lparr>inv_signature := s\<rparr>) = invitation_body_of i"
  by (simp add: invitation_body_of_def invitation_body.truncate_def)

lemma seq_from_head:
  assumes v: "validate K recs r = Ok ch" and s: "s \<in> set ch" and "c_sequence (head ch) \<le> c_sequence (sc_body s)"
  shows "sc_body s = head ch"
proof -
  obtain i where i: "i < length ch" "s = ch ! i" using s by (auto simp: in_set_conv_nth)
  have "c_sequence (sc_body s) = i" using chain_holds [OF v i(1)] i by simp
  moreover have "ch \<noteq> []" using i by auto
  ultimately have "i = length ch - 1" using chain_head(2) [OF v] assms(3) i by simp
  then show ?thesis using i \<open>ch \<noteq> []\<close> by (simp add: head_nth)
qed

lemma invitation_create_Ok:
  assumes laws: "crypto_laws K" and v: "validate K recs r = Ok ch" and cf: "collision_free K ch"
    and m: "fmlookup (c_members (head ch)) (c_manager (head ch)) = Some m"
    and key: "author_public K key = id_author (m_identity m)" and now: "now + 300 \<le> U64_MAX"
  shows "\<exists>i. invitation_create K ch key secret now = Ok i \<and> inv_token i = commitment K secret
    \<and> (\<forall>t. invitation_verify K i ch t = Ok () \<longleftrightarrow> now \<le> t \<and> t < now + 300)"
proof -
  have ne: "ch \<noteq> []" using v by (auto simp: validate_Ok)
  have "member_wf K (c_sequence (head ch)) (c_manager (head ch)) m"
    using chain_head(1) [OF v] m by (auto simp: body_wf_def fmpred_iff)
  then have dev: "c_manager (head ch) = author_device K key"
    using key by (simp add: member_wf_def identity_validate_Ok author_device_def)
  obtain h where h: "head_hash K ch = Ok h"
    using digest_object_total [OF laws] by (metis head_hash_def sc_hash_def)
  have at: "control_at K ch h = Ok (head ch)" by (rule control_at_head [OF cf ne h])
  let ?i = "\<lparr>inv_version = 1, inv_database = c_database (head ch), inv_trust_set = c_trust_set (head ch),
            inv_root = r, inv_control = h, inv_manager = c_manager (head ch),
            inv_transport = id_transport (m_identity m), inv_token = commitment K secret,
            inv_issued_at = now, inv_expires_at = now + 300, inv_signature = replicate 64 0\<rparr>"
  obtain sig where sig: "author_sign K key INVITATION_DOMAIN (PInvitationBody (invitation_body_of ?i)) = Ok sig"
    using author_sign_total [OF laws] by blast
  have add: "checked_add now 300 = Some (now + 300)" using now by simp
  have "invitation_create K ch key secret now = Ok (?i\<lparr>inv_signature := sig\<rparr>)"
    using m h sig add chain_head(4) [OF v] dev
    by (simp add: invitation_create_def Let_def map_index_def)
  moreover have "invitation_verify K (?i\<lparr>inv_signature := sig\<rparr>) ch t = Ok () \<longleftrightarrow> now \<le> t \<and> t < now + 300" for t
    using at m author_sign_verify [OF laws sig] key now chain_head(4) [OF v]
    by (auto simp: invitation_verify_Ok invitation_body_of_def invitation_body.truncate_def
        dest!: seq_from_head [OF v])
  ultimately show ?thesis
    by (intro exI [of _ "?i\<lparr>inv_signature := sig\<rparr>"]) simp
qed

text \<open>
  The manager of a validated chain can always issue an invitation (unless the clock is
  within five minutes of overflow), and against that chain it is valid at exactly the
  seconds of the half-open window of 300 seconds starting at its issue.
\<close>

theorem invitation_window:
  assumes "crypto_laws K" and "validate K recs r = Ok ch" and "collision_free K ch"
    and "fmlookup (c_members (head ch)) (c_manager (head ch)) = Some m"
    and "author_public K key = id_author (m_identity m)" and "now + 300 \<le> U64_MAX"
  shows "\<exists>i. invitation_create K ch key secret now = Ok i \<and> inv_token i = commitment K secret
    \<and> (\<forall>t. invitation_verify K i ch t = Ok () \<longleftrightarrow> now \<le> t \<and> t < now + 300)"
  by (rule invitation_create_Ok [OF assms])

lemma toy_collision_free: "collision_free toy_crypto toy_chain"
  by (simp add: collision_free_def)

theorem invitation_window_witness:
  "\<exists>i. invitation_create toy_crypto toy_chain toy_key [1] 1000 = Ok i
    \<and> invitation_verify toy_crypto i toy_chain 1299 = Ok ()
    \<and> invitation_verify toy_crypto i toy_chain 1300 \<noteq> Ok ()"
proof -
  have "(1000 :: nat) + 300 \<le> U64_MAX" by (simp add: U64_MAX_def)
  from invitation_window [OF toy_crypto_laws toy_valid toy_collision_free toy_manager toy_key_matches this]
  obtain i where "invitation_create toy_crypto toy_chain toy_key [1] 1000 = Ok i"
    and iff: "\<forall>t. invitation_verify toy_crypto i toy_chain t = Ok () \<longleftrightarrow> 1000 \<le> t \<and> t < 1000 + 300"
    by blast
  moreover have "invitation_verify toy_crypto i toy_chain 1299 = Ok ()"
    "invitation_verify toy_crypto i toy_chain 1300 \<noteq> Ok ()" using iff by simp_all
  ultimately show ?thesis by blast
qed


subsection \<open>Uninterrupted management\<close>

lemma member_persists:
  assumes v: "validate K recs r = Ok ch" and "n \<le> k" and "k < length ch"
    and m: "fmlookup (c_members (sc_body (ch ! n))) d = Some m"
    and present: "\<forall>j \<in> {n..<length ch}. bt_contains (c_members (sc_body (ch ! j))) d"
  shows "fmlookup (c_members (sc_body (ch ! k))) d = Some m"
  using assms(2,3)
proof (induction k rule: dec_induct)
  case base
  show ?case by (rule m)
next
  case (step k)
  obtain t where "authority_step (abs_control (sc_body (ch ! k))) t (abs_control (sc_body (ch ! Suc k)))"
    using chain_step [OF v step.prems] by blast
  moreover have "bt_contains (c_members (sc_body (ch ! Suc k))) d" using step present by simp
  ultimately show ?case
    using step_member [of "abs_control (sc_body (ch ! k))" t _ d] step
    by (fastforce simp: bt_contains_def)
qed

text \<open>
  C36: an invitation that verifies was issued by a manager who has managed without
  interruption since: in every control from the one it names through the head the manager
  is the issuer, the epoch is unchanged and the issuer holds the same admission, whose
  author key signed the invitation. Any rotation, revocation or transfer voids it.
\<close>

theorem invitation_uninterrupted:
  assumes v: "validate K recs r = Ok ch" and i: "invitation_verify K i ch now = Ok ()"
  shows "\<exists>n m. n < length ch \<and> control_at K ch (inv_control i) = Ok (sc_body (ch ! n))
    \<and> (\<forall>k \<in> {n..<length ch}. c_manager (sc_body (ch ! k)) = inv_manager i
         \<and> c_epoch (sc_body (ch ! k)) = c_epoch (sc_body (ch ! n))
         \<and> fmlookup (c_members (sc_body (ch ! k))) (inv_manager i) = Some m)
    \<and> key_verify K (id_author (m_identity m)) INVITATION_DOMAIN
         (PInvitationBody (invitation_body_of i)) (inv_signature i) = Ok ()"
proof -
  obtain c m where c: "control_at K ch (inv_control i) = Ok c"
    and later: "\<forall>s \<in> set ch. c_sequence c \<le> c_sequence (sc_body s) \<longrightarrow>
             c_manager (sc_body s) = inv_manager i \<and> c_epoch (sc_body s) = c_epoch c"
    and m: "fmlookup (c_members c) (inv_manager i) = Some m"
    and sig: "key_verify K (id_author (m_identity m)) INVITATION_DOMAIN
             (PInvitationBody (invitation_body_of i)) (inv_signature i) = Ok ()"
    using i unfolding invitation_verify_Ok by blast
  obtain n where n: "n < length ch" "sc_body (ch ! n) = c" using control_at_nth [OF c] by blast
  have same: "c_manager (sc_body (ch ! k)) = inv_manager i \<and> c_epoch (sc_body (ch ! k)) = c_epoch c"
    if "k \<in> {n..<length ch}" for k
    using later that chain_holds [OF v, of k] chain_holds [OF v n(1)] n by auto
  have "bt_contains (c_members (sc_body (ch ! k))) (inv_manager i)" if "k \<in> {n..<length ch}" for k
    using chain_wf [OF v, of k] same that by (auto simp: body_wf_def)
  then have "fmlookup (c_members (sc_body (ch ! k))) (inv_manager i) = Some m"
    if "k \<in> {n..<length ch}" for k
    using member_persists [OF v, of n k "inv_manager i" m] that m n by auto
  then show ?thesis using c n same sig by (intro exI [of _ n] exI [of _ m]) simp
qed

theorem invitation_uninterrupted_witness:
  "\<exists>i m. invitation_create toy_crypto toy_chain toy_key [1] 1000 = Ok i
    \<and> fmlookup (c_members (sc_body toy_signed)) (inv_manager i) = Some m"
proof -
  have "(1000 :: nat) + 300 \<le> U64_MAX" by (simp add: U64_MAX_def)
  from invitation_create_Ok [OF toy_crypto_laws toy_valid toy_collision_free toy_manager toy_key_matches this]
  obtain i where "invitation_create toy_crypto toy_chain toy_key [1] 1000 = Ok i"
    and "invitation_verify toy_crypto i toy_chain 1000 = Ok ()" by fastforce
  then show ?thesis using invitation_uninterrupted [OF toy_valid, of i 1000] by fastforce
qed

subsection \<open>Presentations\<close>

lemma join_sign_verifies:
  assumes laws: "crypto_laws K" and s: "join_sign K i d key = Ok p"
  shows "join_verify K p i (id_transport d) = Ok () \<and> jp_recipient p = d"
  using s author_sign_verify [OF laws, of key JOIN_DOMAIN] by (auto simp: join_sign_def join_verify_def)

lemma join_verify_peer:
  "join_verify K p i peer = Ok () \<Longrightarrow> id_transport (jp_recipient p) = peer
    \<and> invitation_id K i = Ok (jp_invitation p)"
  by (auto simp: join_verify_def)

type_synonym presentation =
  "invitation_secret \<times> join_proof \<times> public_key \<times> control_chain \<times> nat"

fun acceptable :: "crypto \<Rightarrow> invitation \<Rightarrow> presentation \<Rightarrow> bool" where
  "acceptable K i (secret, p, peer, ch, now) \<longleftrightarrow> invitation_verify K i ch now = Ok ()
     \<and> join_verify K p i peer = Ok () \<and> commitment K secret = inv_token i"

text \<open>A sequence of presentations against one persisted status; errors leave it unchanged.\<close>

fun present :: "crypto \<Rightarrow> invitation \<Rightarrow> invitation_status \<Rightarrow> presentation list \<Rightarrow> invitation_status" where
  "present K i st [] = st"
| "present K i st ((secret, p, peer, ch, now) # rest) =
     present K i (case request K st i secret p peer ch now of Inr st' \<Rightarrow> st' | Inl _ \<Rightarrow> st) rest"

lemma request_Ok:
  "request K st i secret p peer ch now = Ok st' \<longleftrightarrow>
     acceptable K i (secret, p, peer, ch, now) \<and> st' = Requested p \<and> st \<in> {Available, Requested p}"
  by (cases st) (auto simp: request_def)

lemma present_settled: "st \<noteq> Available \<Longrightarrow> present K i st ps = st"
proof (induction K i st ps rule: present.induct)
  case (2 K i st secret p peer ch now rest)
  have "(case request K st i secret p peer ch now of Inr st' \<Rightarrow> st' | Inl _ \<Rightarrow> st) = st"
    using 2(2) by (auto simp: request_Ok split: sum.splits)
  then show ?case using 2 by simp
qed simp

lemma present_available:
  "present K i Available ps =
     (case List.find (acceptable K i) ps of None \<Rightarrow> Available | Some (_, p, _) \<Rightarrow> Requested p)"
proof (induction ps)
  case (Cons x ps)
  obtain secret p peer ch now where x: "x = (secret, p, peer, ch, now)" by (cases x) auto
  show ?case
  proof (cases "acceptable K i x")
    case True
    then have "request K Available i secret p peer ch now = Ok (Requested p)"
      by (simp add: request_Ok x)
    then show ?thesis using True by (simp add: x present_settled)
  next
    case False
    then have "\<exists>e. request K Available i secret p peer ch now = Err e"
      using request_Ok [of K Available i secret p peer ch now]
      by (cases "request K Available i secret p peer ch now") (auto simp: x)
    then show ?thesis using False Cons by (auto simp: x)
  qed
qed simp

text \<open>
  An invitation is bound once. Against one status record, any sequence of
  presentations by any peers leaves a fresh invitation bound to the first acceptable one, a
  settled status never changes, and a request succeeds exactly on a fresh invitation or as
  the equal retry of the bound proof.
\<close>

theorem invitation_bound_once:
  "present K i Available ps =
      (case List.find (acceptable K i) ps of None \<Rightarrow> Available | Some (_, p, _) \<Rightarrow> Requested p)
   \<and> present K i (Requested q) ps = Requested q \<and> present K i (Accepted d h) ps = Accepted d h
   \<and> present K i Rejected ps = Rejected \<and> present K i Cancelled ps = Cancelled
   \<and> (is_ok (request K st i secret p peer ch now) \<longleftrightarrow>
        acceptable K i (secret, p, peer, ch, now) \<and> st \<in> {Available, Requested p})"
proof (intro conjI)
  show "present K i Available ps =
      (case List.find (acceptable K i) ps of None \<Rightarrow> Available | Some (_, p, _) \<Rightarrow> Requested p)"
    by (rule present_available)
qed (simp_all only: present_settled is_ok_ex request_Ok ex_simps simp_thms invitation_status.distinct, blast?)

end
