(* ===== verification/Doc_Reader.thy ===== *)
theory Doc_Reader
  imports Core_Order Core_Values
begin

text \<open>
  Checked reading of the stored document: \<open>crates/taypeer-document/src/codec.rs\<close> and the
  read side of \<open>objects.rs\<close>.

  Automerge and \<open>serde_json\<close> are not part of the repository. A readable document is the
  record \<open>reader\<close>: \<open>rd_get_all obj key\<close> is \<open>ReadDoc::get_all\<close> (the concurrent values of a
  register with the identities of the operations that wrote them, or \<open>None\<close> on an Automerge
  error), \<open>rd_keys\<close> the keys of a map, \<open>rd_show\<close> and \<open>rd_obj_id\<close> the printing and building
  of object identities, which are linearly ordered; \<open>v_\<dots>\<close> are the accessors of
  \<open>automerge::Value\<close> and \<open>js_\<dots>\<close> the JSON decoders of the stored types.
\<close>

datatype doc_error =
    Validation validation_error
  | NotFound
  | Conflict
  | InvalidContext
  | DuplicateId
  | InvalidDocument
  | UnsupportedSchema
  | DocRandom

datatype object_id = GroupObj group_id | EntryObj entry_id

datatype object_address = ObjectAddress (addr_object: object_id) (addr_generation: generation_id)

record life_mark =
  lm_trashed :: bool
  lm_operation :: operation_id
  lm_observed :: "string fset"

record mutation_event =
  me_address :: object_address
  me_revision :: "revision_id option"

record purge_record =
  pr_operation :: operation_id
  pr_address :: object_address
  pr_covered :: "string fset"

record presence =
  ps_alive :: bool
  ps_operation :: string

record stored_revision =
  st_revision :: saved_revision
  st_changed_operations :: "string fset"
  st_submitted :: "entry_fields option"

record ('o, 'v, 'f) reader =
  rd_root :: 'o
  rd_get_all :: "'o \<Rightarrow> string \<Rightarrow> ('v \<times> 'o) list option"
  rd_keys :: "'o \<Rightarrow> string list"
  rd_show :: "'o \<Rightarrow> string"
  rd_obj_id :: "nat \<Rightarrow> string \<Rightarrow> 'o option"
  v_is_map :: "'v \<Rightarrow> bool"
  v_is_null :: "'v \<Rightarrow> bool"
  v_str :: "'v \<Rightarrow> string option"
  v_i64 :: "'v \<Rightarrow> int option"
  v_timestamp :: "'v \<Rightarrow> int option"
  v_bytes :: "'v \<Rightarrow> bytes option"
  js_address :: "object_address \<Rightarrow> string option"
  js_life :: "bytes \<Rightarrow> life_mark option"
  js_event :: "bytes \<Rightarrow> mutation_event option"
  js_purge :: "bytes \<Rightarrow> purge_record option"
  js_presence :: "bytes \<Rightarrow> presence option"
  js_placement :: "bytes \<Rightarrow> 'f group_placement option"
  js_group_ref :: "bytes \<Rightarrow> group_ref option"
  js_icon :: "bytes \<Rightarrow> icon_ref option"
  js_color :: "bytes \<Rightarrow> color option option"
  js_tags :: "bytes \<Rightarrow> string fset option"
  js_attribute :: "bytes \<Rightarrow> attribute_value option"
  js_blob :: "bytes \<Rightarrow> blob_id option"
  js_group_revision :: "bytes \<Rightarrow> 'f saved_group_revision option"
  js_database_revision :: "bytes \<Rightarrow> saved_database_revision option"
  js_stored :: "bytes \<Rightarrow> stored_revision option"
  js_text :: "bytes \<Rightarrow> string option option"

subsection \<open>\<open>codec.rs\<close>\<close>

text \<open>\<open>read.get_all(obj, key)?\<close>: an Automerge error becomes \<open>InvalidDocument\<close>.\<close>

definition get_all :: "('o, 'v, 'f) reader \<Rightarrow> 'o \<Rightarrow> string \<Rightarrow> doc_error + ('v \<times> 'o) list" where
  "get_all rd obj key = ok_or (rd_get_all rd obj key) InvalidDocument"

definition decode :: "('o, 'v, 'f) reader \<Rightarrow> (bytes \<Rightarrow> 'a option) \<Rightarrow> 'v \<Rightarrow> doc_error + 'a" where
  "decode rd from_json value =
     bindR (ok_or (v_bytes rd value) InvalidDocument) (\<lambda>bytes. ok_or (from_json bytes) InvalidDocument)"

definition unique_optional :: "('o, 'v, 'f) reader \<Rightarrow> 'o \<Rightarrow> string \<Rightarrow> doc_error + 'v option" where
  "unique_optional rd obj key =
     bindR (get_all rd obj key) (\<lambda>values.
       case values of [] \<Rightarrow> Ok None | [(value, _)] \<Rightarrow> Ok (Some value) | _ \<Rightarrow> Err Conflict)"

definition unique :: "('o, 'v, 'f) reader \<Rightarrow> 'o \<Rightarrow> string \<Rightarrow> doc_error + 'v" where
  "unique rd obj key = bindR (unique_optional rd obj key) (\<lambda>v. ok_or v NotFound)"

definition object :: "('o, 'v, 'f) reader \<Rightarrow> 'o \<Rightarrow> string \<Rightarrow> doc_error + 'o" where
  "object rd obj key =
     bindR (get_all rd obj key) (\<lambda>values.
       case values of
         [] \<Rightarrow> Err NotFound
       | [(value, i)] \<Rightarrow> if v_is_map rd value then Ok i else Err InvalidDocument
       | _ \<Rightarrow> Err DuplicateId)"

subsection \<open>Addresses (\<open>objects.rs\<close>)\<close>

definition object_root :: "object_id \<Rightarrow> string" where
  "object_root i = (case i of GroupObj _ \<Rightarrow> ''groups'' | EntryObj _ \<Rightarrow> ''entries'')"

definition object_str :: "object_id \<Rightarrow> string" where
  "object_str i = (case i of GroupObj g \<Rightarrow> g | EntryObj e \<Rightarrow> e)"

definition is_group :: "object_id \<Rightarrow> bool" where
  "is_group i = (case i of GroupObj _ \<Rightarrow> True | EntryObj _ \<Rightarrow> False)"

definition address_key :: "('o, 'v, 'f) reader \<Rightarrow> object_address \<Rightarrow> doc_error + string" where
  "address_key rd a = ok_or (js_address rd a) InvalidDocument"

definition address_group_ref :: "object_address \<Rightarrow> doc_error + group_ref" where
  "address_group_ref a =
     (case addr_object a of
        GroupObj i \<Rightarrow> Ok (GroupRef i (addr_generation a))
      | EntryObj _ \<Rightarrow> Err InvalidContext)"

definition group_address :: "group_ref \<Rightarrow> object_address" where
  "group_address g = ObjectAddress (GroupObj (gr_id g)) (gr_generation g)"

text \<open>The derived order of \<open>ObjectAddress\<close>: groups before entries, identity, generation.\<close>

definition address_rank :: "object_address \<Rightarrow> nat \<times> string \<times> string" where
  "address_rank a = (if is_group (addr_object a) then 0 else 1, object_str (addr_object a), addr_generation a)"

lemma address_rank_inj: "address_rank a = address_rank b \<longleftrightarrow> a = b"
  by (cases a; cases b; cases "addr_object a"; cases "addr_object b")
    (auto simp: address_rank_def is_group_def object_str_def)

instantiation object_address :: linorder
begin

definition less_object_address :: "object_address \<Rightarrow> object_address \<Rightarrow> bool" where
  "less_object_address a b \<longleftrightarrow> address_rank a < address_rank b"

definition less_eq_object_address :: "object_address \<Rightarrow> object_address \<Rightarrow> bool" where
  "less_eq_object_address a b \<longleftrightarrow> address_rank a \<le> address_rank b"

instance
  by standard (auto simp: less_object_address_def less_eq_object_address_def address_rank_inj
      simp flip: address_rank_inj)

end

subsection \<open>Reading objects (\<open>objects.rs\<close>)\<close>

definition shell :: "('o, 'v, 'f) reader \<Rightarrow> object_id \<Rightarrow> doc_error + 'o" where
  "shell rd i = bindR (object rd (rd_root rd) (object_root i)) (\<lambda>root. object rd root (object_str i))"

definition generation_object :: "('o, 'v, 'f) reader \<Rightarrow> object_address \<Rightarrow> doc_error + 'o" where
  "generation_object rd a =
     bindR (shell rd (addr_object a)) (\<lambda>sh.
     if addr_generation a = object_str (addr_object a) then Ok sh
     else bindR (object rd sh ''generations'') (\<lambda>generations.
          object rd generations (addr_generation a)))"

definition current_generations :: "('o, 'v, 'f) reader \<Rightarrow> 'o \<Rightarrow> doc_error + generation_id list" where
  "current_generations rd sh =
     bindR (get_all rd sh ''current'') (\<lambda>values.
     bindR (mapR (\<lambda>(value, _). ok_or (v_str rd value) InvalidDocument) values) (\<lambda>texts.
       Ok (sorted_list_of_fset (fset_of_list texts))))"

definition current :: "('o, 'v, 'f) reader \<Rightarrow> object_id \<Rightarrow> doc_error + object_address list" where
  "current rd i =
     bindR (shell rd i) (\<lambda>sh.
     bindR (current_generations rd sh) (\<lambda>generations.
     if generations = [] then Err InvalidDocument
     else mapR (\<lambda>g. bindR (generation_object rd (ObjectAddress i g)) (\<lambda>_. Ok (ObjectAddress i g)))
            generations))"

text \<open>\<open>Iterator::max_by\<close>: the last of several equal maxima.\<close>

fun max_by :: "('a \<Rightarrow> 'b::linorder) \<Rightarrow> 'a list \<Rightarrow> 'a option" where
  "max_by f [] = None"
| "max_by f (x # xs) = (case max_by f xs of None \<Rightarrow> Some x | Some y \<Rightarrow> Some (if f y < f x then x else y))"

definition single :: "('o::linorder, 'v, 'f) reader \<Rightarrow> object_id \<Rightarrow> doc_error + object_address" where
  "single rd i =
     bindR (shell rd i) (\<lambda>sh.
     bindR (get_all rd sh ''current'') (\<lambda>values.
     bindR (ok_or (max_by snd values) InvalidDocument) (\<lambda>(value, _).
     bindR (ok_or (v_str rd value) InvalidDocument) (\<lambda>g.
     bindR (generation_object rd (ObjectAddress i g)) (\<lambda>_. Ok (ObjectAddress i g))))))"

definition entry_object :: "('o::linorder, 'v, 'f) reader \<Rightarrow> entry_id \<Rightarrow> doc_error + 'o" where
  "entry_object rd e = bindR (single rd (EntryObj e)) (\<lambda>a. generation_object rd a)"

text \<open>One identity of \<open>all\<close>: its first generation, then the recorded later ones.\<close>

definition all_of :: "('o, 'v, 'f) reader \<Rightarrow> object_id \<Rightarrow> doc_error + object_address list" where
  "all_of rd i =
     bindR (shell rd i) (\<lambda>sh.
     bindR (object rd sh ''generations'') (\<lambda>generations.
     bindR (current rd i) (\<lambda>_.
       Ok (ObjectAddress i (object_str i) # map (ObjectAddress i) (rd_keys rd generations)))))"

definition all_in :: "('o, 'v, 'f) reader \<Rightarrow> string \<Rightarrow> doc_error + object_address list" where
  "all_in rd root_name =
     bindR (object rd (rd_root rd) root_name) (\<lambda>root.
     bindR (mapR (\<lambda>k. all_of rd (if root_name = ''groups'' then GroupObj k else EntryObj k))
              (rd_keys rd root)) (\<lambda>xs. Ok (concat xs)))"

definition all :: "('o, 'v, 'f) reader \<Rightarrow> doc_error + object_address list" where
  "all rd = bindR (all_in rd ''groups'') (\<lambda>gs. bindR (all_in rd ''entries'') (\<lambda>es. Ok (gs @ es)))"

definition life :: "('o, 'v, 'f) reader \<Rightarrow> object_address \<Rightarrow> doc_error + life_mark list" where
  "life rd a =
     bindR (generation_object rd a) (\<lambda>node.
     bindR (get_all rd node ''life'') (\<lambda>values.
     if values = [] then Err InvalidDocument
     else mapR (\<lambda>(value, _). decode rd (js_life rd) value) values))"

definition events :: "('o, 'v, 'f) reader \<Rightarrow> object_address \<Rightarrow> doc_error + string fset" where
  "events rd a =
     bindR (object rd (rd_root rd) ''events'') (\<lambda>root.
       foldR (\<lambda>result k.
           bindR (unique rd root k) (\<lambda>value.
           bindR (decode rd (js_event rd) value) (\<lambda>event.
           Ok (if me_address event = a then finsert k result else result))))
         {||} (rd_keys rd root))"

definition purge :: "('o, 'v, 'f) reader \<Rightarrow> object_address \<Rightarrow> doc_error + purge_record option" where
  "purge rd a =
     bindR (object rd (rd_root rd) ''purges'') (\<lambda>root.
     bindR (address_key rd a) (\<lambda>key.
     bindR (get_all rd root key) (\<lambda>values.
       foldR (\<lambda>result (value, _).
           bindR (decode rd (js_purge rd) value) (\<lambda>record'.
           if pr_address record' \<noteq> a then Err InvalidDocument
           else Ok (case result of
               None \<Rightarrow> Some record'
             | Some existing \<Rightarrow> Some (existing\<lparr>pr_covered := pr_covered existing |\<union>| pr_covered record'\<rparr>))))
         None values)))"

subsection \<open>Registers\<close>

text \<open>\<open>selected.is_none_or(|(_, rank)| &operation > rank)\<close>: keep the value of the greatest operation.\<close>

definition select :: "('a \<times> 'o::linorder) option \<Rightarrow> 'a \<Rightarrow> 'o \<Rightarrow> ('a \<times> 'o) option" where
  "select best x operation =
     (case best of None \<Rightarrow> Some (x, operation)
      | Some (y, rank) \<Rightarrow> if operation > rank then Some (x, operation) else best)"

definition push_new :: "'a list \<Rightarrow> 'a \<Rightarrow> 'a list" where
  "push_new xs x = (if x \<in> set xs then xs else xs @ [x])"

end
