(* ===== verification/Doc_Groups.thy ===== *)
theory Doc_Groups
  imports Doc_Reader
begin

text \<open>
  \<open>crates/taypeer-document/src/groups.rs\<close>, read side: the projection of one stored group and
  the ordinary tree of all groups. Placement registers are edited concurrently, so the
  stored parent edges may form cycles, point to absent groups or to closed generations;
  \<open>tree\<close> breaks every cycle at its oldest edge and settles the status of each node.
\<close>

datatype object_status = Active | Trashed | Purged | Unplaced

record 'f group_node =
  gn_address :: object_address
  gn_names :: "string list"
  gn_icons :: "icon_ref list"
  gn_placements :: "'f group_placement list"
  gn_name :: string
  gn_icon :: icon_ref
  gn_placement :: "'f group_placement"
  gn_status :: object_status
  gn_conflicted :: bool
  gn_placement_conflict :: bool
  gn_current :: bool
  gn_created_at :: timestamp
  gn_modified_at :: timestamp

type_synonym 'f group_nodes = "(object_address, 'f group_node) fmap"

definition own_status :: "('o, 'v, 'f) reader \<Rightarrow> object_address \<Rightarrow> doc_error + object_status \<times> bool" where
  "own_status rd a =
     bindR (purge rd a) (\<lambda>p.
     if p \<noteq> None then Ok (Purged, False)
     else bindR (life rd a) (\<lambda>marks.
       if \<not> list_ex lm_trashed marks then Ok (Active, False) else Ok (Trashed, False)))"

subsection \<open>One group\<close>

text \<open>
  One register of a group: its decoded values, the selected one, and the recorded time of
  each writing operation. \<open>add\<close> collects the values (a set of names, a list of placements).
\<close>

definition read_register ::
  "('o::linorder, 'v, 'f) reader \<Rightarrow> 'o \<Rightarrow> string \<Rightarrow> string \<Rightarrow> ('v \<Rightarrow> doc_error + 'a) \<Rightarrow> ('c \<Rightarrow> 'a \<Rightarrow> 'c) \<Rightarrow> 'c
     \<Rightarrow> timestamp list \<Rightarrow> doc_error + ('c \<times> ('a \<times> 'o) option \<times> timestamp list)" where
  "read_register rd obj key times_key dec add start stamps0 =
     bindR (object rd obj times_key) (\<lambda>time_map.
     bindR (get_all rd obj key) (\<lambda>values.
     foldR (\<lambda>(acc, selected, stamps) (value, operation).
         bindR (dec value) (\<lambda>x.
         bindR (unique rd time_map (rd_show rd operation)) (\<lambda>t.
         bindR (ok_or (v_i64 rd t) InvalidDocument) (\<lambda>time.
         Ok (add acc x, select selected x operation, stamps @ [time])))))
       (start, None, stamps0) values))"

definition read_name :: "('o, 'v, 'f) reader \<Rightarrow> 'v \<Rightarrow> doc_error + string" where
  "read_name rd value =
     bindR (ok_or (v_str rd value) InvalidDocument) (\<lambda>name.
     bindR (map_errR Validation (validate_group_name name)) (\<lambda>_. Ok name))"

definition read_times :: "('o, 'v, 'f) reader \<Rightarrow> 'o \<Rightarrow> string \<Rightarrow> timestamp list \<Rightarrow> doc_error + timestamp list" where
  "read_times rd obj key stamps =
     bindR (get_all rd obj key) (\<lambda>values.
     bindR (mapR (\<lambda>(value, _). ok_or (v_i64 rd value) InvalidDocument) values) (\<lambda>ts. Ok (stamps @ ts)))"

definition read_icons ::
  "('o::linorder, 'v, 'f) reader \<Rightarrow> 'o \<Rightarrow> doc_error + (icon_ref list \<times> (icon_ref \<times> 'o) option)" where
  "read_icons rd obj =
     bindR (get_all rd obj ''icon'') (\<lambda>values.
     foldR (\<lambda>(icons, selected) (value, operation).
         bindR (decode rd (js_icon rd) value) (\<lambda>icon.
         Ok (push_new icons icon, select selected icon operation)))
       ([], None) values)"

definition maximum :: "'a::linorder list \<Rightarrow> 'a \<Rightarrow> 'a" where
  "maximum xs d = (if xs = [] then d else Max (set xs))"

definition read_group ::
  "('o::linorder, 'v, 'f) reader \<Rightarrow> object_address \<Rightarrow> doc_error + 'f group_node" where
  "read_group rd a =
     bindR (generation_object rd a) (\<lambda>obj.
     bindR (read_register rd obj ''name'' ''name_times'' (read_name rd) (\<lambda>s x. finsert x s) {||} [])
       (\<lambda>(names, selected_name, stamps).
     bindR (read_register rd obj ''placement'' ''placement_times'' (decode rd (js_placement rd)) push_new [] stamps)
       (\<lambda>(placements, selected_placement, stamps).
     if names = {||} \<or> placements = [] then Err InvalidDocument
     else
     bindR (read_times rd obj ''icon_modified_at'' stamps) (\<lambda>stamps.
     bindR (read_times rd obj ''description_modified_at'' stamps) (\<lambda>stamps.
     bindR (unique rd obj ''created_at'') (\<lambda>c.
     bindR (ok_or (v_i64 rd c) InvalidDocument) (\<lambda>created_at.
     bindR (read_icons rd obj) (\<lambda>(icons, selected_icon).
     if icons = [] then Err InvalidDocument
     else
     bindR (own_status rd a) (\<lambda>(status, conflict).
     bindR (single rd (addr_object a)) (\<lambda>cur.
     bindR (ok_or selected_name InvalidDocument) (\<lambda>(name, _).
     bindR (ok_or selected_placement InvalidDocument) (\<lambda>(placement, _).
     bindR (ok_or selected_icon InvalidDocument) (\<lambda>(icon, _).
     Ok \<lparr>gn_address = a, gn_names = sorted_list_of_fset names, gn_icons = icons,
         gn_placements = placements, gn_name = name, gn_icon = icon, gn_placement = placement,
         gn_status = status,
         gn_conflicted = (conflict \<or> fcard names > 1 \<or> length placements > 1 \<or> length icons > 1),
         gn_placement_conflict = False, gn_current = (cur = a), gn_created_at = created_at,
         gn_modified_at = maximum stamps created_at\<rparr>)))))))))))))"

subsection \<open>The tree\<close>

definition parent_address :: "'f group_placement \<Rightarrow> object_address option" where
  "parent_address p = map_option group_address (gp_parent p)"

abbreviation node_parent :: "'f group_node \<Rightarrow> object_address option" where
  "node_parent n \<equiv> parent_address (gn_placement n)"

definition placement_rank :: "('o::linorder, 'v, 'f) reader \<Rightarrow> object_address \<Rightarrow> doc_error + 'o" where
  "placement_rank rd a =
     bindR (generation_object rd a) (\<lambda>obj.
     bindR (get_all rd obj ''placement'') (\<lambda>values.
     ok_or (if values = [] then None else Some (Max (set (map snd values)))) InvalidDocument))"

definition read_nodes ::
  "('o::linorder, 'v, 'f) reader \<Rightarrow> object_address list
     \<Rightarrow> doc_error + ('f group_nodes \<times> (object_address, 'o) fmap)" where
  "read_nodes rd addresses =
     foldR (\<lambda>(nodes, ranks) a.
         if is_group (addr_object a)
         then bindR (placement_rank rd a) (\<lambda>rank.
              bindR (read_group rd a) (\<lambda>node. Ok (fmupd a node nodes, fmupd a rank ranks)))
         else Ok (nodes, ranks))
       (fmempty, fmempty) addresses"

text \<open>
  Following selected parents from a start. The result is the cycle that was entered, if the
  walk returns to an address of its own path; it stops at unknown and noncurrent groups.
\<close>

function walk :: "'f group_nodes \<Rightarrow> object_address list \<Rightarrow> object_address option \<Rightarrow> object_address list option" where
  "walk nodes path None = None"
| "walk nodes path (Some a) =
     (if a \<in> set path then Some (dropWhile (\<lambda>b. b \<noteq> a) path)
      else case fmlookup nodes a of
        None \<Rightarrow> None
      | Some node \<Rightarrow>
          if \<not> gn_current node then None
          else walk nodes (path @ [a]) (node_parent node))"
  by pat_completeness auto
termination
proof (relation "measure (\<lambda>(nodes, path, cursor). card (fset (fmdom nodes) - set path))")
  fix nodes :: "'f group_nodes" and path a node
  assume "a \<notin> set path" and "fmlookup nodes a = Some node"
  then have "a \<in> fset (fmdom nodes) - set path" by (auto simp: fmlookup_dom_iff)
  moreover have "fset (fmdom nodes) - set (path @ [a]) = (fset (fmdom nodes) - set path) - {a}" by auto
  ultimately have "card (fset (fmdom nodes) - set (path @ [a])) < card (fset (fmdom nodes) - set path)"
    by (metis card_Diff1_less finite_Diff finite_fset)
  then show "((nodes, path @ [a], node_parent node), (nodes, path, Some a))
      \<in> measure (\<lambda>(nodes, path, cursor). card (fset (fmdom nodes) - set path))" by simp
qed simp

text \<open>The root of a cycle: the edge placed first, ties broken by address.\<close>

definition cycle_root :: "(object_address, 'o::linorder) fmap \<Rightarrow> object_address list \<Rightarrow> object_address" where
  "cycle_root ranks cycle = arg_min_list (\<lambda>a. (fmlookup ranks a, a)) cycle"

definition cycle_roots :: "'f group_nodes \<Rightarrow> (object_address, 'o::linorder) fmap \<Rightarrow> object_address list" where
  "cycle_roots nodes ranks =
     List.map_filter (\<lambda>start. map_option (cycle_root ranks) (walk nodes [] (Some start))) (bt_keys nodes)"

definition detach :: "'f group_node \<Rightarrow> 'f group_node" where
  "detach n = n\<lparr>gn_placement := GroupPlacement None (gp_order (gn_placement n))\<rparr>"

definition break_cycles :: "'f group_nodes \<Rightarrow> (object_address, 'o::linorder) fmap \<Rightarrow> 'f group_nodes" where
  "break_cycles nodes ranks =
     (let roots = cycle_roots nodes ranks
      in fmmap_keys (\<lambda>a n. if a \<in> set roots then detach n else n) nodes)"

text \<open>Absent parents are dropped; a generation that is not current is not placed.\<close>

definition adopt :: "'f group_nodes \<Rightarrow> 'f group_node \<Rightarrow> 'f group_node" where
  "adopt nodes n =
     (let n = (case node_parent n of None \<Rightarrow> n
               | Some p \<Rightarrow> if \<not> bt_contains nodes p then detach n else n)
      in if \<not> gn_current n \<and> gn_status n = Active then n\<lparr>gn_status := Unplaced\<rparr> else n)"

text \<open>One node of the status loop; \<open>previous\<close> holds status and currency before the round.\<close>

definition trashed_alternative :: "(object_address, object_status \<times> bool) fmap \<Rightarrow> 'f group_node \<Rightarrow> bool" where
  "trashed_alternative previous n =
     list_ex (\<lambda>p. case parent_address p of None \<Rightarrow> False
       | Some parent \<Rightarrow> (case fmlookup previous parent of None \<Rightarrow> False
                         | Some (status, _) \<Rightarrow> status = Trashed)) (gn_placements n)"

definition settle_node ::
  "(object_address, object_status \<times> bool) fmap \<Rightarrow> 'f group_node \<Rightarrow> 'f group_node \<times> bool" where
  "settle_node previous n =
     (if gn_status n = Purged then (n, False)
      else
        let (n, changed) = (if trashed_alternative previous n \<and> gn_status n \<noteq> Trashed
                            then (n\<lparr>gn_status := Trashed\<rparr>, True) else (n, False))
        in case node_parent n of
             None \<Rightarrow> (n, changed)
           | Some parent \<Rightarrow>
               (case fmlookup previous parent of
                  None \<Rightarrow> (n, changed)
                | Some (status, cur) \<Rightarrow>
                    if status = Trashed
                    then (if gn_status n \<noteq> Trashed then (n\<lparr>gn_status := Trashed\<rparr>, True) else (n, changed))
                    else if gn_status n = Active \<and> (status = Purged \<or> \<not> cur \<or> status = Unplaced)
                    then (n\<lparr>gn_status := Unplaced, gn_placement_conflict := True\<rparr>, True)
                    else (n, changed)))"

definition snapshot :: "'f group_nodes \<Rightarrow> (object_address, object_status \<times> bool) fmap" where
  "snapshot nodes = fmmap (\<lambda>n. (gn_status n, gn_current n)) nodes"

definition settle_round :: "'f group_nodes \<Rightarrow> 'f group_nodes \<times> bool" where
  "settle_round nodes =
     (let previous = snapshot nodes
      in (fmmap (\<lambda>n. fst (settle_node previous n)) nodes,
          list_ex (\<lambda>n. snd (settle_node previous n)) (bt_values nodes)))"


text \<open>The status loop ends: a changed node moves down from active over unplaced to trashed.\<close>

fun status_weight :: "object_status \<Rightarrow> nat" where
  "status_weight Active = 2"
| "status_weight Unplaced = 1"
| "status_weight _ = 0"

definition nodes_weight :: "'f group_nodes \<Rightarrow> nat" where
  "nodes_weight nodes = (\<Sum>a \<in> fset (fmdom nodes). status_weight (gn_status (the (fmlookup nodes a))))"

definition parent_state :: "(object_address, object_status \<times> bool) fmap \<Rightarrow> 'f group_node \<Rightarrow> (object_status \<times> bool) option" where
  "parent_state previous n = Option.bind (node_parent n) (fmlookup previous)"

definition parent_closed :: "(object_status \<times> bool) option \<Rightarrow> bool" where
  "parent_closed s = (case s of None \<Rightarrow> False | Some (status, cur) \<Rightarrow> status = Purged \<or> status = Unplaced \<or> \<not> cur)"

definition parent_trashed :: "(object_status \<times> bool) option \<Rightarrow> bool" where
  "parent_trashed s = (case s of None \<Rightarrow> False | Some (status, _) \<Rightarrow> status = Trashed)"

lemma settle_node_eq:
  "settle_node previous n =
     (if gn_status n = Purged then (n, False)
      else if trashed_alternative previous n \<or> parent_trashed (parent_state previous n)
      then (if gn_status n = Trashed then (n, False) else (n\<lparr>gn_status := Trashed\<rparr>, True))
      else if gn_status n = Active \<and> parent_closed (parent_state previous n)
      then (n\<lparr>gn_status := Unplaced, gn_placement_conflict := True\<rparr>, True)
      else (n, False))"
proof -
  consider "parent_state previous n = None" | st cur where "parent_state previous n = Some (st, cur)" by fastforce
  then show ?thesis
  proof cases
    case 1
    then have "(case node_parent n of None \<Rightarrow> r | Some p \<Rightarrow> case fmlookup previous p of None \<Rightarrow> r | Some x \<Rightarrow> f x) = r"
      for r and f :: "object_status \<times> bool \<Rightarrow> 'a group_node \<times> bool"
      by (auto simp: parent_state_def split: option.splits)
    then show ?thesis using 1 by (simp add: settle_node_def parent_trashed_def parent_closed_def)
  next
    case (2 st cur)
    then obtain p where p: "node_parent n = Some p" "fmlookup previous p = Some (st, cur)"
      by (auto simp: parent_state_def bind_eq_Some_conv)
    show ?thesis
      using 2 p by (cases "gn_status n"; cases st)
        (simp_all add: settle_node_def parent_trashed_def parent_closed_def)
  qed
qed

lemma settle_node_weight:
  "status_weight (gn_status (fst (settle_node previous n))) \<le> status_weight (gn_status n)"
  "snd (settle_node previous n) \<Longrightarrow>
     status_weight (gn_status (fst (settle_node previous n))) < status_weight (gn_status n)"
  "\<not> snd (settle_node previous n) \<Longrightarrow> fst (settle_node previous n) = n"
  by (cases "gn_status n"; simp add: settle_node_eq split: if_splits)+

lemma settle_node_frame [simp]:
  "gn_address (fst (settle_node previous n)) = gn_address n"
  "gn_placement (fst (settle_node previous n)) = gn_placement n"
  "gn_placements (fst (settle_node previous n)) = gn_placements n"
  "gn_current (fst (settle_node previous n)) = gn_current n"
  by (simp_all add: settle_node_eq)

lemma settle_round_weight:
  assumes "settle_round nodes = (nodes', True)"
  shows "nodes_weight nodes' < nodes_weight nodes"
proof -
  define previous where "previous = snapshot nodes"
  have n': "nodes' = fmmap (\<lambda>n. fst (settle_node previous n)) nodes"
    and ex: "\<exists>n \<in> set (bt_values nodes). snd (settle_node previous n)"
    using assms by (auto simp: settle_round_def Let_def previous_def list_ex_iff)
  let ?w = "\<lambda>nodes a. status_weight (gn_status (the (fmlookup nodes a)))"
  have "?w nodes' a \<le> ?w nodes a" if "a \<in> fset (fmdom nodes)" for a
    using settle_node_weight(1) [where previous = previous] that by (auto simp: n' fmlookup_dom_iff)
  moreover obtain a n where "fmlookup nodes a = Some n" "snd (settle_node previous n)"
    using ex by (auto simp: set_bt_values)
  then have "a \<in> fset (fmdom nodes) \<and> ?w nodes' a < ?w nodes a"
    using settle_node_weight(2) [where previous = previous and n = n] by (auto simp: n' fmlookup_dom_iff)
  moreover have "fmdom nodes' = fmdom nodes" by (simp add: n')
  ultimately show ?thesis
    unfolding nodes_weight_def by (auto intro!: sum_strict_mono_ex1)
qed

function settle :: "'f group_nodes \<Rightarrow> 'f group_nodes" where
  "settle nodes = (let (nodes', changed) = settle_round nodes in if changed then settle nodes' else nodes')"
  by pat_completeness auto
termination
  by (relation "measure nodes_weight") (auto simp: settle_round_weight)

declare settle.simps [simp del]

definition tree :: "('o::linorder, 'v, 'f) reader \<Rightarrow> doc_error + 'f group_node list" where
  "tree rd =
     bindR (all rd) (\<lambda>addresses.
     bindR (read_nodes rd addresses) (\<lambda>(nodes, ranks).
     let nodes = break_cycles nodes ranks;
         nodes = fmmap (adopt nodes) nodes
     in Ok (bt_values (settle nodes))))"

subsection \<open>The groups shown\<close>

definition selected_group :: "'f group_node \<Rightarrow> doc_error + 'f group" where
  "selected_group n =
     (case addr_object (gn_address n) of
        EntryObj _ \<Rightarrow> Err InvalidDocument
      | GroupObj i \<Rightarrow> Ok \<lparr>g_id = i, g_name = gn_name n,
          g_parent = map_option gr_id (gp_parent (gn_placement n)), g_order = gp_order (gn_placement n),
          g_generation = addr_generation (gn_address n), g_icon = gn_icon n,
          g_created_at = gn_created_at n, g_modified_at = gn_modified_at n\<rparr>)"

text \<open>\<open>sort_by\<close> on the parent, then \<open>OrderKey::compare\<close>, which compares completed keys.\<close>

definition group_rank :: "'f::linorder fi_lib \<Rightarrow> 'f group \<Rightarrow> group_id option \<times> 'f segment list" where
  "group_rank L g = (g_parent g, complete L (g_order g) (g_id g))"

definition read_groups ::
  "'f::linorder fi_lib \<Rightarrow> ('o::linorder, 'v, 'f) reader \<Rightarrow> doc_error + 'f group list" where
  "read_groups L rd =
     bindR (tree rd) (\<lambda>nodes.
     bindR (mapR selected_group (filter (\<lambda>n. gn_status n = Active \<and> gn_current n) nodes)) (\<lambda>groups.
     Ok (sort_key (group_rank L) groups)))"

end
