(* ===== verification/Doc_Demo.thy ===== *)
theory Doc_Demo
  imports Doc_Groups
begin

text \<open>
  A concrete stored document, for the witnesses of the document theories: groups \<open>a\<close> and
  \<open>b\<close> that were concurrently moved into each other, one entry placed in \<open>a\<close>, and a late
  event of a group \<open>c\<close> that was purged.
\<close>

datatype demo_value = DMap | DNull | DStr string | DInt int | DByte byte

definition demo_key :: "rat order_key" where
  "demo_key = OrderKey [Segment 1 ''k'']"

definition demo_table :: "((nat \<times> string) \<times> (demo_value \<times> nat) list) list" where
  "demo_table =
    [((0, ''groups''), [(DMap, 1)]), ((0, ''entries''), [(DMap, 2)]), ((0, ''purges''), [(DMap, 3)]),
     ((0, ''events''), [(DMap, 4)]), ((0, ''revisions''), [(DMap, 5)]), ((0, ''purged_revisions''), [(DMap, 6)]),
     ((0, ''recoveries''), [(DMap, 7)]), ((0, ''lifecycle_receipts''), [(DMap, 8)]),
     ((0, ''group_revisions''), [(DMap, 9)]), ((0, ''database_revisions''), [(DMap, 19)]),
     ((0, ''database_id''), [(DStr ''db'', 99)]),
     ((3, ''c''), [(DByte 9, 130)]), ((4, ''ev''), [(DByte 11, 131)]),
     ((1, ''a''), [(DMap, 10)]), ((1, ''b''), [(DMap, 11)]), ((2, ''e''), [(DMap, 12)]),
     ((10, ''current''), [(DStr ''a'', 100)]), ((11, ''current''), [(DStr ''b'', 101)]),
     ((12, ''current''), [(DStr ''e'', 102)]),
     ((10, ''generations''), [(DMap, 13)]), ((11, ''generations''), [(DMap, 14)]),
     ((12, ''generations''), [(DMap, 15)]),
     ((10, ''life''), [(DByte 0, 103)]), ((11, ''life''), [(DByte 0, 104)]), ((12, ''life''), [(DByte 0, 105)]),
     ((10, ''name''), [(DStr ''A'', 106)]), ((11, ''name''), [(DStr ''B'', 107), (DStr ''C'', 108)]),
     ((10, ''placement''), [(DByte 2, 109)]), ((11, ''placement''), [(DByte 3, 110)]),
     ((10, ''name_times''), [(DMap, 16)]), ((11, ''name_times''), [(DMap, 16)]),
     ((10, ''placement_times''), [(DMap, 16)]), ((11, ''placement_times''), [(DMap, 16)]),
     ((16, ''7@aa''), [(DInt 7, 111)]),
     ((10, ''icon''), [(DByte 6, 112)]), ((11, ''icon''), [(DByte 6, 113)]),
     ((10, ''created_at''), [(DInt 1, 114)]), ((11, ''created_at''), [(DInt 2, 115)]),
     ((12, ''created_at''), [(DInt 3, 116)]), ((12, ''group''), [(DByte 5, 117)]),
     ((12, ''title''), [(DStr ''T'', 118)]), ((12, ''username''), [(DNull, 119)]),
     ((12, ''password''), [(DStr ''p'', 120), (DStr ''q'', 121)]), ((12, ''url''), [(DNull, 122)]),
     ((12, ''notes''), [(DNull, 123)]), ((12, ''tags''), [(DByte 8, 124)]),
     ((12, ''expires_at''), [(DNull, 125)]), ((12, ''icon''), [(DByte 6, 126)]),
     ((12, ''foreground''), [(DByte 7, 127)]), ((12, ''background''), [(DByte 7, 128)]),
     ((12, ''attributes''), [(DMap, 17)]), ((12, ''attachments''), [(DMap, 18)])]"

definition demo_keys :: "nat \<Rightarrow> string list" where
  "demo_keys obj = (if obj = 1 then [''a'', ''b''] else if obj = 2 then [''e'']
     else if obj = 4 then [''ev''] else [])"

definition demo :: "(nat, demo_value, rat) reader" where
  "demo = \<lparr>rd_root = 0,
     rd_get_all = (\<lambda>obj key. Some (case map_of demo_table (obj, key) of None \<Rightarrow> [] | Some vs \<Rightarrow> vs)),
     rd_keys = demo_keys, rd_show = (\<lambda>i. if i = 120 then ''120@aa'' else if i = 121 then ''121@aa'' else ''7@aa''), rd_obj_id = (\<lambda>n actor. Some n),
     v_is_map = (\<lambda>v. v = DMap), v_is_null = (\<lambda>v. v = DNull),
     v_str = (\<lambda>v. case v of DStr s \<Rightarrow> Some s | _ \<Rightarrow> None),
     v_i64 = (\<lambda>v. case v of DInt i \<Rightarrow> Some i | _ \<Rightarrow> None),
     v_timestamp = (\<lambda>v. None), v_bytes = (\<lambda>v. case v of DByte b \<Rightarrow> Some [b] | _ \<Rightarrow> None),
     js_address = (\<lambda>a. Some (addr_generation a)),
     js_life = (\<lambda>b. Some \<lparr>lm_trashed = (b = [1]), lm_operation = [], lm_observed = {||}\<rparr>),
     js_event = (\<lambda>b. Some \<lparr>me_address = ObjectAddress (GroupObj ''c'') ''c'', me_revision = None\<rparr>),
     js_purge = (\<lambda>b. Some \<lparr>pr_operation = ''p'', pr_address = ObjectAddress (GroupObj ''c'') ''c'', pr_covered = {||}\<rparr>), js_presence = (\<lambda>b. None),
     js_placement = (\<lambda>b. Some (GroupPlacement (if b = [2] then Some (GroupRef ''b'' ''b'')
        else if b = [3] then Some (GroupRef ''a'' ''a'') else None) demo_key)),
     js_group_ref = (\<lambda>b. Some (GroupRef ''a'' ''a'')),
     js_icon = (\<lambda>b. Some IconDefault), js_color = (\<lambda>b. Some None), js_tags = (\<lambda>b. Some {||}),
     js_attribute = (\<lambda>b. None), js_blob = (\<lambda>b. None), js_group_revision = (\<lambda>b. None),
     js_database_revision = (\<lambda>b. None), js_stored = (\<lambda>b. None), js_text = (\<lambda>b. None)\<rparr>"

definition demo_lib :: "rat fi_lib" where
  "demo_lib = rat_fi"

lemma demo_tree:
  "map (\<lambda>n. (gn_address n, gn_status n, node_parent n, gn_name n)) (projr (tree demo)) =
     [(ObjectAddress (GroupObj ''a'') ''a'', Active, None, ''A''),
      (ObjectAddress (GroupObj ''b'') ''b'', Active, Some (ObjectAddress (GroupObj ''a'') ''a''), ''C'')]
   \<and> is_ok (tree demo)"
  by code_simp


lemma demo_tree_Ok:
  obtains ns where "tree demo = Ok ns"
    "map (\<lambda>n. (gn_address n, gn_status n, node_parent n, gn_name n)) ns =
     [(ObjectAddress (GroupObj ''a'') ''a'', Active, None, ''A''),
      (ObjectAddress (GroupObj ''b'') ''b'', Active, Some (ObjectAddress (GroupObj ''a'') ''a''), ''C'')]"
  using demo_tree by (auto simp: is_ok_ex)

lemma demo_groups: "\<exists>gs. read_groups demo_lib demo = Ok gs \<and> map g_id gs = [''a'', ''b'']"
proof -
  have "is_ok (read_groups demo_lib demo) \<and> map g_id (projr (read_groups demo_lib demo)) = [''a'', ''b'']"
    by code_simp
  then show ?thesis by (auto simp: is_ok_ex)
qed

end
