(* ===== verification/Doc_Tree.thy ===== *)
theory Doc_Tree
  imports Doc_Demo
begin

text \<open>
  What \<open>groups::tree\<close> guarantees: cycles are broken at one edge each, the ordinary tree is
  acyclic and closed under parents, and trash propagates to every descendant.
\<close>

subsection \<open>Cycles\<close>

definition edges :: "'f group_nodes \<Rightarrow> object_address rel" where
  "edges nodes = {(a, p). \<exists>n. fmlookup nodes a = Some n \<and> gn_current n \<and> node_parent n = Some p}"

lemma single_valued_edges: "single_valued (edges nodes)"
  by (auto simp: single_valued_def edges_def)

text \<open>In a functional graph everything reachable from a cycle lies on it.\<close>

lemma reach_back:
  assumes sv: "single_valued r" and cyc: "(a, a) \<in> r\<^sup>+" and reach: "(a, b) \<in> r\<^sup>*"
  shows "(b, a) \<in> r\<^sup>*"
  using reach
proof (induction rule: rtrancl_induct)
  case (step b c)
  have "(b, a) \<in> r\<^sup>+"
    using step.IH cyc by (cases "b = a") (auto simp: rtrancl_eq_or_trancl)
  then obtain c' where "(b, c') \<in> r" "(c', a) \<in> r\<^sup>*" by (metis tranclD)
  then show ?case using sv step.hyps(2) by (auto simp: single_valued_def)
qed simp

lemma cycle_mutual:
  assumes "single_valued r" and "(a, a) \<in> r\<^sup>+" and "(a, b) \<in> r\<^sup>*"
  shows "(b, b) \<in> r\<^sup>+"
  using reach_back [OF assms] assms(2,3) by (meson rtrancl_trancl_trancl trancl_rtrancl_trancl)

text \<open>A chain of edges that closes on itself is a set of mutually reachable addresses.\<close>

lemma chain_reach:
  "successively (\<lambda>x y. (x, y) \<in> r) (x # xs) \<Longrightarrow> y \<in> set (x # xs) \<Longrightarrow>
     (x, y) \<in> r\<^sup>* \<and> (y, last (x # xs)) \<in> r\<^sup>*"
proof (induction xs arbitrary: x y)
  case (Cons z xs)
  have ih: "(z, w) \<in> r\<^sup>* \<and> (w, last (z # xs)) \<in> r\<^sup>*" if "w \<in> set (z # xs)" for w
    using Cons that by auto
  have "(x, z) \<in> r" using Cons.prems(1) by simp
  then show ?case
    using Cons.prems(2) ih [of z] ih [of y]
    by (cases "y = x") (auto intro: converse_rtrancl_into_rtrancl)
qed simp

lemma chain_next:
  "successively (\<lambda>x y. (x, y) \<in> r) (x # xs) \<Longrightarrow> (last (x # xs), x) \<in> r \<Longrightarrow> y \<in> set (x # xs)
    \<Longrightarrow> \<exists>z \<in> set (x # xs). (y, z) \<in> r"
proof -
  have "(\<exists>z \<in> set xs. (y, z) \<in> r) \<or> y = last (x # xs)"
    if "successively (\<lambda>x y. (x, y) \<in> r) (x # xs)" and "y \<in> set (x # xs)" for x y
    using that by (induction xs arbitrary: x) auto
  then show "successively (\<lambda>x y. (x, y) \<in> r) (x # xs) \<Longrightarrow> (last (x # xs), x) \<in> r \<Longrightarrow>
      y \<in> set (x # xs) \<Longrightarrow> \<exists>z \<in> set (x # xs). (y, z) \<in> r"
    by (metis list.set_intros)
qed

lemma successively_dropWhile: "successively P xs \<Longrightarrow> successively P (dropWhile Q xs)"
  by (induction xs rule: induct_list012) auto

definition on_path :: "object_address rel \<Rightarrow> object_address list \<Rightarrow> object_address option \<Rightarrow> bool" where
  "on_path r path cursor \<longleftrightarrow> successively (\<lambda>x y. (x, y) \<in> r) path
     \<and> (path = [] \<or> (case cursor of None \<Rightarrow> True | Some c \<Rightarrow> (last path, c) \<in> r))"

lemma walk_cycle:
  assumes "walk nodes path cursor = Some cyc" and "on_path (edges nodes) path cursor"
  shows "\<exists>x xs. cyc = x # xs \<and> successively (\<lambda>x y. (x, y) \<in> edges nodes) cyc
    \<and> (last cyc, x) \<in> edges nodes"
  using assms
proof (induction nodes path cursor rule: walk.induct)
  case (2 nodes path a)
  show ?case
  proof (cases "a \<in> set path")
    case True
    then have c: "cyc = dropWhile (\<lambda>b. b \<noteq> a) path" using "2.prems" by simp
    then obtain xs where xs: "cyc = a # xs"
      using True by (metis (mono_tags, lifting) dropWhile_eq_Nil_conv hd_dropWhile list.exhaust_sel)
    moreover have "last cyc = last path"
      using xs c by (metis last_appendR list.discI takeWhile_dropWhile_id)
    moreover have "path \<noteq> []" using True by auto
    moreover have "successively (\<lambda>x y. (x, y) \<in> edges nodes) cyc"
      unfolding c using "2.prems"(2) by (intro successively_dropWhile) (simp add: on_path_def)
    ultimately show ?thesis
      using "2.prems"(2) by (auto simp: on_path_def)
  next
    case False
    obtain n where n: "fmlookup nodes a = Some n" "gn_current n"
      "walk nodes (path @ [a]) (node_parent n) = Some cyc"
      using "2.prems"(1) False by (auto split: option.splits if_splits)
    have "on_path (edges nodes) (path @ [a]) (node_parent n)"
      using "2.prems"(2) n(1,2)
      by (auto simp: on_path_def successively_append_iff edges_def split: option.splits)
    then show ?thesis using "2.IH" False n by blast
  qed
qed simp

lemma walk_from_cycle:
  assumes "r \<subseteq> edges nodes" and "\<forall>b \<in> C. \<exists>c \<in> C. (b, c) \<in> r"
    and "\<exists>a \<in> C. cursor = Some a" and "set path \<subseteq> C"
  shows "\<exists>cyc. walk nodes path cursor = Some cyc \<and> set cyc \<subseteq> C \<and> cyc \<noteq> []"
  using assms
proof (induction nodes path cursor rule: walk.induct)
  case (2 nodes path a)
  show ?case
  proof (cases "a \<in> set path")
    case True
    then show ?thesis using "2.prems"(4) by (auto dest: set_dropWhileD)
  next
    case False
    obtain c where c: "c \<in> C" "(a, c) \<in> edges nodes" using "2.prems"(1,2,3) by blast
    then obtain n where n: "fmlookup nodes a = Some n" "gn_current n" "node_parent n = Some c"
      by (auto simp: edges_def)
    then show ?thesis
      using "2.IH" [OF False n(1)] "2.prems" c False by simp
  qed
qed simp

text \<open>The edge to cut on a cycle: the one placed first among all of the cycle.\<close>

definition rank_key :: "(object_address, 'o::linorder) fmap \<Rightarrow> object_address \<Rightarrow> 'o option \<times> object_address" where
  "rank_key ranks a = (fmlookup ranks a, a)"

definition oldest_on_cycle :: "object_address rel \<Rightarrow> (object_address, 'o::linorder) fmap \<Rightarrow> object_address \<Rightarrow> bool" where
  "oldest_on_cycle r ranks a \<longleftrightarrow> (a, a) \<in> r\<^sup>+ \<and> (\<forall>b. (a, b) \<in> r\<^sup>* \<longrightarrow> rank_key ranks a \<le> rank_key ranks b)"

lemma cycle_root_min:
  "cyc \<noteq> [] \<Longrightarrow> cycle_root ranks cyc \<in> set cyc
     \<and> (\<forall>b \<in> set cyc. rank_key ranks (cycle_root ranks cyc) \<le> rank_key ranks b)"
proof -
  assume ne: "cyc \<noteq> []"
  have "rank_key ranks = (\<lambda>a. (fmlookup ranks a, a))" by (auto simp: rank_key_def)
  then show ?thesis
    using f_arg_min_list_f [OF ne, of "rank_key ranks"] arg_min_list_in [OF ne, of "rank_key ranks"]
    by (simp add: cycle_root_def)
qed

lemma walk_result:
  assumes "walk nodes [] (Some s) = Some cyc"
  shows "cyc \<noteq> [] \<and> (\<forall>x \<in> set cyc. (x, x) \<in> (edges nodes)\<^sup>+ \<and> (\<forall>b. (x, b) \<in> (edges nodes)\<^sup>* \<longrightarrow> b \<in> set cyc))"
proof -
  have "on_path (edges nodes) [] (Some s)" by (simp add: on_path_def)
  then obtain x xs where c: "cyc = x # xs" "successively (\<lambda>x y. (x, y) \<in> edges nodes) (x # xs)"
    "(last (x # xs), x) \<in> edges nodes"
    using walk_cycle [OF assms] by auto
  have on: "(y, y) \<in> (edges nodes)\<^sup>+" if "y \<in> set (x # xs)" for y
    using chain_reach [OF c(2) that] c(3) by (meson rtrancl_into_trancl1 trancl_rtrancl_trancl)
  have "b \<in> set (x # xs)" if "(y, b) \<in> (edges nodes)\<^sup>*" "y \<in> set (x # xs)" for y b
    using that
  proof (induction rule: rtrancl_induct)
    case (step b d)
    then obtain z where "z \<in> set (x # xs)" "(b, z) \<in> edges nodes"
      using chain_next [OF c(2,3)] by blast
    then show ?case using single_valued_edges step.hyps(2) by (metis single_valuedD)
  qed
  then show ?thesis using on c(1) by blast
qed

text \<open>
  An edge of the stored tree is cut exactly when it lies on a cycle of current groups
  and its placement is the oldest of that cycle: every cycle loses one edge, chosen by the
  rank of the writing operations and not by traversal order, and no other edge is touched.
\<close>

theorem cycle_roots_iff:
  "a \<in> set (cycle_roots nodes ranks) \<longleftrightarrow> oldest_on_cycle (edges nodes) ranks a"
proof
  assume "a \<in> set (cycle_roots nodes ranks)"
  then obtain s cyc where "walk nodes [] (Some s) = Some cyc" and a: "a = cycle_root ranks cyc"
    by (auto simp: cycle_roots_def List.map_filter_def simp del: walk.simps split: option.splits)
  from walk_result [OF this(1)] show "oldest_on_cycle (edges nodes) ranks a"
    using cycle_root_min [of cyc ranks] a by (auto simp: oldest_on_cycle_def)
next
  assume old: "oldest_on_cycle (edges nodes) ranks a"
  then have cyc: "(a, a) \<in> (edges nodes)\<^sup>+" by (simp add: oldest_on_cycle_def)
  let ?C = "{b. (a, b) \<in> (edges nodes)\<^sup>*}"
  have "\<forall>b \<in> ?C. \<exists>c \<in> ?C. (b, c) \<in> edges nodes"
    using cycle_mutual [OF single_valued_edges cyc]
    by (metis (mono_tags, lifting) mem_Collect_eq rtrancl.rtrancl_into_rtrancl tranclD)
  then obtain cs where w: "walk nodes [] (Some a) = Some cs" "set cs \<subseteq> ?C" "cs \<noteq> []"
    using walk_from_cycle [of "edges nodes" nodes ?C "Some a" "[]"] by auto
  have r: "cycle_root ranks cs \<in> set cs" "\<forall>b \<in> set cs. rank_key ranks (cycle_root ranks cs) \<le> rank_key ranks b"
    using cycle_root_min [OF w(3)] by auto
  then have "(a, cycle_root ranks cs) \<in> (edges nodes)\<^sup>*" using w(2) by auto
  then have "(cycle_root ranks cs, a) \<in> (edges nodes)\<^sup>*"
    by (rule reach_back [OF single_valued_edges cyc])
  then have "a \<in> set cs" using walk_result [OF w(1)] r(1) by blast
  then have "rank_key ranks (cycle_root ranks cs) = rank_key ranks a"
    using r old w(2) by (intro antisym) (auto simp: oldest_on_cycle_def)
  then have "cycle_root ranks cs = a" by (simp add: rank_key_def)
  moreover obtain b where "(a, b) \<in> edges nodes" using cyc by (auto dest: tranclD)
  then have "a \<in> set (bt_keys nodes)" by (auto simp: edges_def fmlookup_dom_iff)
  ultimately show "a \<in> set (cycle_roots nodes ranks)"
    using w(1) by (force simp: cycle_roots_def List.map_filter_def simp del: walk.simps)
qed


subsection \<open>The settled tree\<close>

lemma edges_mono:
  "(\<And>a n' p. fmlookup nodes' a = Some n' \<Longrightarrow> gn_current n' \<Longrightarrow> node_parent n' = Some p \<Longrightarrow>
      \<exists>n. fmlookup nodes a = Some n \<and> gn_current n \<and> node_parent n = Some p)
    \<Longrightarrow> edges nodes' \<subseteq> edges nodes"
  by (auto simp: edges_def)

lemma detach_simps [simp]:
  "node_parent (detach n) = None" "gn_address (detach n) = gn_address n"
  "gn_current (detach n) = gn_current n" "gn_status (detach n) = gn_status n"
  "gn_placements (detach n) = gn_placements n" "gn_name (detach n) = gn_name n"
  by (simp_all add: detach_def parent_address_def)

lemma lookup_break:
  "fmlookup (break_cycles nodes ranks) a =
     map_option (\<lambda>n. if a \<in> set (cycle_roots nodes ranks) then detach n else n) (fmlookup nodes a)"
  by (simp add: break_cycles_def Let_def)

lemma edges_break:
  "edges (break_cycles nodes ranks) = {(a, p) \<in> edges nodes. a \<notin> set (cycle_roots nodes ranks)}"
  by (fastforce simp: edges_def lookup_break split: if_splits)

lemma cycle_has_root:
  assumes sub: "r \<subseteq> edges nodes" and sv: "single_valued r" and cyc: "(a, a) \<in> r\<^sup>+"
  shows "\<exists>b. (a, b) \<in> r\<^sup>* \<and> b \<in> set (cycle_roots nodes ranks)"
proof -
  let ?C = "{b. (a, b) \<in> r\<^sup>*}"
  have "\<forall>b \<in> ?C. \<exists>c \<in> ?C. (b, c) \<in> r"
    using cycle_mutual [OF sv cyc] by (metis (mono_tags, lifting) mem_Collect_eq rtrancl.rtrancl_into_rtrancl tranclD)
  then obtain cs where w: "walk nodes [] (Some a) = Some cs" "set cs \<subseteq> ?C" "cs \<noteq> []"
    using walk_from_cycle [OF sub, of ?C "Some a" "[]"] by auto
  obtain b where "(a, b) \<in> r" using cyc by (auto dest: tranclD)
  then have "a \<in> set (bt_keys nodes)" using sub by (auto simp: edges_def fmlookup_dom_iff)
  then have "cycle_root ranks cs \<in> set (cycle_roots nodes ranks)"
    using w(1) by (force simp: cycle_roots_def List.map_filter_def simp del: walk.simps)
  then show ?thesis using cycle_root_min [OF w(3), of ranks] w(2) by blast
qed

lemma break_acyclic: "acyclic (edges (break_cycles nodes ranks))"
proof (rule acyclicI, rule allI, rule notI)
  fix a
  let ?r = "edges (break_cycles nodes ranks)"
  assume cyc: "(a, a) \<in> ?r\<^sup>+"
  have "?r \<subseteq> edges nodes" by (auto simp: edges_break)
  then obtain b where b: "(a, b) \<in> ?r\<^sup>*" "b \<in> set (cycle_roots nodes ranks)"
    using cycle_has_root [OF _ single_valued_edges cyc] by blast
  then obtain c where "(b, c) \<in> ?r"
    using cycle_mutual [OF single_valued_edges cyc] by (metis tranclD)
  then show False using b(2) by (simp add: edges_break)
qed

definition settled_inv :: "'f group_nodes \<Rightarrow> bool" where
  "settled_inv nodes \<longleftrightarrow> acyclic (edges nodes)
     \<and> (\<forall>a n. fmlookup nodes a = Some n \<longrightarrow> gn_address n = a
          \<and> (gn_status n = Active \<longrightarrow> gn_current n)
          \<and> (\<forall>p. node_parent n = Some p \<longrightarrow> bt_contains nodes p))"

lemma adopt_simps [simp]:
  "gn_address (adopt nodes n) = gn_address n" "gn_current (adopt nodes n) = gn_current n"
  "gn_placements (adopt nodes n) = gn_placements n"
  by (auto simp: adopt_def Let_def split: option.splits)

lemma adopt_parent:
  "node_parent (adopt nodes n) = (case node_parent n of Some p \<Rightarrow> if bt_contains nodes p then Some p else None
     | None \<Rightarrow> None)"
  by (auto simp: adopt_def Let_def split: option.splits)

lemma adopt_active: "gn_status (adopt nodes n) = Active \<Longrightarrow> gn_current n"
  by (auto simp: adopt_def Let_def split: if_splits option.splits)

lemma adopt_inv:
  assumes "acyclic (edges nodes)" and "\<forall>a n. fmlookup nodes a = Some n \<longrightarrow> gn_address n = a"
  shows "settled_inv (fmmap (adopt nodes) nodes)"
proof -
  have "edges (fmmap (adopt nodes) nodes) \<subseteq> edges nodes"
    by (rule edges_mono) (auto simp: adopt_parent split: option.splits if_splits)
  then have "acyclic (edges (fmmap (adopt nodes) nodes))" using assms(1) by (rule acyclic_subset [rotated])
  then show ?thesis
    using assms(2) by (auto simp: settled_inv_def adopt_parent bt_contains_def dest: adopt_active
        split: option.splits if_splits)
qed

lemma settle_node_active: "gn_status (fst (settle_node previous n)) = Active \<Longrightarrow> gn_status n = Active"
  by (auto simp: settle_node_eq split: if_splits)

lemma settle_round_lookup:
  "fmlookup (fst (settle_round nodes)) a = map_option (\<lambda>n. fst (settle_node (snapshot nodes) n)) (fmlookup nodes a)"
  by (simp add: settle_round_def Let_def)

lemma settle_round_edges: "edges (fst (settle_round nodes)) = edges nodes"
  by (fastforce simp: edges_def settle_round_lookup)

lemma settle_round_inv: "settled_inv nodes \<Longrightarrow> settled_inv (fst (settle_round nodes))"
  by (auto simp: settled_inv_def settle_round_edges settle_round_lookup bt_contains_def dest: settle_node_active)

interpretation status_loop: settling_loop settle_round settle nodes_weight
proof unfold_locales
  fix nodes nodes' :: "'a group_nodes"
  show "settle nodes = (let (s', changed) = settle_round nodes in if changed then settle s' else s')"
    by (rule settle.simps)
  show "settle_round nodes = (nodes', True) \<Longrightarrow> nodes_weight nodes' < nodes_weight nodes"
    by (rule settle_round_weight)
  assume "settle_round nodes = (nodes', False)"
  then have n': "nodes' = fst (settle_round nodes)"
    and no: "\<forall>n \<in> set (bt_values nodes). \<not> snd (settle_node (snapshot nodes) n)"
    by (auto simp: settle_round_def Let_def list_ex_iff)
  show "nodes' = nodes"
  proof (rule fmap_ext)
    fix a
    show "fmlookup nodes' a = fmlookup nodes a"
      using no settle_node_weight(3) unfolding n'
      by (cases "fmlookup nodes a") (auto simp: settle_round_lookup ball_bt_values)
  qed
qed

lemma settle_inv: "settled_inv nodes \<Longrightarrow> settled_inv (settle nodes)"
  by (rule status_loop.loop_invariant) (rule settle_round_inv)

lemma settle_final:
  assumes "fmlookup (settle nodes) a = Some n"
  shows "\<not> snd (settle_node (snapshot (settle nodes)) n)"
proof -
  have "\<not> snd (settle_round (settle nodes))" by (simp add: status_loop.loop_settled)
  then have "\<forall>n \<in> set (bt_values (settle nodes)). \<not> snd (settle_node (snapshot (settle nodes)) n)"
    by (auto simp: settle_round_def Let_def list_ex_iff)
  then show ?thesis using assms by (auto simp: ball_bt_values)
qed

lemma final_active:
  assumes inv: "settled_inv nodes" and fin: "\<not> snd (settle_node (snapshot nodes) n)"
    and n: "fmlookup nodes a = Some n" "gn_status n = Active" and p: "node_parent n = Some p"
  shows "\<exists>m. fmlookup nodes p = Some m \<and> gn_status m = Active"
proof -
  obtain m where m: "fmlookup nodes p = Some m" using inv n(1) p unfolding settled_inv_def bt_contains_def by blast
  then have "parent_state (snapshot nodes) n = Some (gn_status m, gn_current m)"
    using p by (simp add: parent_state_def snapshot_def)
  then have "gn_status m = Active"
    using fin n(2) by (cases "gn_status m")
      (auto simp: settle_node_eq parent_trashed_def parent_closed_def split: if_splits)
  then show ?thesis using m by blast
qed

lemma final_trashed:
  assumes fin: "\<not> snd (settle_node (snapshot nodes) n)" and n: "gn_status n \<noteq> Purged"
    and m: "fmlookup nodes p = Some m" "gn_status m = Trashed"
    and p: "p \<in> set (List.map_filter parent_address (gn_placements n)) \<or> node_parent n = Some p"
  shows "gn_status n = Trashed"
proof -
  have "fmlookup (snapshot nodes) p = Some (Trashed, gn_current m)" using m by (simp add: snapshot_def)
  then have "trashed_alternative (snapshot nodes) n \<or> parent_trashed (parent_state (snapshot nodes) n)"
    using p by (auto simp: trashed_alternative_def list_ex_iff parent_trashed_def parent_state_def
        List.map_filter_def split: option.splits)
  then show ?thesis using fin n by (auto simp: settle_node_eq split: if_splits)
qed


subsection \<open>\<open>tree\<close> and \<open>read_groups\<close>\<close>

lemma read_group_address: "read_group rd a = Ok n \<Longrightarrow> gn_address n = a"
  by (auto simp: read_group_def)

definition keyed :: "'f group_nodes \<Rightarrow> bool" where
  "keyed nodes \<longleftrightarrow> (\<forall>a n. fmlookup nodes a = Some n \<longrightarrow> gn_address n = a \<and> is_group (addr_object a))"

lemma read_nodes_keyed: "read_nodes rd xs = Ok (nodes, ranks) \<Longrightarrow> keyed nodes"
proof -
  assume "read_nodes rd xs = Ok (nodes, ranks)"
  then have "(\<lambda>(nodes, ranks). keyed nodes) (nodes, ranks)"
    unfolding read_nodes_def
  proof (rule foldR_invariant)
    fix s a s'
    assume "(\<lambda>(nodes, ranks). keyed nodes) s" and
      "(\<lambda>(nodes, ranks) a. if is_group (addr_object a)
         then bindR (placement_rank rd a) (\<lambda>rank.
              bindR (read_group rd a) (\<lambda>node. Ok (fmupd a node nodes, fmupd a rank ranks)))
         else Ok (nodes, ranks)) s a = Ok s'"
    then show "(\<lambda>(nodes, ranks). keyed nodes) s'"
      by (cases s) (auto simp: keyed_def dest: read_group_address split: if_splits)
  qed (simp add: keyed_def)
  then show "keyed nodes" by simp
qed

lemma keyed_preserved:
  "keyed nodes \<Longrightarrow> (\<And>a n'. fmlookup nodes' a = Some n' \<Longrightarrow> \<exists>n. fmlookup nodes a = Some n \<and> gn_address n' = gn_address n)
    \<Longrightarrow> keyed nodes'"
  unfolding keyed_def by metis

lemma settle_round_keyed: "keyed nodes \<Longrightarrow> keyed (fst (settle_round nodes))"
  by (auto simp: keyed_def settle_round_lookup)

lemma settle_keyed: "keyed nodes \<Longrightarrow> keyed (settle nodes)"
  by (rule status_loop.loop_invariant [where P = keyed]) (rule settle_round_keyed)

lemma tree_Ok:
  assumes "tree rd = Ok ns"
  shows "\<exists>nodes. ns = bt_values nodes \<and> settled_inv nodes \<and> keyed nodes
    \<and> (\<forall>a n. fmlookup nodes a = Some n \<longrightarrow> \<not> snd (settle_node (snapshot nodes) n))"
proof -
  obtain xs nodes ranks where rn: "read_nodes rd xs = Ok (nodes, ranks)"
    and ns: "ns = bt_values (settle (fmmap (adopt (break_cycles nodes ranks)) (break_cycles nodes ranks)))"
    using assms by (auto simp: tree_def Let_def)
  let ?b = "break_cycles nodes ranks"
  have b: "keyed ?b"
    by (rule keyed_preserved [OF read_nodes_keyed [OF rn]]) (auto simp: lookup_break split: if_splits)
  have a: "keyed (fmmap (adopt ?b) ?b)" by (rule keyed_preserved [OF b]) auto
  have "keyed (settle (fmmap (adopt ?b) ?b))"
    by (rule settle_keyed [OF a])
  moreover have "settled_inv (settle (fmmap (adopt ?b) ?b))"
    using b by (intro settle_inv adopt_inv) (auto simp: break_acyclic keyed_def)
  ultimately show ?thesis using ns settle_final by blast
qed

text \<open>The parent edges of a list of nodes, among the generations selected as current.\<close>

definition placed_edges :: "'f group_node list \<Rightarrow> object_address rel" where
  "placed_edges ns = {(gn_address n, p) | n p. n \<in> set ns \<and> gn_current n \<and> node_parent n = Some p}"

lemma placed_edges_nodes:
  assumes "keyed nodes"
  shows "placed_edges (bt_values nodes) = edges nodes"
  using assms by (auto simp: placed_edges_def edges_def set_bt_values keyed_def)

lemma keyed_addresses: "keyed nodes \<Longrightarrow> map gn_address (bt_values nodes) = bt_keys nodes"
proof -
  assume k: "keyed nodes"
  have "map gn_address (bt_values nodes) = map (\<lambda>(a, n). gn_address n) (bt_iter nodes)"
    by (simp add: bt_values_def comp_def case_prod_unfold)
  also have "\<dots> = map fst (bt_iter nodes)"
    using k by (intro map_cong) (auto simp: keyed_def)
  finally show ?thesis by simp
qed

lemma tree_shape:
  assumes "tree rd = Ok ns"
  shows "sorted (map gn_address ns) \<and> distinct (map gn_address ns) \<and> acyclic (placed_edges ns)
    \<and> (\<forall>n \<in> set ns. gn_status n = Active \<longrightarrow> gn_current n
         \<and> (\<forall>p. node_parent n = Some p \<longrightarrow> (\<exists>m \<in> set ns. gn_address m = p \<and> gn_status m = Active)))
    \<and> (\<forall>n \<in> set ns. \<forall>m \<in> set ns. gn_status n \<noteq> Purged \<longrightarrow> gn_status m = Trashed \<longrightarrow>
         gn_address m \<in> set (List.map_filter parent_address (gn_placements n)) \<union> set_option (node_parent n)
         \<longrightarrow> gn_status n = Trashed)"
proof -
  obtain nodes where ns: "ns = bt_values nodes" and inv: "settled_inv nodes" and k: "keyed nodes"
    and fin: "\<forall>a n. fmlookup nodes a = Some n \<longrightarrow> \<not> snd (settle_node (snapshot nodes) n)"
    using tree_Ok [OF assms] by blast
  have look: "n \<in> set ns \<longleftrightarrow> fmlookup nodes (gn_address n) = Some n" for n
    using k by (auto simp: ns set_bt_values keyed_def)
  have "gn_current n \<and> (\<forall>p. node_parent n = Some p \<longrightarrow> (\<exists>m \<in> set ns. gn_address m = p \<and> gn_status m = Active))"
    if n: "n \<in> set ns" "gn_status n = Active" for n
  proof -
    have n': "fmlookup nodes (gn_address n) = Some n" using n(1) look by simp
    have "\<exists>m \<in> set ns. gn_address m = p \<and> gn_status m = Active" if p: "node_parent n = Some p" for p
    proof -
      obtain m where m: "fmlookup nodes p = Some m" "gn_status m = Active"
        using final_active [OF inv _ n' n(2) p] fin n' by blast
      then have a: "gn_address m = p" using k by (simp add: keyed_def)
      then have "m \<in> set ns" using m look by simp
      then show ?thesis using m a by blast
    qed
    moreover have "gn_current n" using inv n' n(2) unfolding settled_inv_def by blast
    ultimately show ?thesis by blast
  qed
  moreover have "gn_status n = Trashed"
    if "n \<in> set ns" "m \<in> set ns" "gn_status n \<noteq> Purged" "gn_status m = Trashed"
      "gn_address m \<in> set (List.map_filter parent_address (gn_placements n)) \<union> set_option (node_parent n)" for n m
  proof (rule final_trashed [of nodes n "gn_address m" m])
    show "\<not> snd (settle_node (snapshot nodes) n)" "fmlookup nodes (gn_address m) = Some m"
      using that(1,2) fin look by blast+
    show "gn_address m \<in> set (List.map_filter parent_address (gn_placements n)) \<or> node_parent n = Some (gn_address m)"
      using that(5) by (cases "node_parent n") auto
  qed (use that in auto)
  moreover have "acyclic (placed_edges ns)"
    using inv by (simp add: ns placed_edges_nodes [OF k] settled_inv_def)
  ultimately show ?thesis
    using keyed_addresses [OF k] by (simp add: ns)
qed


text \<open>
  C1: the projected tree is usable whatever concurrent edits were merged. Every stored
  generation appears once, in address order; the edges of current groups are acyclic; an
  active group is current and its parent, if it shows one, is an active group of the same
  tree; and a retained group below a trashed one, through its selected placement or any
  alternative, is trashed.
\<close>

theorem tree_ordinary:
  assumes "tree rd = Ok ns"
  shows "sorted (map gn_address ns) \<and> distinct (map gn_address ns) \<and> acyclic (placed_edges ns)
    \<and> (\<forall>n \<in> set ns. gn_status n = Active \<longrightarrow> gn_current n
         \<and> (\<forall>p. node_parent n = Some p \<longrightarrow> (\<exists>m \<in> set ns. gn_address m = p \<and> gn_status m = Active)))
    \<and> (\<forall>n \<in> set ns. \<forall>m \<in> set ns. gn_status n \<noteq> Purged \<longrightarrow> gn_status m = Trashed \<longrightarrow>
         gn_address m \<in> set (List.map_filter parent_address (gn_placements n)) \<union> set_option (node_parent n)
         \<longrightarrow> gn_status n = Trashed)"
  by (rule tree_shape [OF assms])

theorem tree_ordinary_witness:
  "\<exists>ns. tree demo = Ok ns \<and> acyclic (placed_edges ns) \<and> length ns = 2"
proof -
  obtain ns where t: "tree demo = Ok ns" and m: "map (\<lambda>n. (gn_address n, gn_status n, node_parent n, gn_name n)) ns =
     [(ObjectAddress (GroupObj ''a'') ''a'', Active, None, ''A''),
      (ObjectAddress (GroupObj ''b'') ''b'', Active, Some (ObjectAddress (GroupObj ''a'') ''a''), ''C'')]"
    by (rule demo_tree_Ok)
  have "length ns = 2" using arg_cong [OF m, of length] by simp
  then show ?thesis using tree_ordinary [OF t] t by blast
qed

lemma read_name_Ok: "read_name rd v = Ok n \<Longrightarrow> n \<noteq> []"
  by (auto simp: read_name_def)

lemma read_register_selected:
  assumes "read_register rd obj key tkey dec add start st0 = Ok (acc, selected, st)"
    and dec_P: "\<And>v x. dec v = Ok x \<Longrightarrow> P x"
  shows "case selected of None \<Rightarrow> True | Some (x, _) \<Rightarrow> P x"
proof -
  obtain time_map vs where f: "foldR (\<lambda>(acc, selected, stamps) (value, operation).
         bindR (dec value) (\<lambda>x.
         bindR (unique rd time_map (rd_show rd operation)) (\<lambda>t.
         bindR (ok_or (v_i64 rd t) InvalidDocument) (\<lambda>time.
         Ok (add acc x, select selected x operation, stamps @ [time]))))) (start, None, st0) vs
       = Ok (acc, selected, st)"
    using assms(1) by (auto simp: read_register_def)
  have "(\<lambda>(acc, selected, st). case selected of None \<Rightarrow> True | Some (x, _) \<Rightarrow> P x) (acc, selected, st)"
  proof (rule foldR_invariant [OF f])
    fix s vo s'
    assume "(\<lambda>(acc, selected, st). case selected of None \<Rightarrow> True | Some (x, _) \<Rightarrow> P x) s"
      and "(\<lambda>(acc, selected, stamps) (value, operation).
         bindR (dec value) (\<lambda>x.
         bindR (unique rd time_map (rd_show rd operation)) (\<lambda>t.
         bindR (ok_or (v_i64 rd t) InvalidDocument) (\<lambda>time.
         Ok (add acc x, select selected x operation, stamps @ [time]))))) s vo = Ok s'"
    then show "(\<lambda>(acc, selected, st). case selected of None \<Rightarrow> True | Some (x, _) \<Rightarrow> P x) s'"
      by (cases s; cases vo) (auto simp: select_def split: option.splits if_splits dest!: dec_P)
  qed simp
  then show ?thesis by simp
qed

lemma read_group_name:
  "read_group rd a = Ok n \<Longrightarrow> \<exists>obj names rank st.
     read_register rd obj ''name'' ''name_times'' (read_name rd) (\<lambda>s x. finsert x s) {||} []
       = Ok (names, Some (gn_name n, rank), st)"
  by (auto simp: read_group_def)

lemma read_group_current: "read_group rd a = Ok n \<Longrightarrow> gn_current n \<Longrightarrow> single rd (addr_object a) = Ok a"
  by (auto simp: read_group_def)

lemma read_group_named: "read_group rd a = Ok n \<Longrightarrow> gn_name n \<noteq> []"
proof -
  assume "read_group rd a = Ok n"
  then obtain obj names rank st where
    "read_register rd obj ''name'' ''name_times'' (read_name rd) (\<lambda>s x. finsert x s) {||} []
       = Ok (names, Some (gn_name n, rank), st)"
    using read_group_name by blast
  from read_register_selected [OF this, of "\<lambda>x. x \<noteq> []", OF read_name_Ok] show ?thesis by simp
qed

definition faithful :: "('o::linorder, 'v, 'f) reader \<Rightarrow> 'f group_nodes \<Rightarrow> bool" where
  "faithful rd nodes \<longleftrightarrow> (\<forall>a n. fmlookup nodes a = Some n \<longrightarrow>
     gn_name n \<noteq> [] \<and> (gn_current n \<longrightarrow> single rd (addr_object a) = Ok a))"


lemma read_nodes_faithful: "read_nodes rd xs = Ok (nodes, ranks) \<Longrightarrow> faithful rd nodes"
proof -
  assume "read_nodes rd xs = Ok (nodes, ranks)"
  then have "(\<lambda>(nodes, ranks). faithful rd nodes) (nodes, ranks)"
    unfolding read_nodes_def
  proof (rule foldR_invariant)
    fix s a s'
    assume "(\<lambda>(nodes, ranks). faithful rd nodes) s" and
      "(\<lambda>(nodes, ranks) a. if is_group (addr_object a)
         then bindR (placement_rank rd a) (\<lambda>rank.
              bindR (read_group rd a) (\<lambda>node. Ok (fmupd a node nodes, fmupd a rank ranks)))
         else Ok (nodes, ranks)) s a = Ok s'"
    then show "(\<lambda>(nodes, ranks). faithful rd nodes) s'"
      by (cases s) (auto simp: faithful_def dest: read_group_named read_group_current split: if_splits)
  qed (simp add: faithful_def)
  then show ?thesis by simp
qed

lemma faithful_preserved:
  "faithful rd nodes \<Longrightarrow> (\<And>a n'. fmlookup nodes' a = Some n' \<Longrightarrow> \<exists>n. fmlookup nodes a = Some n
      \<and> gn_name n' = gn_name n \<and> gn_current n' = gn_current n) \<Longrightarrow> faithful rd nodes'"
  unfolding faithful_def by metis

lemma frame_name [simp]:
  "gn_name (fst (settle_node previous n)) = gn_name n" "gn_name (adopt nodes n) = gn_name n"
  by (auto simp: settle_node_eq adopt_def Let_def split: option.splits)

lemma settle_round_faithful: "faithful rd nodes \<Longrightarrow> faithful rd (fst (settle_round nodes))"
  by (auto simp: faithful_def settle_round_lookup)

lemma settle_faithful: "faithful rd nodes \<Longrightarrow> faithful rd (settle nodes)"
  by (rule status_loop.loop_invariant [where P = "faithful rd"]) (rule settle_round_faithful)

lemma tree_faithful:
  assumes "tree rd = Ok ns" and "n \<in> set ns"
  shows "gn_name n \<noteq> [] \<and> (gn_current n \<longrightarrow> single rd (addr_object (gn_address n)) = Ok (gn_address n))
    \<and> is_group (addr_object (gn_address n))"
proof -
  obtain xs nodes ranks where rn: "read_nodes rd xs = Ok (nodes, ranks)"
    and ns: "ns = bt_values (settle (fmmap (adopt (break_cycles nodes ranks)) (break_cycles nodes ranks)))"
    using assms(1) by (auto simp: tree_def Let_def)
  let ?b = "break_cycles nodes ranks"
  have "faithful rd ?b"
    by (rule faithful_preserved [OF read_nodes_faithful [OF rn]]) (auto simp: lookup_break split: if_splits)
  then have "faithful rd (fmmap (adopt ?b) ?b)" by (rule faithful_preserved) auto
  then have f: "faithful rd (settle (fmmap (adopt ?b) ?b))" by (rule settle_faithful)
  have "keyed ?b"
    by (rule keyed_preserved [OF read_nodes_keyed [OF rn]]) (auto simp: lookup_break split: if_splits)
  then have "keyed (fmmap (adopt ?b) ?b)" by (rule keyed_preserved) auto
  then have "keyed (settle (fmmap (adopt ?b) ?b))" by (rule settle_keyed)
  then show ?thesis using f assms(2) ns by (auto simp: set_bt_values keyed_def faithful_def)
qed


subsection \<open>The groups shown\<close>

lemma acyclic_image:
  assumes "acyclic r" and "\<And>x y. (x, y) \<in> s \<Longrightarrow> (f x, f y) \<in> r"
  shows "acyclic s"
proof (rule acyclicI, rule allI, rule notI)
  fix x
  have "(f x, f y) \<in> r\<^sup>+" if "(x, y) \<in> s\<^sup>+" for x y
    using that by (induction rule: trancl_induct) (auto intro: assms(2) trancl_into_trancl)
  then show "(x, x) \<in> s\<^sup>+ \<Longrightarrow> False" using assms(1) by (auto simp: acyclic_def)
qed

lemma list_all2_set: "list_all2 (\<lambda>x y. f x = Inr y) xs ys \<Longrightarrow> set ys = {y. \<exists>x \<in> set xs. f x = Inr y}"
  by (induction rule: list_all2_induct) auto

definition parent_ids :: "'f group list \<Rightarrow> group_id rel" where
  "parent_ids gs = {(g_id g, p) | g p. g \<in> set gs \<and> g_parent g = Some p}"

lemma selected_group_Ok:
  "is_group (addr_object (gn_address n)) \<Longrightarrow> \<exists>g. selected_group n = Ok g"
  by (auto simp: selected_group_def is_group_def split: object_id.splits)

lemma selected_group_fields:
  "selected_group n = Ok g \<Longrightarrow> addr_object (gn_address n) = GroupObj (g_id g) \<and> g_name g = gn_name n
    \<and> g_generation g = addr_generation (gn_address n)
    \<and> g_parent g = map_option gr_id (gp_parent (gn_placement n)) \<and> g_order g = gp_order (gn_placement n)"
  by (auto simp: selected_group_def split: object_id.splits)

lemma read_groups_shape:
  assumes "read_groups L rd = Ok gs"
  shows "sorted (map (group_rank L) gs) \<and> distinct (map g_id gs) \<and> acyclic (parent_ids gs)
    \<and> (\<forall>g \<in> set gs. g_name g \<noteq> [] \<and> (\<forall>p. g_parent g = Some p \<longrightarrow> p \<in> g_id ` set gs))
    \<and> (\<exists>ns. tree rd = Ok ns \<and> (\<lambda>g. ObjectAddress (GroupObj (g_id g)) (g_generation g)) ` set gs
         = gn_address ` {n \<in> set ns. gn_status n = Active})"
proof -
  obtain ns sel where t: "tree rd = Ok ns" and gs: "gs = sort_key (group_rank L) sel"
    and sel: "list_all2 (\<lambda>n g. selected_group n = Ok g) (filter (\<lambda>n. gn_status n = Active \<and> gn_current n) ns) sel"
    using assms by (auto simp: read_groups_def mapR_Inr)
  let ?act = "filter (\<lambda>n. gn_status n = Active \<and> gn_current n) ns"
  note T = tree_faithful [OF t] and S = tree_shape [OF t]
  have set_gs: "set gs = {g. \<exists>n \<in> set ?act. selected_group n = Ok g}"
    using list_all2_set [OF sel] by (simp add: gs)
  have pick: "\<exists>g \<in> set gs. addr_object (gn_address n) = GroupObj (g_id g)"
    if n: "n \<in> set ns" "gn_status n = Active" for n
  proof -
    have "n \<in> set ?act" using n S by auto
    moreover obtain g where "selected_group n = Ok g" using selected_group_Ok T n(1) by blast
    ultimately show ?thesis using selected_group_fields set_gs by blast
  qed
  have edge: "(projr (single rd (GroupObj i)), projr (single rd (GroupObj p))) \<in> placed_edges ns
      \<and> p \<in> g_id ` set gs" if g: "g \<in> set gs" "g_id g = i" "g_parent g = Some p" for g i p
  proof -
    obtain n where n: "n \<in> set ns" "gn_status n = Active" "gn_current n" "selected_group n = Ok g"
      using g(1) set_gs by auto
    note f = selected_group_fields [OF n(4)]
    obtain ref where ref: "gp_parent (gn_placement n) = Some ref" "gr_id ref = p"
      using f g(3) by (cases "gp_parent (gn_placement n)") auto
    then have np: "node_parent n = Some (group_address ref)" by (simp add: parent_address_def)
    then obtain m where m: "m \<in> set ns" "gn_address m = group_address ref" "gn_status m = Active"
      using S n(1,2) by blast
    have "gn_current m" using S m by blast
    then have "single rd (GroupObj p) = Ok (group_address ref)"
      using T [OF m(1)] m(2) ref(2) by (simp add: group_address_def)
    moreover have "single rd (GroupObj i) = Ok (gn_address n)" using T [OF n(1)] n(3) f g(2) by simp
    moreover have "p \<in> g_id ` set gs" using pick [OF m(1,3)] m(2) ref(2) by (auto simp: group_address_def)
    ultimately show ?thesis using n np by (auto simp: placed_edges_def)
  qed
  have "map g_id sel = map (\<lambda>n. object_str (addr_object (gn_address n))) ?act"
    using sel by (induction rule: list_all2_induct) (auto dest: selected_group_fields simp: object_str_def)
  moreover have "distinct (map (\<lambda>n. object_str (addr_object (gn_address n))) ?act)"
  proof -
    have "n = m" if "n \<in> set ?act" "m \<in> set ?act"
      "object_str (addr_object (gn_address n)) = object_str (addr_object (gn_address m))" for n m
    proof -
      have nm: "n \<in> set ns" "m \<in> set ns" "gn_current n" "gn_current m" using that by auto
      then have "is_group (addr_object (gn_address n))" "is_group (addr_object (gn_address m))"
        using T by blast+
      then have "addr_object (gn_address n) = addr_object (gn_address m)"
        using that(3) by (auto simp: object_str_def is_group_def split: object_id.splits)
      then have "(Inr (gn_address n) :: doc_error + object_address) = Inr (gn_address m)"
        using T [OF nm(1)] T [OF nm(2)] nm(3,4) by metis
      then have "gn_address n = gn_address m" by simp
      moreover have "inj_on gn_address (set ns)" using S by (simp add: distinct_map)
      ultimately show ?thesis using that by (auto dest: inj_onD)
    qed
    moreover have "distinct ?act" using S by (simp add: distinct_map)
    ultimately show ?thesis by (simp add: distinct_map inj_on_def)
  qed
  ultimately have "distinct (map g_id sel)" by simp
  then have "distinct (map g_id gs)" by (simp add: gs distinct_map)
  moreover have "acyclic (parent_ids gs)"
  proof (rule acyclic_image)
    show "acyclic (placed_edges ns)" using S by blast
    show "(i, p) \<in> parent_ids gs \<Longrightarrow>
        (projr (single rd (GroupObj i)), projr (single rd (GroupObj p))) \<in> placed_edges ns" for i p
      using edge by (auto simp: parent_ids_def)
  qed
  moreover have "g_name g \<noteq> [] \<and> (\<forall>p. g_parent g = Some p \<longrightarrow> p \<in> g_id ` set gs)" if g: "g \<in> set gs" for g
  proof -
    obtain n where "n \<in> set ns" "selected_group n = Ok g" using g set_gs by auto
    then have "g_name g \<noteq> []" using T selected_group_fields by metis
    then show ?thesis using edge [OF g refl] by blast
  qed
  moreover have "(\<lambda>g. ObjectAddress (GroupObj (g_id g)) (g_generation g)) ` set gs
      = gn_address ` {n \<in> set ns. gn_status n = Active}" (is "?f ` _ = _")
  proof -
    have im: "?f g = gn_address n" if "selected_group n = Ok g" for n g
      using selected_group_fields [OF that] by (metis object_address.collapse)
    have act: "set ?act = {n \<in> set ns. gn_status n = Active}" using S by auto
    show ?thesis
    proof (intro equalityI subsetI)
      fix a assume "a \<in> ?f ` set gs"
      then obtain g n where "a = ?f g" "n \<in> set ?act" "selected_group n = Ok g" using set_gs by blast
      then show "a \<in> gn_address ` {n \<in> set ns. gn_status n = Active}" unfolding act using im by blast
    next
      fix a assume "a \<in> gn_address ` {n \<in> set ns. gn_status n = Active}"
      then obtain n where n: "a = gn_address n" "n \<in> set ?act" "n \<in> set ns" unfolding act by blast
      then obtain g where g: "selected_group n = Ok g" using selected_group_Ok T by blast
      then have "g \<in> set gs" using n(2) set_gs by blast
      then show "a \<in> ?f ` set gs" using im [OF g] n(1) by (intro image_eqI [of _ _ g]) auto
    qed
  qed
  moreover have "sorted (map (group_rank L) gs)" by (simp add: gs)
  ultimately show ?thesis using t by blast
qed

text \<open>
  The list of groups a user sees holds exactly the active groups of the tree, in the order
  of their parents and sibling positions; names are not empty, no group appears twice under
  one identity, every parent shown is in the list, and the parents form no cycle.
\<close>

theorem read_groups_forest:
  assumes "read_groups L rd = Ok gs"
  shows "sorted (map (group_rank L) gs) \<and> distinct (map g_id gs) \<and> acyclic (parent_ids gs)
    \<and> (\<forall>g \<in> set gs. g_name g \<noteq> [] \<and> (\<forall>p. g_parent g = Some p \<longrightarrow> p \<in> g_id ` set gs))
    \<and> (\<exists>ns. tree rd = Ok ns \<and> (\<lambda>g. ObjectAddress (GroupObj (g_id g)) (g_generation g)) ` set gs
         = gn_address ` {n \<in> set ns. gn_status n = Active})"
  by (rule read_groups_shape [OF assms])

theorem read_groups_forest_witness:
  "\<exists>gs. read_groups demo_lib demo = Ok gs \<and> map g_id gs = [''a'', ''b''] \<and> acyclic (parent_ids gs)"
proof -
  obtain gs where g: "read_groups demo_lib demo = Ok gs \<and> map g_id gs = [''a'', ''b'']"
    using demo_groups by (rule exE)
  note forest = read_groups_forest [OF conjunct1 [OF g]]
  show ?thesis
    by (rule exI [of _ gs], intro conjI, rule conjunct1 [OF g], rule conjunct2 [OF g],
        rule conjunct1 [OF conjunct2 [OF conjunct2 [OF forest]]])
qed

end
