(* ===== verification/Doc_Entries.thy ===== *)
theory Doc_Entries
  imports Doc_Reader
begin

text \<open>
  Entry fields and their projection: the read side of
  \<open>crates/taypeer-document/src/fields.rs\<close>, \<open>projection.rs\<close> and the stored revisions of
  \<open>lib.rs\<close>. Every register keeps its concurrent values as variants; one variant is
  selected for the editable form, with protection and deletion taking priority.
\<close>

subsection \<open>Fields (\<open>fields.rs\<close>)\<close>

definition field_key :: "entry_field \<Rightarrow> string" where
  "field_key field = (case field of
     FTitle \<Rightarrow> ''title'' | FUsername \<Rightarrow> ''username'' | FPassword \<Rightarrow> ''password'' | FUrl \<Rightarrow> ''url''
   | FNotes \<Rightarrow> ''notes'' | FTags \<Rightarrow> ''tags'' | FExpiresAt \<Rightarrow> ''expires_at''
   | FAttributeName _ \<Rightarrow> ''name'' | FAttributeValue _ \<Rightarrow> ''value''
   | FAttributePresence _ \<Rightarrow> ''presence'' | FAttachmentPresence _ \<Rightarrow> ''presence''
   | FAttachmentName _ \<Rightarrow> ''name'' | FAttachmentBlob _ \<Rightarrow> ''blob'' | FIcon \<Rightarrow> ''icon''
   | FForeground \<Rightarrow> ''foreground'' | FBackground \<Rightarrow> ''background'')"

definition field_object :: "('o, 'v, 'f) reader \<Rightarrow> 'o \<Rightarrow> entry_field \<Rightarrow> doc_error + 'o" where
  "field_object rd entry field =
     (let nested = (\<lambda>container i. bindR (object rd entry container) (\<lambda>m. object rd m i))
      in case field of
        FAttributeName i \<Rightarrow> nested ''attributes'' i
      | FAttributeValue i \<Rightarrow> nested ''attributes'' i
      | FAttributePresence i \<Rightarrow> nested ''attributes'' i
      | FAttachmentName i \<Rightarrow> nested ''attachments'' i
      | FAttachmentBlob i \<Rightarrow> nested ''attachments'' i
      | FAttachmentPresence i \<Rightarrow> nested ''attachments'' i
      | _ \<Rightarrow> Ok entry)"

definition validate_field :: "entry_field \<Rightarrow> field_value \<Rightarrow> doc_error + unit" where
  "validate_field field v =
     (let require = (\<lambda>valid. if valid then Ok () else Err InvalidDocument)
      in case field of
        FTitle \<Rightarrow> (case v of VText (Some t) \<Rightarrow> if t = [] then Err (Validation EmptyTitle) else Ok ()
                   | _ \<Rightarrow> Err InvalidDocument)
      | FUsername \<Rightarrow> require (case v of VText _ \<Rightarrow> True | _ \<Rightarrow> False)
      | FPassword \<Rightarrow> require (case v of VText _ \<Rightarrow> True | _ \<Rightarrow> False)
      | FUrl \<Rightarrow> require (case v of VText _ \<Rightarrow> True | _ \<Rightarrow> False)
      | FNotes \<Rightarrow> require (case v of VText _ \<Rightarrow> True | _ \<Rightarrow> False)
      | FTags \<Rightarrow> require (case v of VTags _ \<Rightarrow> True | _ \<Rightarrow> False)
      | FExpiresAt \<Rightarrow> require (case v of VTimestamp _ \<Rightarrow> True | _ \<Rightarrow> False)
      | FAttributeName _ \<Rightarrow> (case v of VText (Some t) \<Rightarrow>
            if t = [] then Err (Validation EmptyAttributeName) else Ok () | _ \<Rightarrow> Err InvalidDocument)
      | FAttachmentName _ \<Rightarrow> require (case v of VText (Some t) \<Rightarrow> t \<noteq> [] | _ \<Rightarrow> False)
      | FAttachmentBlob _ \<Rightarrow> require (case v of VBlob _ \<Rightarrow> True | _ \<Rightarrow> False)
      | FAttachmentPresence _ \<Rightarrow> require (case v of VPresence _ \<Rightarrow> True | _ \<Rightarrow> False)
      | FIcon \<Rightarrow> require (case v of VIcon _ \<Rightarrow> True | _ \<Rightarrow> False)
      | FForeground \<Rightarrow> require (case v of VColor _ \<Rightarrow> True | _ \<Rightarrow> False)
      | FBackground \<Rightarrow> require (case v of VColor _ \<Rightarrow> True | _ \<Rightarrow> False)
      | FAttributeValue _ \<Rightarrow> require (case v of VAttribute _ \<Rightarrow> True | _ \<Rightarrow> False)
      | FAttributePresence _ \<Rightarrow> require (case v of VPresence _ \<Rightarrow> True | _ \<Rightarrow> False))"

definition decode_text :: "('o, 'v, 'f) reader \<Rightarrow> 'v \<Rightarrow> doc_error + field_value" where
  "decode_text rd value =
     (if v_is_null rd value then Ok (VText None)
      else bindR (ok_or (v_str rd value) InvalidDocument) (\<lambda>t. Ok (VText (Some t))))"

definition decode_field :: "('o, 'v, 'f) reader \<Rightarrow> entry_field \<Rightarrow> 'v \<Rightarrow> doc_error + field_value" where
  "decode_field rd field value =
     bindR (case field of
         FTags \<Rightarrow> bindR (decode rd (js_tags rd) value) (\<lambda>x. Ok (VTags x))
       | FExpiresAt \<Rightarrow>
           if v_is_null rd value then Ok (VTimestamp None)
           else bindR (ok_or (v_timestamp rd value) InvalidDocument) (\<lambda>t. Ok (VTimestamp (Some t)))
       | FAttributeValue _ \<Rightarrow> bindR (decode rd (js_attribute rd) value) (\<lambda>x. Ok (VAttribute x))
       | FAttributePresence _ \<Rightarrow> bindR (decode rd (js_presence rd) value) (\<lambda>x. Ok (VPresence (ps_alive x)))
       | FAttachmentPresence _ \<Rightarrow> bindR (decode rd (js_presence rd) value) (\<lambda>x. Ok (VPresence (ps_alive x)))
       | FAttachmentBlob _ \<Rightarrow> bindR (decode rd (js_blob rd) value) (\<lambda>x. Ok (VBlob x))
       | FIcon \<Rightarrow> bindR (decode rd (js_icon rd) value) (\<lambda>x. Ok (VIcon x))
       | FForeground \<Rightarrow> bindR (decode rd (js_color rd) value) (\<lambda>x. Ok (VColor x))
       | FBackground \<Rightarrow> bindR (decode rd (js_color rd) value) (\<lambda>x. Ok (VColor x))
       | _ \<Rightarrow> decode_text rd value) (\<lambda>decoded.
     bindR (validate_field field decoded) (\<lambda>_. Ok decoded))"

text \<open>A further operation joins the variant of an equal value, or starts one.\<close>

fun add_variant :: "field_value \<Rightarrow> string \<Rightarrow> value_variant list \<Rightarrow> value_variant list" where
  "add_variant v origin [] = [\<lparr>vv_value = v, vv_origins = [origin]\<rparr>]"
| "add_variant v origin (x # xs) =
     (if vv_value x = v then x\<lparr>vv_origins := vv_origins x @ [origin]\<rparr> # xs
      else x # add_variant v origin xs)"

definition read_field :: "('o, 'v, 'f) reader \<Rightarrow> 'o \<Rightarrow> entry_field \<Rightarrow> doc_error + field_state" where
  "read_field rd entry field =
     bindR (field_object rd entry field) (\<lambda>obj.
     bindR (get_all rd obj (field_key field)) (\<lambda>values.
     bindR (foldR (\<lambda>variants (value, operation).
              bindR (decode_field rd field value) (\<lambda>v. Ok (add_variant v (rd_show rd operation) variants)))
            [] values) (\<lambda>variants.
     if variants = [] then Err InvalidDocument
     else Ok \<lparr>fs_field = field,
            fs_variants = sort_key vv_origins (map (\<lambda>x. x\<lparr>vv_origins := sort (vv_origins x)\<rparr>) variants)\<rparr>)))"

text \<open>\<open>str::parse::<u64>\<close>: an optional plus sign, then decimal digits without overflow.\<close>

definition digits_value :: "string \<Rightarrow> nat" where
  "digits_value ds = foldl (\<lambda>n c. 10 * n + (of_char c - 48)) 0 ds"

definition parse_u64 :: "string \<Rightarrow> nat option" where
  "parse_u64 s =
     (let ds = (case s of c # rest \<Rightarrow> if c = CHR ''+'' then rest else s | [] \<Rightarrow> [])
      in if ds \<noteq> [] \<and> list_all (\<lambda>c. c \<in> set ''0123456789'') ds \<and> digits_value ds \<le> U64_MAX
         then Some (digits_value ds) else None)"

lemma parse_u64_int [code]:
  "parse_u64 s =
     (let ds = (case s of c # rest \<Rightarrow> if c = CHR ''+'' then rest else s | [] \<Rightarrow> [])
      in if ds \<noteq> [] \<and> list_all (\<lambda>c. c \<in> set ''0123456789'') ds \<and> int (digits_value ds) \<le> 18446744073709551615
         then Some (digits_value ds) else None)"
  by (auto simp: parse_u64_def U64_MAX_def)

definition operation_rank :: "('o, 'v, 'f) reader \<Rightarrow> string \<Rightarrow> doc_error + 'o" where
  "operation_rank rd origin =
     (case dropWhile (\<lambda>c. c \<noteq> CHR ''@'') origin of
        [] \<Rightarrow> Err InvalidDocument
      | _ # actor \<Rightarrow>
          bindR (ok_or (parse_u64 (takeWhile (\<lambda>c. c \<noteq> CHR ''@'') origin)) InvalidDocument) (\<lambda>counter.
          ok_or (rd_obj_id rd counter actor) InvalidDocument))"

definition variant_rank :: "('o::linorder, 'v, 'f) reader \<Rightarrow> value_variant \<Rightarrow> doc_error + 'o" where
  "variant_rank rd variant =
     bindR (mapR (operation_rank rd) (vv_origins variant)) (\<lambda>ranks.
     ok_or (if ranks = [] then None else Some (Max (set ranks))) InvalidDocument)"

definition variant_priority :: "entry_field \<Rightarrow> value_variant \<Rightarrow> bool" where
  "variant_priority field variant = (case field of
     FAttributeValue _ \<Rightarrow> (case vv_value variant of VAttribute v \<Rightarrow> av_protected v | _ \<Rightarrow> False)
   | FAttributePresence _ \<Rightarrow> (case vv_value variant of VPresence present \<Rightarrow> \<not> present | _ \<Rightarrow> False)
   | FAttachmentPresence _ \<Rightarrow> (case vv_value variant of VPresence present \<Rightarrow> \<not> present | _ \<Rightarrow> False)
   | _ \<Rightarrow> False)"

definition consider_variant ::
  "('o::linorder, 'v, 'f) reader \<Rightarrow> entry_field \<Rightarrow> (value_variant \<times> bool \<times> 'o) option \<Rightarrow> value_variant
     \<Rightarrow> doc_error + (value_variant \<times> bool \<times> 'o) option" where
  "consider_variant rd field selected variant =
     bindR (variant_rank rd variant) (\<lambda>rank.
     let priority = variant_priority field variant
     in Ok (case selected of
              None \<Rightarrow> Some (variant, priority, rank)
            | Some (_, old_priority, old_rank) \<Rightarrow>
                if (priority, rank) > (old_priority, old_rank)
                then Some (variant, priority, rank) else selected))"

definition selected_variant :: "('o::linorder, 'v, 'f) reader \<Rightarrow> field_state \<Rightarrow> doc_error + value_variant" where
  "selected_variant rd state =
     bindR (foldR (consider_variant rd (fs_field state)) None (fs_variants state)) (\<lambda>selected.
     bindR (ok_or selected InvalidDocument) (\<lambda>(variant, _, _). Ok variant))"

definition form_fields :: "entry_fields \<Rightarrow> (entry_field \<times> field_value) list" where
  "form_fields f =
     [(FIcon, VIcon (app_icon (ef_appearance f))),
      (FForeground, VColor (app_foreground (ef_appearance f))),
      (FBackground, VColor (app_background (ef_appearance f))),
      (FTitle, VText (Some (ef_title f))), (FUsername, VText (ef_username f)),
      (FPassword, VText (ef_password f)), (FUrl, VText (ef_url f)), (FNotes, VText (ef_notes f)),
      (FTags, VTags (ef_tags f)), (FExpiresAt, VTimestamp (ef_expires_at f))]"

subsection \<open>Stored revisions (\<open>lib.rs\<close>)\<close>

text \<open>\<open>visit_stored_revisions\<close>, as the list of what the visitor receives.\<close>

definition visit_stored_revisions :: "('o, 'v, 'f) reader \<Rightarrow> doc_error + stored_revision list" where
  "visit_stored_revisions rd =
     bindR (object rd (rd_root rd) ''revisions'') (\<lambda>root.
     mapR (\<lambda>key.
         bindR (unique rd root key) (\<lambda>value.
         bindR (decode rd (js_stored rd) value) (\<lambda>stored.
         if sr_id (st_revision stored) \<noteq> key then Err InvalidDocument else Ok stored)))
       (rd_keys rd root))"

definition stored_revisions :: "('o, 'v, 'f) reader \<Rightarrow> entry_id \<Rightarrow> doc_error + stored_revision list" where
  "stored_revisions rd e =
     bindR (visit_stored_revisions rd) (\<lambda>all. Ok (filter (\<lambda>s. sr_entry_id (st_revision s) = e) all))"


subsection \<open>Projection (\<open>projection.rs\<close>)\<close>

type_synonym operation_times = "(string, timestamp) fmap"
type_synonym saved_operation_times = "(entry_id, operation_times) fmap"

text \<open>Record the save time of every operation a stored revision confirmed.\<close>

definition insert_times :: "stored_revision \<Rightarrow> operation_times \<Rightarrow> operation_times" where
  "insert_times stored m =
     foldl (\<lambda>m operation. fmupd operation (sr_saved_at (st_revision stored)) m) m
       (sorted_list_of_fset (st_changed_operations stored))"

definition saved_times_read :: "('o, 'v, 'f) reader \<Rightarrow> doc_error + saved_operation_times" where
  "saved_times_read rd =
     bindR (visit_stored_revisions rd) (\<lambda>all.
     Ok (foldl (\<lambda>entries stored.
            let e = sr_entry_id (st_revision stored);
                m = (case fmlookup entries e of None \<Rightarrow> fmempty | Some m \<Rightarrow> m)
            in fmupd e (insert_times stored m) entries) fmempty all))"

definition PLAIN_FIELDS :: "entry_field list" where
  "PLAIN_FIELDS = [FTitle, FUsername, FPassword, FUrl, FNotes, FTags, FExpiresAt, FIcon, FForeground, FBackground]"

text \<open>One attribute or attachment: its further fields are read unless it is removed.\<close>

definition read_owned ::
  "('o::linorder, 'v, 'f) reader \<Rightarrow> 'o \<Rightarrow> entry_field \<Rightarrow> entry_field list \<Rightarrow> doc_error + field_state list" where
  "read_owned rd entry presence_field members =
     bindR (read_field rd entry presence_field) (\<lambda>presence.
     bindR (selected_variant rd presence) (\<lambda>selected.
     bindR (if vv_value selected = VPresence False then Ok []
            else mapR (read_field rd entry) members) (\<lambda>states.
     Ok (states @ [presence]))))"

definition read_values :: "('o::linorder, 'v, 'f) reader \<Rightarrow> 'o \<Rightarrow> doc_error + field_state list" where
  "read_values rd entry =
     bindR (mapR (read_field rd entry) PLAIN_FIELDS) (\<lambda>plain.
     bindR (object rd entry ''attributes'') (\<lambda>attributes.
     bindR (mapR (\<lambda>k. read_owned rd entry (FAttributePresence k) [FAttributeName k, FAttributeValue k])
              (rd_keys rd attributes)) (\<lambda>attrs.
     bindR (object rd entry ''attachments'') (\<lambda>attachments.
     bindR (mapR (\<lambda>k. read_owned rd entry (FAttachmentPresence k) [FAttachmentName k, FAttachmentBlob k])
              (rd_keys rd attachments)) (\<lambda>atts.
     Ok (plain @ concat attrs @ concat atts))))))"

definition operation_time ::
  "(string fset \<times> timestamp) option \<Rightarrow> operation_times option \<Rightarrow> string \<Rightarrow> timestamp option" where
  "operation_time pending stamps operation =
     (case pending of
        Some (ops, now) \<Rightarrow> if operation |\<in>| ops then Some now
          else Option.bind stamps (\<lambda>m. fmlookup m operation)
      | None \<Rightarrow> Option.bind stamps (\<lambda>m. fmlookup m operation))"

definition modification_time ::
  "('o, 'v, 'f) reader \<Rightarrow> entry_id \<Rightarrow> 'o \<Rightarrow> field_state list \<Rightarrow> (string fset \<times> timestamp) option
     \<Rightarrow> timestamp \<Rightarrow> saved_operation_times option \<Rightarrow> doc_error + timestamp" where
  "modification_time rd e entry values pending created_at stamps =
     (let origins = concat (map vv_origins (concat (map fs_variants values)))
      in bindR (get_all rd entry ''group'') (\<lambda>groups.
         let origins = sort (remdups (origins @ map (\<lambda>(_, operation). rd_show rd operation) groups))
         in bindR (case stamps of
                Some m \<Rightarrow> Ok (fmlookup m e)
              | None \<Rightarrow> bindR (stored_revisions rd e) (\<lambda>all.
                  Ok (Some (foldl (\<lambda>m stored. insert_times stored m) fmempty all)))) (\<lambda>operation_times.
            let found = List.map_filter (operation_time pending operation_times) origins
            in Ok (if found = [] then created_at else Max (set found)))))"

record projection =
  pj_result :: entry_fields
  pj_names :: "(attribute_id, string) fmap"
  pj_values :: "(attribute_id, attribute_value) fmap"
  pj_present :: "attribute_id fset"
  pj_attachment_names :: "(attachment_id, string) fmap"
  pj_attachment_blobs :: "(attachment_id, blob_id) fmap"
  pj_attachments :: "attachment_id fset"

definition project_field :: "entry_field \<Rightarrow> field_value \<Rightarrow> projection \<Rightarrow> doc_error + projection" where
  "project_field field v p =
     (let set_result = (\<lambda>g. Ok (p\<lparr>pj_result := g (pj_result p)\<rparr>));
          set_app = (\<lambda>g. Ok (p\<lparr>pj_result := (pj_result p)\<lparr>ef_appearance := g (ef_appearance (pj_result p))\<rparr>\<rparr>))
      in case field of
        FTitle \<Rightarrow> (case v of VText (Some t) \<Rightarrow> set_result (\<lambda>r. r\<lparr>ef_title := t\<rparr>) | _ \<Rightarrow> Err InvalidDocument)
      | FUsername \<Rightarrow> (case v of VText t \<Rightarrow> set_result (\<lambda>r. r\<lparr>ef_username := t\<rparr>) | _ \<Rightarrow> Err InvalidDocument)
      | FPassword \<Rightarrow> (case v of VText t \<Rightarrow> set_result (\<lambda>r. r\<lparr>ef_password := t\<rparr>) | _ \<Rightarrow> Err InvalidDocument)
      | FUrl \<Rightarrow> (case v of VText t \<Rightarrow> set_result (\<lambda>r. r\<lparr>ef_url := t\<rparr>) | _ \<Rightarrow> Err InvalidDocument)
      | FNotes \<Rightarrow> (case v of VText t \<Rightarrow> set_result (\<lambda>r. r\<lparr>ef_notes := t\<rparr>) | _ \<Rightarrow> Err InvalidDocument)
      | FTags \<Rightarrow> (case v of VTags t \<Rightarrow> set_result (\<lambda>r. r\<lparr>ef_tags := t\<rparr>) | _ \<Rightarrow> Err InvalidDocument)
      | FExpiresAt \<Rightarrow> (case v of VTimestamp t \<Rightarrow> set_result (\<lambda>r. r\<lparr>ef_expires_at := t\<rparr>) | _ \<Rightarrow> Err InvalidDocument)
      | FAttributeName i \<Rightarrow> (case v of VText (Some t) \<Rightarrow> Ok (p\<lparr>pj_names := fmupd i t (pj_names p)\<rparr>)
          | _ \<Rightarrow> Err InvalidDocument)
      | FAttributeValue i \<Rightarrow> (case v of VAttribute a \<Rightarrow> Ok (p\<lparr>pj_values := fmupd i a (pj_values p)\<rparr>)
          | _ \<Rightarrow> Err InvalidDocument)
      | FAttributePresence i \<Rightarrow> (case v of
            VPresence present \<Rightarrow> Ok (if present then p\<lparr>pj_present := finsert i (pj_present p)\<rparr> else p)
          | _ \<Rightarrow> Err InvalidDocument)
      | FIcon \<Rightarrow> (case v of VIcon x \<Rightarrow> set_app (\<lambda>a. a\<lparr>app_icon := x\<rparr>) | _ \<Rightarrow> Err InvalidDocument)
      | FForeground \<Rightarrow> (case v of VColor x \<Rightarrow> set_app (\<lambda>a. a\<lparr>app_foreground := x\<rparr>) | _ \<Rightarrow> Err InvalidDocument)
      | FBackground \<Rightarrow> (case v of VColor x \<Rightarrow> set_app (\<lambda>a. a\<lparr>app_background := x\<rparr>) | _ \<Rightarrow> Err InvalidDocument)
      | FAttachmentName i \<Rightarrow> (case v of
            VText (Some t) \<Rightarrow> Ok (p\<lparr>pj_attachment_names := fmupd i t (pj_attachment_names p)\<rparr>)
          | _ \<Rightarrow> Err InvalidDocument)
      | FAttachmentBlob i \<Rightarrow> (case v of
            VBlob b \<Rightarrow> Ok (p\<lparr>pj_attachment_blobs := fmupd i b (pj_attachment_blobs p)\<rparr>)
          | _ \<Rightarrow> Err InvalidDocument)
      | FAttachmentPresence i \<Rightarrow> (case v of
            VPresence present \<Rightarrow> Ok (if present then p\<lparr>pj_attachments := finsert i (pj_attachments p)\<rparr> else p)
          | _ \<Rightarrow> Err InvalidDocument))"

definition project_attribute :: "projection \<Rightarrow> attribute_id \<Rightarrow> doc_error + projection" where
  "project_attribute p i =
     bindR (ok_or (fmlookup (pj_names p) i) InvalidDocument) (\<lambda>name.
     bindR (ok_or (fmlookup (pj_values p) i) InvalidDocument) (\<lambda>v.
     let r = pj_result p
     in Ok (p\<lparr>pj_names := fmdrop i (pj_names p), pj_values := fmdrop i (pj_values p),
              pj_result := r\<lparr>ef_attributes :=
                fmupd i \<lparr>attr_id = i, attr_name = name, attr_value = v\<rparr> (ef_attributes r)\<rparr>\<rparr>)))"

definition project_attachment :: "projection \<Rightarrow> attachment_id \<Rightarrow> doc_error + projection" where
  "project_attachment p i =
     bindR (ok_or (fmlookup (pj_attachment_names p) i) InvalidDocument) (\<lambda>name.
     bindR (ok_or (fmlookup (pj_attachment_blobs p) i) InvalidDocument) (\<lambda>blob.
     let r = pj_result p
     in Ok (p\<lparr>pj_attachment_names := fmdrop i (pj_attachment_names p),
              pj_attachment_blobs := fmdrop i (pj_attachment_blobs p),
              pj_result := r\<lparr>ef_attachments :=
                fmupd i \<lparr>att_id = i, att_name = name, att_blob = blob\<rparr> (ef_attachments r)\<rparr>\<rparr>)))"

definition projection_start :: projection where
  "projection_start = \<lparr>pj_result = entry_fields_default, pj_names = fmempty, pj_values = fmempty,
     pj_present = {||}, pj_attachment_names = fmempty, pj_attachment_blobs = fmempty, pj_attachments = {||}\<rparr>"

definition project_fields :: "('o::linorder, 'v, 'f) reader \<Rightarrow> field_state list \<Rightarrow> doc_error + entry_fields" where
  "project_fields rd values =
     bindR (foldR (\<lambda>p state. bindR (selected_variant rd state) (\<lambda>variant.
              project_field (fs_field state) (vv_value variant) p)) projection_start values) (\<lambda>p.
     bindR (foldR project_attribute p (sorted_list_of_fset (pj_present p))) (\<lambda>p.
     bindR (foldR project_attachment p (sorted_list_of_fset (pj_attachments p))) (\<lambda>p.
     Ok (pj_result p))))"

text \<open>The placement register: distinct destinations in order, and the greatest operation's.\<close>

definition read_placements ::
  "('o::linorder, 'v, 'f) reader \<Rightarrow> 'o \<Rightarrow> doc_error + (group_ref list \<times> (group_ref \<times> 'o) option)" where
  "read_placements rd entry =
     bindR (get_all rd entry ''group'') (\<lambda>values.
     foldR (\<lambda>(alternatives, selected) (value, operation).
         bindR (decode rd (js_group_ref rd) value) (\<lambda>destination.
         Ok (push_new alternatives destination, select selected destination operation)))
       ([], None) values)"

definition read_entry_generation_with_times ::
  "('o::linorder, 'v, 'f) reader \<Rightarrow> object_address \<Rightarrow> (string fset \<times> timestamp) option
     \<Rightarrow> saved_operation_times option \<Rightarrow> doc_error + entry_snapshot" where
  "read_entry_generation_with_times rd a pending stamps =
     (case addr_object a of
        GroupObj _ \<Rightarrow> Err InvalidContext
      | EntryObj e \<Rightarrow>
          bindR (generation_object rd a) (\<lambda>entry.
          bindR (read_placements rd entry) (\<lambda>(alternatives, selected).
          bindR (ok_or selected InvalidDocument) (\<lambda>(placement, _).
          bindR (unique rd entry ''created_at'') (\<lambda>c.
          bindR (ok_or (v_i64 rd c) InvalidDocument) (\<lambda>created_at.
          bindR (read_values rd entry) (\<lambda>values.
          bindR (modification_time rd e entry values pending created_at stamps) (\<lambda>modified_at.
          bindR (project_fields rd values) (\<lambda>form.
          bindR (map_errR Validation (fields_validate form)) (\<lambda>_.
          Ok \<lparr>es_id = e, es_group_id = gr_id placement, es_generation = addr_generation a,
              es_placements = alternatives, es_placement = placement,
              es_placement_alternatives = sort alternatives, es_fields = Some form,
              es_conflicts = filter (\<lambda>state. length (fs_variants state) > 1) values,
              es_values = values, es_created_at = created_at, es_modified_at = modified_at\<rparr>))))))))))"

definition read_entry_generation ::
  "('o::linorder, 'v, 'f) reader \<Rightarrow> object_address \<Rightarrow> (string fset \<times> timestamp) option
     \<Rightarrow> doc_error + entry_snapshot" where
  "read_entry_generation rd a pending = read_entry_generation_with_times rd a pending None"

definition read_entry ::
  "('o::linorder, 'v, 'f) reader \<Rightarrow> entry_id \<Rightarrow> (string fset \<times> timestamp) option
     \<Rightarrow> doc_error + entry_snapshot" where
  "read_entry rd e pending = bindR (single rd (EntryObj e)) (\<lambda>a. read_entry_generation rd a pending)"

definition selected_snapshot :: "('o::linorder, 'v, 'f) reader \<Rightarrow> entry_snapshot \<Rightarrow> doc_error + entry_snapshot" where
  "selected_snapshot rd s =
     bindR (mapR (\<lambda>state. bindR (selected_variant rd state) (\<lambda>v. Ok (state\<lparr>fs_variants := [v]\<rparr>))) (es_values s))
       (\<lambda>values. Ok (s\<lparr>es_values := values, es_conflicts := [],
          es_placement_alternatives := [es_placement s], es_placements := [es_placement s]\<rparr>))"

end
