(* ===== verification/Doc_Entry_Laws.thy ===== *)
theory Doc_Entry_Laws
  imports Doc_Entries Doc_Demo "HOL-Library.Multiset"
begin

text \<open>
  What the entry projection guarantees: registers are read without losing an operation, the
  selected variant is the best by priority and operation rank whatever order replicas
  deliver, forms survive storage, and cached query metadata changes no result.
\<close>

subsection \<open>A concrete conflict\<close>

text \<open>The password register of the stored entry of \<open>Doc_Demo\<close> has two concurrent values.\<close>

lemma demo_password_state:
  "read_field demo 12 FPassword = Ok \<lparr>fs_field = FPassword, fs_variants =
     [\<lparr>vv_value = VText (Some ''p''), vv_origins = [''120@aa'']\<rparr>,
      \<lparr>vv_value = VText (Some ''q''), vv_origins = [''121@aa'']\<rparr>]\<rparr>"
  by code_simp

lemma demo_ranks: "operation_rank demo ''120@aa'' = Ok 120" "operation_rank demo ''121@aa'' = Ok 121"
  by (simp_all add: operation_rank_def parse_u64_def digits_value_def U64_MAX_def demo_def)

lemma demo_selected:
  "selected_variant demo \<lparr>fs_field = FPassword, fs_variants =
     [\<lparr>vv_value = VText (Some ''p''), vv_origins = [''120@aa'']\<rparr>,
      \<lparr>vv_value = VText (Some ''q''), vv_origins = [''121@aa'']\<rparr>]\<rparr>
   = Ok \<lparr>vv_value = VText (Some ''q''), vv_origins = [''121@aa'']\<rparr>"
  by (simp add: selected_variant_def consider_variant_def variant_rank_def demo_ranks variant_priority_def Let_def)

subsection \<open>Selection\<close>

definition variant_key :: "('o::linorder, 'v, 'f) reader \<Rightarrow> entry_field \<Rightarrow> value_variant \<Rightarrow> bool \<times> 'o" where
  "variant_key rd field v = (variant_priority field v, projr (variant_rank rd v))"

lemma consider_first:
  "consider_variant rd field None w = Ok s \<longleftrightarrow>
     (\<exists>r. variant_rank rd w = Ok r) \<and> s = Some (w, variant_key rd field w)"
  by (auto simp: consider_variant_def variant_key_def Let_def)

lemma consider_next:
  "consider_variant rd field (Some (v, variant_key rd field v)) w = Ok s \<longleftrightarrow>
     (\<exists>r. variant_rank rd w = Ok r)
     \<and> s = (let x = if variant_key rd field v < variant_key rd field w then w else v
            in Some (x, variant_key rd field x))"
proof -
  obtain p0 r0 where k0: "variant_key rd field v = (p0, r0)" by fastforce
  show ?thesis
  proof (cases "variant_rank rd w")
    case (Inr r)
    then have "variant_key rd field w = (variant_priority field w, r)" by (simp add: variant_key_def)
    then show ?thesis unfolding consider_variant_def k0 using Inr k0 by (auto simp: Let_def)
  qed (simp add: consider_variant_def)
qed

lemma selected_fold:
  assumes "foldR (consider_variant rd field) (Some (v0, variant_key rd field v0)) vs = Ok s"
  shows "\<exists>v \<in> insert v0 (set vs). s = Some (v, variant_key rd field v)
    \<and> (\<forall>w \<in> insert v0 (set vs). variant_key rd field w \<le> variant_key rd field v)
    \<and> (\<forall>w \<in> set vs. \<exists>r. variant_rank rd w = Ok r)"
  using assms
proof (induction vs arbitrary: v0)
  case (Cons w vs)
  define v1 where "v1 = (if variant_key rd field v0 < variant_key rd field w then w else v0)"
  have r: "\<exists>r. variant_rank rd w = Ok r"
    and f: "foldR (consider_variant rd field) (Some (v1, variant_key rd field v1)) vs = Ok s"
    using Cons.prems by (auto simp: consider_next Let_def v1_def)
  have key: "variant_key rd field v0 \<le> variant_key rd field v1" "variant_key rd field w \<le> variant_key rd field v1"
    by (auto simp: v1_def not_less)
  obtain v where v: "v \<in> insert v1 (set vs)" "s = Some (v, variant_key rd field v)"
    "\<forall>w \<in> insert v1 (set vs). variant_key rd field w \<le> variant_key rd field v"
    "\<forall>w \<in> set vs. \<exists>r. variant_rank rd w = Ok r"
    using Cons.IH [OF f] by blast
  have "v \<in> insert v0 (set (w # vs))" using v(1) by (auto simp: v1_def split: if_splits)
  moreover have "variant_key rd field x \<le> variant_key rd field v" if "x \<in> insert v0 (set (w # vs))" for x
    using that v(3) key by (auto intro: order_trans)
  ultimately show ?case using v(2,4) r by (intro bexI [of _ v]) auto
qed simp

lemma selected_variant_key:
  assumes "selected_variant rd st = Ok v"
  shows "v \<in> set (fs_variants st)
    \<and> (\<forall>w \<in> set (fs_variants st). variant_key rd (fs_field st) w \<le> variant_key rd (fs_field st) v
         \<and> (\<exists>r. variant_rank rd w = Ok r))"
proof (cases "fs_variants st")
  case Nil
  then show ?thesis using assms by (simp add: selected_variant_def)
next
  case (Cons v0 vs)
  then obtain p k where r0: "\<exists>r. variant_rank rd v0 = Ok r"
    and f: "foldR (consider_variant rd (fs_field st)) (Some (v0, variant_key rd (fs_field st) v0)) vs
      = Ok (Some (v, p, k))"
    using assms by (auto simp: selected_variant_def consider_first)
  show ?thesis using selected_fold [OF f] r0 Cons by auto
qed

lemma consider_total:
  "\<forall>w \<in> set vs. \<exists>r. variant_rank rd w = Ok r \<Longrightarrow>
     \<exists>x. foldR (consider_variant rd field) (Some (v, variant_key rd field v)) vs = Ok (Some x)"
proof (induction vs arbitrary: v)
  case (Cons w vs)
  let ?x = "if variant_key rd field v < variant_key rd field w then w else v"
  have "consider_variant rd field (Some (v, variant_key rd field v)) w = Ok (Some (?x, variant_key rd field ?x))"
    using Cons.prems by (simp add: consider_next Let_def)
  then show ?case using Cons by (simp del: bindR_Inr)
qed simp

lemma selected_variant_total:
  assumes "fs_variants st \<noteq> []" and "\<forall>w \<in> set (fs_variants st). \<exists>r. variant_rank rd w = Ok r"
  shows "\<exists>v. selected_variant rd st = Ok v"
proof -
  obtain v0 vs where v: "fs_variants st = v0 # vs" using assms(1) by (cases "fs_variants st") auto
  then have "consider_variant rd (fs_field st) None v0 = Ok (Some (v0, variant_key rd (fs_field st) v0))"
    using assms(2) by (simp add: consider_first)
  moreover obtain x where
    "foldR (consider_variant rd (fs_field st)) (Some (v0, variant_key rd (fs_field st) v0)) vs = Ok (Some x)"
    using consider_total assms(2) v by fastforce
  ultimately show ?thesis using v by (cases x) (simp add: selected_variant_def del: bindR_Inr)
qed

text \<open>
  Selection depends on what was written and not on how it arrived. The selected variant
  is one of the stored ones and the best by priority, then by the rank of its newest
  operation; a removal of an attribute or attachment and a protected value win over any
  concurrent edit; and two states of one field with the same variants of distinct ranks, in
  whatever order, select the same variant.
\<close>

theorem selected_variant_best:
  assumes "selected_variant rd st = Ok v" and "fs_field st' = fs_field st"
    and "set (fs_variants st') = set (fs_variants st)" and "inj_on (variant_rank rd) (set (fs_variants st))"
  shows "v \<in> set (fs_variants st)
    \<and> (\<forall>w \<in> set (fs_variants st). variant_key rd (fs_field st) w \<le> variant_key rd (fs_field st) v)
    \<and> ((\<exists>w \<in> set (fs_variants st). variant_priority (fs_field st) w) \<longrightarrow> variant_priority (fs_field st) v)
    \<and> selected_variant rd st' = Ok v"
proof -
  note k = selected_variant_key [OF assms(1)]
  have "\<forall>w \<in> set (fs_variants st'). \<exists>r. variant_rank rd w = Ok r" "fs_variants st' \<noteq> []"
    using k assms(3) by (auto simp del: set_empty simp flip: set_empty)
  then obtain v' where v': "selected_variant rd st' = Ok v'" using selected_variant_total by blast
  note k' = selected_variant_key [OF v', unfolded assms(2,3)]
  have "variant_key rd (fs_field st) v = variant_key rd (fs_field st) v'"
    using k k' by (meson order_antisym)
  then have "variant_rank rd v = variant_rank rd v'"
    using k k' by (fastforce simp: variant_key_def)
  then have "v = v'" using k k' assms(4) by (auto dest: inj_onD)
  moreover have "variant_priority (fs_field st) v" if "w \<in> set (fs_variants st)" "variant_priority (fs_field st) w" for w
    using k that by (fastforce simp: variant_key_def)
  ultimately show ?thesis using k v' by blast
qed

theorem selected_variant_best_witness:
  "\<exists>x y. selected_variant demo \<lparr>fs_field = FPassword, fs_variants = [x, y]\<rparr> = Ok y
    \<and> selected_variant demo \<lparr>fs_field = FPassword, fs_variants = [y, x]\<rparr> = Ok y"
proof -
  let ?x = "\<lparr>vv_value = VText (Some ''p''), vv_origins = [''120@aa'']\<rparr>"
  let ?y = "\<lparr>vv_value = VText (Some ''q''), vv_origins = [''121@aa'']\<rparr>"
  have "inj_on (variant_rank demo) {?x, ?y}" by (simp add: variant_rank_def demo_ranks)
  then have "selected_variant demo \<lparr>fs_field = FPassword, fs_variants = [?y, ?x]\<rparr> = Ok ?y"
    using selected_variant_best [OF demo_selected, of "\<lparr>fs_field = FPassword, fs_variants = [?y, ?x]\<rparr>"]
    by (simp add: insert_commute)
  then show ?thesis using demo_selected by (intro exI conjI)
qed

subsection \<open>Reading a register\<close>

lemma sort_key_Nil [simp]: "sort_key f xs = [] \<longleftrightarrow> xs = []"
  using length_sort [of f xs] by (cases xs) auto

definition variants_wf :: "entry_field \<Rightarrow> value_variant list \<Rightarrow> bool" where
  "variants_wf field vs \<longleftrightarrow> distinct (map vv_value vs)
     \<and> (\<forall>v \<in> set vs. validate_field field (vv_value v) = Ok () \<and> vv_origins v \<noteq> [])"

text \<open>The operations of a list of variants, each with the value it wrote.\<close>

definition writes :: "value_variant list \<Rightarrow> (field_value \<times> string) multiset" where
  "writes vs = \<Sum>\<^sub># (mset (map (\<lambda>v. mset (map (Pair (vv_value v)) (vv_origins v))) vs))"

lemma writes_simps [simp]:
  "writes [] = {#}"
  "writes (x # xs) = mset (map (Pair (vv_value x)) (vv_origins x)) + writes xs"
  by (simp_all add: writes_def)

lemma add_variant_values:
  "set (map vv_value (add_variant v origin vs)) = insert v (set (map vv_value vs))"
  by (induction vs) auto

lemma add_variant_wf:
  "variants_wf field vs \<Longrightarrow> validate_field field v = Ok () \<Longrightarrow> variants_wf field (add_variant v origin vs)"
proof (induction vs)
  case (Cons x xs)
  have x: "vv_value x \<notin> set (map vv_value xs)" "validate_field field (vv_value x) = Ok ()" "vv_origins x \<noteq> []"
    and xs: "variants_wf field xs" using Cons.prems(1) by (simp_all add: variants_wf_def)
  show ?case
  proof (cases "vv_value x = v")
    case True
    then show ?thesis using x xs by (simp add: variants_wf_def)
  next
    case False
    then have "vv_value x \<notin> set (map vv_value (add_variant v origin xs))"
      using x(1) unfolding add_variant_values by simp
    then show ?thesis using Cons.IH [OF xs Cons.prems(2)] x False by (simp add: variants_wf_def)
  qed
qed (simp add: variants_wf_def)

lemma add_variant_writes: "writes (add_variant v origin vs) = writes vs + {#(v, origin)#}"
  by (induction vs) simp_all

lemma read_field_fold:
  assumes "foldR (\<lambda>variants (value, operation).
              bindR (decode_field rd field value) (\<lambda>v. Ok (add_variant v (rd_show rd operation) variants)))
            vs0 ws = Ok vs" and "variants_wf field vs0"
  shows "variants_wf field vs
    \<and> writes vs = writes vs0 + mset (map (\<lambda>(value, operation). (projr (decode_field rd field value), rd_show rd operation)) ws)
    \<and> (\<forall>(value, operation) \<in> set ws. \<exists>v. decode_field rd field value = Ok v)"
  using assms
proof (induction ws arbitrary: vs0)
  case (Cons x xs)
  obtain w0 operation where x: "x = (w0, operation)" by fastforce
  then obtain v where v: "decode_field rd field w0 = Ok v"
    and f: "foldR (\<lambda>variants (value, operation).
              bindR (decode_field rd field value) (\<lambda>v. Ok (add_variant v (rd_show rd operation) variants)))
            (add_variant v (rd_show rd operation) vs0) xs = Ok vs"
    using Cons.prems by auto
  have "validate_field field v = Ok ()" using v by (auto simp: decode_field_def)
  then have "variants_wf field (add_variant v (rd_show rd operation) vs0)"
    using add_variant_wf Cons.prems(2) by blast
  from Cons.IH [OF f this] show ?case using x v by (auto simp: add_variant_writes)
qed simp

lemma writes_mset: "mset vs = mset vs' \<Longrightarrow> writes vs = writes vs'"
  by (simp add: writes_def)

lemma writes_sorted: "writes (map (\<lambda>x. x\<lparr>vv_origins := sort (vv_origins x)\<rparr>) vs) = writes vs"
  by (induction vs) auto

lemma variants_wf_perm: "variants_wf field vs \<Longrightarrow> mset vs' = mset vs \<Longrightarrow> variants_wf field vs'"
  unfolding variants_wf_def by (metis mset_eq_imp_distinct_iff mset_eq_setD mset_map)

lemma variants_wf_origins:
  "variants_wf field vs \<Longrightarrow> variants_wf field (map (\<lambda>x. x\<lparr>vv_origins := sort (vv_origins x)\<rparr>) vs)"
  by (simp add: variants_wf_def comp_def)

lemma variants_wf_order:
  "variants_wf field vs
    \<Longrightarrow> variants_wf field (sort_key vv_origins (map (\<lambda>x. x\<lparr>vv_origins := sort (vv_origins x)\<rparr>) vs))"
  by (rule variants_wf_perm [OF variants_wf_origins]) (simp_all only: mset_sort)

text \<open>
  Reading a register loses and invents nothing. The variants hold pairwise different
  values, each valid for its field, and between them exactly the operations of the stored
  register, each under the value it wrote, with the origins in order.
\<close>

theorem read_field_lossless:
  assumes "read_field rd entry field = Ok st"
  shows "fs_field st = field \<and> fs_variants st \<noteq> [] \<and> variants_wf field (fs_variants st)
    \<and> (\<forall>v \<in> set (fs_variants st). sorted (vv_origins v)) \<and> sorted (map vv_origins (fs_variants st))
    \<and> (\<exists>obj values. field_object rd entry field = Ok obj \<and> get_all rd obj (field_key field) = Ok values
         \<and> writes (fs_variants st) = mset (map (\<lambda>(value, operation).
              (projr (decode_field rd field value), rd_show rd operation)) values))"
proof -
  obtain obj vals vs where o: "field_object rd entry field = Ok obj" "get_all rd obj (field_key field) = Ok vals"
    and f: "foldR (\<lambda>variants (value, operation).
              bindR (decode_field rd field value) (\<lambda>v. Ok (add_variant v (rd_show rd operation) variants)))
            [] vals = Ok vs" and ne: "vs \<noteq> []"
    and st: "st = \<lparr>fs_field = field,
            fs_variants = sort_key vv_origins (map (\<lambda>x. x\<lparr>vv_origins := sort (vv_origins x)\<rparr>) vs)\<rparr>"
    using assms by (auto simp: read_field_def)
  have w: "variants_wf field vs" "writes vs = mset (map (\<lambda>(value, operation).
      (projr (decode_field rd field value), rd_show rd operation)) vals)"
    using read_field_fold [OF f] by (auto simp: variants_wf_def)
  let ?s = "map (\<lambda>x. x\<lparr>vv_origins := sort (vv_origins x)\<rparr>) vs"
  have "variants_wf field (fs_variants st)" using variants_wf_order [OF w(1)] by (simp add: st)
  moreover have "writes (fs_variants st) = writes vs"
    using writes_sorted [of vs] writes_mset [of "sort_key vv_origins ?s" ?s] by (simp add: st)
  moreover have "fs_variants st \<noteq> []" using ne by (simp add: st)
  moreover have "\<forall>v \<in> set (fs_variants st). sorted (vv_origins v)" by (auto simp: st)
  moreover have "sorted (map vv_origins (fs_variants st))" by (simp add: st)
  moreover have "fs_field st = field" by (simp add: st)
  ultimately show ?thesis using o w(2) by (intro conjI exI [of _ obj] exI [of _ vals]) simp_all
qed


theorem read_field_lossless_witness:
  "\<exists>st. read_field demo 12 FPassword = Ok st \<and> variants_wf FPassword (fs_variants st) \<and> fs_variants st \<noteq> []"
proof -
  note r = read_field_lossless [OF demo_password_state]
  show ?thesis
    by (intro exI conjI, rule demo_password_state, rule conjunct1 [OF conjunct2 [OF conjunct2 [OF r]]],
        rule conjunct1 [OF conjunct2 [OF r]])
qed

subsection \<open>Cached operation times\<close>

lemma saved_times_lookup:
  "fmlookup (foldl (\<lambda>entries stored.
       let e = sr_entry_id (st_revision stored);
           m = (case fmlookup entries e of None \<Rightarrow> fmempty | Some m \<Rightarrow> m)
       in fmupd e (insert_times stored m) entries) entries xs) e =
     (let own = filter (\<lambda>s. sr_entry_id (st_revision s) = e) xs
      in if own = [] then fmlookup entries e
         else Some (foldl (\<lambda>m s. insert_times s m)
                (case fmlookup entries e of None \<Rightarrow> fmempty | Some m \<Rightarrow> m) own))"
  by (induction xs arbitrary: entries) (auto simp: Let_def)

lemma operation_time_default:
  "operation_time pending (Some fmempty) = operation_time pending None"
  by (rule ext) (simp add: operation_time_def split: option.split)

lemma modification_time_cached:
  assumes "saved_times_read rd = Ok m"
  shows "modification_time rd e entry vs pending created (Some m) = modification_time rd e entry vs pending created None"
proof -
  obtain xs where xs: "visit_stored_revisions rd = Ok xs"
    using assms by (auto simp: saved_times_read_def)
  then have m: "m = foldl (\<lambda>entries stored.
       let e = sr_entry_id (st_revision stored);
           m = (case fmlookup entries e of None \<Rightarrow> fmempty | Some m \<Rightarrow> m)
       in fmupd e (insert_times stored m) entries) fmempty xs"
    using assms by (simp add: saved_times_read_def)
  let ?own = "filter (\<lambda>s. sr_entry_id (st_revision s) = e) xs"
  have "operation_time pending (fmlookup m e)
      = operation_time pending (Some (foldl (\<lambda>m s. insert_times s m) fmempty ?own))"
    unfolding m saved_times_lookup by (simp add: Let_def operation_time_default)
  then show ?thesis by (simp only: modification_time_def Let_def stored_revisions_def xs bindR_simps option.case)
qed

lemma cached_times:
  assumes "saved_times_read rd = Ok m"
  shows "read_entry_generation_with_times rd a pending (Some m) = read_entry_generation rd a pending"
  unfolding read_entry_generation_def read_entry_generation_with_times_def
  by (simp only: modification_time_cached [OF assms])

text \<open>
  The cached query metadata is an optimisation only. With the operation times read once
  for all entries, an entry's snapshot is exactly the one computed from its own stored
  revisions, including every error.
\<close>

theorem cached_times_equivalent:
  assumes "saved_times_read rd = Ok m"
  shows "read_entry_generation_with_times rd a pending (Some m) = read_entry_generation rd a pending"
  by (rule cached_times [OF assms])

theorem cached_times_equivalent_witness:
  "\<exists>m. saved_times_read demo = Ok m
    \<and> read_entry_generation_with_times demo (ObjectAddress (EntryObj ''e'') ''e'') None (Some m)
      = read_entry_generation demo (ObjectAddress (EntryObj ''e'') ''e'') None"
proof -
  have "is_ok (saved_times_read demo)" by code_simp
  then obtain m where "saved_times_read demo = Ok m" by (auto simp: is_ok_ex)
  with cached_times_equivalent [OF this] show ?thesis by blast
qed

subsection \<open>Snapshots\<close>

lemma selected_single:
  "selected_variant rd st = Ok v \<Longrightarrow> selected_variant rd (st\<lparr>fs_variants := [v]\<rparr>) = Ok v"
proof -
  assume s: "selected_variant rd st = Ok v"
  have "\<exists>v'. selected_variant rd (st\<lparr>fs_variants := [v]\<rparr>) = Ok v'"
    using selected_variant_key [OF s] by (intro selected_variant_total) auto
  then show ?thesis
    using selected_variant_key [where st = "st\<lparr>fs_variants := [v]\<rparr>"] by auto
qed

lemma selected_kept:
  assumes "bindR (selected_variant rd state) (\<lambda>v. Ok (state\<lparr>fs_variants := [v]\<rparr>)) = Ok state'"
  shows "fs_field state' = fs_field state \<and> selected_variant rd state' = selected_variant rd state"
proof -
  obtain v where "selected_variant rd state = Ok v" "state' = state\<lparr>fs_variants := [v]\<rparr>"
    using assms unfolding bindR_Inr by blast
  then show ?thesis using selected_single by simp
qed

lemma project_fields_selected:
  assumes "list_all2 (\<lambda>s s'. fs_field s' = fs_field s \<and> selected_variant rd s' = selected_variant rd s) vs vs'"
  shows "project_fields rd vs' = project_fields rd vs"
proof -
  have "foldR (\<lambda>p state. bindR (selected_variant rd state) (\<lambda>variant.
              project_field (fs_field state) (vv_value variant) p)) p vs' =
        foldR (\<lambda>p state. bindR (selected_variant rd state) (\<lambda>variant.
              project_field (fs_field state) (vv_value variant) p)) p vs" for p
    using assms
  proof (induction arbitrary: p rule: list_all2_induct)
    case (Cons s vs s' vs')
    then show ?case by (auto intro: bindR_cong)
  qed simp
  then show ?thesis by (simp add: project_fields_def)
qed

lemma entry_snapshot_fields:
  "read_entry_generation_with_times rd a pending m = Ok s \<Longrightarrow>
     \<exists>form entry. es_fields s = Some form \<and> project_fields rd (es_values s) = Ok form \<and> fields_validate form = Ok ()
       \<and> generation_object rd a = Ok entry \<and> read_values rd entry = Ok (es_values s)
       \<and> es_conflicts s = filter (\<lambda>state. length (fs_variants state) > 1) (es_values s)
       \<and> es_group_id s = gr_id (es_placement s)"
  by (auto simp: read_entry_generation_with_times_def split: object_id.splits)

text \<open>
  Saving keeps what the form shows. For an entry read from the document the stored
  snapshot has no conflicts or alternatives left, keeps the selected placement and
  identity, and its values project to exactly the form that was shown, which is valid.
\<close>

theorem selected_snapshot_keeps_form:
  assumes "read_entry_generation_with_times rd a pending m = Ok s" and "selected_snapshot rd s = Ok s'"
  shows "\<not> has_conflicts s' \<and> es_id s' = es_id s \<and> es_placement s' = es_placement s
    \<and> es_placements s' = [es_placement s]
    \<and> (\<exists>form. es_fields s = Some form \<and> es_fields s' = Some form \<and> fields_wf form
         \<and> project_fields rd (es_values s') = Ok form)"
proof -
  obtain form where f: "es_fields s = Some form" "project_fields rd (es_values s) = Ok form"
    "fields_validate form = Ok ()"
    using entry_snapshot_fields [OF assms(1)] by blast
  obtain vs where vs: "mapR (\<lambda>state. bindR (selected_variant rd state) (\<lambda>v. Ok (state\<lparr>fs_variants := [v]\<rparr>))) (es_values s) = Ok vs"
    and s': "s' = s\<lparr>es_values := vs, es_conflicts := [],
          es_placement_alternatives := [es_placement s], es_placements := [es_placement s]\<rparr>"
    using assms(2) by (auto simp: selected_snapshot_def)
  have sel: "list_all2 (\<lambda>s s'. fs_field s' = fs_field s \<and> selected_variant rd s' = selected_variant rd s) (es_values s) vs"
    by (rule list_all2_mono [OF vs [unfolded mapR_Inr]]) (erule selected_kept)
  have p: "project_fields rd vs = Ok form" using project_fields_selected [OF sel] f(2) by simp
  have wf: "fields_wf form" using f(3) by (simp only: fields_valid)
  have id: "es_id s' = es_id s \<and> es_placement s' = es_placement s \<and> es_placements s' = [es_placement s]
      \<and> es_fields s' = es_fields s \<and> es_values s' = vs"
    and c: "\<not> has_conflicts s'" unfolding s' by (simp_all add: has_conflicts_def)
  show ?thesis using id c f(1) p wf by (intro conjI exI [of _ form]) simp_all
qed

lemma demo_entry_Ok:
  obtains s s' where "read_entry_generation_with_times demo (ObjectAddress (EntryObj ''e'') ''e'') None None = Ok s"
    and "selected_snapshot demo s = Ok s'" and "es_conflicts s \<noteq> []"
proof -
  let ?r = "read_entry_generation_with_times demo (ObjectAddress (EntryObj ''e'') ''e'') None None"
  have "(case ?r of Inl _ \<Rightarrow> False | Inr s \<Rightarrow> is_ok (selected_snapshot demo s) \<and> es_conflicts s \<noteq> [])"
    by code_simp
  then show ?thesis using that by (cases ?r) (auto simp: is_ok_ex)
qed

theorem selected_snapshot_keeps_form_witness:
  "\<exists>s s' form. read_entry_generation_with_times demo (ObjectAddress (EntryObj ''e'') ''e'') None None = Ok s
    \<and> selected_snapshot demo s = Ok s' \<and> has_conflicts s \<and> \<not> has_conflicts s'
    \<and> es_fields s = Some form \<and> project_fields demo (es_values s') = Ok form"
proof -
  obtain s s' where s: "read_entry_generation_with_times demo (ObjectAddress (EntryObj ''e'') ''e'') None None = Ok s"
    "selected_snapshot demo s = Ok s'" "es_conflicts s \<noteq> []" by (rule demo_entry_Ok)
  have "has_conflicts s" using s(3) by (simp add: has_conflicts_def)
  then show ?thesis using s(1,2) selected_snapshot_keeps_form [OF s(1,2)] by blast
qed

end
