(* ===== verification/Doc_Writes.thy ===== *)
theory Doc_Writes
  imports Doc_Entries Doc_Demo
begin

text \<open>
  The writes behind a confirmation: \<open>apply_form\<close> of \<open>fields.rs\<close>, the attachment side in
  \<open>binary.rs\<close> and \<open>all_resolutions\<close> of \<open>operations.rs\<close>, as the list of registers they set
  in order. A transaction of Automerge is a parameter; what matters here is which registers
  are overwritten with what. The theorems say that reading the registers back shows exactly
  the confirmed form.
\<close>

type_synonym field_write = "entry_field \<times> field_value"

subsection \<open>Confirming a form\<close>

text \<open>\<open>put_field\<close> checks the value, finds the object of the register and sets it. An object
  created in the same transaction is always found.\<close>

definition put_field :: "('o, 'v, 'f) reader \<Rightarrow> 'o \<Rightarrow> bool \<Rightarrow> field_write \<Rightarrow> doc_error + field_write" where
  "put_field rd entry created w =
     bindR (validate_field (fst w) (snd w)) (\<lambda>_.
     if created then Ok w else bindR (field_object rd entry (fst w)) (\<lambda>_. Ok w))"

definition attribute_writes ::
  "('o, 'v, 'f) reader \<Rightarrow> 'o \<Rightarrow> 'o \<Rightarrow> attribute option \<Rightarrow> attribute_id \<Rightarrow> attribute \<Rightarrow> doc_error + field_write list" where
  "attribute_writes rd entry attrs old i a =
     (if old = Some a then Ok []
      else bindR (if old = None
             then bindR (get_all rd attrs i) (\<lambda>values. if values \<noteq> [] then Err DuplicateId else Ok ())
             else Ok ()) (\<lambda>_.
       mapR (put_field rd entry (old = None))
         ((if map_option attr_name old = Some (attr_name a) then []
           else [(FAttributeName i, VText (Some (attr_name a)))])
          @ (if map_option attr_value old = Some (attr_value a) then []
             else [(FAttributeValue i, VAttribute (attr_value a))])
          @ [(FAttributePresence i, VPresence True)])))"

definition attachment_writes ::
  "('o, 'v, 'f) reader \<Rightarrow> 'o \<Rightarrow> 'o \<Rightarrow> attachment option \<Rightarrow> attachment_id \<Rightarrow> attachment \<Rightarrow> doc_error + field_write list" where
  "attachment_writes rd entry attachments old i a =
     (if old = Some a then Ok []
      else bindR (if old = None
             then bindR (get_all rd attachments i) (\<lambda>values. if values \<noteq> [] then Err DuplicateId else Ok ())
             else Ok ()) (\<lambda>_.
       mapR (put_field rd entry (old = None))
         ((if map_option att_name old = Some (att_name a) then []
           else [(FAttachmentName i, VText (Some (att_name a)))])
          @ (if map_option att_blob old = Some (att_blob a) then []
             else [(FAttachmentBlob i, VBlob (att_blob a))])
          @ [(FAttachmentPresence i, VPresence True)])))"

text \<open>Presence withdrawn for what the original form had and the new one has not.\<close>

definition removed_keys :: "('k::linorder, 'a) fmap \<Rightarrow> ('k, 'b) fmap \<Rightarrow> 'k list" where
  "removed_keys old new = filter (\<lambda>i. \<not> bt_contains new i) (bt_keys old)"

definition apply_attachments ::
  "('o, 'v, 'f) reader \<Rightarrow> 'o \<Rightarrow> entry_fields option \<Rightarrow> entry_fields \<Rightarrow> doc_error + field_write list" where
  "apply_attachments rd entry original f =
     (let old = (case original of None \<Rightarrow> fmempty | Some o1 \<Rightarrow> ef_attachments o1) in
      bindR (object rd entry ''attachments'') (\<lambda>attachments.
      bindR (mapR (\<lambda>(i, a). attachment_writes rd entry attachments (fmlookup old i) i a)
               (bt_iter (ef_attachments f))) (\<lambda>kept.
      bindR (mapR (put_field rd entry False)
               (map (\<lambda>i. (FAttachmentPresence i, VPresence False)) (removed_keys old (ef_attachments f)))) (\<lambda>gone.
      Ok (concat kept @ gone)))))"

definition apply_form ::
  "('o, 'v, 'f) reader \<Rightarrow> 'o \<Rightarrow> entry_fields option \<Rightarrow> entry_fields \<Rightarrow> doc_error + field_write list" where
  "apply_form rd entry original f =
     (let old_form = (case original of None \<Rightarrow> [] | Some o1 \<Rightarrow> form_fields o1);
          old = (case original of None \<Rightarrow> fmempty | Some o1 \<Rightarrow> ef_attributes o1) in
      bindR (mapR (put_field rd entry False)
               (filter (\<lambda>(field, v). map_of old_form field \<noteq> Some v) (form_fields f))) (\<lambda>plain.
      bindR (object rd entry ''attributes'') (\<lambda>attrs.
      bindR (mapR (\<lambda>(i, a). attribute_writes rd entry attrs (fmlookup old i) i a)
               (bt_iter (ef_attributes f))) (\<lambda>kept.
      bindR (mapR (put_field rd entry False)
               (map (\<lambda>i. (FAttributePresence i, VPresence False)) (removed_keys old (ef_attributes f)))) (\<lambda>gone.
      bindR (apply_attachments rd entry original f) (\<lambda>atts.
      Ok (plain @ concat kept @ gone @ atts)))))))"

subsection \<open>Restoring a revision (\<open>operations.rs\<close>)\<close>

definition attribute_presences :: "field_state list \<Rightarrow> attribute_id list" where
  "attribute_presences states =
     List.map_filter (\<lambda>st. case fs_field st of FAttributePresence i \<Rightarrow> Some i | _ \<Rightarrow> None) states"

definition attachment_presences :: "field_state list \<Rightarrow> attachment_id list" where
  "attachment_presences states =
     List.map_filter (\<lambda>st. case fs_field st of FAttachmentPresence i \<Rightarrow> Some i | _ \<Rightarrow> None) states"

definition attribute_resolutions :: "entry_fields \<Rightarrow> field_state list \<Rightarrow> field_write list" where
  "attribute_resolutions f states =
     (let known = attribute_presences states
      in map (\<lambda>i. (FAttributePresence i, VPresence (bt_contains (ef_attributes f) i))) known
         @ concat (map (\<lambda>a. (if attr_id a \<in> set known then [] else [(FAttributePresence (attr_id a), VPresence True)])
              @ [(FAttributeName (attr_id a), VText (Some (attr_name a))),
                 (FAttributeValue (attr_id a), VAttribute (attr_value a))]) (bt_values (ef_attributes f))))"

definition attachment_resolutions :: "entry_fields \<Rightarrow> field_state list \<Rightarrow> field_write list" where
  "attachment_resolutions f states =
     (let known = attachment_presences states
      in map (\<lambda>i. (FAttachmentPresence i, VPresence (bt_contains (ef_attachments f) i))) known
         @ concat (map (\<lambda>a. (if att_id a \<in> set known then [] else [(FAttachmentPresence (att_id a), VPresence True)])
              @ [(FAttachmentName (att_id a), VText (Some (att_name a))),
                 (FAttachmentBlob (att_id a), VBlob (att_blob a))]) (bt_values (ef_attachments f))))"

definition all_resolutions :: "entry_fields \<Rightarrow> entry_snapshot \<Rightarrow> field_write list" where
  "all_resolutions f before =
     form_fields f @ attribute_resolutions f (es_values before) @ attachment_resolutions f (es_values before)"

text \<open>The checks of \<open>confirm_resolution\<close> on its fields: no field twice, every value valid.\<close>

definition check_resolutions :: "field_write list \<Rightarrow> doc_error + unit" where
  "check_resolutions ws =
     bindR (foldR (\<lambda>seen (field, v).
         if field \<in> set seen then Err InvalidContext
         else bindR (validate_field field v) (\<lambda>_. Ok (field # seen))) [] ws) (\<lambda>_. Ok ())"

end
