(* ===== verification/Doc_Write_Laws.thy ===== *)
theory Doc_Write_Laws
  imports Doc_Writes
begin

text \<open>
  What is confirmed is what is read. A register file assigns each field its selected value;
  \<open>shows_form\<close> says when it stands for a form. Projection computes the form a register file
  shows, and both confirmation and restoration lead to registers that show the new form.
\<close>

type_synonym registers = "entry_field \<Rightarrow> field_value option"

definition write_all :: "registers \<Rightarrow> field_write list \<Rightarrow> registers" where
  "write_all regs ws = foldl (\<lambda>r (field, v). r(field \<mapsto> v)) regs ws"

definition typed :: "registers \<Rightarrow> bool" where
  "typed regs \<longleftrightarrow> (\<forall>field v. regs field = Some v \<longrightarrow> validate_field field v = Ok ())"

definition shows_form :: "registers \<Rightarrow> entry_fields \<Rightarrow> bool" where
  "shows_form regs f \<longleftrightarrow>
     (\<forall>(field, v) \<in> set (form_fields f). regs field = Some v)
     \<and> (\<forall>i. regs (FAttributePresence i) = Some (VPresence True) \<longleftrightarrow> bt_contains (ef_attributes f) i)
     \<and> (\<forall>i a. fmlookup (ef_attributes f) i = Some a \<longrightarrow> attr_id a = i
          \<and> regs (FAttributeName i) = Some (VText (Some (attr_name a)))
          \<and> regs (FAttributeValue i) = Some (VAttribute (attr_value a)))
     \<and> (\<forall>i. regs (FAttachmentPresence i) = Some (VPresence True) \<longleftrightarrow> bt_contains (ef_attachments f) i)
     \<and> (\<forall>i a. fmlookup (ef_attachments f) i = Some a \<longrightarrow> att_id a = i
          \<and> regs (FAttachmentName i) = Some (VText (Some (att_name a)))
          \<and> regs (FAttachmentBlob i) = Some (VBlob (att_blob a)))"

text \<open>The states a reader of these registers obtains, as \<open>read_values\<close> collects them.\<close>

definition reads :: "('o::linorder, 'v, 'f) reader \<Rightarrow> registers \<Rightarrow> field_state list \<Rightarrow> bool" where
  "reads rd regs states \<longleftrightarrow>
     (\<forall>st \<in> set states. \<exists>v. selected_variant rd st = Ok v \<and> regs (fs_field st) = Some (vv_value v))
     \<and> set PLAIN_FIELDS \<subseteq> fs_field ` set states
     \<and> (\<forall>i. regs (FAttributePresence i) = Some (VPresence True)
          \<longrightarrow> {FAttributePresence i, FAttributeName i, FAttributeValue i} \<subseteq> fs_field ` set states)
     \<and> (\<forall>i. regs (FAttachmentPresence i) = Some (VPresence True)
          \<longrightarrow> {FAttachmentPresence i, FAttachmentName i, FAttachmentBlob i} \<subseteq> fs_field ` set states)"

subsection \<open>Projection computes the shown form\<close>

fun plain_value :: "entry_fields \<Rightarrow> entry_field \<Rightarrow> field_value option" where
  "plain_value f FIcon = Some (VIcon (app_icon (ef_appearance f)))"
| "plain_value f FForeground = Some (VColor (app_foreground (ef_appearance f)))"
| "plain_value f FBackground = Some (VColor (app_background (ef_appearance f)))"
| "plain_value f FTitle = Some (VText (Some (ef_title f)))"
| "plain_value f FUsername = Some (VText (ef_username f))"
| "plain_value f FPassword = Some (VText (ef_password f))"
| "plain_value f FUrl = Some (VText (ef_url f))"
| "plain_value f FNotes = Some (VText (ef_notes f))"
| "plain_value f FTags = Some (VTags (ef_tags f))"
| "plain_value f FExpiresAt = Some (VTimestamp (ef_expires_at f))"
| "plain_value f _ = None"

lemma map_of_form_fields: "map_of (form_fields f) field = plain_value f field"
  by (cases field) (simp_all add: form_fields_def)

lemma distinct_form_fields: "distinct (map fst (form_fields f))"
  by (simp add: form_fields_def)

lemma form_fields_iff: "(field, v) \<in> set (form_fields f) \<longleftrightarrow> plain_value f field = Some v"
  by (metis distinct_form_fields map_of_eq_Some_iff map_of_form_fields)

lemma plain_value_dom: "field \<in> set PLAIN_FIELDS \<longleftrightarrow> (\<exists>v. plain_value f field = Some v)"
  by (cases field) (simp_all add: PLAIN_FIELDS_def)

lemma plain_value_eq:
  assumes "\<And>field. field \<in> set PLAIN_FIELDS \<Longrightarrow> plain_value f field = plain_value g field"
    and "ef_attributes f = ef_attributes g" and "ef_attachments f = ef_attachments g"
  shows "f = g"
proof -
  have "ef_title f = ef_title g" "ef_username f = ef_username g" "ef_password f = ef_password g"
    "ef_url f = ef_url g" "ef_notes f = ef_notes g" "ef_tags f = ef_tags g" "ef_expires_at f = ef_expires_at g"
    using assms(1) [of FTitle] assms(1) [of FUsername] assms(1) [of FPassword] assms(1) [of FUrl]
      assms(1) [of FNotes] assms(1) [of FTags] assms(1) [of FExpiresAt] by (simp_all add: PLAIN_FIELDS_def)
  moreover have "app_icon (ef_appearance f) = app_icon (ef_appearance g)"
    "app_foreground (ef_appearance f) = app_foreground (ef_appearance g)"
    "app_background (ef_appearance f) = app_background (ef_appearance g)"
    using assms(1) [of FIcon] assms(1) [of FForeground] assms(1) [of FBackground]
    by (simp_all add: PLAIN_FIELDS_def)
  ultimately show ?thesis using assms(2,3) by (intro entry_fields.equality appearance.equality) simp_all
qed

text \<open>What the accumulator of \<open>project_fields\<close> has seen of the registers.\<close>

definition text_of :: "field_value option \<Rightarrow> string option" where
  "text_of v = (case v of Some (VText t) \<Rightarrow> t | _ \<Rightarrow> None)"

definition tracks :: "registers \<Rightarrow> entry_field set \<Rightarrow> projection \<Rightarrow> bool" where
  "tracks regs S p \<longleftrightarrow>
     (\<forall>field \<in> S \<inter> set PLAIN_FIELDS. plain_value (pj_result p) field = regs field)
     \<and> (\<forall>i. FAttributeName i \<in> S \<longrightarrow> fmlookup (pj_names p) i = text_of (regs (FAttributeName i)))
     \<and> (\<forall>i. FAttributeValue i \<in> S \<longrightarrow> map_option VAttribute (fmlookup (pj_values p) i) = regs (FAttributeValue i))
     \<and> (\<forall>i. i |\<in>| pj_present p \<longleftrightarrow> FAttributePresence i \<in> S \<and> regs (FAttributePresence i) = Some (VPresence True))
     \<and> (\<forall>i. FAttachmentName i \<in> S \<longrightarrow> fmlookup (pj_attachment_names p) i = text_of (regs (FAttachmentName i)))
     \<and> (\<forall>i. FAttachmentBlob i \<in> S \<longrightarrow> map_option VBlob (fmlookup (pj_attachment_blobs p) i) = regs (FAttachmentBlob i))
     \<and> (\<forall>i. i |\<in>| pj_attachments p \<longleftrightarrow> FAttachmentPresence i \<in> S \<and> regs (FAttachmentPresence i) = Some (VPresence True))
     \<and> ef_attributes (pj_result p) = fmempty \<and> ef_attachments (pj_result p) = fmempty"

lemma plain_value_update:
  "plain_value (r\<lparr>ef_title := t\<rparr>) field = (if field = FTitle then Some (VText (Some t)) else plain_value r field)"
  "plain_value (r\<lparr>ef_username := o1\<rparr>) field = (if field = FUsername then Some (VText o1) else plain_value r field)"
  "plain_value (r\<lparr>ef_password := o1\<rparr>) field = (if field = FPassword then Some (VText o1) else plain_value r field)"
  "plain_value (r\<lparr>ef_url := o1\<rparr>) field = (if field = FUrl then Some (VText o1) else plain_value r field)"
  "plain_value (r\<lparr>ef_notes := o1\<rparr>) field = (if field = FNotes then Some (VText o1) else plain_value r field)"
  "plain_value (r\<lparr>ef_tags := ts\<rparr>) field = (if field = FTags then Some (VTags ts) else plain_value r field)"
  "plain_value (r\<lparr>ef_expires_at := e\<rparr>) field = (if field = FExpiresAt then Some (VTimestamp e) else plain_value r field)"
  "plain_value (r\<lparr>ef_appearance := a\<lparr>app_icon := ic\<rparr>\<rparr>) field
     = (if field = FIcon then Some (VIcon ic) else plain_value (r\<lparr>ef_appearance := a\<rparr>) field)"
  "plain_value (r\<lparr>ef_appearance := a\<lparr>app_foreground := c\<rparr>\<rparr>) field
     = (if field = FForeground then Some (VColor c) else plain_value (r\<lparr>ef_appearance := a\<rparr>) field)"
  "plain_value (r\<lparr>ef_appearance := a\<lparr>app_background := c\<rparr>\<rparr>) field
     = (if field = FBackground then Some (VColor c) else plain_value (r\<lparr>ef_appearance := a\<rparr>) field)"
  by (cases field; simp)+

lemma appearance_same [simp]: "r\<lparr>ef_appearance := ef_appearance r\<rparr> = (r :: entry_fields)"
  by simp

lemma tracks_frame:
  "tracks regs S p \<Longrightarrow> pj_names p' = pj_names p \<Longrightarrow> pj_values p' = pj_values p \<Longrightarrow> pj_present p' = pj_present p
    \<Longrightarrow> pj_attachment_names p' = pj_attachment_names p \<Longrightarrow> pj_attachment_blobs p' = pj_attachment_blobs p
    \<Longrightarrow> pj_attachments p' = pj_attachments p \<Longrightarrow> ef_attributes (pj_result p') = fmempty
    \<Longrightarrow> ef_attachments (pj_result p') = fmempty \<Longrightarrow> field \<in> set PLAIN_FIELDS
    \<Longrightarrow> (\<And>f. f \<in> insert field S \<Longrightarrow> f \<in> set PLAIN_FIELDS \<Longrightarrow> plain_value (pj_result p') f = regs f)
    \<Longrightarrow> tracks regs (insert field S) p'"
  unfolding tracks_def by (elim conjE, intro conjI) (auto simp: PLAIN_FIELDS_def)

lemma tracks_plain: "tracks regs S p \<Longrightarrow> f \<in> S \<Longrightarrow> f \<in> set PLAIN_FIELDS \<Longrightarrow> plain_value (pj_result p) f = regs f"
  "tracks regs S p \<Longrightarrow> ef_attributes (pj_result p) = fmempty"
  "tracks regs S p \<Longrightarrow> ef_attachments (pj_result p) = fmempty"
  unfolding tracks_def by blast+

lemma project_plain_tracks:
  assumes t: "tracks regs S p" and "regs field = Some v" and "validate_field field v = Ok ()"
    and f: "field \<in> set PLAIN_FIELDS"
  shows "\<exists>p'. project_field field v p = Ok p' \<and> tracks regs (insert field S) p'"
proof -
  have "\<exists>r. project_field field v p = Ok (p\<lparr>pj_result := r\<rparr>) \<and> ef_attributes r = ef_attributes (pj_result p)
      \<and> ef_attachments r = ef_attachments (pj_result p)
      \<and> (\<forall>g. plain_value r g = (if g = field then Some v else plain_value (pj_result p) g))"
    using f assms(3)
    by (cases v; cases field) (auto simp: PLAIN_FIELDS_def validate_field_def project_field_def
          plain_value_update Let_def split: option.splits)
  then obtain r where r: "project_field field v p = Ok (p\<lparr>pj_result := r\<rparr>)" "ef_attributes r = fmempty"
      "ef_attachments r = fmempty" "\<And>g. plain_value r g = (if g = field then Some v else plain_value (pj_result p) g)"
    using tracks_plain(2,3) [OF t] by auto
  have "tracks regs (insert field S) (p\<lparr>pj_result := r\<rparr>)"
    by (rule tracks_frame [OF t]) (use r f tracks_plain(1) [OF t] assms(2) in auto)
  then show ?thesis using r(1) by blast
qed

lemma project_owned_tracks:
  assumes "tracks regs S p" and "regs field = Some v" and "validate_field field v = Ok ()"
    and "field \<notin> set PLAIN_FIELDS"
  shows "\<exists>p'. project_field field v p = Ok p' \<and> tracks regs (insert field S) p'"
proof (cases field)
  case (FAttributeName i)
  then obtain t where v: "v = VText (Some t)"
    using assms(3) by (cases v) (auto simp: validate_field_def split: option.splits if_splits)
  show ?thesis
    using assms(1,2) by (simp add: FAttributeName v project_field_def tracks_def text_of_def PLAIN_FIELDS_def)
next
  case (FAttributeValue i)
  then obtain t where v: "v = VAttribute t"
    using assms(3) by (cases v) (auto simp: validate_field_def)
  show ?thesis
    using assms(1,2) by (simp add: FAttributeValue v project_field_def tracks_def text_of_def PLAIN_FIELDS_def)
next
  case (FAttributePresence i)
  then obtain t where v: "v = VPresence t"
    using assms(3) by (cases v) (auto simp: validate_field_def)
  show ?thesis
    using assms(1,2) by (auto simp: FAttributePresence v project_field_def tracks_def text_of_def PLAIN_FIELDS_def)
next
  case (FAttachmentName i)
  then obtain t where v: "v = VText (Some t)"
    using assms(3) by (cases v) (auto simp: validate_field_def split: option.splits if_splits)
  show ?thesis
    using assms(1,2) by (simp add: FAttachmentName v project_field_def tracks_def text_of_def PLAIN_FIELDS_def)
next
  case (FAttachmentBlob i)
  then obtain t where v: "v = VBlob t"
    using assms(3) by (cases v) (auto simp: validate_field_def)
  show ?thesis
    using assms(1,2) by (simp add: FAttachmentBlob v project_field_def tracks_def text_of_def PLAIN_FIELDS_def)
next
  case (FAttachmentPresence i)
  then obtain t where v: "v = VPresence t"
    using assms(3) by (cases v) (auto simp: validate_field_def)
  show ?thesis
    using assms(1,2) by (auto simp: FAttachmentPresence v project_field_def tracks_def text_of_def PLAIN_FIELDS_def)
qed (use assms(4) in \<open>simp_all add: PLAIN_FIELDS_def\<close>)

lemma tracks_start: "tracks regs {} projection_start"
  by (simp add: tracks_def projection_start_def entry_fields_default_def)

abbreviation project_state :: "('o::linorder, 'v, 'f) reader \<Rightarrow> projection \<Rightarrow> field_state \<Rightarrow> doc_error + projection" where
  "project_state rd p state \<equiv> bindR (selected_variant rd state) (\<lambda>variant.
     project_field (fs_field state) (vv_value variant) p)"

lemma project_states_track:
  assumes "typed regs" and "tracks regs S p"
    and "\<forall>st \<in> set states. \<exists>v. selected_variant rd st = Ok v \<and> regs (fs_field st) = Some (vv_value v)"
  shows "\<exists>p'. foldR (project_state rd) p states = Ok p' \<and> tracks regs (S \<union> fs_field ` set states) p'"
  using assms(2,3)
proof (induction states arbitrary: S p)
  case (Cons st states)
  obtain v where v: "selected_variant rd st = Ok v" "regs (fs_field st) = Some (vv_value v)"
    using Cons.prems(2) by auto
  have "validate_field (fs_field st) (vv_value v) = Ok ()" using assms(1) v(2) by (simp add: typed_def)
  then obtain q where q: "project_field (fs_field st) (vv_value v) p = Ok q" "tracks regs (insert (fs_field st) S) q"
    using project_plain_tracks [OF Cons.prems(1) v(2)] project_owned_tracks [OF Cons.prems(1) v(2)] by blast
  then show ?case using Cons.IH [OF q(2)] Cons.prems(2) v(1) by (simp del: bindR_Inr)
qed simp

lemma plain_value_collections [simp]:
  "plain_value (r\<lparr>ef_attributes := m\<rparr>) = plain_value r"
  "plain_value (r\<lparr>ef_attachments := n\<rparr>) = plain_value r"
  by (rule ext, case_tac x; simp)+

lemma collect_attributes:
  assumes "distinct ks" and "\<forall>i \<in> set ks. fmlookup (pj_names p) i = Some (n i) \<and> fmlookup (pj_values p) i = Some (w i)"
  shows "\<exists>p'. foldR project_attribute p ks = Ok p'
    \<and> plain_value (pj_result p') = plain_value (pj_result p)
    \<and> ef_attachments (pj_result p') = ef_attachments (pj_result p)
    \<and> pj_attachment_names p' = pj_attachment_names p \<and> pj_attachment_blobs p' = pj_attachment_blobs p
    \<and> pj_attachments p' = pj_attachments p
    \<and> (\<forall>i. fmlookup (ef_attributes (pj_result p')) i =
         (if i \<in> set ks then Some \<lparr>attr_id = i, attr_name = n i, attr_value = w i\<rparr>
          else fmlookup (ef_attributes (pj_result p)) i))"
  using assms
proof (induction ks arbitrary: p)
  case (Cons k ks)
  define q where "q = p\<lparr>pj_names := fmdrop k (pj_names p), pj_values := fmdrop k (pj_values p),
    pj_result := (pj_result p)\<lparr>ef_attributes :=
      fmupd k \<lparr>attr_id = k, attr_name = n k, attr_value = w k\<rparr> (ef_attributes (pj_result p))\<rparr>\<rparr>"
  have q: "project_attribute p k = Ok q" using Cons.prems(2) by (simp add: project_attribute_def q_def Let_def)
  have "distinct ks" "\<forall>i \<in> set ks. fmlookup (pj_names q) i = Some (n i) \<and> fmlookup (pj_values q) i = Some (w i)"
    using Cons.prems by (auto simp: q_def)
  then obtain p' where "foldR project_attribute q ks = Ok p'"
    "plain_value (pj_result p') = plain_value (pj_result q)"
    "ef_attachments (pj_result p') = ef_attachments (pj_result q)"
    "pj_attachment_names p' = pj_attachment_names q" "pj_attachment_blobs p' = pj_attachment_blobs q"
    "pj_attachments p' = pj_attachments q"
    "\<forall>i. fmlookup (ef_attributes (pj_result p')) i =
         (if i \<in> set ks then Some \<lparr>attr_id = i, attr_name = n i, attr_value = w i\<rparr>
          else fmlookup (ef_attributes (pj_result q)) i)"
    using Cons.IH [of q] by blast
  then show ?case using q Cons.prems(1) by (intro exI [of _ p']) (simp del: bindR_Inr add: q_def)
qed simp

lemma collect_attachments:
  assumes "distinct ks" and "\<forall>i \<in> set ks. fmlookup (pj_attachment_names p) i = Some (n i)
    \<and> fmlookup (pj_attachment_blobs p) i = Some (w i)"
  shows "\<exists>p'. foldR project_attachment p ks = Ok p'
    \<and> plain_value (pj_result p') = plain_value (pj_result p)
    \<and> ef_attributes (pj_result p') = ef_attributes (pj_result p)
    \<and> (\<forall>i. fmlookup (ef_attachments (pj_result p')) i =
         (if i \<in> set ks then Some \<lparr>att_id = i, att_name = n i, att_blob = w i\<rparr>
          else fmlookup (ef_attachments (pj_result p)) i))"
  using assms
proof (induction ks arbitrary: p)
  case (Cons k ks)
  define q where "q = p\<lparr>pj_attachment_names := fmdrop k (pj_attachment_names p),
    pj_attachment_blobs := fmdrop k (pj_attachment_blobs p),
    pj_result := (pj_result p)\<lparr>ef_attachments :=
      fmupd k \<lparr>att_id = k, att_name = n k, att_blob = w k\<rparr> (ef_attachments (pj_result p))\<rparr>\<rparr>"
  have q: "project_attachment p k = Ok q" using Cons.prems(2) by (simp add: project_attachment_def q_def Let_def)
  have "distinct ks" "\<forall>i \<in> set ks. fmlookup (pj_attachment_names q) i = Some (n i)
      \<and> fmlookup (pj_attachment_blobs q) i = Some (w i)"
    using Cons.prems by (auto simp: q_def)
  then obtain p' where "foldR project_attachment q ks = Ok p'"
    "plain_value (pj_result p') = plain_value (pj_result q)"
    "ef_attributes (pj_result p') = ef_attributes (pj_result q)"
    "\<forall>i. fmlookup (ef_attachments (pj_result p')) i =
         (if i \<in> set ks then Some \<lparr>att_id = i, att_name = n i, att_blob = w i\<rparr>
          else fmlookup (ef_attachments (pj_result q)) i)"
    using Cons.IH [of q] by blast
  then show ?case using q Cons.prems(1) by (intro exI [of _ p']) (simp del: bindR_Inr add: q_def)
qed simp

lemma tracks_lookup:
  assumes "tracks regs S p"
  shows "FAttributeName i \<in> S \<Longrightarrow> regs (FAttributeName i) = Some (VText (Some t)) \<Longrightarrow> fmlookup (pj_names p) i = Some t"
    and "FAttributeValue i \<in> S \<Longrightarrow> regs (FAttributeValue i) = Some (VAttribute w) \<Longrightarrow> fmlookup (pj_values p) i = Some w"
    and "FAttachmentName i \<in> S \<Longrightarrow> regs (FAttachmentName i) = Some (VText (Some t))
      \<Longrightarrow> fmlookup (pj_attachment_names p) i = Some t"
    and "FAttachmentBlob i \<in> S \<Longrightarrow> regs (FAttachmentBlob i) = Some (VBlob b)
      \<Longrightarrow> fmlookup (pj_attachment_blobs p) i = Some b"
    and "i |\<in>| pj_present p \<longleftrightarrow> FAttributePresence i \<in> S \<and> regs (FAttributePresence i) = Some (VPresence True)"
    and "i |\<in>| pj_attachments p \<longleftrightarrow> FAttachmentPresence i \<in> S \<and> regs (FAttachmentPresence i) = Some (VPresence True)"
  using assms by (auto simp: tracks_def text_of_def)

lemma shows_attribute:
  assumes "shows_form regs f" and "fmlookup (ef_attributes f) i = Some a"
  shows "attr_id a = i" "regs (FAttributePresence i) = Some (VPresence True)"
    "regs (FAttributeName i) = Some (VText (Some (attr_name a)))"
    "regs (FAttributeValue i) = Some (VAttribute (attr_value a))"
  using assms by (auto simp: shows_form_def bt_contains_def)

lemma shows_attachment:
  assumes "shows_form regs f" and "fmlookup (ef_attachments f) i = Some a"
  shows "att_id a = i" "regs (FAttachmentPresence i) = Some (VPresence True)"
    "regs (FAttachmentName i) = Some (VText (Some (att_name a)))"
    "regs (FAttachmentBlob i) = Some (VBlob (att_blob a))"
  using assms by (auto simp: shows_form_def bt_contains_def)

lemma shows_present:
  assumes "shows_form regs f"
  shows "regs (FAttributePresence i) = Some (VPresence True) \<longleftrightarrow> bt_contains (ef_attributes f) i"
    and "regs (FAttachmentPresence i) = Some (VPresence True) \<longleftrightarrow> bt_contains (ef_attachments f) i"
    and "field \<in> set PLAIN_FIELDS \<Longrightarrow> regs field = plain_value f field"
proof -
  show "regs (FAttributePresence i) = Some (VPresence True) \<longleftrightarrow> bt_contains (ef_attributes f) i"
    "regs (FAttachmentPresence i) = Some (VPresence True) \<longleftrightarrow> bt_contains (ef_attachments f) i"
    using assms unfolding shows_form_def by blast+
  assume "field \<in> set PLAIN_FIELDS"
  then obtain v where v: "plain_value f field = Some v" using plain_value_dom by blast
  then have "(field, v) \<in> set (form_fields f)" by (simp add: form_fields_iff)
  then show "regs field = plain_value f field" using assms v unfolding shows_form_def by fastforce
qed

lemma reads_fields:
  assumes "reads rd regs states"
  shows "field \<in> set PLAIN_FIELDS \<Longrightarrow> field \<in> fs_field ` set states"
    and "regs (FAttributePresence i) = Some (VPresence True)
      \<Longrightarrow> {FAttributePresence i, FAttributeName i, FAttributeValue i} \<subseteq> fs_field ` set states"
    and "regs (FAttachmentPresence i) = Some (VPresence True)
      \<Longrightarrow> {FAttachmentPresence i, FAttachmentName i, FAttachmentBlob i} \<subseteq> fs_field ` set states"
    and "\<forall>st \<in> set states. \<exists>v. selected_variant rd st = Ok v \<and> regs (fs_field st) = Some (vv_value v)"
  using assms unfolding reads_def by blast+

lemma project_shown:
  assumes ty: "typed regs" and r: "reads rd regs states" and f: "shows_form regs f"
  shows "project_fields rd states = Ok f"
proof -
  let ?S = "fs_field ` set states"
  obtain p where p: "foldR (project_state rd) projection_start states = Ok p" and t: "tracks regs ?S p"
    using project_states_track [OF ty tracks_start reads_fields(4) [OF r]] by auto
  let ?ks = "sorted_list_of_fset (pj_present p)" and ?as = "sorted_list_of_fset (pj_attachments p)"
  let ?at = "\<lambda>i. the (fmlookup (ef_attributes f) i)" and ?ac = "\<lambda>i. the (fmlookup (ef_attachments f) i)"
  have ks: "i \<in> set ?ks \<longleftrightarrow> bt_contains (ef_attributes f) i" for i
    using tracks_lookup(5) [OF t] reads_fields(2) [OF r] shows_present(1) [OF f] by auto
  have as: "i \<in> set ?as \<longleftrightarrow> bt_contains (ef_attachments f) i" for i
    using tracks_lookup(6) [OF t] reads_fields(3) [OF r] shows_present(2) [OF f] by auto
  have n: "\<forall>i \<in> set ?ks. fmlookup (pj_names p) i = Some (attr_name (?at i))
      \<and> fmlookup (pj_values p) i = Some (attr_value (?at i))"
  proof
    fix i
    assume "i \<in> set ?ks"
    then obtain a where a: "fmlookup (ef_attributes f) i = Some a" by (auto simp only: ks bt_contains_def)
    note s = shows_attribute [OF f a]
    show "fmlookup (pj_names p) i = Some (attr_name (?at i)) \<and> fmlookup (pj_values p) i = Some (attr_value (?at i))"
      using tracks_lookup(1,2) [OF t, of i] reads_fields(2) [OF r s(2)] s a by simp
  qed
  obtain p1 where p1: "foldR project_attribute p ?ks = Ok p1"
    "plain_value (pj_result p1) = plain_value (pj_result p)"
    "ef_attachments (pj_result p1) = ef_attachments (pj_result p)"
    "pj_attachment_names p1 = pj_attachment_names p" "pj_attachment_blobs p1 = pj_attachment_blobs p"
    "pj_attachments p1 = pj_attachments p"
    "\<forall>i. fmlookup (ef_attributes (pj_result p1)) i =
         (if i \<in> set ?ks then Some \<lparr>attr_id = i, attr_name = attr_name (?at i), attr_value = attr_value (?at i)\<rparr>
          else fmlookup (ef_attributes (pj_result p)) i)"
    using collect_attributes [OF _ n] by (auto simp: sorted_list_of_fset.rep_eq)
  have m: "\<forall>i \<in> set ?as. fmlookup (pj_attachment_names p1) i = Some (att_name (?ac i))
      \<and> fmlookup (pj_attachment_blobs p1) i = Some (att_blob (?ac i))"
  proof
    fix i
    assume "i \<in> set ?as"
    then obtain a where a: "fmlookup (ef_attachments f) i = Some a" by (auto simp only: as bt_contains_def)
    note s = shows_attachment [OF f a]
    show "fmlookup (pj_attachment_names p1) i = Some (att_name (?ac i))
        \<and> fmlookup (pj_attachment_blobs p1) i = Some (att_blob (?ac i))"
      using tracks_lookup(3,4) [OF t, of i] reads_fields(3) [OF r s(2)] s a p1(4,5) by simp
  qed
  obtain p2 where p2: "foldR project_attachment p1 ?as = Ok p2"
    "plain_value (pj_result p2) = plain_value (pj_result p1)"
    "ef_attributes (pj_result p2) = ef_attributes (pj_result p1)"
    "\<forall>i. fmlookup (ef_attachments (pj_result p2)) i =
         (if i \<in> set ?as then Some \<lparr>att_id = i, att_name = att_name (?ac i), att_blob = att_blob (?ac i)\<rparr>
          else fmlookup (ef_attachments (pj_result p1)) i)"
    using collect_attachments [OF _ m] by (auto simp: sorted_list_of_fset.rep_eq)
  have "pj_result p2 = f"
  proof (rule plain_value_eq)
    show "plain_value (pj_result p2) field = plain_value f field" if "field \<in> set PLAIN_FIELDS" for field
      using that p1(2) p2(2) tracks_plain(1) [OF t] reads_fields(1) [OF r] shows_present(3) [OF f] by simp
    show "ef_attributes (pj_result p2) = ef_attributes f"
    proof (rule fmap_ext)
      fix i
      show "fmlookup (ef_attributes (pj_result p2)) i = fmlookup (ef_attributes f) i"
        using p1(7) p2(3) ks [of i] shows_attribute(1) [OF f, of i] tracks_plain(2) [OF t]
        by (cases "fmlookup (ef_attributes f) i") (auto simp: bt_contains_def)
    qed
    show "ef_attachments (pj_result p2) = ef_attachments f"
    proof (rule fmap_ext)
      fix i
      show "fmlookup (ef_attachments (pj_result p2)) i = fmlookup (ef_attachments f) i"
        using p1(3) p2(4) as [of i] shows_attachment(1) [OF f, of i] tracks_plain(3) [OF t]
        by (cases "fmlookup (ef_attachments f) i") (auto simp: bt_contains_def)
    qed
  qed
  then show ?thesis using p p1(1,6) p2(1) by (simp add: project_fields_def)
qed

subsection \<open>What a confirmation writes\<close>

lemma write_all_simps [simp]:
  "write_all regs [] = regs"
  "write_all regs (w # ws) = write_all (regs(fst w \<mapsto> snd w)) ws"
  by (simp_all add: write_all_def split_def)

lemma write_all_miss: "(\<And>v. (field, v) \<notin> set ws) \<Longrightarrow> write_all regs ws field = regs field"
proof (induction ws arbitrary: regs)
  case (Cons w ws)
  have "fst w \<noteq> field" using Cons.prems [of "snd w"] by auto
  then show ?case using Cons.IH Cons.prems by simp
qed simp

lemma write_all_hit:
  "(field, v) \<in> set ws \<Longrightarrow> (\<And>v'. (field, v') \<in> set ws \<Longrightarrow> v' = v) \<Longrightarrow> write_all regs ws field = Some v"
proof (induction ws arbitrary: regs)
  case (Cons w ws)
  show ?case
  proof (cases "\<exists>v'. (field, v') \<in> set ws")
    case True
    then have "(field, v) \<in> set ws" using Cons.prems(2) by auto
    then show ?thesis unfolding write_all_simps by (rule Cons.IH) (rule Cons.prems(2), simp)
  next
    case False
    then have "w = (field, v)" using Cons.prems(1) by auto
    then show ?thesis using False write_all_miss [of field ws] by simp
  qed
qed simp

lemma write_all_typed:
  "typed regs \<Longrightarrow> \<forall>w \<in> set ws. validate_field (fst w) (snd w) = Ok () \<Longrightarrow> typed (write_all regs ws)"
proof (induction ws arbitrary: regs)
  case (Cons w ws)
  have "typed (regs(fst w \<mapsto> snd w))" using Cons.prems by (simp add: typed_def)
  then show ?case using Cons.IH Cons.prems(2) by simp
qed simp

lemma put_fields:
  assumes "mapR (put_field rd entry c) xs = Ok ys"
  shows "ys = xs \<and> (\<forall>w \<in> set xs. validate_field (fst w) (snd w) = Ok ())"
  using assms by (induction xs arbitrary: ys) (auto simp: put_field_def split: if_splits)

definition attribute_set :: "attribute option \<Rightarrow> attribute_id \<Rightarrow> attribute \<Rightarrow> field_write set" where
  "attribute_set old i a = (if old = Some a then {} else
     (if map_option attr_name old = Some (attr_name a) then {} else {(FAttributeName i, VText (Some (attr_name a)))})
     \<union> (if map_option attr_value old = Some (attr_value a) then {} else {(FAttributeValue i, VAttribute (attr_value a))})
     \<union> {(FAttributePresence i, VPresence True)})"

definition attachment_set :: "attachment option \<Rightarrow> attachment_id \<Rightarrow> attachment \<Rightarrow> field_write set" where
  "attachment_set old i a = (if old = Some a then {} else
     (if map_option att_name old = Some (att_name a) then {} else {(FAttachmentName i, VText (Some (att_name a)))})
     \<union> (if map_option att_blob old = Some (att_blob a) then {} else {(FAttachmentBlob i, VBlob (att_blob a))})
     \<union> {(FAttachmentPresence i, VPresence True)})"

abbreviation valid_writes :: "field_write list \<Rightarrow> bool" where
  "valid_writes ws \<equiv> \<forall>w \<in> set ws. validate_field (fst w) (snd w) = Ok ()"

lemma attribute_writes_set:
  assumes "attribute_writes rd entry objs old i a = Ok ws"
  shows "set ws = attribute_set old i a \<and> valid_writes ws"
proof (cases "old = Some a")
  case False
  let ?ws = "(if map_option attr_name old = Some (attr_name a) then [] else [(FAttributeName i, VText (Some (attr_name a)))])
    @ (if map_option attr_value old = Some (attr_value a) then [] else [(FAttributeValue i, VAttribute (attr_value a))])
    @ [(FAttributePresence i, VPresence True)]"
  have "mapR (put_field rd entry (old = None)) ?ws = Ok ws"
    using assms unfolding attribute_writes_def if_not_P [OF False] bindR_Inr by blast
  from put_fields [OF this] have "ws = ?ws" "valid_writes ?ws" by auto
  moreover have "set ?ws = attribute_set old i a"
    unfolding attribute_set_def if_not_P [OF False] set_append if_distrib [of set] by (simp only: list.set Un_assoc)
  ultimately show ?thesis by (simp only:)
qed (use assms in \<open>simp add: attribute_writes_def attribute_set_def\<close>)

lemma attachment_writes_set:
  assumes "attachment_writes rd entry objs old i a = Ok ws"
  shows "set ws = attachment_set old i a \<and> valid_writes ws"
proof (cases "old = Some a")
  case False
  let ?ws = "(if map_option att_name old = Some (att_name a) then [] else [(FAttachmentName i, VText (Some (att_name a)))])
    @ (if map_option att_blob old = Some (att_blob a) then [] else [(FAttachmentBlob i, VBlob (att_blob a))])
    @ [(FAttachmentPresence i, VPresence True)]"
  have "mapR (put_field rd entry (old = None)) ?ws = Ok ws"
    using assms unfolding attachment_writes_def if_not_P [OF False] bindR_Inr by blast
  from put_fields [OF this] have "ws = ?ws" "valid_writes ?ws" by auto
  moreover have "set ?ws = attachment_set old i a"
    unfolding attachment_set_def if_not_P [OF False] set_append if_distrib [of set] by (simp only: list.set Un_assoc)
  ultimately show ?thesis by (simp only:)
qed (use assms in \<open>simp add: attachment_writes_def attachment_set_def\<close>)

lemma mapR_concat:
  assumes "mapR f xs = Ok yss" and "\<And>x ys. x \<in> set xs \<Longrightarrow> f x = Ok ys \<Longrightarrow> set ys = g x \<and> valid_writes ys"
  shows "set (concat yss) = (\<Union>x \<in> set xs. g x) \<and> valid_writes (concat yss)"
  using assms
proof (induction xs arbitrary: yss)
  case (Cons x xs)
  then obtain ys zss where y: "f x = Ok ys" "mapR f xs = Ok zss" "yss = ys # zss" by auto
  have "set ys = g x \<and> valid_writes ys" by (rule Cons.prems(2)) (simp_all add: y(1))
  moreover have "set (concat zss) = (\<Union>x \<in> set xs. g x) \<and> valid_writes (concat zss)"
    by (rule Cons.IH [OF y(2)]) (rule Cons.prems(2), simp_all)
  ultimately show ?case by (simp add: y(3) ball_Un del: set_concat)
qed simp

abbreviation old_attributes :: "entry_fields option \<Rightarrow> (attribute_id, attribute) fmap" where
  "old_attributes original \<equiv> (case original of None \<Rightarrow> fmempty | Some o1 \<Rightarrow> ef_attributes o1)"
abbreviation old_attachments :: "entry_fields option \<Rightarrow> (attachment_id, attachment) fmap" where
  "old_attachments original \<equiv> (case original of None \<Rightarrow> fmempty | Some o1 \<Rightarrow> ef_attachments o1)"
abbreviation old_plain :: "entry_fields option \<Rightarrow> entry_field \<Rightarrow> field_value option" where
  "old_plain original field \<equiv> (case original of None \<Rightarrow> None | Some o1 \<Rightarrow> plain_value o1 field)"

definition form_set :: "entry_fields option \<Rightarrow> entry_fields \<Rightarrow> field_write set" where
  "form_set original f =
     {(field, v). plain_value f field = Some v \<and> old_plain original field \<noteq> Some v}
     \<union> (\<Union>(i, a) \<in> set (bt_iter (ef_attributes f)). attribute_set (fmlookup (old_attributes original) i) i a)
     \<union> {(FAttributePresence i, VPresence False) | i. bt_contains (old_attributes original) i \<and> \<not> bt_contains (ef_attributes f) i}
     \<union> (\<Union>(i, a) \<in> set (bt_iter (ef_attachments f)). attachment_set (fmlookup (old_attachments original) i) i a)
     \<union> {(FAttachmentPresence i, VPresence False) | i. bt_contains (old_attachments original) i \<and> \<not> bt_contains (ef_attachments f) i}"

lemma removed_keys_set: "i \<in> set (removed_keys old new) \<longleftrightarrow> bt_contains old i \<and> \<not> bt_contains new i"
  by (auto simp: removed_keys_def bt_contains_dom)

lemma apply_attachments_set:
  assumes "apply_attachments rd entry original f = Ok ws"
  shows "set ws = (\<Union>(i, a) \<in> set (bt_iter (ef_attachments f)). attachment_set (fmlookup (old_attachments original) i) i a)
     \<union> {(FAttachmentPresence i, VPresence False) | i. bt_contains (old_attachments original) i \<and> \<not> bt_contains (ef_attachments f) i}
     \<and> valid_writes ws"
proof -
  obtain atts kept gone where k: "mapR (\<lambda>(i, a). attachment_writes rd entry atts (fmlookup (old_attachments original) i) i a)
               (bt_iter (ef_attachments f)) = Ok kept"
    and g: "mapR (put_field rd entry False)
               (map (\<lambda>i. (FAttachmentPresence i, VPresence False)) (removed_keys (old_attachments original) (ef_attachments f))) = Ok gone"
    and ws: "ws = concat kept @ gone"
    using assms by (auto simp: apply_attachments_def Let_def)
  have "set (concat kept) = (\<Union>(i, a) \<in> set (bt_iter (ef_attachments f)). attachment_set (fmlookup (old_attachments original) i) i a)
      \<and> valid_writes (concat kept)"
    by (rule mapR_concat [OF k]) (auto dest: attachment_writes_set)
  then show ?thesis using put_fields [OF g] ws by (auto simp: removed_keys_set)
qed

lemma apply_form_set:
  assumes "apply_form rd entry original f = Ok ws"
  shows "set ws = form_set original f \<and> valid_writes ws"
proof -
  obtain plain attrs kept gone atts where p: "mapR (put_field rd entry False)
               (filter (\<lambda>(field, v). map_of (case original of None \<Rightarrow> [] | Some o1 \<Rightarrow> form_fields o1) field \<noteq> Some v) (form_fields f)) = Ok plain"
    and k: "mapR (\<lambda>(i, a). attribute_writes rd entry attrs (fmlookup (old_attributes original) i) i a)
               (bt_iter (ef_attributes f)) = Ok kept"
    and g: "mapR (put_field rd entry False)
               (map (\<lambda>i. (FAttributePresence i, VPresence False)) (removed_keys (old_attributes original) (ef_attributes f))) = Ok gone"
    and a: "apply_attachments rd entry original f = Ok atts"
    and ws: "ws = plain @ concat kept @ gone @ atts"
    using assms by (auto simp: apply_form_def Let_def)
  have "set (concat kept) = (\<Union>(i, a) \<in> set (bt_iter (ef_attributes f)). attribute_set (fmlookup (old_attributes original) i) i a)
      \<and> valid_writes (concat kept)"
    by (rule mapR_concat [OF k]) (auto dest: attribute_writes_set)
  moreover have "map_of (case original of None \<Rightarrow> [] | Some o1 \<Rightarrow> form_fields o1) field = old_plain original field" for field
    by (cases original) (simp_all add: map_of_form_fields)
  then have "set plain = {(field, v). plain_value f field = Some v \<and> old_plain original field \<noteq> Some v}
      \<and> valid_writes plain"
    using put_fields [OF p] by (auto simp: form_fields_iff)
  moreover note put_fields [OF g] apply_attachments_set [OF a]
  ultimately show ?thesis unfolding form_set_def ws by (auto simp: removed_keys_set)
qed

lemma UN_bt_iter: "x \<in> (\<Union>(i, a) \<in> set (bt_iter m). g i a) \<longleftrightarrow> (\<exists>i a. fmlookup m i = Some a \<and> x \<in> g i a)"
proof -
  have "x \<in> (\<Union>(i, a) \<in> set (bt_iter m). g i a) \<longleftrightarrow> (\<exists>i a. (i, a) \<in> set (bt_iter m) \<and> x \<in> g i a)" by blast
  then show ?thesis by (simp only: set_bt_iter)
qed

lemma owned_set_iff:
  "(FAttributeName i, v) \<in> attribute_set old k a \<longleftrightarrow>
     k = i \<and> map_option attr_name old \<noteq> Some (attr_name a) \<and> v = VText (Some (attr_name a))"
  "(FAttributeValue i, v) \<in> attribute_set old k a \<longleftrightarrow>
     k = i \<and> map_option attr_value old \<noteq> Some (attr_value a) \<and> v = VAttribute (attr_value a)"
  "(FAttributePresence i, v) \<in> attribute_set old k a \<longleftrightarrow> k = i \<and> old \<noteq> Some a \<and> v = VPresence True"
  "(FAttachmentName i, v) \<in> attachment_set olc k c \<longleftrightarrow>
     k = i \<and> map_option att_name olc \<noteq> Some (att_name c) \<and> v = VText (Some (att_name c))"
  "(FAttachmentBlob i, v) \<in> attachment_set olc k c \<longleftrightarrow>
     k = i \<and> map_option att_blob olc \<noteq> Some (att_blob c) \<and> v = VBlob (att_blob c)"
  "(FAttachmentPresence i, v) \<in> attachment_set olc k c \<longleftrightarrow> k = i \<and> olc \<noteq> Some c \<and> v = VPresence True"
  by (cases old; cases olc; auto simp: attribute_set_def attachment_set_def)+

lemma owned_set_fields:
  "w \<in> attribute_set old k a \<Longrightarrow> fst w \<in> {FAttributeName k, FAttributeValue k, FAttributePresence k}"
  "w \<in> attachment_set olc k c \<Longrightarrow> fst w \<in> {FAttachmentName k, FAttachmentBlob k, FAttachmentPresence k}"
  by (auto simp: attribute_set_def attachment_set_def split: if_splits)

lemma form_set_cases:
  "(field, v) \<in> form_set original f \<longleftrightarrow>
     plain_value f field = Some v \<and> old_plain original field \<noteq> Some v
     \<or> (\<exists>i a. fmlookup (ef_attributes f) i = Some a \<and> (field, v) \<in> attribute_set (fmlookup (old_attributes original) i) i a)
     \<or> (\<exists>i. field = FAttributePresence i \<and> v = VPresence False
           \<and> bt_contains (old_attributes original) i \<and> \<not> bt_contains (ef_attributes f) i)
     \<or> (\<exists>i c. fmlookup (ef_attachments f) i = Some c \<and> (field, v) \<in> attachment_set (fmlookup (old_attachments original) i) i c)
     \<or> (\<exists>i. field = FAttachmentPresence i \<and> v = VPresence False
           \<and> bt_contains (old_attachments original) i \<and> \<not> bt_contains (ef_attachments f) i)"
  unfolding form_set_def Un_iff UN_bt_iter by (simp add: disj_assoc)

lemma form_set_iff:
  "(FAttributeName i, v) \<in> form_set original f \<longleftrightarrow> (\<exists>a. fmlookup (ef_attributes f) i = Some a
     \<and> map_option attr_name (fmlookup (old_attributes original) i) \<noteq> Some (attr_name a) \<and> v = VText (Some (attr_name a)))"
  "(FAttributeValue i, v) \<in> form_set original f \<longleftrightarrow> (\<exists>a. fmlookup (ef_attributes f) i = Some a
     \<and> map_option attr_value (fmlookup (old_attributes original) i) \<noteq> Some (attr_value a) \<and> v = VAttribute (attr_value a))"
  "(FAttributePresence i, v) \<in> form_set original f \<longleftrightarrow> (\<exists>a. fmlookup (ef_attributes f) i = Some a
     \<and> fmlookup (old_attributes original) i \<noteq> Some a \<and> v = VPresence True)
     \<or> v = VPresence False \<and> bt_contains (old_attributes original) i \<and> \<not> bt_contains (ef_attributes f) i"
  "(FAttachmentName i, v) \<in> form_set original f \<longleftrightarrow> (\<exists>c. fmlookup (ef_attachments f) i = Some c
     \<and> map_option att_name (fmlookup (old_attachments original) i) \<noteq> Some (att_name c) \<and> v = VText (Some (att_name c)))"
  "(FAttachmentBlob i, v) \<in> form_set original f \<longleftrightarrow> (\<exists>c. fmlookup (ef_attachments f) i = Some c
     \<and> map_option att_blob (fmlookup (old_attachments original) i) \<noteq> Some (att_blob c) \<and> v = VBlob (att_blob c))"
  "(FAttachmentPresence i, v) \<in> form_set original f \<longleftrightarrow> (\<exists>c. fmlookup (ef_attachments f) i = Some c
     \<and> fmlookup (old_attachments original) i \<noteq> Some c \<and> v = VPresence True)
     \<or> v = VPresence False \<and> bt_contains (old_attachments original) i \<and> \<not> bt_contains (ef_attachments f) i"
  unfolding form_set_cases by (auto simp: owned_set_iff dest: owned_set_fields)

lemma form_set_plain:
  assumes "field \<in> set PLAIN_FIELDS"
  shows "(field, v) \<in> form_set original f \<longleftrightarrow> plain_value f field = Some v \<and> old_plain original field \<noteq> Some v"
proof -
  have f: "field \<noteq> FAttributePresence i" "field \<noteq> FAttachmentPresence i"
    "field \<notin> {FAttributeName i, FAttributeValue i, FAttributePresence i}"
    "field \<notin> {FAttachmentName i, FAttachmentBlob i, FAttachmentPresence i}" for i
    using assms by (auto simp: PLAIN_FIELDS_def)
  have "(field, v) \<notin> attribute_set old k a" "(field, v) \<notin> attachment_set olc k c" for old k a olc c
    using owned_set_fields(1) [of "(field, v)" old k a] owned_set_fields(2) [of "(field, v)" olc k c]
      f(3,4) [of k] by auto
  then show ?thesis unfolding form_set_cases using f(1,2) by simp
qed

text \<open>Registers after a confirmation from \<open>original\<close> show the new form.\<close>

definition shows_original :: "registers \<Rightarrow> entry_fields option \<Rightarrow> bool" where
  "shows_original regs original = (case original of None \<Rightarrow> regs = Map.empty | Some o1 \<Rightarrow> shows_form regs o1)"

lemma write_form:
  assumes "set ws = form_set original f" and "regs field = Some v \<or> (field, v) \<in> form_set original f"
    and "\<And>v'. (field, v') \<in> form_set original f \<Longrightarrow> v' = v"
  shows "write_all regs ws field = Some v"
proof (cases "(field, v) \<in> form_set original f")
  case True
  then show ?thesis unfolding assms(1) [symmetric] by (rule write_all_hit) (rule assms(3), simp add: assms(1))
next
  case False
  then have "(field, v') \<notin> set ws" for v' using assms(3) [of v'] unfolding assms(1) by blast
  then have "write_all regs ws field = regs field" by (rule write_all_miss)
  then show ?thesis using False assms(2) by simp
qed

lemma shows_original_attribute:
  assumes "shows_original regs original" and "fmlookup (old_attributes original) i = Some b"
  shows "regs (FAttributePresence i) = Some (VPresence True)"
    "regs (FAttributeName i) = Some (VText (Some (attr_name b)))"
    "regs (FAttributeValue i) = Some (VAttribute (attr_value b))"
  using assms shows_attribute by (auto simp: shows_original_def split: option.splits)

lemma shows_original_attachment:
  assumes "shows_original regs original" and "fmlookup (old_attachments original) i = Some b"
  shows "regs (FAttachmentPresence i) = Some (VPresence True)"
    "regs (FAttachmentName i) = Some (VText (Some (att_name b)))"
    "regs (FAttachmentBlob i) = Some (VBlob (att_blob b))"
  using assms shows_attachment by (auto simp: shows_original_def split: option.splits)

lemma shows_original_present:
  assumes "shows_original regs original"
  shows "regs (FAttributePresence i) = Some (VPresence True) \<longleftrightarrow> bt_contains (old_attributes original) i"
    and "regs (FAttachmentPresence i) = Some (VPresence True) \<longleftrightarrow> bt_contains (old_attachments original) i"
    and "field \<in> set PLAIN_FIELDS \<Longrightarrow> regs field = old_plain original field"
  using assms shows_present by (cases original; simp add: shows_original_def)+

lemma written_attribute:
  assumes ws: "set ws = form_set original f" and o: "shows_original regs original"
    and a: "fmlookup (ef_attributes f) i = Some a"
  shows "write_all regs ws (FAttributeName i) = Some (VText (Some (attr_name a)))"
    and "write_all regs ws (FAttributeValue i) = Some (VAttribute (attr_value a))"
    and "write_all regs ws (FAttributePresence i) = Some (VPresence True)"
proof -
  have c: "bt_contains (ef_attributes f) i" using a by (simp add: bt_contains_def)
  note old = shows_original_attribute [OF o, of i]
  show "write_all regs ws (FAttributeName i) = Some (VText (Some (attr_name a)))"
    by (rule write_form [OF ws]; cases "fmlookup (old_attributes original) i") (auto simp: form_set_iff a old)
  show "write_all regs ws (FAttributeValue i) = Some (VAttribute (attr_value a))"
    by (rule write_form [OF ws]; cases "fmlookup (old_attributes original) i") (auto simp: form_set_iff a old)
  show "write_all regs ws (FAttributePresence i) = Some (VPresence True)"
    by (rule write_form [OF ws]; cases "fmlookup (old_attributes original) i") (auto simp: form_set_iff a old c)
qed

lemma written_attachment:
  assumes ws: "set ws = form_set original f" and o: "shows_original regs original"
    and a: "fmlookup (ef_attachments f) i = Some a"
  shows "write_all regs ws (FAttachmentName i) = Some (VText (Some (att_name a)))"
    and "write_all regs ws (FAttachmentBlob i) = Some (VBlob (att_blob a))"
    and "write_all regs ws (FAttachmentPresence i) = Some (VPresence True)"
proof -
  have c: "bt_contains (ef_attachments f) i" using a by (simp add: bt_contains_def)
  note old = shows_original_attachment [OF o, of i]
  show "write_all regs ws (FAttachmentName i) = Some (VText (Some (att_name a)))"
    by (rule write_form [OF ws]; cases "fmlookup (old_attachments original) i") (auto simp: form_set_iff a old)
  show "write_all regs ws (FAttachmentBlob i) = Some (VBlob (att_blob a))"
    by (rule write_form [OF ws]; cases "fmlookup (old_attachments original) i") (auto simp: form_set_iff a old)
  show "write_all regs ws (FAttachmentPresence i) = Some (VPresence True)"
    by (rule write_form [OF ws]; cases "fmlookup (old_attachments original) i") (auto simp: form_set_iff a old c)
qed

lemma written_absent:
  assumes ws: "set ws = form_set original f" and o: "shows_original regs original"
  shows "\<not> bt_contains (ef_attributes f) i \<Longrightarrow> write_all regs ws (FAttributePresence i) \<noteq> Some (VPresence True)"
    and "\<not> bt_contains (ef_attachments f) i \<Longrightarrow> write_all regs ws (FAttachmentPresence i) \<noteq> Some (VPresence True)"
proof -
  assume n: "\<not> bt_contains (ef_attributes f) i"
  show "write_all regs ws (FAttributePresence i) \<noteq> Some (VPresence True)"
  proof (cases "bt_contains (old_attributes original) i")
    case True
    have "write_all regs ws (FAttributePresence i) = Some (VPresence False)"
      by (rule write_form [OF ws]) (use True n in \<open>auto simp: form_set_iff bt_contains_def\<close>)
    then show ?thesis by simp
  next
    case False
    have "write_all regs ws (FAttributePresence i) = regs (FAttributePresence i)"
      by (rule write_all_miss) (use False n in \<open>auto simp: ws form_set_iff bt_contains_def\<close>)
    then show ?thesis using shows_original_present(1) [OF o, of i] False by simp
  qed
next
  assume n: "\<not> bt_contains (ef_attachments f) i"
  show "write_all regs ws (FAttachmentPresence i) \<noteq> Some (VPresence True)"
  proof (cases "bt_contains (old_attachments original) i")
    case True
    have "write_all regs ws (FAttachmentPresence i) = Some (VPresence False)"
      by (rule write_form [OF ws]) (use True n in \<open>auto simp: form_set_iff bt_contains_def\<close>)
    then show ?thesis by simp
  next
    case False
    have "write_all regs ws (FAttachmentPresence i) = regs (FAttachmentPresence i)"
      by (rule write_all_miss) (use False n in \<open>auto simp: ws form_set_iff bt_contains_def\<close>)
    then show ?thesis using shows_original_present(2) [OF o, of i] False by simp
  qed
qed

lemma written_plain:
  assumes ws: "set ws = form_set original f" and o: "shows_original regs original"
    and v: "plain_value f field = Some v"
  shows "write_all regs ws field = Some v"
proof -
  have p: "field \<in> set PLAIN_FIELDS" using v plain_value_dom by blast
  show ?thesis
    by (rule write_form [OF ws]) (use v shows_original_present(3) [OF o p] in \<open>auto simp: form_set_plain [OF p]\<close>)
qed

lemma wf_identities:
  assumes "fields_wf f"
  shows "fmlookup (ef_attributes f) i = Some a \<Longrightarrow> attr_id a = i"
    and "fmlookup (ef_attachments f) i = Some c \<Longrightarrow> att_id c = i"
  using assms by (auto simp: fields_wf_def fmpred_iff)

lemma apply_form_shows:
  assumes ws: "set ws = form_set original f" and o: "shows_original regs original" and wf: "fields_wf f"
  shows "shows_form (write_all regs ws) f"
  unfolding shows_form_def
proof (intro conjI allI impI ballI)
  show "write_all regs ws (FAttributePresence i) = Some (VPresence True) \<longleftrightarrow> bt_contains (ef_attributes f) i" for i
    using written_absent(1) [OF ws o, of i] written_attribute(3) [OF ws o, of i] by (auto simp: bt_contains_def)
  show "write_all regs ws (FAttachmentPresence i) = Some (VPresence True) \<longleftrightarrow> bt_contains (ef_attachments f) i" for i
    using written_absent(2) [OF ws o, of i] written_attachment(3) [OF ws o, of i] by (auto simp: bt_contains_def)
  show "case w of (field, v) \<Rightarrow> write_all regs ws field = Some v" if "w \<in> set (form_fields f)" for w
    using that written_plain [OF ws o] by (auto simp: form_fields_iff)
qed (use written_attribute [OF ws o] written_attachment [OF ws o] wf_identities [OF wf] in blast)+

text \<open>
  C2: what is saved is what is shown. If the registers show the form a draft started from (or
  are empty, for a new entry) and \<open>apply_form\<close> accepts the draft, every reader of the
  registers after its writes projects exactly the draft, whatever was changed, added or
  removed.
\<close>

theorem save_roundtrip:
  assumes "apply_form rd entry original f = Ok ws" and "fields_validate f = Ok ()"
    and "shows_original regs original" and "typed regs" and "reads rd' (write_all regs ws) states"
  shows "project_fields rd' states = Ok f"
proof -
  have ws: "set ws = form_set original f" "valid_writes ws" using apply_form_set [OF assms(1)] by auto
  have wf: "fields_wf f" using assms(2) by (simp only: fields_valid)
  show ?thesis
    using project_shown [OF write_all_typed [OF assms(4) ws(2)] assms(5) apply_form_shows [OF ws(1) assms(3) wf]] .
qed

subsection \<open>Restoring\<close>

lemma set_attribute_presences: "set (attribute_presences states) = {i. FAttributePresence i \<in> fs_field ` set states}"
proof (induction states)
  case (Cons st states)
  have "attribute_presences (st # states) =
      (case fs_field st of FAttributePresence i \<Rightarrow> i # attribute_presences states | _ \<Rightarrow> attribute_presences states)"
    by (cases "fs_field st") (simp_all add: attribute_presences_def List.map_filter_def)
  then show ?case using Cons.IH by (cases "fs_field st") auto
qed (simp add: attribute_presences_def List.map_filter_def)

lemma set_attachment_presences: "set (attachment_presences states) = {i. FAttachmentPresence i \<in> fs_field ` set states}"
proof (induction states)
  case (Cons st states)
  have "attachment_presences (st # states) =
      (case fs_field st of FAttachmentPresence i \<Rightarrow> i # attachment_presences states | _ \<Rightarrow> attachment_presences states)"
    by (cases "fs_field st") (simp_all add: attachment_presences_def List.map_filter_def)
  then show ?case using Cons.IH by (cases "fs_field st") auto
qed (simp add: attachment_presences_def List.map_filter_def)

lemma attribute_resolutions_iff:
  "w \<in> set (attribute_resolutions f states) \<longleftrightarrow>
     (\<exists>i \<in> set (attribute_presences states). w = (FAttributePresence i, VPresence (bt_contains (ef_attributes f) i)))
     \<or> (\<exists>a \<in> set (bt_values (ef_attributes f)).
          attr_id a \<notin> set (attribute_presences states) \<and> w = (FAttributePresence (attr_id a), VPresence True)
          \<or> w = (FAttributeName (attr_id a), VText (Some (attr_name a)))
          \<or> w = (FAttributeValue (attr_id a), VAttribute (attr_value a)))"
  unfolding attribute_resolutions_def Let_def set_append Un_iff set_concat set_map
  by (intro arg_cong2 [where f = "(\<or>)"]) (force split: if_splits)+

lemma attachment_resolutions_iff:
  "w \<in> set (attachment_resolutions f states) \<longleftrightarrow>
     (\<exists>i \<in> set (attachment_presences states). w = (FAttachmentPresence i, VPresence (bt_contains (ef_attachments f) i)))
     \<or> (\<exists>a \<in> set (bt_values (ef_attachments f)).
          att_id a \<notin> set (attachment_presences states) \<and> w = (FAttachmentPresence (att_id a), VPresence True)
          \<or> w = (FAttachmentName (att_id a), VText (Some (att_name a)))
          \<or> w = (FAttachmentBlob (att_id a), VBlob (att_blob a)))"
  unfolding attachment_resolutions_def Let_def set_append Un_iff set_concat set_map
  by (intro arg_cong2 [where f = "(\<or>)"]) (force split: if_splits)+

lemma all_resolutions_iff:
  assumes "fields_wf f"
  shows "(FAttributePresence i, v) \<in> set (all_resolutions f before) \<longleftrightarrow>
      v = VPresence (bt_contains (ef_attributes f) i)
      \<and> (i \<in> set (attribute_presences (es_values before)) \<or> bt_contains (ef_attributes f) i)"
    and "(FAttributeName i, v) \<in> set (all_resolutions f before) \<longleftrightarrow>
      (\<exists>a. fmlookup (ef_attributes f) i = Some a \<and> v = VText (Some (attr_name a)))"
    and "(FAttributeValue i, v) \<in> set (all_resolutions f before) \<longleftrightarrow>
      (\<exists>a. fmlookup (ef_attributes f) i = Some a \<and> v = VAttribute (attr_value a))"
    and "(FAttachmentPresence i, v) \<in> set (all_resolutions f before) \<longleftrightarrow>
      v = VPresence (bt_contains (ef_attachments f) i)
      \<and> (i \<in> set (attachment_presences (es_values before)) \<or> bt_contains (ef_attachments f) i)"
    and "(FAttachmentName i, v) \<in> set (all_resolutions f before) \<longleftrightarrow>
      (\<exists>a. fmlookup (ef_attachments f) i = Some a \<and> v = VText (Some (att_name a)))"
    and "(FAttachmentBlob i, v) \<in> set (all_resolutions f before) \<longleftrightarrow>
      (\<exists>a. fmlookup (ef_attachments f) i = Some a \<and> v = VBlob (att_blob a))"
    and "plain_value f field = Some u \<Longrightarrow> (field, v) \<in> set (all_resolutions f before) \<longleftrightarrow> v = u"
proof -
  note wf = wf_identities [OF assms]
  have a: "x \<in> set (bt_values (ef_attributes f)) \<longleftrightarrow> fmlookup (ef_attributes f) (attr_id x) = Some x" for x
    using wf(1) by (auto simp: set_bt_values)
  have c: "x \<in> set (bt_values (ef_attachments f)) \<longleftrightarrow> fmlookup (ef_attachments f) (att_id x) = Some x" for x
    using wf(2) by (auto simp: set_bt_values)
  note simps = all_resolutions_def form_fields_iff attribute_resolutions_iff attachment_resolutions_iff Bex_def a c bt_contains_def
  show "(FAttributePresence i, v) \<in> set (all_resolutions f before) \<longleftrightarrow>
      v = VPresence (bt_contains (ef_attributes f) i)
      \<and> (i \<in> set (attribute_presences (es_values before)) \<or> bt_contains (ef_attributes f) i)"
    using wf(1) [of i] by (auto simp: simps)
  show "(FAttachmentPresence i, v) \<in> set (all_resolutions f before) \<longleftrightarrow>
      v = VPresence (bt_contains (ef_attachments f) i)
      \<and> (i \<in> set (attachment_presences (es_values before)) \<or> bt_contains (ef_attachments f) i)"
    using wf(2) [of i] by (auto simp: simps)
  show "(FAttributeName i, v) \<in> set (all_resolutions f before) \<longleftrightarrow>
      (\<exists>a. fmlookup (ef_attributes f) i = Some a \<and> v = VText (Some (attr_name a)))"
    "(FAttributeValue i, v) \<in> set (all_resolutions f before) \<longleftrightarrow>
      (\<exists>a. fmlookup (ef_attributes f) i = Some a \<and> v = VAttribute (attr_value a))"
    using wf(1) [of i] by (auto simp: simps)
  show "(FAttachmentName i, v) \<in> set (all_resolutions f before) \<longleftrightarrow>
      (\<exists>a. fmlookup (ef_attachments f) i = Some a \<and> v = VText (Some (att_name a)))"
    "(FAttachmentBlob i, v) \<in> set (all_resolutions f before) \<longleftrightarrow>
      (\<exists>a. fmlookup (ef_attachments f) i = Some a \<and> v = VBlob (att_blob a))"
    using wf(2) [of i] by (auto simp: simps)
  show "(field, v) \<in> set (all_resolutions f before) \<longleftrightarrow> v = u" if "plain_value f field = Some u"
    using that by (cases field) (auto simp: simps)
qed

lemma all_resolutions_functional:
  assumes "fields_wf f" and "(field, v) \<in> set (all_resolutions f before)" and "(field, v') \<in> set (all_resolutions f before)"
  shows "v' = v"
proof (cases "plain_value f field")
  case None
  then show ?thesis using assms(2,3) by (cases field) (auto simp: all_resolutions_iff [OF assms(1)])
next
  case (Some u)
  then show ?thesis using assms(2,3) by (simp add: all_resolutions_iff(7) [OF assms(1)])
qed

lemma resolution_written:
  "fields_wf f \<Longrightarrow> (field, v) \<in> set (all_resolutions f before)
     \<Longrightarrow> write_all regs (all_resolutions f before) field = Some v"
  by (rule write_all_hit) (auto dest: all_resolutions_functional)

lemma all_resolutions_shows:
  assumes wf: "fields_wf f" and r: "reads rd regs (es_values before)"
  shows "shows_form (write_all regs (all_resolutions f before)) f"
proof -
  let ?ws = "all_resolutions f before"
  note iff = all_resolutions_iff [OF wf, where before = before] and put = resolution_written [OF wf, where before = before]
  have p: "write_all regs ?ws (FAttributePresence i) = Some (VPresence True) \<longleftrightarrow> bt_contains (ef_attributes f) i" for i
  proof (cases "i \<in> set (attribute_presences (es_values before)) \<or> bt_contains (ef_attributes f) i")
    case True
    then show ?thesis using put iff(1) by simp
  next
    case False
    then have "write_all regs ?ws (FAttributePresence i) = regs (FAttributePresence i)"
      by (intro write_all_miss) (simp add: iff(1))
    then show ?thesis using False reads_fields(2) [OF r, of i] by (auto simp: set_attribute_presences)
  qed
  have q: "write_all regs ?ws (FAttachmentPresence i) = Some (VPresence True) \<longleftrightarrow> bt_contains (ef_attachments f) i" for i
  proof (cases "i \<in> set (attachment_presences (es_values before)) \<or> bt_contains (ef_attachments f) i")
    case True
    then show ?thesis using put iff(4) by simp
  next
    case False
    then have "write_all regs ?ws (FAttachmentPresence i) = regs (FAttachmentPresence i)"
      by (intro write_all_miss) (simp add: iff(4))
    then show ?thesis using False reads_fields(3) [OF r, of i] by (auto simp: set_attachment_presences)
  qed
  have "write_all regs ?ws field = Some v" if "(field, v) \<in> set (form_fields f)" for field v
    using that by (intro put) (simp add: all_resolutions_def)
  moreover have "attr_id a = i \<and> write_all regs ?ws (FAttributeName i) = Some (VText (Some (attr_name a)))
      \<and> write_all regs ?ws (FAttributeValue i) = Some (VAttribute (attr_value a))"
    if "fmlookup (ef_attributes f) i = Some a" for i a
    using that wf_identities(1) [OF wf that] put iff(2,3) by simp
  moreover have "att_id a = i \<and> write_all regs ?ws (FAttachmentName i) = Some (VText (Some (att_name a)))
      \<and> write_all regs ?ws (FAttachmentBlob i) = Some (VBlob (att_blob a))"
    if "fmlookup (ef_attachments f) i = Some a" for i a
    using that wf_identities(2) [OF wf that] put iff(5,6) by simp
  ultimately show ?thesis unfolding shows_form_def using p q by blast
qed

lemma plain_value_valid:
  "ef_title f \<noteq> [] \<Longrightarrow> plain_value f field = Some v \<Longrightarrow> validate_field field v = Ok ()"
  by (cases field) (auto simp: validate_field_def)

lemma all_resolutions_valid:
  assumes wf: "fields_wf f"
  shows "valid_writes (all_resolutions f before)"
proof -
  have "validate_field field v = Ok ()" if "(field, v) \<in> set (all_resolutions f before)" for field v
  proof (cases "plain_value f field")
    case None
    then show ?thesis
      using that wf by (cases field)
        (auto simp: all_resolutions_iff [OF wf] validate_field_def fields_wf_def fmpred_iff)
  next
    case (Some u)
    then show ?thesis using that wf plain_value_valid [of f field u]
      by (simp add: all_resolutions_iff(7) [OF wf] fields_wf_def)
  qed
  then show ?thesis by auto
qed

lemma check_resolutions_Ok: "check_resolutions ws = Ok () \<longleftrightarrow> distinct (map fst ws) \<and> valid_writes ws"
proof -
  have "(\<exists>s. foldR (\<lambda>seen (field, v). if field \<in> set seen then Err InvalidContext
         else bindR (validate_field field v) (\<lambda>_. Ok (field # seen))) seen ws = Ok s)
      \<longleftrightarrow> distinct (map fst ws) \<and> fst ` set ws \<inter> set seen = {} \<and> valid_writes ws" for seen
  proof (induction ws arbitrary: seen)
    case (Cons w ws)
    obtain field v where w: "w = (field, v)" by fastforce
    show ?case
      using Cons.IH [of "field # seen"] by (cases "field \<in> set seen") (auto simp: w)
  qed simp
  then show ?thesis by (simp add: check_resolutions_def)
qed

lemma map_ids_bt_values:
  assumes "\<And>k a. fmlookup m k = Some a \<Longrightarrow> ident a = k"
  shows "map ident (bt_values m) = bt_keys m"
proof -
  have "map (ident \<circ> snd) (bt_iter m) = map fst (bt_iter m)"
    by (rule map_cong [OF refl]) (use assms in auto)
  then show ?thesis by (simp add: bt_values_def)
qed

lemma distinct_owned:
  assumes "distinct (map ident vs)" and "distinct known"
    and "inj p" and "inj n" and "inj w" and "\<And>i j. p i \<noteq> n j" "\<And>i j. p i \<noteq> w j" "\<And>i j. n i \<noteq> w j"
  shows "distinct (map p known @ concat (map (\<lambda>a. (if ident a \<in> set known then [] else [p (ident a)])
           @ [n (ident a), w (ident a)]) vs))"
  using assms(1)
proof (induction vs)
  case Nil
  then show ?case using assms(2,3) by (simp add: distinct_map inj_on_subset [of p UNIV])
next
  case (Cons v vs)
  have inj: "p i = p j \<longleftrightarrow> i = j" "n i = n j \<longleftrightarrow> i = j" "w i = w j \<longleftrightarrow> i = j" for i j
    using assms(3-5) by (auto dest: injD)
  have neq: "p i \<noteq> n j" "p i \<noteq> w j" "n i \<noteq> w j" "n j \<noteq> p i" "w j \<noteq> p i" "w j \<noteq> n i" for i j
    using assms(6-8) by metis+
  have "ident v \<notin> ident ` set vs" "distinct (map ident vs)" using Cons.prems by auto
  then show ?case using Cons.IH by (auto simp: inj neq image_iff)
qed

lemma distinct_three:
  "distinct xs \<Longrightarrow> distinct ys \<Longrightarrow> distinct zs \<Longrightarrow> (\<And>x. x \<in> set xs \<Longrightarrow> x \<in> P)
    \<Longrightarrow> (\<And>x. x \<in> set ys \<Longrightarrow> x \<notin> P) \<Longrightarrow> (\<And>x. x \<in> set zs \<Longrightarrow> x \<notin> P \<and> x \<notin> set ys)
    \<Longrightarrow> distinct (xs @ ys @ zs)"
  by auto

lemma all_resolutions_distinct:
  assumes wf: "fields_wf f" and "distinct (attribute_presences (es_values before))"
    and "distinct (attachment_presences (es_values before))"
  shows "distinct (map fst (all_resolutions f before))"
proof -
  let ?a = "map fst (attribute_resolutions f (es_values before))"
  let ?c = "map fst (attachment_resolutions f (es_values before))"
  have "?a = map FAttributePresence (attribute_presences (es_values before))
      @ concat (map (\<lambda>a. (if attr_id a \<in> set (attribute_presences (es_values before)) then []
            else [FAttributePresence (attr_id a)]) @ [FAttributeName (attr_id a), FAttributeValue (attr_id a)])
          (bt_values (ef_attributes f)))"
    by (simp add: attribute_resolutions_def Let_def map_concat comp_def if_distrib [of "map fst"] cong: if_cong)
  moreover have "distinct \<dots>"
    by (rule distinct_owned) (use assms(2) wf_identities(1) [OF wf] in \<open>auto simp: map_ids_bt_values inj_def\<close>)
  ultimately have a: "distinct ?a" by (simp only:)
  have "?c = map FAttachmentPresence (attachment_presences (es_values before))
      @ concat (map (\<lambda>a. (if att_id a \<in> set (attachment_presences (es_values before)) then []
            else [FAttachmentPresence (att_id a)]) @ [FAttachmentName (att_id a), FAttachmentBlob (att_id a)])
          (bt_values (ef_attachments f)))"
    by (simp add: attachment_resolutions_def Let_def map_concat comp_def if_distrib [of "map fst"] cong: if_cong)
  moreover have "distinct \<dots>"
    by (rule distinct_owned) (use assms(3) wf_identities(2) [OF wf] in \<open>auto simp: map_ids_bt_values inj_def\<close>)
  ultimately have c: "distinct ?c" by (simp only:)
  have p: "x \<in> set PLAIN_FIELDS" if "x \<in> set (map fst (form_fields f))" for x
    using that unfolding plain_value_dom [of _ f] by (auto simp: form_fields_iff)
  have q: "x \<notin> set PLAIN_FIELDS" if "x \<in> set ?a" for x
    using that by (auto simp: attribute_resolutions_iff PLAIN_FIELDS_def)
  have r: "x \<notin> set PLAIN_FIELDS \<and> x \<notin> set ?a" if "x \<in> set ?c" for x
    using that by (auto simp: attribute_resolutions_iff attachment_resolutions_iff PLAIN_FIELDS_def)
  show ?thesis unfolding all_resolutions_def map_append
    by (rule distinct_three [OF distinct_form_fields a c p q r])
qed

subsection \<open>A concrete entry\<close>

definition demo_form :: entry_fields where
  "demo_form = entry_fields_default\<lparr>ef_title := ''T'',
     ef_attributes := fmap_of_list [(''x'', \<lparr>attr_id = ''x'', attr_name = ''N'',
        attr_value = \<lparr>av_value = ''v'', av_protected = True\<rparr>\<rparr>)]\<rparr>"

definition demo_writes :: "field_write list" where
  "demo_writes = form_fields demo_form @ [(FAttributeName ''x'', VText (Some ''N'')),
     (FAttributeValue ''x'', VAttribute \<lparr>av_value = ''v'', av_protected = True\<rparr>),
     (FAttributePresence ''x'', VPresence True)]"

definition lone_state :: "field_write \<Rightarrow> field_state" where
  "lone_state w = \<lparr>fs_field = fst w, fs_variants = [\<lparr>vv_value = snd w, vv_origins = [''7@aa'']\<rparr>]\<rparr>"

lemma lone_selected: "selected_variant demo (lone_state w) = Ok \<lparr>vv_value = snd w, vv_origins = [''7@aa'']\<rparr>"
proof -
  have "operation_rank demo ''7@aa'' = Ok 7"
    by (simp add: operation_rank_def parse_u64_def digits_value_def U64_MAX_def demo_def)
  then show ?thesis
    by (simp add: lone_state_def selected_variant_def consider_variant_def variant_rank_def Let_def)
qed

lemma demo_form_valid: "fields_validate demo_form = Ok ()"
  by code_simp

lemma demo_apply: "apply_form demo 12 None demo_form = Ok demo_writes"
  by code_simp

lemma demo_writes_reg:
  "write_all Map.empty demo_writes field =
     (if field \<in> set PLAIN_FIELDS then plain_value demo_form field
      else map_of [(FAttributeName ''x'', VText (Some ''N'')),
        (FAttributeValue ''x'', VAttribute \<lparr>av_value = ''v'', av_protected = True\<rparr>),
        (FAttributePresence ''x'', VPresence True)] field)"
  by (cases field) (simp_all add: demo_writes_def form_fields_def PLAIN_FIELDS_def)

lemma demo_reads:
  assumes "set demo_writes \<subseteq> set ws" and "\<And>field v. (field, v) \<in> set ws \<Longrightarrow> write_all Map.empty demo_writes field = Some v"
  shows "reads demo (write_all Map.empty demo_writes) (map lone_state ws)"
proof -
  have f: "fs_field (lone_state w) = fst w" for w by (simp add: lone_state_def)
  have fields: "fst ` set demo_writes \<subseteq> fs_field ` set (map lone_state ws)"
    using assms(1) by (auto simp: f image_image)
  have "set PLAIN_FIELDS \<subseteq> fst ` set demo_writes"
    by (simp add: demo_writes_def form_fields_def PLAIN_FIELDS_def)
  moreover have "{FAttributePresence ''x'', FAttributeName ''x'', FAttributeValue ''x''} \<subseteq> fst ` set demo_writes"
    by (simp add: demo_writes_def)
  ultimately have cover: "set PLAIN_FIELDS \<subseteq> fs_field ` set (map lone_state ws)"
    "{FAttributePresence ''x'', FAttributeName ''x'', FAttributeValue ''x''} \<subseteq> fs_field ` set (map lone_state ws)"
    using fields by (meson subset_trans)+
  show ?thesis unfolding reads_def
  proof (intro conjI allI impI ballI)
    fix st
    assume "st \<in> set (map lone_state ws)"
    then obtain field v where st: "st = lone_state (field, v)" "(field, v) \<in> set ws" by auto
    then show "\<exists>v. selected_variant demo st = Ok v \<and> write_all Map.empty demo_writes (fs_field st) = Some (vv_value v)"
      using assms(2) [OF st(2)] by (simp add: lone_selected f)
  next
    fix i
    assume "write_all Map.empty demo_writes (FAttributePresence i) = Some (VPresence True)"
    then have "i = ''x''" by (simp add: demo_writes_reg PLAIN_FIELDS_def split: if_splits)
    then show "{FAttributePresence i, FAttributeName i, FAttributeValue i} \<subseteq> fs_field ` set (map lone_state ws)"
      using cover(2) by (simp only:)
  next
    fix i
    assume "write_all Map.empty demo_writes (FAttachmentPresence i) = Some (VPresence True)"
    then show "{FAttachmentPresence i, FAttachmentName i, FAttachmentBlob i} \<subseteq> fs_field ` set (map lone_state ws)"
      by (simp add: demo_writes_reg PLAIN_FIELDS_def)
  qed (rule cover(1))
qed

lemma demo_reads_own: "reads demo (write_all Map.empty demo_writes) (map lone_state demo_writes)"
proof (rule demo_reads)
  fix field v
  assume "(field, v) \<in> set demo_writes"
  then show "write_all Map.empty demo_writes field = Some v"
    by (intro write_all_hit) (auto simp: demo_writes_def form_fields_iff)
qed simp

theorem save_roundtrip_witness:
  "\<exists>ws. apply_form demo 12 None demo_form = Ok ws \<and> project_fields demo (map lone_state ws) = Ok demo_form"
proof -
  have "project_fields demo (map lone_state demo_writes) = Ok demo_form"
    by (rule save_roundtrip [OF demo_apply demo_form_valid _ _ demo_reads_own])
      (simp_all add: shows_original_def typed_def)
  then show ?thesis using demo_apply by blast
qed

text \<open>
  A restoration is never refused by its own checks and puts the entry back exactly. For
  a valid saved form and any current state with one presence register per attribute and
  attachment, the resolutions name no field twice and are all valid, and after writing them
  every reader projects the restored form, also when attributes were added or removed since.
\<close>

theorem restore_roundtrip:
  assumes "fields_validate f = Ok ()" and "distinct (map fs_field (es_values before))"
    and "typed regs" and "reads rd regs (es_values before)"
    and "reads rd' (write_all regs (all_resolutions f before)) states"
  shows "check_resolutions (all_resolutions f before) = Ok () \<and> project_fields rd' states = Ok f"
proof
  have wf: "fields_wf f" using assms(1) by (simp only: fields_valid)
  have d: "distinct (List.map_filter g xs)"
    if "distinct (map fs_field xs)" "\<And>x i. g x = Some i \<Longrightarrow> fs_field x = mk i" for g :: "field_state \<Rightarrow> string option" and xs mk
  proof -
    have "map mk (List.map_filter g xs) = map fs_field (filter (\<lambda>x. g x \<noteq> None) xs)"
      using that(2) by (induction xs) (auto simp: map_filter_simps)
    then have "distinct (map mk (List.map_filter g xs))" using that(1) by (simp add: distinct_map_filter)
    then show ?thesis by (simp only: distinct_map)
  qed
  have "distinct (attribute_presences (es_values before))" "distinct (attachment_presences (es_values before))"
    unfolding attribute_presences_def attachment_presences_def
    by (rule d [OF assms(2)], simp split: entry_field.splits)+
  then show "check_resolutions (all_resolutions f before) = Ok ()"
    unfolding check_resolutions_Ok using all_resolutions_distinct [OF wf, of before] all_resolutions_valid [OF wf] by blast
  show "project_fields rd' states = Ok f"
    by (rule project_shown [OF write_all_typed [OF assms(3) all_resolutions_valid [OF wf]] assms(5)
        all_resolutions_shows [OF wf assms(4)]])
qed

definition demo_before :: entry_snapshot where
  "demo_before = \<lparr>es_id = ''e'', es_group_id = ''a'', es_generation = ''e'', es_placements = [GroupRef ''a'' ''a''],
     es_placement = GroupRef ''a'' ''a'', es_placement_alternatives = [GroupRef ''a'' ''a''], es_fields = None,
     es_conflicts = [], es_values = map lone_state demo_writes, es_created_at = 1, es_modified_at = 1\<rparr>"

definition demo_old_form :: entry_fields where
  "demo_old_form = entry_fields_default\<lparr>ef_title := ''Before''\<rparr>"

lemma demo_resolutions:
  "all_resolutions demo_old_form demo_before = form_fields demo_old_form @ [(FAttributePresence ''x'', VPresence False)]"
  by code_simp

lemma demo_restored_reg:
  "write_all (write_all Map.empty demo_writes) (all_resolutions demo_old_form demo_before) field =
     (if field \<in> set PLAIN_FIELDS then plain_value demo_old_form field
      else if field = FAttributePresence ''x'' then Some (VPresence False)
      else write_all Map.empty demo_writes field)"
  by (cases field) (simp_all add: demo_resolutions form_fields_def PLAIN_FIELDS_def)

lemma demo_reads_restored:
  "reads demo (write_all (write_all Map.empty demo_writes) (all_resolutions demo_old_form demo_before))
     (map lone_state (all_resolutions demo_old_form demo_before))"
  unfolding reads_def
proof (intro conjI allI impI ballI)
  fix st
  assume "st \<in> set (map lone_state (all_resolutions demo_old_form demo_before))"
  then obtain field v where st: "st = lone_state (field, v)" "(field, v) \<in> set (all_resolutions demo_old_form demo_before)"
    by auto
  have "write_all (write_all Map.empty demo_writes) (all_resolutions demo_old_form demo_before) field = Some v"
    by (rule resolution_written [OF _ st(2)]) (simp add: fields_wf_def demo_old_form_def entry_fields_default_def)
  then show "\<exists>v. selected_variant demo st = Ok v
      \<and> write_all (write_all Map.empty demo_writes) (all_resolutions demo_old_form demo_before) (fs_field st) = Some (vv_value v)"
    unfolding st(1) lone_selected by (simp add: lone_state_def)
next
  show "set PLAIN_FIELDS \<subseteq> fs_field ` set (map lone_state (all_resolutions demo_old_form demo_before))"
    by (simp add: demo_resolutions form_fields_def PLAIN_FIELDS_def lone_state_def)
qed (simp_all add: demo_restored_reg demo_writes_reg PLAIN_FIELDS_def split: if_splits)

theorem restore_roundtrip_witness:
  "check_resolutions (all_resolutions demo_old_form demo_before) = Ok ()
    \<and> project_fields demo (map lone_state (all_resolutions demo_old_form demo_before)) = Ok demo_old_form"
proof (rule restore_roundtrip [OF _ _ _ _ demo_reads_restored])
  show "fields_validate demo_old_form = Ok ()" by code_simp
  show "distinct (map fs_field (es_values demo_before))" by code_simp
  show "reads demo (write_all Map.empty demo_writes) (es_values demo_before)"
    using demo_reads_own by (simp add: demo_before_def)
  show "typed (write_all Map.empty demo_writes)"
    by (rule write_all_typed) (simp add: typed_def, code_simp)
qed

end
