(* ===== verification/Doc_Lifecycle.thy ===== *)
theory Doc_Lifecycle
  imports Doc_Groups Doc_Entries
begin

text \<open>
  Product availability and history of a document: the read side of
  \<open>crates/taypeer-document/src/lifecycle/mod.rs\<close>, \<open>history.rs\<close>, \<open>metadata.rs\<close> and the
  queries of \<open>lib.rs\<close>. A document is its identity, its name and the readable state of its
  Automerge replica with the current causal heads; the change history itself (hashes,
  forks at earlier heads) is the parameter record \<open>changes\<close>.
\<close>

record ('o, 'v, 'f) document =
  dc_database_id :: database_id
  dc_name :: string
  dc_read :: "('o, 'v, 'f) reader"
  dc_heads :: "string list"

record ('o, 'v, 'f, 'h) changes =
  ch_parse :: "string \<Rightarrow> 'h option"
  ch_show :: "'h \<Rightarrow> string"
  ch_known :: "'h \<Rightarrow> bool"
  ch_fork_at :: "'h list \<Rightarrow> (('o, 'v, 'f) reader \<times> string list) option"
  ch_of_operation :: "'o \<Rightarrow> 'h option"
  ch_actor :: "'h \<Rightarrow> string option"

subsection \<open>Status\<close>

text \<open>One stored destination of an entry, seen against the group tree.\<close>

definition weigh_placement ::
  "'f group_node list \<Rightarrow> group_ref \<Rightarrow> object_status \<times> bool \<Rightarrow> group_ref \<Rightarrow> object_status \<times> bool" where
  "weigh_placement nodes selected = (\<lambda>(status, conflict) placement.
     let closed = (if selected = placement then (if status = Active then Unplaced else status, True)
                   else (status, conflict))
     in case find (\<lambda>n. gn_address n = group_address placement) nodes of
          Some parent \<Rightarrow>
            if gn_status parent = Trashed then (Trashed, conflict)
            else if gn_status parent = Active \<and> gn_current parent \<and> \<not> gn_placement_conflict parent
            then (status, conflict)
            else closed
        | None \<Rightarrow> closed)"

definition object_status_with_times ::
  "('o::linorder, 'v, 'f) reader \<Rightarrow> object_address \<Rightarrow> saved_operation_times option
     \<Rightarrow> doc_error + object_status \<times> bool" where
  "object_status_with_times rd a stamps =
     bindR (tree rd) (\<lambda>nodes.
     if is_group (addr_object a)
     then bindR (ok_or (find (\<lambda>n. gn_address n = a) nodes) NotFound) (\<lambda>n. Ok (gn_status n, gn_conflicted n))
     else
     bindR (own_status rd a) (\<lambda>(status, conflict).
     if status = Purged then Ok (status, conflict)
     else
     bindR (read_entry_generation_with_times rd a None stamps) (\<lambda>s.
     let conflict = (conflict \<or> has_conflicts s) in
     bindR (single rd (addr_object a)) (\<lambda>cur.
     let start = (if cur \<noteq> a then (if status = Active then Unplaced else status, True) else (status, conflict))
     in Ok (foldl (weigh_placement nodes (es_placement s)) start (es_placements s))))))"

definition object_status :: "('o::linorder, 'v, 'f) reader \<Rightarrow> object_address \<Rightarrow> doc_error + object_status \<times> bool" where
  "object_status rd a = object_status_with_times rd a None"

record object_state =
  os_address :: object_address
  os_status :: object_status
  os_conflicted :: bool

definition object_states :: "('o::linorder, 'v, 'f) reader \<Rightarrow> doc_error + object_state list" where
  "object_states rd =
     bindR (all rd) (\<lambda>addresses.
     foldR (\<lambda>result a. bindR (object_status rd a) (\<lambda>(status, conflicted).
              Ok (if status \<noteq> Purged
                  then result @ [\<lparr>os_address = a, os_status = status, os_conflicted = conflicted\<rparr>]
                  else result))) [] addresses)"

definition document_tree :: "('o::linorder, 'v, 'f) reader \<Rightarrow> doc_error + 'f group_node list" where
  "document_tree rd = bindR (tree rd) (\<lambda>nodes. Ok (filter (\<lambda>n. gn_status n \<noteq> Purged) nodes))"

definition inspect_entry :: "('o::linorder, 'v, 'f) reader \<Rightarrow> object_address \<Rightarrow> doc_error + entry_snapshot" where
  "inspect_entry rd a =
     bindR (purge rd a) (\<lambda>p. if p \<noteq> None then Err NotFound else read_entry_generation rd a None)"

definition require_active_entry :: "('o::linorder, 'v, 'f) reader \<Rightarrow> entry_id \<Rightarrow> doc_error + object_address" where
  "require_active_entry rd e =
     bindR (single rd (EntryObj e)) (\<lambda>a.
     bindR (object_status rd a) (\<lambda>(status, _).
     if status \<noteq> Active then Err Conflict else Ok a))"

definition require_group :: "'f::linorder fi_lib \<Rightarrow> ('o::linorder, 'v, 'f) reader \<Rightarrow> group_id \<Rightarrow> doc_error + unit" where
  "require_group L rd g =
     bindR (read_groups L rd) (\<lambda>groups. if list_ex (\<lambda>x. g_id x = g) groups then Ok () else Err NotFound)"

definition destination ::
  "'f::linorder fi_lib \<Rightarrow> ('o::linorder, 'v, 'f) reader \<Rightarrow> group_id option \<Rightarrow> doc_error + group_ref option" where
  "destination L rd g =
     (case g of
        None \<Rightarrow> Ok None
      | Some i \<Rightarrow>
          bindR (require_group L rd i) (\<lambda>_.
          bindR (single rd (GroupObj i)) (\<lambda>a.
          bindR (address_group_ref a) (\<lambda>r. Ok (Some r)))))"

subsection \<open>Exact selection\<close>

text \<open>
  The groups below a root through any placement alternative, grown round by round, then the
  entries placed in one of them.
\<close>

definition placed_in :: "object_address fset \<Rightarrow> 'f group_node \<Rightarrow> bool" where
  "placed_in selected n = list_ex (\<lambda>p. case parent_address p of None \<Rightarrow> False | Some a \<Rightarrow> a |\<in>| selected) (gn_placements n)"

definition grow :: "'f group_node list \<Rightarrow> object_address fset \<Rightarrow> object_address fset" where
  "grow nodes selected =
     foldl (\<lambda>selected n. if gn_status n \<noteq> Purged \<and> placed_in selected n
              then finsert (gn_address n) selected else selected) selected nodes"

definition grow_round :: "'f group_node list \<Rightarrow> object_address fset \<Rightarrow> object_address fset \<times> bool" where
  "grow_round nodes selected =
     (let grown = grow nodes selected in (grown, fcard grown \<noteq> fcard selected))"

lemma grow_bounds: "selected |\<subseteq>| grow nodes selected \<and> fset (grow nodes selected) \<subseteq> fset selected \<union> gn_address ` set nodes"
proof (induction nodes arbitrary: selected)
  case (Cons n nodes)
  show ?case
    using Cons [of selected] Cons [of "finsert (gn_address n) selected"] by (auto simp: grow_def)
qed (simp add: grow_def)

lemma grow_weight:
  assumes "fcard (grow nodes selected) \<noteq> fcard selected"
  shows "card (gn_address ` set nodes - fset (grow nodes selected)) < card (gn_address ` set nodes - fset selected)"
proof -
  let ?g = "grow nodes selected"
  have "?g \<noteq> selected" using assms by auto
  then obtain a where "a |\<in>| ?g" "a |\<notin>| selected" using grow_bounds [of selected nodes] by blast
  moreover have "fset ?g \<subseteq> fset selected \<union> gn_address ` set nodes" "fset selected \<subseteq> fset ?g"
    using grow_bounds [of selected nodes] by (auto simp: less_eq_fset.rep_eq)
  ultimately show ?thesis by (intro psubset_card_mono) auto
qed

function grow_all :: "'f group_node list \<Rightarrow> object_address fset \<Rightarrow> object_address fset" where
  "grow_all nodes selected =
     (let (grown, changed) = grow_round nodes selected in if changed then grow_all nodes grown else grown)"
  by pat_completeness auto
termination
  by (relation "measure (\<lambda>(nodes, selected). card (gn_address ` set nodes - fset selected))")
    (auto simp: grow_round_def Let_def grow_weight)

declare grow_all.simps [simp del]

definition selected_subtree ::
  "('o::linorder, 'v, 'f) reader \<Rightarrow> object_address \<Rightarrow> doc_error + object_address fset" where
  "selected_subtree rd start =
     bindR (generation_object rd start) (\<lambda>_.
     if \<not> is_group (addr_object start) then Ok {|start|}
     else
     bindR (tree rd) (\<lambda>nodes.
     let selected = grow_all nodes {|start|} in
     bindR (all rd) (\<lambda>addresses.
     foldR (\<lambda>selected a.
         if is_group (addr_object a) then Ok selected
         else bindR (purge rd a) (\<lambda>p.
              if p \<noteq> None then Ok selected
              else bindR (read_entry_generation rd a None) (\<lambda>s.
                   Ok (if list_ex (\<lambda>g. group_address g |\<in>| selected) (es_placements s)
                       then finsert a selected else selected))))
       selected addresses)))"

subsection \<open>Earlier states (\<open>at_heads\<close>)\<close>

definition parse_heads :: "('o, 'v, 'f, 'h) changes \<Rightarrow> string list \<Rightarrow> doc_error + 'h list" where
  "parse_heads H heads =
     bindR (mapR (\<lambda>h. ok_or (ch_parse H h) InvalidContext) heads) (\<lambda>hashes.
     if hashes = [] \<or> list_ex (\<lambda>h. \<not> ch_known H h) hashes then Err InvalidContext else Ok hashes)"

definition at_heads ::
  "('o, 'v, 'f, 'h) changes \<Rightarrow> ('o, 'v, 'f) document \<Rightarrow> string list \<Rightarrow> doc_error + ('o, 'v, 'f) document" where
  "at_heads H doc heads =
     bindR (parse_heads H heads) (\<lambda>hashes.
     bindR (ok_or (ch_fork_at H hashes) InvalidDocument) (\<lambda>(rd, forked).
     Ok (doc\<lparr>dc_read := rd, dc_heads := forked\<rparr>)))"

definition reviewed_group_destination ::
  "'f::linorder fi_lib \<Rightarrow> ('o::linorder, 'v, 'f) document \<Rightarrow> ('o, 'v, 'f) document \<Rightarrow> object_address \<Rightarrow> group_id option
     \<Rightarrow> doc_error + group_ref option" where
  "reviewed_group_destination L doc basis a parent =
     bindR (purge (dc_read doc) a) (\<lambda>p.
     if p \<noteq> None then Err NotFound
     else
     bindR (object_status (dc_read doc) a) (\<lambda>(status, _).
     bindR (if status = Trashed then Ok True
            else bindR (single (dc_read doc) (addr_object a)) (\<lambda>cur. Ok (cur \<noteq> a))) (\<lambda>closed.
     if closed then Err InvalidContext
     else
     bindR (destination L (dc_read doc) parent) (\<lambda>dest.
     bindR (selected_subtree (dc_read basis) a) (\<lambda>subtree.
     bindR (if (case dest of None \<Rightarrow> False | Some g \<Rightarrow> group_address g |\<in>| subtree) then Ok True
            else bindR (destination L (dc_read basis) parent) (\<lambda>d. Ok (d \<noteq> dest))) (\<lambda>stale.
     if stale then Err InvalidContext else Ok dest))))))"

subsection \<open>Preparing a transition\<close>

datatype lifecycle_action = ActTrash | ActRestore | ActPurge

record prepared_lifecycle =
  pl_database :: database_id
  pl_heads :: "string list"
  pl_action :: lifecycle_action
  pl_target :: object_id
  pl_destination :: "group_ref option"
  pl_affected :: "(object_address, string fset) fmap"

definition prepare_affected ::
  "('o::linorder, 'v, 'f) reader \<Rightarrow> lifecycle_action \<Rightarrow> (object_address, string fset) fmap \<Rightarrow> object_address
     \<Rightarrow> doc_error + (object_address, string fset) fmap" where
  "prepare_affected rd action affected a =
     bindR (object_status rd a) (\<lambda>(status, _).
     if status = Purged then Err NotFound
     else if (action = ActRestore \<or> action = ActPurge) \<and> status \<noteq> Trashed then Err InvalidContext
     else bindR (events rd a) (\<lambda>es. Ok (fmupd a es affected)))"

definition prepare_lifecycle ::
  "'f::linorder fi_lib \<Rightarrow> ('o::linorder, 'v, 'f) document \<Rightarrow> lifecycle_action \<Rightarrow> object_id \<Rightarrow> group_id option
     \<Rightarrow> doc_error + prepared_lifecycle" where
  "prepare_lifecycle L doc action target dest =
     (let rd = dc_read doc in
      bindR (single rd target) (\<lambda>a.
      if action = ActRestore \<and> \<not> is_group target \<and> dest = None then Err InvalidContext
      else
      bindR (if action = ActRestore then destination L rd dest
             else if dest \<noteq> None then Err InvalidContext else Ok None) (\<lambda>dest.
      bindR (selected_subtree rd a) (\<lambda>subtree.
      bindR (foldR (prepare_affected rd action) fmempty (sorted_list_of_fset subtree)) (\<lambda>affected.
      if (case dest of None \<Rightarrow> False | Some p \<Rightarrow> bt_contains affected (group_address p)) then Err InvalidContext
      else Ok \<lparr>pl_database = dc_database_id doc, pl_heads = dc_heads doc, pl_action = action,
                pl_target = target, pl_destination = dest, pl_affected = affected\<rparr>)))))"

text \<open>
  The guards of \<open>confirm_lifecycle\<close>: a prepared selection is confirmed only if preparing it
  again at its own heads gives the same selection, its destination is still current and no
  affected object has been closed since.
\<close>

definition confirm_guard ::
  "'f::linorder fi_lib \<Rightarrow> ('o::linorder, 'v, 'f, 'h) changes \<Rightarrow> ('o, 'v, 'f) document \<Rightarrow> prepared_lifecycle
     \<Rightarrow> doc_error + ('o, 'v, 'f) document" where
  "confirm_guard L H doc prepared =
     (if pl_database prepared \<noteq> dc_database_id doc then Err InvalidContext
      else
      bindR (at_heads H doc (pl_heads prepared)) (\<lambda>basis.
      bindR (prepare_lifecycle L basis (pl_action prepared) (pl_target prepared)
               (map_option gr_id (pl_destination prepared))) (\<lambda>expected.
      if expected \<noteq> prepared then Err InvalidContext
      else
      bindR (case pl_destination prepared of
               None \<Rightarrow> Ok False
             | Some d \<Rightarrow> bindR (destination L (dc_read doc) (Some (gr_id d))) (\<lambda>now. Ok (now \<noteq> Some d))) (\<lambda>stale.
      if stale then Err InvalidContext
      else
      bindR (each (\<lambda>a. bindR (object_status (dc_read doc) a) (\<lambda>(status, _).
               if status = Purged then Err NotFound
               else if pl_action prepared = ActPurge \<and> status \<noteq> Trashed then Err Conflict
               else Ok ())) (bt_keys (pl_affected prepared))) (\<lambda>_.
      Ok basis)))))"

subsection \<open>Queries (\<open>lib.rs\<close>)\<close>

definition revision_is_purged :: "('o, 'v, 'f) reader \<Rightarrow> revision_id \<Rightarrow> doc_error + bool" where
  "revision_is_purged rd r =
     bindR (object rd (rd_root rd) ''purged_revisions'') (\<lambda>obj.
     bindR (get_all rd obj r) (\<lambda>values. Ok (values \<noteq> [])))"

text \<open>One identity of the entry list; active entries of listed groups are shown.\<close>

definition list_entry ::
  "('o::linorder, 'v, 'f) reader \<Rightarrow> saved_operation_times \<Rightarrow> 'f group list \<Rightarrow> entry_snapshot list \<Rightarrow> entry_id
     \<Rightarrow> doc_error + entry_snapshot list" where
  "list_entry rd m gs result key =
     bindR (single rd (EntryObj key)) (\<lambda>a.
     bindR (object_status_with_times rd a (Some m)) (\<lambda>(status, _).
     if status \<noteq> Active then Ok result
     else bindR (read_entry_generation_with_times rd a None (Some m)) (\<lambda>s.
          Ok (if list_ex (\<lambda>g. g_id g = es_group_id s) gs then result @ [s] else result))))"

definition entries ::
  "'f::linorder fi_lib \<Rightarrow> ('o::linorder, 'v, 'f) reader \<Rightarrow> doc_error + entry_snapshot list" where
  "entries L rd =
     bindR (object rd (rd_root rd) ''entries'') (\<lambda>obj.
     bindR (read_groups L rd) (\<lambda>groups.
     bindR (saved_times_read rd) (\<lambda>stamps.
     foldR (list_entry rd stamps groups) [] (rd_keys rd obj))))"

definition entry :: "('o::linorder, 'v, 'f) reader \<Rightarrow> entry_id \<Rightarrow> doc_error + entry_snapshot" where
  "entry rd e =
     bindR (single rd (EntryObj e)) (\<lambda>a.
     bindR (saved_times_read rd) (\<lambda>stamps.
     bindR (object_status_with_times rd a (Some stamps)) (\<lambda>(status, _).
     if status \<noteq> Active then Err Conflict
     else read_entry_generation_with_times rd a None (Some stamps))))"

text \<open>Histories are shown by save time, then identity.\<close>

definition history :: "('o::linorder, 'v, 'f) reader \<Rightarrow> entry_id \<Rightarrow> doc_error + saved_revision list" where
  "history rd e =
     bindR (single rd (EntryObj e)) (\<lambda>a.
     bindR (purge rd a) (\<lambda>p.
     if p \<noteq> None then Err NotFound
     else
     bindR (stored_revisions rd e) (\<lambda>stored.
     bindR (foldR (\<lambda>result s.
         bindR (revision_is_purged rd (sr_id (st_revision s))) (\<lambda>hidden.
         if hidden then Ok result
         else bindR (purge rd (ObjectAddress (EntryObj e) (es_generation (sr_snapshot (st_revision s))))) (\<lambda>p.
              Ok (if p = None then result @ [st_revision s] else result))))
       [] stored) (\<lambda>revisions.
     Ok (sort_key (\<lambda>r. (sr_saved_at r, sr_id r)) revisions)))))"

end
