(* ===== verification/Doc_History.thy ===== *)
theory Doc_History
  imports Doc_Lifecycle
begin

text \<open>
  Saved descriptive states and metadata of groups and databases (\<open>history.rs\<close>,
  \<open>metadata.rs\<close>): texts and names as shown, the values an update confirms, the
  destinations a group form offers and the retained revisions.
\<close>

subsection \<open>Descriptive text (\<open>metadata.rs\<close>)\<close>

definition optional_text :: "('o::linorder, 'v, 'f) reader \<Rightarrow> 'o \<Rightarrow> string \<Rightarrow> doc_error + string option" where
  "optional_text rd obj key =
     bindR (get_all rd obj key) (\<lambda>values.
     case max_by snd values of
       None \<Rightarrow> Ok None
     | Some (value, _) \<Rightarrow>
         if key = ''display_name'' then bindR (ok_or (v_str rd value) InvalidDocument) (\<lambda>t. Ok (Some t))
         else decode rd (js_text rd) value)"

definition description :: "('o::linorder, 'v, 'f) document \<Rightarrow> doc_error + string option" where
  "description doc = optional_text (dc_read doc) (rd_root (dc_read doc)) ''description''"

definition display_name :: "('o::linorder, 'v, 'f) document \<Rightarrow> doc_error + string" where
  "display_name doc =
     bindR (optional_text (dc_read doc) (rd_root (dc_read doc)) ''display_name'') (\<lambda>name.
     Ok (case name of None \<Rightarrow> dc_name doc | Some n \<Rightarrow> n))"

definition group_description ::
  "'f::linorder fi_lib \<Rightarrow> ('o::linorder, 'v, 'f) document \<Rightarrow> group_id \<Rightarrow> doc_error + string option" where
  "group_description L doc g =
     bindR (require_group L (dc_read doc) g) (\<lambda>_.
     bindR (single (dc_read doc) (GroupObj g)) (\<lambda>a.
     bindR (generation_object (dc_read doc) a) (\<lambda>obj.
     optional_text (dc_read doc) obj ''description'')))"

definition validate_name_update :: "string field_update \<Rightarrow> doc_error + unit" where
  "validate_name_update u =
     (case u of
        Keep \<Rightarrow> Ok ()
      | Set name \<Rightarrow> map_errR Validation (validate_group_name name)
      | Clear \<Rightarrow> Err (Validation EmptyGroupName))"

definition changed_name :: "string field_update \<Rightarrow> string \<Rightarrow> string option" where
  "changed_name u original =
     (case u of Set name \<Rightarrow> if name \<noteq> original then Some name else None | _ \<Rightarrow> None)"

definition changed_optional :: "string field_update \<Rightarrow> string option \<Rightarrow> string option option" where
  "changed_optional u original =
     (case u of
        Keep \<Rightarrow> None
      | Set v \<Rightarrow> if original \<noteq> Some v then Some (Some v) else None
      | Clear \<Rightarrow> if original \<noteq> None then Some None else None)"

definition confirmed_name :: "string field_update \<Rightarrow> string \<Rightarrow> revision_kind \<Rightarrow> string option" where
  "confirmed_name u original kind =
     (if kind = RRestore then (case u of Set v \<Rightarrow> Some v | _ \<Rightarrow> None) else changed_name u original)"

definition confirmed_optional ::
  "string field_update \<Rightarrow> string option \<Rightarrow> revision_kind \<Rightarrow> string option option" where
  "confirmed_optional u original kind =
     (if kind = RRestore
      then (case u of Set v \<Rightarrow> Some (Some v) | Clear \<Rightarrow> Some None | Keep \<Rightarrow> None)
      else changed_optional u original)"

definition optional_patch :: "string option \<Rightarrow> string option \<Rightarrow> string field_update" where
  "optional_patch original supplied =
     (if original = supplied then Keep else case supplied of None \<Rightarrow> Clear | Some v \<Rightarrow> Set v)"

definition confirmed_icon :: "icon_ref field_update \<Rightarrow> icon_ref \<Rightarrow> revision_kind \<Rightarrow> icon_ref option" where
  "confirmed_icon u original kind =
     (case u of
        Keep \<Rightarrow> None
      | Set icon \<Rightarrow> if icon \<noteq> original \<or> kind = RRestore then Some icon else None
      | Clear \<Rightarrow> if original \<noteq> IconDefault \<or> kind = RRestore then Some IconDefault else None)"

definition confirmed_parent :: "group_id field_update \<Rightarrow> group_ref option \<Rightarrow> group_id option option" where
  "confirmed_parent u original =
     (case u of
        Keep \<Rightarrow> None
      | Set p \<Rightarrow> if map_option gr_id original \<noteq> Some p then Some (Some p) else None
      | Clear \<Rightarrow> if original \<noteq> None then Some None else None)"

text \<open>Destinations offered by a group form: unchanged since its basis and outside its subtree.\<close>

definition group_parent_candidates ::
  "'f::linorder fi_lib \<Rightarrow> ('o::linorder, 'v, 'f, 'h) changes \<Rightarrow> ('o, 'v, 'f) document \<Rightarrow> group_id option \<Rightarrow> string list
     \<Rightarrow> doc_error + 'f group list" where
  "group_parent_candidates L H doc g heads =
     bindR (at_heads H doc heads) (\<lambda>basis.
     bindR (case g of
              None \<Rightarrow> Ok {||}
            | Some i \<Rightarrow> bindR (single (dc_read basis) (GroupObj i)) (selected_subtree (dc_read basis))) (\<lambda>excluded.
     bindR (read_groups L (dc_read doc)) (\<lambda>now.
     bindR (read_groups L (dc_read basis)) (\<lambda>was.
     Ok (filter (\<lambda>x. fmlookup (fmap_of_list (rev (map (\<lambda>y. (g_id y, g_generation y)) now))) (g_id x) = Some (g_generation x)
              \<and> group_address (GroupRef (g_id x) (g_generation x)) |\<notin>| excluded) was)))))"

subsection \<open>Saved group and database revisions (\<open>history.rs\<close>)\<close>

definition group_revisions :: "('o, 'v, 'f) reader \<Rightarrow> doc_error + 'f saved_group_revision list" where
  "group_revisions rd =
     bindR (object rd (rd_root rd) ''group_revisions'') (\<lambda>obj.
     mapR (\<lambda>key.
         bindR (unique rd obj key) (\<lambda>value.
         bindR (decode rd (js_group_revision rd) value) (\<lambda>r.
         if sgr_id r \<noteq> key \<or> sgr_group_id r \<noteq> g_id (gs_group (sgr_snapshot r)) then Err InvalidDocument
         else bindR (map_errR Validation (validate_group_name (g_name (gs_group (sgr_snapshot r))))) (\<lambda>_. Ok r))))
       (rd_keys rd obj))"

definition database_revisions :: "('o, 'v, 'f) reader \<Rightarrow> doc_error + saved_database_revision list" where
  "database_revisions rd =
     bindR (object rd (rd_root rd) ''database_revisions'') (\<lambda>obj.
     bindR (unique rd (rd_root rd) ''database_id'') (\<lambda>d.
     bindR (ok_or (v_str rd d) InvalidDocument) (\<lambda>database.
     mapR (\<lambda>key.
         bindR (unique rd obj key) (\<lambda>value.
         bindR (decode rd (js_database_revision rd) value) (\<lambda>r.
         if sdr_id r \<noteq> key \<or> ds_database_id (sdr_snapshot r) \<noteq> database then Err InvalidDocument
         else bindR (map_errR Validation (validate_group_name (ds_name (sdr_snapshot r)))) (\<lambda>_. Ok r))))
       (rd_keys rd obj))))"

definition validate_history :: "('o, 'v, 'f) reader \<Rightarrow> doc_error + unit" where
  "validate_history rd = bindR (group_revisions rd) (\<lambda>_. bindR (database_revisions rd) (\<lambda>_. Ok ()))"

definition group_history :: "('o, 'v, 'f) reader \<Rightarrow> group_id \<Rightarrow> doc_error + 'f saved_group_revision list" where
  "group_history rd g =
     bindR (shell rd (GroupObj g)) (\<lambda>_.
     bindR (group_revisions rd) (\<lambda>all_revisions.
     bindR (foldR (\<lambda>result r.
         if sgr_group_id r \<noteq> g then Ok result
         else bindR (revision_is_purged rd (sgr_id r)) (\<lambda>hidden.
              if hidden then Ok result
              else bindR (purge rd (ObjectAddress (GroupObj (sgr_group_id r)) (g_generation (gs_group (sgr_snapshot r))))) (\<lambda>p.
                   Ok (if p = None then result @ [r] else result))))
       [] all_revisions) (\<lambda>revisions.
     Ok (sort_key (\<lambda>r. (sgr_saved_at r, sgr_id r)) revisions))))"

definition database_history :: "('o, 'v, 'f) reader \<Rightarrow> doc_error + saved_database_revision list" where
  "database_history rd =
     bindR (database_revisions rd) (\<lambda>all_revisions.
     bindR (foldR (\<lambda>result r. bindR (revision_is_purged rd (sdr_id r)) (\<lambda>hidden.
              Ok (if hidden then result else result @ [r]))) [] all_revisions) (\<lambda>revisions.
     Ok (sort_key (\<lambda>r. (sdr_saved_at r, sdr_id r)) revisions)))"

definition group_revision :: "('o, 'v, 'f) reader \<Rightarrow> group_id \<Rightarrow> revision_id \<Rightarrow> doc_error + 'f saved_group_revision" where
  "group_revision rd g r =
     bindR (group_history rd g) (\<lambda>revisions. ok_or (find (\<lambda>x. sgr_id x = r) revisions) NotFound)"

definition database_revision :: "('o, 'v, 'f) reader \<Rightarrow> revision_id \<Rightarrow> doc_error + saved_database_revision" where
  "database_revision rd r =
     bindR (database_history rd) (\<lambda>revisions. ok_or (find (\<lambda>x. sdr_id x = r) revisions) NotFound)"

definition group_snapshot_of ::
  "'f::linorder fi_lib \<Rightarrow> ('o::linorder, 'v, 'f) document \<Rightarrow> group_id \<Rightarrow> doc_error + 'f group_snapshot" where
  "group_snapshot_of L doc g =
     bindR (require_group L (dc_read doc) g) (\<lambda>_.
     bindR (single (dc_read doc) (GroupObj g)) (\<lambda>a.
     bindR (read_group (dc_read doc) a) (\<lambda>node.
     bindR (selected_group node) (\<lambda>shown.
     bindR (group_description L doc g) (\<lambda>text.
     Ok \<lparr>gs_group = shown, gs_description = text\<rparr>)))))"

definition database_snapshot_of :: "('o::linorder, 'v, 'f) document \<Rightarrow> doc_error + database_snapshot" where
  "database_snapshot_of doc =
     bindR (display_name doc) (\<lambda>name.
     bindR (description doc) (\<lambda>text.
     Ok \<lparr>ds_database_id = dc_database_id doc, ds_name = name, ds_description = text\<rparr>))"

end
