(* ===== verification/Doc_Commands.thy ===== *)
theory Doc_Commands
  imports Doc_History Doc_Writes
begin

text \<open>
  Sibling positions (\<open>lifecycle/commands.rs\<close>), late sources of closed generations
  (\<open>lifecycle/recovery.rs\<close>), ownership of attribute and attachment identities
  (\<open>lib.rs\<close>, \<open>operations.rs\<close>, \<open>binary.rs\<close>) and the structure check of \<open>lifecycle/mod.rs\<close>.
\<close>

subsection \<open>Sibling positions\<close>

datatype sibling_position = AtFirst | AtLast | AtBefore group_id | AtAfter group_id

text \<open>\<open>siblings.iter().position(|g| &g.id == id)\<close>\<close>

definition index_of :: "'f group list \<Rightarrow> group_id \<Rightarrow> doc_error + nat" where
  "index_of siblings i =
     (let n = length (takeWhile (\<lambda>g. g_id g \<noteq> i) siblings)
      in if n < length siblings then Ok n else Err InvalidContext)"

definition siblings_of :: "'f group list \<Rightarrow> group_ref option \<Rightarrow> object_id option \<Rightarrow> 'f group list" where
  "siblings_of groups parent exclude =
     filter (\<lambda>g. g_parent g = map_option gr_id parent \<and> exclude \<noteq> Some (GroupObj (g_id g))) groups"

definition position_index :: "'f group list \<Rightarrow> sibling_position \<Rightarrow> doc_error + nat" where
  "position_index siblings p =
     (case p of
        AtFirst \<Rightarrow> Ok 0
      | AtLast \<Rightarrow> Ok (length siblings)
      | AtBefore i \<Rightarrow> index_of siblings i
      | AtAfter i \<Rightarrow> bindR (index_of siblings i) (\<lambda>n. Ok (n + 1)))"

text \<open>A group that already lies between its neighbours keeps its key.\<close>

definition slot_key ::
  "'f::linorder fi_lib \<Rightarrow> ('f order_key \<times> string) option \<Rightarrow> ('f order_key \<times> string) option \<Rightarrow> 'f group option
     \<Rightarrow> operation_id \<Rightarrow> doc_error + 'f order_key" where
  "slot_key L left right own operation =
     (case own of
        Some cur \<Rightarrow>
          if (case left of None \<Rightarrow> True
              | Some (key, i) \<Rightarrow> compare L key i (g_order cur) (g_id cur) = Less)
           \<and> (case right of None \<Rightarrow> True
              | Some (key, i) \<Rightarrow> compare L (g_order cur) (g_id cur) key i = Less)
          then Ok (g_order cur)
          else map_errR (\<lambda>_. InvalidContext) (between L left right operation)
      | None \<Rightarrow> map_errR (\<lambda>_. InvalidContext) (between L left right operation))"

definition neighbour :: "'f group list \<Rightarrow> nat \<Rightarrow> ('f order_key \<times> string) option" where
  "neighbour siblings i =
     (if i < length siblings then Some (g_order (siblings ! i), g_id (siblings ! i)) else None)"

definition position ::
  "'f::linorder fi_lib \<Rightarrow> ('o::linorder, 'v, 'f) reader \<Rightarrow> group_ref option \<Rightarrow> sibling_position \<Rightarrow> object_id option
     \<Rightarrow> operation_id \<Rightarrow> doc_error + 'f order_key" where
  "position L rd parent place exclude operation =
     bindR (read_groups L rd) (\<lambda>groups.
     let siblings = siblings_of groups parent exclude in
     bindR (position_index siblings place) (\<lambda>index.
     slot_key L (if index = 0 then None else neighbour siblings (index - 1)) (neighbour siblings index)
       (case exclude of
          Some (GroupObj i) \<Rightarrow> find (\<lambda>g. g_id g = i \<and> g_parent g = map_option gr_id parent) groups
        | _ \<Rightarrow> None)
       operation))"

subsection \<open>Late sources\<close>

record pending_source =
  ps_id :: string
  ps_address :: object_address
  ps_change :: string
  ps_actor :: string
  ps_revision :: "revision_id option"

definition late_source ::
  "('o, 'v, 'f, 'h) changes \<Rightarrow> ('o, 'v, 'f) reader \<Rightarrow> string \<Rightarrow> doc_error + pending_source" where
  "late_source H rd i =
     bindR (object rd (rd_root rd) ''events'') (\<lambda>events.
     bindR (get_all rd events i) (\<lambda>values.
     case values of
       [(value, operation)] \<Rightarrow>
         bindR (decode rd (js_event rd) value) (\<lambda>event.
         bindR (purge rd (me_address event)) (\<lambda>p.
         bindR (ok_or p NotFound) (\<lambda>record'.
         if i |\<in>| pr_covered record' then Err NotFound
         else
         bindR (ok_or (ch_of_operation H operation) InvalidDocument) (\<lambda>hash.
         bindR (ok_or (ch_actor H hash) InvalidDocument) (\<lambda>actor.
         Ok \<lparr>ps_id = i, ps_address = me_address event, ps_change = ch_show H hash, ps_actor = actor,
             ps_revision = me_revision event\<rparr>)))))
     | _ \<Rightarrow> Err NotFound))"

text \<open>One event: listed if its generation is closed, not covered by the purge and unprocessed.\<close>

definition pending_step ::
  "('o, 'v, 'f, 'h) changes \<Rightarrow> ('o, 'v, 'f) reader \<Rightarrow> 'o \<Rightarrow> 'o \<Rightarrow> pending_source list \<Rightarrow> string
     \<Rightarrow> doc_error + pending_source list" where
  "pending_step H rd evs processed result i =
         bindR (unique rd evs i) (\<lambda>value.
         bindR (decode rd (js_event rd) value) (\<lambda>event.
         bindR (purge rd (me_address event)) (\<lambda>p.
         bindR (if (case p of None \<Rightarrow> False | Some r \<Rightarrow> i |\<notin>| pr_covered r)
                then bindR (get_all rd processed i) (\<lambda>done_values. Ok (done_values = []))
                else Ok False) (\<lambda>waiting.
         if waiting then bindR (late_source H rd i) (\<lambda>s. Ok (result @ [s])) else Ok result))))"

definition pending_sources ::
  "('o, 'v, 'f, 'h) changes \<Rightarrow> ('o, 'v, 'f) reader \<Rightarrow> doc_error + pending_source list" where
  "pending_sources H rd =
     bindR (object rd (rd_root rd) ''events'') (\<lambda>evs.
     bindR (object rd (rd_root rd) ''recoveries'') (\<lambda>processed.
     foldR (pending_step H rd evs processed) [] (rd_keys rd evs)))"

datatype 'f source_preview = PreviewGroup "'f group_node" | PreviewEntry entry_snapshot

definition preview_source ::
  "('o::linorder, 'v, 'f, 'h) changes \<Rightarrow> ('o, 'v, 'f) document \<Rightarrow> string \<Rightarrow> doc_error + 'f source_preview" where
  "preview_source H doc i =
     bindR (late_source H (dc_read doc) i) (\<lambda>s.
     bindR (at_heads H doc [ps_change s]) (\<lambda>basis.
     if is_group (addr_object (ps_address s))
     then bindR (read_group (dc_read basis) (ps_address s)) (\<lambda>n. Ok (PreviewGroup n))
     else bindR (read_entry_generation (dc_read basis) (ps_address s) None) (\<lambda>e. Ok (PreviewEntry e))))"

subsection \<open>Ownership of identities\<close>

text \<open>No generation of another entry holds one of the keys under the container.\<close>

definition check_owners ::
  "('o, 'v, 'f) reader \<Rightarrow> entry_id \<Rightarrow> string \<Rightarrow> string list \<Rightarrow> doc_error + unit" where
  "check_owners rd owner container keys =
     bindR (all rd) (\<lambda>addresses.
     each (\<lambda>a. case addr_object a of
          GroupObj _ \<Rightarrow> Ok ()
        | EntryObj e \<Rightarrow>
            if e = owner then Ok ()
            else bindR (generation_object rd a) (\<lambda>node.
                 bindR (object rd node container) (\<lambda>obj.
                 each (\<lambda>k. bindR (get_all rd obj k) (\<lambda>values.
                          if values \<noteq> [] then Err DuplicateId else Ok ())) keys)))
       addresses)"

definition validate_attachment_owners ::
  "('o, 'v, 'f) reader \<Rightarrow> entry_id \<Rightarrow> entry_fields \<Rightarrow> doc_error + unit" where
  "validate_attachment_owners rd owner f =
     (if ef_attachments f = fmempty then Ok ()
      else check_owners rd owner ''attachments'' (bt_keys (ef_attachments f)))"

text \<open>The attribute check of \<open>confirm_entry_command\<close>, for the attributes a draft adds.\<close>

definition validate_new_attributes ::
  "('o, 'v, 'f) reader \<Rightarrow> entry_id \<Rightarrow> entry_fields option \<Rightarrow> entry_fields \<Rightarrow> doc_error + unit" where
  "validate_new_attributes rd owner original f =
     (let new = filter (\<lambda>i. case original of None \<Rightarrow> True | Some o1 \<Rightarrow> \<not> bt_contains (ef_attributes o1) i)
                  (bt_keys (ef_attributes f))
      in if new = [] then Ok () else check_owners rd owner ''attributes'' new)"

definition restored_attributes ::
  "('o::linorder, 'v, 'f) reader \<Rightarrow> entry_id \<Rightarrow> field_write list \<Rightarrow> doc_error + attribute_id fset" where
  "restored_attributes rd e ws =
     bindR (entry_object rd e) (\<lambda>target.
     bindR (object rd target ''attributes'') (\<lambda>attributes.
     bindR (foldR (\<lambda>new w. case w of
              (FAttributePresence i, VPresence True) \<Rightarrow>
                bindR (get_all rd attributes i) (\<lambda>values. Ok (if values = [] then finsert i new else new))
            | _ \<Rightarrow> Ok new) {||} ws) (\<lambda>new.
     if new = {||} then Ok new
     else bindR (check_owners rd e ''attributes'' (sorted_list_of_fset new)) (\<lambda>_. Ok new))))"

definition restored_attachments ::
  "('o::linorder, 'v, 'f) reader \<Rightarrow> entry_id \<Rightarrow> field_write list \<Rightarrow> doc_error + attachment_id fset" where
  "restored_attachments rd e ws =
     bindR (entry_object rd e) (\<lambda>target.
     bindR (object rd target ''attachments'') (\<lambda>attachments.
     bindR (foldR (\<lambda>new w. case w of
              (FAttachmentPresence i, VPresence True) \<Rightarrow>
                bindR (get_all rd attachments i) (\<lambda>values. Ok (if values = [] then finsert i new else new))
            | _ \<Rightarrow> Ok new) {||} ws) (\<lambda>new.
     bindR (check_owners rd e ''attachments'' (sorted_list_of_fset new)) (\<lambda>_. Ok new))))"

subsection \<open>Structure check\<close>

text \<open>\<open>owners.insert(key, id).is_some_and(|owner| &owner != id)\<close> over the keys of an entry.\<close>

definition claim_keys ::
  "(string, entry_id) fmap \<Rightarrow> entry_id \<Rightarrow> string list \<Rightarrow> doc_error + (string, entry_id) fmap" where
  "claim_keys owners e keys =
     foldR (\<lambda>owners k.
         if (case fmlookup owners k of None \<Rightarrow> False | Some owner \<Rightarrow> owner \<noteq> e) then Err DuplicateId
         else Ok (fmupd k e owners)) owners keys"

definition validate_address ::
  "('o::linorder, 'v, 'f) reader \<Rightarrow> (string, entry_id) fmap \<times> (string, entry_id) fmap \<Rightarrow> object_address
     \<Rightarrow> doc_error + (string, entry_id) fmap \<times> (string, entry_id) fmap" where
  "validate_address rd = (\<lambda>(owners, attachment_owners) a.
     bindR (life rd a) (\<lambda>_.
     bindR (purge rd a) (\<lambda>_.
     case addr_object a of
       GroupObj _ \<Rightarrow> Ok (owners, attachment_owners)
     | EntryObj e \<Rightarrow>
         bindR (read_entry_generation rd a None) (\<lambda>_.
         bindR (generation_object rd a) (\<lambda>node.
         bindR (object rd node ''attributes'') (\<lambda>attributes.
         bindR (claim_keys owners e (rd_keys rd attributes)) (\<lambda>owners.
         bindR (object rd node ''attachments'') (\<lambda>attachments.
         bindR (claim_keys attachment_owners e (rd_keys rd attachments)) (\<lambda>attachment_owners.
         bindR (stored_revisions rd e) (\<lambda>_.
         Ok (owners, attachment_owners)))))))))))"

definition STRUCTURE_ROOTS :: "string list" where
  "STRUCTURE_ROOTS = [''events'', ''purges'', ''recoveries'', ''lifecycle_receipts'', ''group_revisions'',
     ''database_revisions'']"

definition validate_v1_structure :: "('o::linorder, 'v, 'f) reader \<Rightarrow> doc_error + unit" where
  "validate_v1_structure rd =
     bindR (tree rd) (\<lambda>_.
     bindR (all rd) (\<lambda>addresses.
     bindR (foldR (validate_address rd) (fmempty, fmempty) addresses) (\<lambda>_.
     bindR (each (\<lambda>name. bindR (object rd (rd_root rd) name) (\<lambda>_. Ok ())) STRUCTURE_ROOTS) (\<lambda>_.
     validate_history rd))))"

end
