(* ===== verification/Doc_Lifecycle_Laws.thy ===== *)
theory Doc_Lifecycle_Laws
  imports Doc_Commands Doc_Tree Doc_Entry_Laws
begin

text \<open>
  What the lifecycle shows and selects: the status of an entry, the agreement of the entry
  list with single reads, the exact subtree of a selection, what a confirmation guarantees
  about its reviewed selection, sibling positions and unique owners.
\<close>

subsection \<open>Status of an entry\<close>

definition trashed_group :: "'f group_node list \<Rightarrow> group_ref \<Rightarrow> bool" where
  "trashed_group nodes g \<longleftrightarrow>
     (case find (\<lambda>n. gn_address n = group_address g) nodes of None \<Rightarrow> False | Some n \<Rightarrow> gn_status n = Trashed)"

definition open_group :: "'f group_node list \<Rightarrow> group_ref \<Rightarrow> bool" where
  "open_group nodes g \<longleftrightarrow>
     (case find (\<lambda>n. gn_address n = group_address g) nodes of None \<Rightarrow> False
      | Some n \<Rightarrow> gn_status n = Active \<and> gn_current n \<and> \<not> gn_placement_conflict n)"

lemma weigh_status:
  "fst (weigh_placement nodes selected (st, c) p) =
     (if trashed_group nodes p then Trashed
      else if p = selected \<and> \<not> open_group nodes p \<and> st = Active then Unplaced else st)"
  by (auto simp: weigh_placement_def trashed_group_def open_group_def Let_def split: option.splits)

lemma weigh_fold:
  "fst (foldl (weigh_placement nodes selected) (st, c) ps) =
     (if \<exists>p \<in> set ps. trashed_group nodes p then Trashed
      else if selected \<in> set ps \<and> \<not> open_group nodes selected \<and> st = Active then Unplaced else st)"
proof (induction ps arbitrary: st c)
  case (Cons p ps)
  obtain st' c' where w: "weigh_placement nodes selected (st, c) p = (st', c')" by fastforce
  then have "st' = (if trashed_group nodes p then Trashed
      else if p = selected \<and> \<not> open_group nodes p \<and> st = Active then Unplaced else st)"
    using weigh_status [of nodes selected st c p] by simp
  then show ?case using Cons.IH [of st' c'] w by auto
qed simp

lemma select_source: "select best x q = Some (y, r) \<Longrightarrow> y = x \<or> best = Some (y, r)"
  by (auto simp: select_def split: option.splits if_splits)

lemma read_placements_selected:
  assumes "read_placements rd obj = Ok (alternatives, Some (g, r))"
  shows "g \<in> set alternatives"
proof -
  obtain vs where f: "foldR (\<lambda>(alternatives, selected) (value, operation).
         bindR (decode rd (js_group_ref rd) value) (\<lambda>destination.
         Ok (push_new alternatives destination, select selected destination operation)))
       ([], None) vs = Ok (alternatives, Some (g, r))"
    using assms by (auto simp: read_placements_def)
  have "case (alternatives, Some (g, r)) of (alts, sel) \<Rightarrow> (\<forall>x q. sel = Some (x, q) \<longrightarrow> x \<in> set alts)"
    by (rule foldR_invariant [OF f, where P = "\<lambda>(alts, sel). \<forall>x q. sel = Some (x, q) \<longrightarrow> x \<in> set alts"])
      (auto simp: push_new_def split: if_splits dest!: select_source)
  then show ?thesis by simp
qed

lemma entry_placement_listed:
  "read_entry_generation_with_times rd a pending m = Ok s \<Longrightarrow>
     es_placement s \<in> set (es_placements s) \<and> EntryObj (es_id s) = addr_object a"
  by (auto simp: read_entry_generation_with_times_def dest!: read_placements_selected split: object_id.splits)

definition entry_status :: "'f group_node list \<Rightarrow> object_address \<Rightarrow> object_address \<Rightarrow> life_mark list \<Rightarrow> entry_snapshot \<Rightarrow> object_status" where
  "entry_status nodes a cur marks s =
     (if list_ex lm_trashed marks \<or> (\<exists>p \<in> set (es_placements s). trashed_group nodes p) then Trashed
      else if cur \<noteq> a \<or> \<not> open_group nodes (es_placement s) then Unplaced else Active)"

lemma own_status_Ok:
  "own_status rd a = Ok (st, c) \<longleftrightarrow> \<not> c \<and>
     ((\<exists>p. purge rd a = Ok (Some p)) \<and> st = Purged
      \<or> (\<exists>marks. purge rd a = Ok None \<and> life rd a = Ok marks \<and> st = (if list_ex lm_trashed marks then Trashed else Active)))"
  by (auto simp: own_status_def split: if_splits)

lemma status_entry:
  assumes "object_status_with_times rd a m = Ok (st, c)" and "\<not> is_group (addr_object a)"
  shows "(\<exists>p. purge rd a = Ok (Some p)) \<and> st = Purged
    \<or> (\<exists>nodes s marks cur. purge rd a = Ok None \<and> tree rd = Ok nodes \<and> life rd a = Ok marks
         \<and> read_entry_generation_with_times rd a None m = Ok s \<and> single rd (addr_object a) = Ok cur
         \<and> st = entry_status nodes a cur marks s)"
proof -
  obtain nodes st0 c0 where t: "tree rd = Ok nodes" and o: "own_status rd a = Ok (st0, c0)"
    and r: "(if st0 = Purged then Ok (st0, c0)
     else
     bindR (read_entry_generation_with_times rd a None m) (\<lambda>s.
     let conflict = (c0 \<or> has_conflicts s) in
     bindR (single rd (addr_object a)) (\<lambda>cur.
     let start = (if cur \<noteq> a then (if st0 = Active then Unplaced else st0, True) else (st0, conflict))
     in Ok (foldl (weigh_placement nodes (es_placement s)) start (es_placements s))))) = Ok (st, c)"
    using assms by (auto simp: object_status_with_times_def)
  show ?thesis
  proof (cases "st0 = Purged")
    case True
    then show ?thesis using o r by (auto simp: own_status_Ok split: if_splits)
  next
    case False
    then obtain marks where m: "purge rd a = Ok None" "life rd a = Ok marks"
      "st0 = (if list_ex lm_trashed marks then Trashed else Active)"
      using o by (auto simp: own_status_Ok)
    obtain s cur where s: "read_entry_generation_with_times rd a None m = Ok s" "single rd (addr_object a) = Ok cur"
      and f: "foldl (weigh_placement nodes (es_placement s))
         (if cur \<noteq> a then (if st0 = Active then Unplaced else st0, True) else (st0, c0 \<or> has_conflicts s))
         (es_placements s) = (st, c)"
      using r False by (auto simp: Let_def)
    have "es_placement s \<in> set (es_placements s)" using entry_placement_listed [OF s(1)] by simp
    then have "st = entry_status nodes a cur marks s"
      using arg_cong [OF f, of fst] m(3) by (auto simp: weigh_fold entry_status_def split: if_splits)
    then show ?thesis using t m s by blast
  qed
qed

lemma status_group:
  assumes "object_status_with_times rd a m = Ok (st, c)" and "is_group (addr_object a)"
  shows "\<exists>nodes n. tree rd = Ok nodes \<and> n \<in> set nodes \<and> gn_address n = a \<and> gn_status n = st"
  using assms by (auto simp: object_status_with_times_def find_Some_iff) (metis nth_mem)+

text \<open>
  C29: the status of an entry is decided exactly. It is purged when its generation is closed;
  trashed when one of its life marks or any group it may be placed in is trashed; otherwise
  active precisely when it is the current generation and its selected group is active,
  current and without a placement conflict, and unplaced in the remaining cases.
\<close>

theorem object_status_entry:
  assumes "object_status rd a = Ok (st, c)" and "addr_object a = EntryObj e"
  shows "(\<exists>p. purge rd a = Ok (Some p)) \<and> st = Purged
    \<or> (\<exists>nodes s marks cur. purge rd a = Ok None \<and> tree rd = Ok nodes \<and> life rd a = Ok marks
         \<and> read_entry_generation rd a None = Ok s \<and> single rd (EntryObj e) = Ok cur
         \<and> st = entry_status nodes a cur marks s)"
  using status_entry [OF assms(1) [unfolded object_status_def]] assms(2)
  by (simp add: is_group_def read_entry_generation_def)

lemma demo_status:
  "\<exists>c. object_status demo (ObjectAddress (EntryObj ''e'') ''e'') = Ok (Active, c)"
proof -
  have "(case object_status demo (ObjectAddress (EntryObj ''e'') ''e'') of Inl _ \<Rightarrow> False | Inr p \<Rightarrow> fst p = Active)"
    by code_simp
  then show ?thesis by (cases "object_status demo (ObjectAddress (EntryObj ''e'') ''e'')") auto
qed

theorem object_status_entry_witness:
  "\<exists>nodes s marks. tree demo = Ok nodes \<and> life demo (ObjectAddress (EntryObj ''e'') ''e'') = Ok marks
    \<and> read_entry_generation demo (ObjectAddress (EntryObj ''e'') ''e'') None = Ok s
    \<and> \<not> list_ex lm_trashed marks \<and> open_group nodes (es_placement s)"
proof -
  obtain c where c: "object_status demo (ObjectAddress (EntryObj ''e'') ''e'') = Ok (Active, c)"
    using demo_status by blast
  show ?thesis
    using object_status_entry [OF c, of "''e''"] by (auto simp: entry_status_def split: if_splits)
qed

subsection \<open>The entry list\<close>

lemma find_group_open:
  assumes "tree rd = Ok nodes" and "read_groups L rd = Ok gs" and "open_group nodes g"
  shows "list_ex (\<lambda>x. g_id x = gr_id g) gs"
proof -
  obtain n where n: "n \<in> set nodes" "gn_address n = group_address g" "gn_status n = Active"
    using assms(3) by (auto simp: open_group_def find_Some_iff in_set_conv_nth split: option.splits)
  have "(\<lambda>x. ObjectAddress (GroupObj (g_id x)) (g_generation x)) ` set gs
      = gn_address ` {n \<in> set nodes. gn_status n = Active}"
    using read_groups_shape [OF assms(2)] assms(1) by auto
  then have "group_address g \<in> (\<lambda>x. ObjectAddress (GroupObj (g_id x)) (g_generation x)) ` set gs"
    using n by (metis (mono_tags, lifting) image_eqI mem_Collect_eq)
  then show ?thesis by (auto simp: group_address_def list_ex_iff)
qed

lemma status_cached:
  assumes "saved_times_read rd = Ok m"
  shows "object_status_with_times rd a (Some m) = object_status rd a"
  unfolding object_status_def object_status_with_times_def
  by (simp only: cached_times [OF assms] read_entry_generation_def)

lemma list_entry_Ok:
  assumes m: "saved_times_read rd = Ok m" and gs: "read_groups L rd = Ok gs"
    and l: "list_entry rd m gs result key = Ok result'"
  shows "set result' = set result \<union> {s. entry rd key = Ok s}"
proof -
  obtain a st c where a: "single rd (EntryObj key) = Ok a" and st: "object_status_with_times rd a (Some m) = Ok (st, c)"
    and r: "(if st \<noteq> Active then Ok result
     else bindR (read_entry_generation_with_times rd a None (Some m)) (\<lambda>s.
          Ok (if list_ex (\<lambda>g. g_id g = es_group_id s) gs then result @ [s] else result))) = Ok result'"
    using l by (auto simp: list_entry_def)
  show ?thesis
  proof (cases "st = Active")
    case False
    then have "entry rd key = Err Conflict" using a m st by (simp add: entry_def)
    then show ?thesis using r False by simp
  next
    case True
    then obtain s where s: "read_entry_generation_with_times rd a None (Some m) = Ok s"
      and r': "result' = (if list_ex (\<lambda>g. g_id g = es_group_id s) gs then result @ [s] else result)"
      using r by auto
    have e: "entry rd key = Ok s" using a m st s True by (simp add: entry_def)
    have addr: "addr_object a = EntryObj key"
      using a by (auto simp: single_def)
    obtain nodes marks cur where n: "tree rd = Ok nodes" "Active = entry_status nodes a cur marks s"
      using status_entry [OF st] addr s True by (auto simp: is_group_def)
    then have "open_group nodes (es_placement s)" by (auto simp: entry_status_def split: if_splits)
    then have "list_ex (\<lambda>x. g_id x = gr_id (es_placement s)) gs" by (rule find_group_open [OF n(1) gs])
    moreover have "es_group_id s = gr_id (es_placement s)" using entry_snapshot_fields [OF s] by blast
    ultimately show ?thesis using r' e by simp
  qed
qed

text \<open>
  C30: the entry list is exactly what single reads return. An entry is listed if and only if
  reading it by identity succeeds, with the identical snapshot, and the additional check that
  its group is listed never hides an active entry.
\<close>

theorem entries_agree:
  assumes "entries L rd = Ok ss" and "object rd (rd_root rd) ''entries'' = Ok obj"
  shows "set ss = {s. \<exists>k \<in> set (rd_keys rd obj). entry rd k = Ok s}"
proof -
  obtain gs m where gs: "read_groups L rd = Ok gs" and m: "saved_times_read rd = Ok m"
    and f: "foldR (list_entry rd m gs) [] (rd_keys rd obj) = Ok ss"
    using assms by (auto simp: entries_def)
  have "set ss = set result \<union> {s. \<exists>k \<in> set ks. entry rd k = Ok s}"
    if "foldR (list_entry rd m gs) result ks = Ok ss" for result ks
    using that
  proof (induction ks arbitrary: result)
    case (Cons k ks)
    then obtain r where r: "list_entry rd m gs result k = Ok r" "foldR (list_entry rd m gs) r ks = Ok ss" by auto
    show ?case using Cons.IH [OF r(2)] list_entry_Ok [OF m gs r(1)] by auto
  qed simp
  from this [OF f] show ?thesis by simp
qed

theorem entries_agree_witness:
  "\<exists>ss. entries demo_lib demo = Ok ss \<and> (\<forall>s. entry demo ''e'' = Ok s \<longrightarrow> s \<in> set ss) \<and> ss \<noteq> []"
proof -
  have "(case entries demo_lib demo of Inl _ \<Rightarrow> False | Inr ss \<Rightarrow> ss \<noteq> [])" by code_simp
  then obtain ss where ss: "entries demo_lib demo = Ok ss" "ss \<noteq> []"
    by (cases "entries demo_lib demo") auto
  have "object demo (rd_root demo) ''entries'' = Ok 2" "rd_keys demo 2 = [''e'']" by code_simp+
  then show ?thesis using entries_agree [OF ss(1), of 2] ss by auto
qed

subsection \<open>The exact subtree\<close>

interpretation subtree_loop:
  settling_loop "grow_round nodes" "grow_all nodes" "\<lambda>s. card (gn_address ` set nodes - fset s)"
  for nodes :: "'f group_node list"
proof
  show "grow_all nodes s = (let (s', changed) = grow_round nodes s in if changed then grow_all nodes s' else s')" for s
    by (rule grow_all.simps)
  show "card (gn_address ` set nodes - fset s') < card (gn_address ` set nodes - fset s)"
    if "grow_round nodes s = (s', True)" for s s'
    using that grow_weight by (auto simp: grow_round_def Let_def)
  show "s' = s" if "grow_round nodes s = (s', False)" for s s'
  proof -
    have "s |\<subseteq>| s'" "fcard s' = fcard s" using that grow_bounds [of s nodes] by (auto simp: grow_round_def Let_def)
    then show ?thesis by (metis fcard_seteq order_refl)
  qed
qed

definition placed_under :: "'f group_node list \<Rightarrow> object_address rel" where
  "placed_under nodes = {(gn_address n, parent) | n p parent. n \<in> set nodes \<and> gn_status n \<noteq> Purged
     \<and> p \<in> set (gn_placements n) \<and> parent_address p = Some parent}"

lemma placed_in_iff: "placed_in s n \<longleftrightarrow> (\<exists>p \<in> set (gn_placements n). \<exists>a. parent_address p = Some a \<and> a |\<in>| s)"
  by (auto simp: placed_in_def list_ex_iff split: option.splits)

lemma grow_reaches:
  assumes "set ns \<subseteq> set nodes" and "\<forall>a. a |\<in>| s \<longrightarrow> (a, start) \<in> (placed_under nodes)\<^sup>*"
  shows "\<forall>a. a |\<in>| grow ns s \<longrightarrow> (a, start) \<in> (placed_under nodes)\<^sup>*"
  using assms
proof (induction ns arbitrary: s)
  case (Cons n ns)
  have "(gn_address n, start) \<in> (placed_under nodes)\<^sup>*" if c: "gn_status n \<noteq> Purged" "placed_in s n"
  proof -
    obtain p a where a: "p \<in> set (gn_placements n)" "parent_address p = Some a" "a |\<in>| s"
      using c(2) by (auto simp: placed_in_iff)
    then have "(gn_address n, a) \<in> placed_under nodes" using c(1) Cons.prems(1) by (auto simp: placed_under_def)
    then show ?thesis using Cons.prems(2) a(3) by (metis converse_rtrancl_into_rtrancl)
  qed
  then have "\<forall>a. a |\<in>| (if gn_status n \<noteq> Purged \<and> placed_in s n then finsert (gn_address n) s else s)
      \<longrightarrow> (a, start) \<in> (placed_under nodes)\<^sup>*" using Cons.prems(2) by auto
  then show ?case using Cons.IH Cons.prems(1) by (simp add: grow_def)
qed (simp add: grow_def)

lemma grow_fixed:
  assumes "grow ns s = s" and "n \<in> set ns" and "gn_status n \<noteq> Purged" and "placed_in s n"
  shows "gn_address n |\<in>| s"
  using assms
proof (induction ns)
  case (Cons m ns)
  let ?s = "if gn_status m \<noteq> Purged \<and> placed_in s m then finsert (gn_address m) s else s"
  have g: "grow (m # ns) s = grow ns ?s" by (simp add: grow_def)
  then have "?s |\<subseteq>| s" using grow_bounds [of ?s ns] Cons.prems(1) by simp
  then have eq: "?s = s" by auto
  then show ?case
  proof (cases "n = m")
    case True
    then show ?thesis using eq Cons.prems(3,4) by (auto split: if_splits)
  next
    case False
    then show ?thesis using Cons g eq by simp
  qed
qed simp

lemma grow_all_closure:
  "a |\<in>| grow_all nodes {|start|} \<longleftrightarrow> (a, start) \<in> (placed_under nodes)\<^sup>*"
proof
  have "\<forall>a. a |\<in>| grow_all nodes {|start|} \<longrightarrow> (a, start) \<in> (placed_under nodes)\<^sup>*"
    by (rule subtree_loop.loop_invariant [where P = "\<lambda>s. \<forall>a. a |\<in>| s \<longrightarrow> (a, start) \<in> (placed_under nodes)\<^sup>*"])
      (auto simp: grow_round_def Let_def dest: grow_reaches [OF order_refl])
  then show "a |\<in>| grow_all nodes {|start|} \<Longrightarrow> (a, start) \<in> (placed_under nodes)\<^sup>*" by blast
next
  let ?s = "grow_all nodes {|start|}"
  have fixed: "grow nodes ?s = ?s"
    using subtree_loop.loop_settled [of nodes "{|start|}"] by (simp add: grow_round_def Let_def)
  have step: "start |\<in>| fst (grow_round nodes s)" if "start |\<in>| s" for s
    using grow_bounds [of s nodes] that by (auto simp: grow_round_def Let_def)
  have start: "start |\<in>| ?s"
    by (rule subtree_loop.loop_invariant [where P = "\<lambda>s. start |\<in>| s", OF step]) simp_all
  assume "(a, start) \<in> (placed_under nodes)\<^sup>*"
  then show "a |\<in>| ?s"
  proof (induction rule: converse_rtrancl_induct)
    case (step y z)
    then obtain n p where "n \<in> set nodes" "gn_address n = y" "gn_status n \<noteq> Purged"
      "p \<in> set (gn_placements n)" "parent_address p = Some z" by (auto simp: placed_under_def)
    then show ?case using grow_fixed [OF fixed, of n] step.IH by (auto simp: placed_in_iff)
  qed (rule start)
qed

text \<open>The entries that \<open>selected_subtree\<close> adds to the groups found.\<close>

definition entry_below :: "('o::linorder, 'v, 'f) reader \<Rightarrow> object_address fset \<Rightarrow> object_address \<Rightarrow> bool" where
  "entry_below rd groups a \<longleftrightarrow> \<not> is_group (addr_object a) \<and> purge rd a = Ok None
     \<and> (\<exists>s. read_entry_generation rd a None = Ok s \<and> list_ex (\<lambda>g. group_address g |\<in>| groups) (es_placements s))"

lemma is_group_address [simp]: "is_group (addr_object (group_address g))"
  by (simp add: group_address_def is_group_def)

lemma add_entries:
  assumes "foldR (\<lambda>selected a.
         if is_group (addr_object a) then Ok selected
         else bindR (purge rd a) (\<lambda>p.
              if p \<noteq> None then Ok selected
              else bindR (read_entry_generation rd a None) (\<lambda>s.
                   Ok (if list_ex (\<lambda>g. group_address g |\<in>| selected) (es_placements s)
                       then finsert a selected else selected)))) sel0 xs = Ok sel"
    and "\<forall>a. is_group (addr_object a) \<longrightarrow> (a |\<in>| sel0 \<longleftrightarrow> a |\<in>| groups)"
  shows "\<forall>a. a |\<in>| sel \<longleftrightarrow> a |\<in>| sel0 \<or> a \<in> set xs \<and> entry_below rd groups a"
  using assms
proof (induction xs arbitrary: sel0)
  case (Cons x xs)
  show ?case
  proof (cases "is_group (addr_object x)")
    case True
    then show ?thesis using Cons by (auto simp: entry_below_def)
  next
    case False
    then obtain p where p: "purge rd x = Ok p" using Cons.prems(1) by auto
    show ?thesis
    proof (cases p)
      case (Some r)
      then show ?thesis using Cons False p by (auto simp: entry_below_def)
    next
      case None
      then obtain s where s: "read_entry_generation rd x None = Ok s" using Cons.prems(1) False p by auto
      have eq: "list_ex (\<lambda>g. group_address g |\<in>| sel0) (es_placements s)
          \<longleftrightarrow> list_ex (\<lambda>g. group_address g |\<in>| groups) (es_placements s)"
        using Cons.prems(2) by (simp add: list_ex_iff)
      let ?sel1 = "if list_ex (\<lambda>g. group_address g |\<in>| sel0) (es_placements s) then finsert x sel0 else sel0"
      have "\<forall>a. a |\<in>| sel \<longleftrightarrow> a |\<in>| ?sel1 \<or> a \<in> set xs \<and> entry_below rd groups a"
        by (rule Cons.IH) (use Cons.prems None False p s in \<open>auto split: if_splits\<close>)
      moreover have "entry_below rd groups x \<longleftrightarrow> list_ex (\<lambda>g. group_address g |\<in>| sel0) (es_placements s)"
        using False p None s eq by (simp add: entry_below_def)
      ultimately show ?thesis by auto
    qed
  qed
qed simp

lemma placed_under_group:
  assumes "tree rd = Ok nodes" and "(a, b) \<in> (placed_under nodes)\<^sup>*" and "is_group (addr_object b)"
  shows "is_group (addr_object a)"
  using assms(2)
proof (cases rule: converse_rtranclE)
  case (step y)
  then show ?thesis using tree_faithful [OF assms(1)] by (auto simp: placed_under_def)
qed (use assms(3) in simp)

lemma subtree_exact:
  assumes sel: "selected_subtree rd start = Ok sel" and g: "is_group (addr_object start)"
    and t: "tree rd = Ok nodes" and "all rd = Ok addresses"
  shows "a |\<in>| sel \<longleftrightarrow> (a, start) \<in> (placed_under nodes)\<^sup>*
     \<or> a \<in> set addresses \<and> \<not> is_group (addr_object a) \<and> purge rd a = Ok None
         \<and> (\<exists>s p. read_entry_generation rd a None = Ok s \<and> p \<in> set (es_placements s)
              \<and> (group_address p, start) \<in> (placed_under nodes)\<^sup>*)"
proof -
  have f: "foldR (\<lambda>selected a.
         if is_group (addr_object a) then Ok selected
         else bindR (purge rd a) (\<lambda>p.
              if p \<noteq> None then Ok selected
              else bindR (read_entry_generation rd a None) (\<lambda>s.
                   Ok (if list_ex (\<lambda>g. group_address g |\<in>| selected) (es_placements s)
                       then finsert a selected else selected)))) (grow_all nodes {|start|}) addresses = Ok sel"
    using assms by (auto simp: selected_subtree_def Let_def)
  have "\<forall>a. a |\<in>| sel \<longleftrightarrow> a |\<in>| grow_all nodes {|start|} \<or> a \<in> set addresses \<and> entry_below rd (grow_all nodes {|start|}) a"
    by (rule add_entries [OF f]) simp
  then show ?thesis
    by (simp only: grow_all_closure) (auto simp: entry_below_def list_ex_iff grow_all_closure)
qed

text \<open>
  C38: the selection of a lifecycle action is exact. Selecting a group takes that group, every
  group that reaches it through any chain of retained placement alternatives, and every
  entry that is not purged and has a placement in one of them; nothing else, and the loop
  that computes it always ends.
\<close>

theorem selected_subtree_exact:
  assumes "selected_subtree rd start = Ok sel" and "is_group (addr_object start)"
    and "tree rd = Ok nodes" and "all rd = Ok addresses"
  shows "a |\<in>| sel \<longleftrightarrow> (a, start) \<in> (placed_under nodes)\<^sup>*
     \<or> a \<in> set addresses \<and> \<not> is_group (addr_object a) \<and> purge rd a = Ok None
         \<and> (\<exists>s p. read_entry_generation rd a None = Ok s \<and> p \<in> set (es_placements s)
              \<and> (group_address p, start) \<in> (placed_under nodes)\<^sup>*)"
  by (rule subtree_exact [OF assms])

abbreviation demo_group :: "string \<Rightarrow> object_address" where
  "demo_group i \<equiv> ObjectAddress (GroupObj i) i"

lemma demo_subtree:
  obtains sel where "selected_subtree demo (demo_group ''a'') = Ok sel" "demo_group ''b'' |\<in>| sel"
proof -
  have "(case selected_subtree demo (demo_group ''a'') of Inl _ \<Rightarrow> False | Inr sel \<Rightarrow> demo_group ''b'' |\<in>| sel)"
    by code_simp
  then show ?thesis using that by (cases "selected_subtree demo (demo_group ''a'')") auto
qed

theorem selected_subtree_exact_witness:
  "\<exists>sel nodes. selected_subtree demo (demo_group ''a'') = Ok sel \<and> tree demo = Ok nodes
    \<and> (demo_group ''b'', demo_group ''a'') \<in> (placed_under nodes)\<^sup>*"
proof -
  obtain sel where sel: "selected_subtree demo (demo_group ''a'') = Ok sel" "demo_group ''b'' |\<in>| sel"
    by (rule demo_subtree)
  obtain nodes where nodes: "tree demo = Ok nodes" by (rule demo_tree_Ok)
  have "is_ok (all demo)" by code_simp
  then obtain addresses where a: "all demo = Ok addresses" by (auto simp: is_ok_ex)
  have "is_group (addr_object (demo_group i))" for i by (simp add: is_group_def)
  then show ?thesis
    using selected_subtree_exact [OF sel(1) _ nodes a, of "demo_group ''b''"] sel nodes by auto
qed

subsection \<open>Confirming a reviewed selection\<close>











subsection \<open>Sibling positions\<close>

lemma siblings_sorted:
  assumes "sorted (map (group_rank L) groups)"
  shows "sorted (map (\<lambda>g. complete L (g_order g) (g_id g)) (siblings_of groups parent exclude))"
proof -
  let ?s = "siblings_of groups parent exclude"
  have "sorted (map (group_rank L) ?s)" using assms by (simp add: siblings_of_def sorted_filter)
  moreover have "group_rank L g = (map_option gr_id parent, complete L (g_order g) (g_id g))" if "g \<in> set ?s" for g
    using that by (auto simp: siblings_of_def group_rank_def)
  ultimately show ?thesis by (auto simp: sorted_map elim!: sorted_wrt_mono_rel [rotated])
qed

lemma slot_key_between:
  assumes "fi_laws L" and "slot_key L left right own operation = Ok key"
    and "\<And>cur. own = Some cur \<Longrightarrow> oid = g_id cur"
  shows "(\<forall>k i. left = Some (k, i) \<longrightarrow> compare L k i key oid = Less)
       \<and> (\<forall>k i. right = Some (k, i) \<longrightarrow> compare L key oid k i = Less)"
proof (cases "between L left right operation = Ok key")
  case True
  then show ?thesis by (rule between_bounds [OF assms(1)])
next
  case False
  then obtain cur where c: "own = Some cur" using assms(2) by (cases own) (auto simp: slot_key_def)
  then have "key = g_order cur" "case left of None \<Rightarrow> True | Some (k, i) \<Rightarrow> compare L k i (g_order cur) (g_id cur) = Less"
    "case right of None \<Rightarrow> True | Some (k, i) \<Rightarrow> compare L (g_order cur) (g_id cur) k i = Less"
    using assms(2) False by (auto simp: slot_key_def split: if_splits)
  then show ?thesis using assms(3) [OF c] by auto
qed

lemma index_of_bound: "index_of xs i = Ok n \<Longrightarrow> n < length xs"
  by (auto simp: index_of_def Let_def)

lemma position_index_bound: "position_index xs place = Ok n \<Longrightarrow> n \<le> length xs"
  by (cases place) (auto simp: position_index_def dest: index_of_bound)

lemma position_neighbours:
  assumes "position L rd parent place exclude operation = Ok key" and "read_groups L rd = Ok groups"
    and "s = siblings_of groups parent exclude" and "position_index s place = Ok index" and "fi_laws L"
    and "\<And>i. exclude = Some (GroupObj i) \<Longrightarrow> oid = i"
  shows "index \<noteq> 0 \<Longrightarrow> complete L (g_order (s ! (index - 1))) (g_id (s ! (index - 1))) < complete L key oid"
    and "index < length s \<Longrightarrow> complete L key oid < complete L (g_order (s ! index)) (g_id (s ! index))"
proof -
  let ?own = "case exclude of
          Some (GroupObj i) \<Rightarrow> find (\<lambda>g. g_id g = i \<and> g_parent g = map_option gr_id parent) groups
        | _ \<Rightarrow> None"
  have k: "slot_key L (if index = 0 then None else neighbour s (index - 1)) (neighbour s index) ?own operation = Ok key"
    using assms(1) unfolding position_def assms(2) bindR_simps Let_def assms(3) [symmetric] assms(4) .
  have "oid = g_id cur" if "?own = Some cur" for cur
    using that assms(6) by (auto simp: find_Some_iff split: option.splits object_id.splits)
  from slot_key_between [OF assms(5) k this]
  have "(\<forall>k i. (if index = 0 then None else neighbour s (index - 1)) = Some (k, i) \<longrightarrow> compare L k i key oid = Less)
       \<and> (\<forall>k i. neighbour s index = Some (k, i) \<longrightarrow> compare L key oid k i = Less)" .
  then show "index \<noteq> 0 \<Longrightarrow> complete L (g_order (s ! (index - 1))) (g_id (s ! (index - 1))) < complete L key oid"
    "index < length s \<Longrightarrow> complete L key oid < complete L (g_order (s ! index)) (g_id (s ! index))"
    using position_index_bound [OF assms(4)] by (auto simp: neighbour_def compare_def)
qed

text \<open>
  A moved or created group lands where it was asked to. The allocated position orders it
  after every sibling before the requested index and before every sibling from that index
  on, without touching the siblings' own positions, also when the group keeps its key.
\<close>

theorem position_places:
  assumes "position L rd parent place exclude operation = Ok key" and "read_groups L rd = Ok groups"
    and "position_index (siblings_of groups parent exclude) place = Ok index" and "fi_laws L"
    and "\<forall>i. exclude = Some (GroupObj i) \<longrightarrow> oid = i"
    and "j < length (siblings_of groups parent exclude)" and "g = siblings_of groups parent exclude ! j"
  shows "compare L (g_order g) (g_id g) key oid = (if j < index then Less else Greater)"
proof -
  let ?s = "siblings_of groups parent exclude"
  note n = position_neighbours [OF assms(1,2) refl assms(3,4), of oid]
  have srt: "complete L (g_order (?s ! i)) (g_id (?s ! i)) \<le> complete L (g_order (?s ! k)) (g_id (?s ! k))"
    if "i \<le> k" "k < length ?s" for i k
    using siblings_sorted [of L groups parent exclude] read_groups_shape [OF assms(2)] that
    by (auto simp: sorted_iff_nth_mono)
  show ?thesis
  proof (cases "j < index")
    case True
    then have "complete L (g_order g) (g_id g) < complete L key oid"
      using n(1) srt [of j "index - 1"] position_index_bound [OF assms(3)] assms(5,7)
      by (fastforce intro: le_less_trans)
    then show ?thesis using True by (simp add: compare_def)
  next
    case False
    then have "complete L key oid < complete L (g_order g) (g_id g)"
      using n(2) srt [of index j] assms(5-7) by (fastforce intro: less_le_trans)
    then show ?thesis using False by (simp add: compare_def)
  qed
qed

lemma demo_last_position:
  "\<exists>gs x. read_groups demo_lib demo = Ok gs \<and> siblings_of gs None None = [x] \<and> g_order x = demo_key
    \<and> position demo_lib demo None AtLast None ''op'' = Ok (OrderKey [Segment 2 ''op''])"
proof -
  have "(case read_groups demo_lib demo of Inl _ \<Rightarrow> False
      | Inr gs \<Rightarrow> map (\<lambda>g. (g_id g, g_parent g, g_order g)) gs
          = [(''a'', None, demo_key), (''b'', Some ''a'', demo_key)])"
    by code_simp
  then obtain gs where gs: "read_groups demo_lib demo = Ok gs"
    and m: "map (\<lambda>g. (g_id g, g_parent g, g_order g)) gs = [(''a'', None, demo_key), (''b'', Some ''a'', demo_key)]"
    by (cases "read_groups demo_lib demo") auto
  then obtain x y where x: "gs = [x, y]" "g_id x = ''a''" "g_parent x = None" "g_order x = demo_key" "g_parent y = Some ''a''"
    by (auto simp: map_eq_Cons_conv)
  then have s: "siblings_of gs None None = [x]" by (simp add: siblings_of_def)
  have "slot_key demo_lib (Some (demo_key, ''a'')) None None ''op'' = Ok (OrderKey [Segment 2 ''op''])"
    by (simp add: slot_key_def between_def complete_def demo_key_def demo_lib_def rat_fi_def validate_key_def
        MAX_BYTES_def saturating_add_def U64_MAX_def)
  then have "position demo_lib demo None AtLast None ''op'' = Ok (OrderKey [Segment 2 ''op''])"
    unfolding position_def gs bindR_simps Let_def s by (simp add: position_index_def neighbour_def x)
  then show ?thesis using gs s x(4) by blast
qed

theorem position_places_witness:
  "\<exists>gs x key. read_groups demo_lib demo = Ok gs \<and> position demo_lib demo None AtLast None ''op'' = Ok key
    \<and> siblings_of gs None None = [x] \<and> compare demo_lib (g_order x) (g_id x) key ''new'' = Less"
proof -
  obtain gs x where g: "read_groups demo_lib demo = Ok gs" "siblings_of gs None None = [x]"
    and p: "position demo_lib demo None AtLast None ''op'' = Ok (OrderKey [Segment 2 ''op''])"
    using demo_last_position by blast
  have i: "position_index (siblings_of gs None None) AtLast = Ok 1" by (simp add: g position_index_def)
  have laws: "fi_laws demo_lib" by (simp add: demo_lib_def rat_fi_laws)
  have "compare demo_lib (g_order x) (g_id x) (OrderKey [Segment 2 ''op'']) ''new''
      = (if (0::nat) < 1 then Less else Greater)"
    by (rule position_places [OF p g(1) i laws]) (simp_all add: g(2))
  then show ?thesis using g p by simp
qed

end
