(* ===== verification/Doc_Command_Laws.thy ===== *)
theory Doc_Command_Laws
  imports Doc_Commands Doc_Demo
begin

text \<open>
  Ownership after the structure check, the list of pending late sources, and the metadata
  updates: which of them write and what they write.
\<close>

subsection \<open>Ownership\<close>

definition owned_keys :: "('o, 'v, 'f) reader \<Rightarrow> string \<Rightarrow> object_address \<Rightarrow> string set" where
  "owned_keys rd container a = {k. \<exists>node obj. generation_object rd a = Ok node \<and> object rd node container = Ok obj
     \<and> k \<in> set (rd_keys rd obj)}"

lemma claim_keys_Ok:
  assumes "claim_keys owners e keys = Ok owners'"
  shows "(\<forall>k x. fmlookup owners k = Some x \<longrightarrow> fmlookup owners' k = Some x)
    \<and> (\<forall>k \<in> set keys. fmlookup owners' k = Some e)"
  using assms
proof (induction keys arbitrary: owners)
  case (Cons k keys)
  have free: "fmlookup owners k = None \<or> fmlookup owners k = Some e"
    and c: "claim_keys (fmupd k e owners) e keys = Ok owners'"
    using Cons.prems by (auto simp: claim_keys_def split: option.splits if_splits)
  note IH = Cons.IH [OF c]
  then have "fmlookup owners' k = Some e" by auto
  moreover have "fmlookup owners' x = Some y" if "fmlookup owners x = Some y" for x y
    using IH that free by (cases "x = k") auto
  ultimately show ?case using IH by auto
qed (simp add: claim_keys_def)

definition owns :: "('o, 'v, 'f) reader \<Rightarrow> string \<Rightarrow> (string, entry_id) fmap \<Rightarrow> object_address \<Rightarrow> bool" where
  "owns rd container owners a \<longleftrightarrow>
     (\<forall>e k. addr_object a = EntryObj e \<and> k \<in> owned_keys rd container a \<longrightarrow> fmlookup owners k = Some e)"

lemma owns_mono:
  "owns rd c owners a \<Longrightarrow> (\<forall>k x. fmlookup owners k = Some x \<longrightarrow> fmlookup owners' k = Some x) \<Longrightarrow> owns rd c owners' a"
  unfolding owns_def by blast

lemma validate_address_Ok:
  assumes "validate_address rd (o1, o2) a = Ok (p1, p2)"
  shows "(\<forall>k x. fmlookup o1 k = Some x \<longrightarrow> fmlookup p1 k = Some x)
    \<and> (\<forall>k x. fmlookup o2 k = Some x \<longrightarrow> fmlookup p2 k = Some x)
    \<and> owns rd ''attributes'' p1 a \<and> owns rd ''attachments'' p2 a
    \<and> (\<exists>marks p. life rd a = Ok marks \<and> purge rd a = Ok p)
    \<and> (\<forall>e. addr_object a = EntryObj e \<longrightarrow> (\<exists>s. read_entry_generation rd a None = Ok s)
         \<and> (\<exists>rs. stored_revisions rd e = Ok rs))"
proof (cases "addr_object a")
  case (GroupObj g)
  then show ?thesis using assms by (auto simp: validate_address_def owns_def)
next
  case (EntryObj e)
  then obtain marks p s node attrs atts rs where r: "life rd a = Ok marks" "purge rd a = Ok p"
      "read_entry_generation rd a None = Ok s" "generation_object rd a = Ok node"
      "object rd node ''attributes'' = Ok attrs" "claim_keys o1 e (rd_keys rd attrs) = Ok p1"
      "object rd node ''attachments'' = Ok atts" "claim_keys o2 e (rd_keys rd atts) = Ok p2"
      "stored_revisions rd e = Ok rs"
    using assms by (auto simp: validate_address_def)
  have "owns rd ''attributes'' p1 a" "owns rd ''attachments'' p2 a"
    using claim_keys_Ok [OF r(6)] claim_keys_Ok [OF r(8)] EntryObj r(4,5,7) by (auto simp: owns_def owned_keys_def)
  then show ?thesis using claim_keys_Ok [OF r(6)] claim_keys_Ok [OF r(8)] EntryObj r by auto
qed

lemma validate_addresses_Ok:
  assumes "foldR (validate_address rd) (o1, o2) xs = Ok (p1, p2)"
  shows "(\<forall>k x. fmlookup o1 k = Some x \<longrightarrow> fmlookup p1 k = Some x)
    \<and> (\<forall>k x. fmlookup o2 k = Some x \<longrightarrow> fmlookup p2 k = Some x)
    \<and> (\<forall>a \<in> set xs. owns rd ''attributes'' p1 a \<and> owns rd ''attachments'' p2 a
         \<and> (\<exists>marks p. life rd a = Ok marks \<and> purge rd a = Ok p)
         \<and> (\<forall>e. addr_object a = EntryObj e \<longrightarrow> (\<exists>s. read_entry_generation rd a None = Ok s)
              \<and> (\<exists>rs. stored_revisions rd e = Ok rs)))"
  using assms
proof (induction xs arbitrary: o1 o2)
  case (Cons x xs)
  obtain q1 q2 where v: "validate_address rd (o1, o2) x = Ok (q1, q2)"
    and f: "foldR (validate_address rd) (q1, q2) xs = Ok (p1, p2)" using Cons.prems by auto
  note V = validate_address_Ok [OF v] and IH = Cons.IH [OF f]
  have "owns rd ''attributes'' p1 x" "owns rd ''attachments'' p2 x"
    using owns_mono [of rd "''attributes''" q1 x p1] owns_mono [of rd "''attachments''" q2 x p2] V IH by auto
  then show ?case using V IH by simp
qed simp

text \<open>
  A document that passed the structure check is sound. Every generation has its life
  marks, every entry generation can be read with its history, every fixed root is present,
  and no attribute or attachment identity belongs to two entries, in any generation.
\<close>

theorem structure_sound:
  assumes "validate_v1_structure rd = Ok ()" and "all rd = Ok addresses"
    and "a \<in> set addresses" and "addr_object a = EntryObj e"
  shows "(\<exists>marks. life rd a = Ok marks) \<and> (\<exists>s. read_entry_generation rd a None = Ok s)
    \<and> (\<exists>rs. stored_revisions rd e = Ok rs) \<and> (\<exists>nodes. tree rd = Ok nodes)
    \<and> (\<forall>name \<in> set STRUCTURE_ROOTS. \<exists>obj. object rd (rd_root rd) name = Ok obj)
    \<and> (\<forall>b e'. b \<in> set addresses \<and> addr_object b = EntryObj e' \<and> e' \<noteq> e
         \<longrightarrow> owned_keys rd ''attributes'' a \<inter> owned_keys rd ''attributes'' b = {}
           \<and> owned_keys rd ''attachments'' a \<inter> owned_keys rd ''attachments'' b = {})"
proof -
  obtain nodes p1 p2 where t: "tree rd = Ok nodes"
    and f: "foldR (validate_address rd) (fmempty, fmempty) addresses = Ok (p1, p2)"
    and roots: "\<forall>name \<in> set STRUCTURE_ROOTS. bindR (object rd (rd_root rd) name) (\<lambda>_. Ok ()) = Ok ()"
    using assms(1,2) by (auto simp: validate_v1_structure_def)
  note V = validate_addresses_Ok [OF f]
  have "owned_keys rd ''attributes'' a \<inter> owned_keys rd ''attributes'' b = {}
      \<and> owned_keys rd ''attachments'' a \<inter> owned_keys rd ''attachments'' b = {}"
    if "b \<in> set addresses" "addr_object b = EntryObj e'" "e' \<noteq> e" for b e'
  proof -
    have "owns rd ''attributes'' p1 a" "owns rd ''attributes'' p1 b"
      "owns rd ''attachments'' p2 a" "owns rd ''attachments'' p2 b" using V assms(3) that(1) by blast+
    then show ?thesis using assms(4) that(2,3) by (force simp: owns_def)
  qed
  then show ?thesis using V assms(3,4) t roots by auto
qed

theorem structure_sound_witness:
  "\<exists>addresses a s. all demo = Ok addresses \<and> a \<in> set addresses \<and> read_entry_generation demo a None = Ok s"
proof -
  have v: "validate_v1_structure demo = Ok ()" by code_simp
  have "(case all demo of Inl _ \<Rightarrow> False | Inr xs \<Rightarrow> ObjectAddress (EntryObj ''e'') ''e'' \<in> set xs)" by code_simp
  then obtain xs where xs: "all demo = Ok xs" "ObjectAddress (EntryObj ''e'') ''e'' \<in> set xs"
    by (cases "all demo") auto
  then show ?thesis using structure_sound [OF v xs(1) xs(2), of "''e''"] by auto
qed

subsection \<open>Late sources\<close>

definition waiting_source :: "('o, 'v, 'f) reader \<Rightarrow> 'o \<Rightarrow> 'o \<Rightarrow> string \<Rightarrow> bool" where
  "waiting_source rd evs processed i \<longleftrightarrow>
     (\<exists>v event r. unique rd evs i = Ok v \<and> decode rd (js_event rd) v = Ok event
        \<and> purge rd (me_address event) = Ok (Some r) \<and> i |\<notin>| pr_covered r \<and> get_all rd processed i = Ok [])"

lemma late_source_id: "late_source H rd i = Ok s \<Longrightarrow> ps_id s = i"
proof -
  assume "late_source H rd i = Ok s"
  then obtain values0 where "(case values0 of
       [(value, operation)] \<Rightarrow>
         bindR (decode rd (js_event rd) value) (\<lambda>event.
         bindR (purge rd (me_address event)) (\<lambda>p.
         bindR (ok_or p NotFound) (\<lambda>record'.
         if i |\<in>| pr_covered record' then Err NotFound
         else
         bindR (ok_or (ch_of_operation H operation) InvalidDocument) (\<lambda>hash.
         bindR (ok_or (ch_actor H hash) InvalidDocument) (\<lambda>actor.
         Ok \<lparr>ps_id = i, ps_address = me_address event, ps_change = ch_show H hash, ps_actor = actor,
             ps_revision = me_revision event\<rparr>)))))
     | _ \<Rightarrow> Err NotFound) = Ok s"
    unfolding late_source_def bindR_Inr by blast
  then show "ps_id s = i" by (cases values0; cases "tl values0") auto
qed

lemma pending_step_Ok:
  assumes "pending_step H rd evs processed result i = Ok result'"
  shows "if waiting_source rd evs processed i then \<exists>s. late_source H rd i = Ok s \<and> result' = result @ [s]
     else result' = result"
proof -
  obtain value1 event p w where s: "unique rd evs i = Ok value1" "decode rd (js_event rd) value1 = Ok event"
    "purge rd (me_address event) = Ok p"
    and w: "(if (case p of None \<Rightarrow> False | Some r \<Rightarrow> i |\<notin>| pr_covered r)
                then bindR (get_all rd processed i) (\<lambda>done_values. Ok (done_values = []))
                else Ok False) = Ok w"
    and r: "(if w then bindR (late_source H rd i) (\<lambda>s. Ok (result @ [s])) else Ok result) = Ok result'"
    using assms unfolding pending_step_def by (auto simp del: if_Err_Inr split del: if_split)
  have "waiting_source rd evs processed i \<longleftrightarrow> w"
    using s w by (auto simp: waiting_source_def split: option.splits if_splits)
  then show ?thesis using r by (auto split: if_splits)
qed

text \<open>
  The list of late changes is exact. It names, in key order, precisely the events of purged
  generations that the purge did not cover and that have no processing receipt yet, and each
  listed source is the one that reading it by its identity returns.
\<close>

theorem pending_sources_exact:
  assumes "pending_sources H rd = Ok ps" and "object rd (rd_root rd) ''events'' = Ok evs"
    and "object rd (rd_root rd) ''recoveries'' = Ok processed"
  shows "map ps_id ps = filter (waiting_source rd evs processed) (rd_keys rd evs)
    \<and> (\<forall>s \<in> set ps. late_source H rd (ps_id s) = Ok s)"
proof -
  have f: "foldR (pending_step H rd evs processed) [] (rd_keys rd evs) = Ok ps"
    using assms by (simp add: pending_sources_def)
  have "map ps_id ps = map ps_id result @ filter (waiting_source rd evs processed) ks
      \<and> (\<forall>s \<in> set ps. late_source H rd (ps_id s) = Ok s)"
    if "foldR (pending_step H rd evs processed) result ks = Ok ps"
      "\<forall>s \<in> set result. late_source H rd (ps_id s) = Ok s" for result ks
    using that
  proof (induction ks arbitrary: result)
    case (Cons k ks)
    then obtain r where r: "pending_step H rd evs processed result k = Ok r"
      and fr: "foldR (pending_step H rd evs processed) r ks = Ok ps" by auto
    show ?case
    proof (cases "waiting_source rd evs processed k")
      case True
      then obtain s where s: "late_source H rd k = Ok s" "r = result @ [s]"
        using pending_step_Ok [OF r] by auto
      then have "ps_id s = k" by (simp add: late_source_id)
      then show ?thesis using Cons.IH [OF fr] Cons.prems(2) s True by simp
    next
      case False
      then show ?thesis using Cons.IH [OF fr] Cons.prems(2) pending_step_Ok [OF r] by simp
    qed
  qed simp
  from this [OF f] show ?thesis by simp
qed

theorem pending_sources_exact_witness:
  "\<exists>ps. pending_sources \<lparr>ch_parse = Some, ch_show = id, ch_known = (\<lambda>h. True),
      ch_fork_at = (\<lambda>hs. Some (demo, hs)), ch_of_operation = (\<lambda>o1. Some ''h''), ch_actor = (\<lambda>h. Some ''aa'')\<rparr> demo = Ok ps
    \<and> map ps_id ps = [''ev'']"
proof -
  let ?H = "\<lparr>ch_parse = Some, ch_show = id, ch_known = (\<lambda>h. True),
      ch_fork_at = (\<lambda>hs. Some (demo, hs)), ch_of_operation = (\<lambda>o1. Some ''h''), ch_actor = (\<lambda>h. Some ''aa'')\<rparr>"
  have o: "object demo (rd_root demo) ''events'' = Ok 4" "object demo (rd_root demo) ''recoveries'' = Ok 7"
    "rd_keys demo 4 = [''ev'']" by code_simp+
  have "unique demo 4 ''ev'' = Ok (DByte 11)" "get_all demo 7 ''ev'' = Ok []"
    "purge demo (ObjectAddress (GroupObj ''c'') ''c'')
      = Ok (Some \<lparr>pr_operation = ''p'', pr_address = ObjectAddress (GroupObj ''c'') ''c'', pr_covered = {||}\<rparr>)"
    by code_simp+
  moreover have "decode demo (js_event demo) (DByte 11)
      = Ok \<lparr>me_address = ObjectAddress (GroupObj ''c'') ''c'', me_revision = None\<rparr>"
    by (simp add: decode_def demo_def)
  ultimately have w: "waiting_source demo 4 7 ''ev''" by (auto simp: waiting_source_def)
  have "is_ok (pending_sources ?H demo)" by code_simp
  then obtain ps where ps: "pending_sources ?H demo = Ok ps" by (auto simp: is_ok_ex)
  then show ?thesis using pending_sources_exact [OF ps o(1,2)] w o(3) by simp
qed

subsection \<open>Metadata updates\<close>

text \<open>
  Saving metadata writes real changes only. Applying the written value of an optional text,
  if any, gives what the update asks for, and nothing is written when that is the present
  value; the update computed from an edited form writes exactly the edited value; and a
  restoration writes every field it names, whether or not it differs.
\<close>

theorem metadata_updates:
  "(case changed_optional u original of None \<Rightarrow> original | Some new \<Rightarrow> new)
     = (case u of Keep \<Rightarrow> original | Set v \<Rightarrow> Some v | Clear \<Rightarrow> None)
   \<and> changed_optional u original \<noteq> Some original
   \<and> changed_optional (optional_patch original edited) original = (if edited = original then None else Some edited)
   \<and> (case changed_name n name of None \<Rightarrow> name | Some new \<Rightarrow> new) = (case n of Set v \<Rightarrow> v | _ \<Rightarrow> name)
   \<and> changed_name n name \<noteq> Some name
   \<and> confirmed_optional u original RRestore = (case u of Keep \<Rightarrow> None | Set v \<Rightarrow> Some (Some v) | Clear \<Rightarrow> Some None)
   \<and> (confirmed_icon c icon kind = None \<longleftrightarrow> c = Keep
        \<or> kind \<noteq> RRestore \<and> icon = (case c of Set i \<Rightarrow> i | _ \<Rightarrow> IconDefault))
   \<and> (case confirmed_parent p parent of None \<Rightarrow> map_option gr_id parent | Some new \<Rightarrow> new)
       = (case p of Keep \<Rightarrow> map_option gr_id parent | Set i \<Rightarrow> Some i | Clear \<Rightarrow> None)"
  by (cases u; cases n; cases c; cases p)
    (auto simp: changed_optional_def changed_name_def confirmed_optional_def optional_patch_def confirmed_icon_def
      confirmed_parent_def split: option.splits)

end
