(* ===== verification/Store_Read.thy ===== *)
theory Store_Read
  imports Trust_Invitation
begin

text \<open>
  Bounded reading of \<open>crates/taypeer-storage/src\<close>: the errors of \<open>lib.rs\<close>, the exact copy
  and hash of \<open>encrypted_object.rs\<close> and its \<open>ObjectReader\<close>.

  A Rust \<open>Read\<close> is its state with a \<open>read\<close> operation that is given the size of the buffer
  and returns some of the next bytes, none at the end. The locale \<open>byte_source\<close> is the
  contract of such a reader: whatever sizes are asked for, it delivers one fixed content
  and then ends or fails. What consumes a reader is specified by that content alone.
\<close>

datatype store_error =
    EmptyPassword | Authentication | InvalidFile | UnsupportedVersion | TooLarge | MissingBlob
  | BlobMismatch | Io | Busy | AlreadyExists | Changed | CommitUncertain | Random
  | Trust trust_error

type_synonym 's reading = "'s \<Rightarrow> nat \<Rightarrow> store_error + bytes \<times> 's"

definition CHUNK :: nat where "CHUNK = 1024 * 1024"
definition HEADER :: nat where "HEADER = 136"
definition MAX_PAYLOAD :: nat where "MAX_PAYLOAD = 16 * 1024 * 1024 * 1024"
definition MAX_FILE_SIZE :: nat where "MAX_FILE_SIZE = 64 * 1024 * 1024"

definition div_ceil :: "nat \<Rightarrow> nat \<Rightarrow> nat" where
  "div_ceil a b = (a + b - 1) div b"

definition MAX_ENCODED_SIZE :: nat where
  "MAX_ENCODED_SIZE = HEADER + MAX_PAYLOAD + (div_ceil MAX_PAYLOAD CHUNK + 1) * 40"

lemma CHUNK_pos [simp]: "0 < CHUNK" "CHUNK \<noteq> 0"
  by (simp_all add: CHUNK_def)

subsection \<open>Exact reads\<close>

text \<open>\<open>Read::read_exact\<close> of the standard library: an early end is an I/O error.\<close>

function read_exact :: "'s reading \<Rightarrow> 's \<Rightarrow> nat \<Rightarrow> store_error + bytes \<times> 's" where
  "read_exact rd s n =
     (if n = 0 then Ok ([], s)
      else case rd s n of
        Inl e \<Rightarrow> Err e
      | Inr (bs, s') \<Rightarrow>
          if bs = [] then Err Io
          else bindR (read_exact rd s' (n - length bs)) (\<lambda>(more, s''). Ok (bs @ more, s'')))"
  by pat_completeness auto
termination by (relation "measure (\<lambda>(rd, s, n). n)") auto

declare read_exact.simps [simp del]

function copy_chunks :: "'s reading \<Rightarrow> 's \<Rightarrow> nat \<Rightarrow> store_error + bytes \<times> 's" where
  "copy_chunks rd s left =
     (if left = 0 then Ok ([], s)
      else bindR (read_exact rd s (min left CHUNK)) (\<lambda>(bs, s').
           bindR (copy_chunks rd s' (left - min left CHUNK)) (\<lambda>(more, s''). Ok (bs @ more, s''))))"
  by pat_completeness auto
termination by (relation "measure (\<lambda>(rd, s, left). left)") auto

declare copy_chunks.simps [simp del]

text \<open>Nothing may follow the announced length.\<close>

definition at_end :: "'s reading \<Rightarrow> 's \<Rightarrow> store_error + unit" where
  "at_end rd s = bindR (rd s 1) (\<lambda>(extra, _). if extra \<noteq> [] then Err InvalidFile else Ok ())"

definition copy_exact :: "'s reading \<Rightarrow> 's \<Rightarrow> nat \<Rightarrow> store_error + bytes" where
  "copy_exact rd s n =
     bindR (copy_chunks rd s n) (\<lambda>(bs, s'). bindR (at_end rd s') (\<lambda>_. Ok bs))"

definition hash_exact :: "crypto \<Rightarrow> 's reading \<Rightarrow> 's \<Rightarrow> nat \<Rightarrow> store_error + digest" where
  "hash_exact K rd s n =
     bindR (copy_chunks rd s n) (\<lambda>(bs, s'). bindR (at_end rd s') (\<lambda>_. Ok (sha256 K bs)))"

subsection \<open>The contract of a reader\<close>

text \<open>A content is the bytes a reader delivers and the error it fails with at last, if any.\<close>

definition ending :: "bytes \<times> store_error option \<Rightarrow> store_error" where
  "ending c = (case snd c of None \<Rightarrow> Io | Some e \<Rightarrow> e)"

definition exactly :: "bytes \<times> store_error option \<Rightarrow> nat \<Rightarrow> store_error + bytes" where
  "exactly c n =
     (if length (fst c) < n then Err (ending c)
      else if n < length (fst c) then Err InvalidFile
      else case snd c of None \<Rightarrow> Ok (fst c) | Some e \<Rightarrow> Err e)"

locale byte_source =
  fixes rd :: "'s \<Rightarrow> nat \<Rightarrow> store_error + bytes \<times> 's"
    and content :: "'s \<Rightarrow> bytes \<times> store_error option"
  assumes read_bytes: "0 < n \<Longrightarrow> rd s n = Inr (bs, s') \<Longrightarrow> bs \<noteq> [] \<Longrightarrow>
      length bs \<le> n \<and> content s = (bs @ fst (content s'), snd (content s'))"
    and read_end: "0 < n \<Longrightarrow> rd s n = Inr ([], s') \<Longrightarrow> content s = ([], None)"
    and read_fails: "0 < n \<Longrightarrow> rd s n = Inl e \<Longrightarrow> content s = ([], Some e)"
begin

lemma read_exact_short:
  "length (fst (content s)) < n \<Longrightarrow> read_exact rd s n = Err (ending (content s))"
proof (induction n arbitrary: s rule: less_induct)
  case (less n)
  then have n: "0 < n" by auto
  show ?case
  proof (cases "rd s n")
    case (Inl e)
    then show ?thesis using read_fails [OF n Inl] n by (simp add: read_exact.simps [of rd s n] ending_def)
  next
    case (Inr p)
    obtain bs s' where p: "p = (bs, s')" by fastforce
    show ?thesis
    proof (cases "bs = []")
      case True
      then show ?thesis
        using read_end [OF n] n Inr p by (simp add: read_exact.simps [of rd s n] ending_def)
    next
      case False
      then have c: "length bs \<le> n" "content s = (bs @ fst (content s'), snd (content s'))"
        using read_bytes [OF n] Inr p by auto
      have "read_exact rd s' (n - length bs) = Err (ending (content s'))"
        using less.prems c False n by (intro less.IH) (cases bs; auto)+
      then show ?thesis
        using n Inr p False c by (simp add: read_exact.simps [of rd s n] ending_def)
    qed
  qed
qed

lemma read_exact_full:
  "n \<le> length (fst (content s)) \<Longrightarrow>
     \<exists>s'. read_exact rd s n = Ok (take n (fst (content s)), s')
        \<and> content s' = (drop n (fst (content s)), snd (content s))"
proof (induction n arbitrary: s rule: less_induct)
  case (less n)
  show ?case
  proof (cases "n = 0")
    case True
    then show ?thesis by (simp add: read_exact.simps)
  next
    case False
    then have n: "0 < n" by simp
    show ?thesis
    proof (cases "rd s n")
      case (Inl e)
      then show ?thesis using read_fails [OF n Inl] less.prems n by simp
    next
      case (Inr p)
      obtain bs s' where p: "p = (bs, s')" by fastforce
      show ?thesis
      proof (cases "bs = []")
        case True
        then show ?thesis using read_end [OF n] Inr p less.prems n by simp
      next
        case ne: False
        then have c: "length bs \<le> n" "content s = (bs @ fst (content s'), snd (content s'))"
          using read_bytes [OF n] Inr p by auto
        have "n - length bs < n" "n - length bs \<le> length (fst (content s'))"
          using ne n c less.prems by (cases bs; auto)+
        from less.IH [OF this] obtain t where
          "read_exact rd s' (n - length bs) = Ok (take (n - length bs) (fst (content s')), t)"
          "content t = (drop (n - length bs) (fst (content s')), snd (content s'))"
          by blast
        then show ?thesis
          using n Inr p ne c by (simp add: read_exact.simps [of rd s n])
      qed
    qed
  qed
qed

lemma read_exact_Ok:
  assumes "read_exact rd s n = Ok (bs, t)"
  shows "bs = take n (fst (content s))" and "length bs = n"
    and "content t = (drop n (fst (content s)), snd (content s))"
proof -
  have l: "n \<le> length (fst (content s))"
    using assms read_exact_short [of s n] by (cases "n \<le> length (fst (content s))") simp_all
  then show "bs = take n (fst (content s))" and "length bs = n"
    and "content t = (drop n (fst (content s)), snd (content s))"
    using read_exact_full [OF l] assms by auto
qed

lemma copy_chunks_short:
  "length (fst (content s)) < n \<Longrightarrow> copy_chunks rd s n = Err (ending (content s))"
proof (induction n arbitrary: s rule: less_induct)
  case (less n)
  let ?k = "min n CHUNK"
  show ?case
  proof (cases "?k \<le> length (fst (content s))")
    case True
    then obtain t where t: "read_exact rd s ?k = Ok (take ?k (fst (content s)), t)"
      "content t = (drop ?k (fst (content s)), snd (content s))"
      using read_exact_full by blast
    have "copy_chunks rd t (n - ?k) = Err (ending (content t))"
      using less.prems t(2) True by (intro less.IH) (auto simp: min_def split: if_splits)
    then show ?thesis
      using less.prems t by (simp add: copy_chunks.simps [of rd s n] ending_def)
  next
    case False
    then show ?thesis
      using less.prems by (simp add: copy_chunks.simps [of rd s n] read_exact_short)
  qed
qed

lemma copy_chunks_full:
  "n \<le> length (fst (content s)) \<Longrightarrow>
     \<exists>s'. copy_chunks rd s n = Ok (take n (fst (content s)), s')
        \<and> content s' = (drop n (fst (content s)), snd (content s))"
proof (induction n arbitrary: s rule: less_induct)
  case (less n)
  show ?case
  proof (cases "n = 0")
    case True
    then show ?thesis by (simp add: copy_chunks.simps)
  next
    case False
    let ?k = "min n CHUNK"
    have "?k \<le> length (fst (content s))" using less.prems by simp
    from read_exact_full [OF this] obtain t where t: "read_exact rd s ?k = Ok (take ?k (fst (content s)), t)"
      "content t = (drop ?k (fst (content s)), snd (content s))"
      by blast
    have "n - ?k < n" "n - ?k \<le> length (fst (content t))" using False t less.prems by auto
    from less.IH [OF this] obtain u where
      "copy_chunks rd t (n - ?k) = Ok (take (n - ?k) (fst (content t)), u)"
      "content u = (drop (n - ?k) (fst (content t)), snd (content t))"
      by blast
    moreover have "take ?k xs @ take (n - ?k) (drop ?k xs) = take n xs" for xs :: bytes
      by (metis le_add_diff_inverse min.cobounded1 take_add)
    moreover have "drop (n - ?k) (drop ?k xs) = drop n xs" for xs :: bytes
      by (simp add: min_def)
    ultimately show ?thesis
      using False t by (simp add: copy_chunks.simps [of rd s n])
  qed
qed

lemma at_end_content:
  "at_end rd s = (case content s of
      ([], None) \<Rightarrow> Ok () | ([], Some e) \<Rightarrow> Err e | (_ # _, _) \<Rightarrow> Err InvalidFile)"
proof (cases "rd s 1")
  case (Inl e)
  then show ?thesis using read_fails [of 1 s e] by (simp add: at_end_def)
next
  case (Inr p)
  obtain bs s' where p: "p = (bs, s')" by fastforce
  show ?thesis
  proof (cases bs)
    case Nil
    then show ?thesis using Inr p read_end [of 1 s s'] by (simp add: at_end_def)
  next
    case (Cons b rest)
    then show ?thesis using Inr p read_bytes [of 1 s bs s'] by (simp add: at_end_def)
  qed
qed

lemma at_end_Ok: "at_end rd s = Ok u \<longleftrightarrow> content s = ([], None)"
  by (cases "content s"; cases "fst (content s)"; cases "snd (content s)") (simp_all add: at_end_content)

text \<open>Copying exactly succeeds for exactly one length, on a reader that ends without an error.\<close>

lemma copy_exact_content: "copy_exact rd s n = exactly (content s) n"
proof (cases "n \<le> length (fst (content s))")
  case True
  then obtain t where t: "copy_chunks rd s n = Ok (take n (fst (content s)), t)"
    "content t = (drop n (fst (content s)), snd (content s))"
    using copy_chunks_full by blast
  show ?thesis
  proof (cases "drop n (fst (content s))")
    case Nil
    then show ?thesis using True t
      by (auto simp: copy_exact_def exactly_def at_end_content split: option.splits)
  next
    case (Cons b bs)
    moreover have "n < length (fst (content s))" using Cons by (metis drop_eq_Nil2 list.discI not_le)
    ultimately show ?thesis using True t
      by (simp add: copy_exact_def exactly_def at_end_content)
  qed
next
  case False
  then show ?thesis by (simp add: copy_exact_def copy_chunks_short exactly_def)
qed

lemma hash_exact_copy: "hash_exact K rd s n = bindR (copy_exact rd s n) (\<lambda>bs. Ok (sha256 K bs))"
  by (simp add: hash_exact_def copy_exact_def bindR_assoc split_def)

lemma hash_exact_content: "hash_exact K rd s n = bindR (exactly (content s) n) (\<lambda>bs. Ok (sha256 K bs))"
  by (simp add: hash_exact_copy copy_exact_content)

end

subsection \<open>Readers over an immutable file\<close>

text \<open>
  \<open>ObjectReader\<close>: a window of an immutable ciphertext file. A file shorter than the window
  is an early end of file.
\<close>

record object_reader =
  or_file :: bytes
  or_offset :: nat
  or_remaining :: nat

definition object_read :: "object_reader reading" where
  "object_read r n =
     (let len = min (or_remaining r) n in
      if len = 0 then Ok ([], r)
      else let bs = take len (drop (or_offset r) (or_file r)) in
           if bs = [] then Err Io
           else Ok (bs, r\<lparr>or_offset := or_offset r + length bs, or_remaining := or_remaining r - length bs\<rparr>))"

definition window :: "object_reader \<Rightarrow> bytes" where
  "window r = take (or_remaining r) (drop (or_offset r) (or_file r))"

definition object_content :: "object_reader \<Rightarrow> bytes \<times> store_error option" where
  "object_content r = (window r, if length (window r) < or_remaining r then Some Io else None)"

interpretation object_source: byte_source object_read object_content
proof
  fix r s' :: object_reader and n bs
  assume n: "0 < n" and read: "object_read r n = Inr (bs, s')" and ne: "bs \<noteq> []"
  let ?len = "min (or_remaining r) n" and ?tail = "drop (or_offset r) (or_file r)"
  have bs: "bs = take ?len ?tail"
    and s': "s' = r\<lparr>or_offset := or_offset r + length bs, or_remaining := or_remaining r - length bs\<rparr>"
    using read ne by (auto simp: object_read_def Let_def split: if_splits)
  have "length bs \<le> or_remaining r" by (simp add: bs)
  moreover have "bs = take (length bs) ?tail"
    using append_take_drop_id [of ?len ?tail] unfolding bs [symmetric] by (metis append_eq_conv_conj)
  ultimately have w: "window r = bs @ window s'"
  proof -
    assume l: "length bs \<le> or_remaining r" and b: "bs = take (length bs) ?tail"
    have "window r = take (length bs + (or_remaining r - length bs)) ?tail"
      using l by (simp add: window_def)
    also have "\<dots> = take (length bs) ?tail @ take (or_remaining r - length bs) (drop (length bs) ?tail)"
      by (rule take_add)
    also have "drop (length bs) ?tail = drop (or_offset s') (or_file s')"
      by (simp add: s' add.commute)
    finally show ?thesis using b by (simp add: window_def s')
  qed
  have n': "length bs \<le> n" by (simp add: bs)
  have r': "or_remaining s' = or_remaining r - length bs" by (simp add: s')
  have "length (window r) = length bs + length (window s')" using w by simp
  then have "length (window r) < or_remaining r \<longleftrightarrow> length (window s') < or_remaining s'"
    using \<open>length bs \<le> or_remaining r\<close> unfolding r' by linarith
  then show "length bs \<le> n \<and> object_content r = (bs @ fst (object_content s'), snd (object_content s'))"
    using w n' by (simp only: object_content_def fst_conv snd_conv simp_thms)
next
  fix r s' :: object_reader and n
  assume "0 < n" and "object_read r n = Inr ([], s')"
  then show "object_content r = ([], None)"
    by (auto simp: object_read_def object_content_def window_def Let_def split: if_splits)
next
  fix r :: object_reader and n e
  assume "0 < n" and "object_read r n = Inl e"
  then show "object_content r = ([], Some e)"
    by (auto simp: object_read_def object_content_def window_def Let_def min_def split: if_splits)
qed

end
