(* ===== verification/Store_Crypto.thy ===== *)
theory Store_Crypto
  imports Store_Read
begin

text \<open>
  \<open>crates/taypeer-storage/src/crypto.rs\<close>, \<open>kdf.rs\<close> and \<open>stream.rs\<close>: the password header
  that wraps a content key, the chunked authenticated stream under that key and its
  pull-based reader.

  Argon2id, XChaCha20-Poly1305, the random source and the clock are not part of the
  repository: \<open>aead\<close> holds the first two, \<open>rng k n\<close> is the outcome of the \<open>k\<close>-th request
  for \<open>n\<close> random bytes and the elapsed milliseconds of a derivation are an argument.
\<close>

type_synonym read_key = bytes
type_synonym rng = "nat \<Rightarrow> nat \<Rightarrow> bytes option"

record aead =
  ae_seal :: "read_key \<Rightarrow> bytes \<Rightarrow> bytes \<Rightarrow> bytes \<Rightarrow> bytes option"
  ae_open :: "read_key \<Rightarrow> bytes \<Rightarrow> bytes \<Rightarrow> bytes \<Rightarrow> bytes option"
  ae_derive :: "bytes \<Rightarrow> bytes \<Rightarrow> nat \<Rightarrow> read_key option"

text \<open>
  Documented behaviour of the cipher: a nonce has 24 bytes, the tag 16, and a ciphertext
  opens to a text exactly when it is the sealing of that text.
\<close>

definition aead_laws :: "aead \<Rightarrow> bool" where
  "aead_laws A \<longleftrightarrow>
     (\<forall>k n a m c. ae_open A k n a c = Some m \<longleftrightarrow> ae_seal A k n a m = Some c)
     \<and> (\<forall>k n a m c. ae_seal A k n a m = Some c \<longrightarrow> length c = length m + 16)"

definition rng_laws :: "rng \<Rightarrow> bool" where
  "rng_laws rng \<longleftrightarrow> (\<forall>k n b. rng k n = Some b \<longrightarrow> length b = n)"

definition PREFIX :: nat where "PREFIX = 32"
definition WRAPPED :: nat where "WRAPPED = 104"
definition MAGIC :: bytes where "MAGIC = ascii ''TAYPEER'' @ [0]"
definition VERSION :: bytes where "VERSION = [1, 0, 3, 0]"
definition KDF_MEMORY_KIB :: nat where "KDF_MEMORY_KIB = 64 * 1024"
definition KDF_PARALLELISM :: nat where "KDF_PARALLELISM = 1"
definition KDF_MIN_ITERATIONS :: nat where "KDF_MIN_ITERATIONS = 3"
definition KDF_MAX_ITERATIONS :: nat where "KDF_MAX_ITERATIONS = 256"

definition random_bytes :: "rng \<Rightarrow> nat \<Rightarrow> nat \<Rightarrow> store_error + bytes" where
  "random_bytes rng k n = ok_or (rng k n) Random"

text \<open>\<open>bytes[a..b]\<close> of a slice that is long enough.\<close>

definition slice :: "nat \<Rightarrow> nat \<Rightarrow> 'a list \<Rightarrow> 'a list" where
  "slice a b xs = take (b - a) (drop a xs)"

subsection \<open>Key derivation\<close>

record kdf_parameters =
  kp_memory_kib :: nat
  kp_parallelism :: nat
  kp_iterations :: nat

record kdf_measurement =
  km_parameters :: kdf_parameters
  km_elapsed_ms :: nat

definition kdf_with :: "nat \<Rightarrow> kdf_parameters" where
  "kdf_with t = \<lparr>kp_memory_kib = KDF_MEMORY_KIB, kp_parallelism = KDF_PARALLELISM, kp_iterations = t\<rparr>"

definition derive_measured ::
  "aead \<Rightarrow> nat \<Rightarrow> bytes \<Rightarrow> bytes \<Rightarrow> nat \<Rightarrow> store_error + read_key \<times> kdf_measurement" where
  "derive_measured A elapsed password salt iterations =
     (if password = [] then Err EmptyPassword
      else bindR (ok_or (ae_derive A password salt iterations) InvalidFile) (\<lambda>key.
      if elapsed > U64_MAX then Err TooLarge
      else Ok (key, \<lparr>km_parameters = kdf_with iterations, km_elapsed_ms = elapsed\<rparr>)))"

definition aead_seal :: "aead \<Rightarrow> read_key \<Rightarrow> bytes \<Rightarrow> bytes \<Rightarrow> bytes \<Rightarrow> store_error + bytes" where
  "aead_seal A key nonce a clear = ok_or (ae_seal A key nonce a clear) TooLarge"

definition aead_open :: "aead \<Rightarrow> read_key \<Rightarrow> bytes \<Rightarrow> bytes \<Rightarrow> bytes \<Rightarrow> store_error + bytes" where
  "aead_open A key nonce a cipher = ok_or (ae_open A key nonce a cipher) Authentication"

definition validate_kdf_target :: "nat \<Rightarrow> store_error + unit" where
  "validate_kdf_target target_ms = (if target_ms < 500 \<or> target_ms > 5000 then Err InvalidFile else Ok ())"

text \<open>The iterations one trial pass of \<open>KDF_MIN_ITERATIONS\<close> scales to.\<close>

definition calibrated_iterations :: "nat \<Rightarrow> nat \<Rightarrow> nat" where
  "calibrated_iterations target_ms elapsed_ms =
     max KDF_MIN_ITERATIONS (min KDF_MAX_ITERATIONS (target_ms * KDF_MIN_ITERATIONS div max elapsed_ms 1))"

definition calibrated_kek ::
  "aead \<Rightarrow> nat \<Rightarrow> nat \<Rightarrow> bytes \<Rightarrow> bytes \<Rightarrow> nat \<Rightarrow> store_error + read_key \<times> kdf_measurement" where
  "calibrated_kek A elapsed elapsed2 password salt target_ms =
     bindR (validate_kdf_target target_ms) (\<lambda>_.
     bindR (derive_measured A elapsed password salt KDF_MIN_ITERATIONS) (\<lambda>(trial, measured).
     let iterations = calibrated_iterations target_ms (km_elapsed_ms measured) in
     if iterations = KDF_MIN_ITERATIONS then Ok (trial, measured)
     else derive_measured A elapsed2 password salt iterations))"

subsection \<open>Headers\<close>

definition header_iterations :: "bytes \<Rightarrow> nat" where
  "header_iterations header = le_value (slice 12 16 header)"

definition payload_length :: "bytes \<Rightarrow> store_error + nat" where
  "payload_length header =
     (if length header \<noteq> HEADER then Err InvalidFile else Ok (le_value (slice 128 136 header)))"

definition encoded_length :: "nat \<Rightarrow> nat" where
  "encoded_length n = HEADER + n + (div_ceil n CHUNK + 1) * 40"

definition validate_header :: "bytes \<Rightarrow> nat \<Rightarrow> store_error + unit" where
  "validate_header header file_length =
     (if length header \<noteq> HEADER \<or> take 8 header \<noteq> MAGIC then Err InvalidFile
      else if slice 8 12 header \<noteq> VERSION then Err UnsupportedVersion
      else let t = header_iterations header in
      if t < KDF_MIN_ITERATIONS \<or> t > KDF_MAX_ITERATIONS then Err InvalidFile
      else bindR (payload_length header) (\<lambda>len.
      if len > MAX_PAYLOAD then Err TooLarge
      else if encoded_length len \<noteq> file_length then Err InvalidFile else Ok ()))"

text \<open>Local objects sealed by a stored key have no password wrapper.\<close>

definition keyed_header :: "rng \<Rightarrow> nat \<Rightarrow> bytes \<Rightarrow> store_error + bytes" where
  "keyed_header rng k magic =
     bindR (random_bytes rng k 88) (\<lambda>r.
     Ok (magic @ VERSION @ le_bytes 4 3 @ r @ replicate (HEADER - WRAPPED) 0))"

definition validate_keyed :: "bytes \<Rightarrow> nat \<Rightarrow> bytes \<Rightarrow> store_error + unit" where
  "validate_keyed header len magic =
     (if length header \<noteq> HEADER \<or> take 8 header \<noteq> magic then Err InvalidFile
      else validate_header (MAGIC @ drop 8 header) len)"

definition kdf_parameters_with_magic :: "bytes \<Rightarrow> bytes \<Rightarrow> store_error + kdf_parameters" where
  "kdf_parameters_with_magic header magic =
     (if length header \<noteq> HEADER \<or> take 8 header \<noteq> magic \<or> slice 8 12 header \<noteq> VERSION
      then Err InvalidFile
      else let t = header_iterations header in
      if t < KDF_MIN_ITERATIONS \<or> t > KDF_MAX_ITERATIONS then Err InvalidFile
      else Ok (kdf_with t))"

definition same_key_binding :: "bytes \<Rightarrow> bytes \<Rightarrow> bool" where
  "same_key_binding left right \<longleftrightarrow>
     length left = HEADER \<and> length right = HEADER \<and> take WRAPPED left = take WRAPPED right"

text \<open>
  \<open>create_header\<close>: random requests \<open>k\<close> (salt), \<open>k + 1\<close> (content key) and \<open>k + 2\<close> (nonce); the
  password key wraps the fresh content key over the fixed prefix.
\<close>

definition create_header_with_magic ::
  "aead \<Rightarrow> rng \<Rightarrow> nat \<Rightarrow> nat \<Rightarrow> nat \<Rightarrow> bytes \<Rightarrow> nat \<Rightarrow> bytes \<Rightarrow> store_error + bytes \<times> read_key" where
  "create_header_with_magic A rng k elapsed elapsed2 password target_ms magic =
     bindR (validate_kdf_target target_ms) (\<lambda>_.
     bindR (random_bytes rng k 16) (\<lambda>salt.
     bindR (calibrated_kek A elapsed elapsed2 password salt target_ms) (\<lambda>(kek, measurement).
     bindR (random_bytes rng (k + 1) 32) (\<lambda>key.
     let bytes = magic @ VERSION @ le_bytes 4 (kp_iterations (km_parameters measurement)) @ salt in
     bindR (random_bytes rng (k + 2) 24) (\<lambda>nonce.
     bindR (aead_seal A kek nonce (bytes @ ascii ''/wrap'') key) (\<lambda>wrapped.
     let whole = bytes @ nonce @ wrapped in
     Ok (take HEADER (whole @ replicate (HEADER - length whole) 0), key)))))))"

definition create_header ::
  "aead \<Rightarrow> rng \<Rightarrow> nat \<Rightarrow> nat \<Rightarrow> nat \<Rightarrow> bytes \<Rightarrow> nat \<Rightarrow> store_error + bytes \<times> read_key" where
  "create_header A rng k elapsed elapsed2 password target_ms =
     create_header_with_magic A rng k elapsed elapsed2 password target_ms MAGIC"

definition unlock_key_measured_with_magic ::
  "aead \<Rightarrow> nat \<Rightarrow> bytes \<Rightarrow> bytes \<Rightarrow> bytes \<Rightarrow> store_error + read_key \<times> kdf_measurement" where
  "unlock_key_measured_with_magic A elapsed header password magic =
     bindR (kdf_parameters_with_magic header magic) (\<lambda>parameters.
     bindR (derive_measured A elapsed password (slice 16 32 header) (kp_iterations parameters)) (\<lambda>(kek, measurement).
     bindR (aead_open A kek (slice PREFIX 56 header) (take PREFIX header @ ascii ''/wrap'')
              (slice 56 WRAPPED header)) (\<lambda>raw.
     if length raw \<noteq> 32 then Err InvalidFile else Ok (raw, measurement))))"

definition unlock_key :: "aead \<Rightarrow> nat \<Rightarrow> bytes \<Rightarrow> bytes \<Rightarrow> store_error + read_key" where
  "unlock_key A elapsed header password =
     bindR (unlock_key_measured_with_magic A elapsed header password MAGIC) (\<lambda>(key, _). Ok key)"

subsection \<open>The chunked stream\<close>

text \<open>Each chunk is bound to the header, to its position and to whether it is the last.\<close>

definition chunk_aad :: "bytes \<Rightarrow> nat \<Rightarrow> bool \<Rightarrow> bytes" where
  "chunk_aad header index final_chunk =
     header @ ascii ''/chunk/v1'' @ le_bytes 8 index @ [if final_chunk then 1 else 0]"

function encrypt_chunks ::
  "aead \<Rightarrow> rng \<Rightarrow> nat \<Rightarrow> bytes \<Rightarrow> read_key \<Rightarrow> nat \<Rightarrow> nat \<Rightarrow> 's reading \<Rightarrow> 's \<Rightarrow> store_error + bytes \<times> 's" where
  "encrypt_chunks A rng k header key index remaining rd s =
     (let size = min remaining CHUNK in
      bindR (read_exact rd s size) (\<lambda>(buffer, s).
      bindR (random_bytes rng k 24) (\<lambda>nonce.
      bindR (aead_seal A key nonce (chunk_aad header index (remaining = 0)) buffer) (\<lambda>cipher.
      if remaining = 0 then Ok (nonce @ cipher, s)
      else bindR (encrypt_chunks A rng (k + 1) header key (index + 1) (remaining - size) rd s)
             (\<lambda>(written, s). Ok (nonce @ cipher @ written, s))))))"
  by pat_completeness auto
termination by (relation "measure (\<lambda>(A, rng, k, header, key, index, remaining, rd, s). remaining)") auto

declare encrypt_chunks.simps [simp del]

text \<open>The header of the stream is returned beside everything written.\<close>

definition encrypt_stream ::
  "aead \<Rightarrow> rng \<Rightarrow> nat \<Rightarrow> bytes \<Rightarrow> read_key \<Rightarrow> 's reading \<Rightarrow> 's \<Rightarrow> nat \<Rightarrow> store_error + bytes \<times> bytes" where
  "encrypt_stream A rng k header key rd s len =
     (if len > MAX_PAYLOAD then Err TooLarge
      else bindR (random_bytes rng k 24) (\<lambda>stream.
      let nxt = take WRAPPED header @ stream @ le_bytes 8 len in
      bindR (encrypt_chunks A rng (k + 1) nxt key 0 len rd s) (\<lambda>(written, s).
      bindR (at_end rd s) (\<lambda>_. Ok (nxt, nxt @ written)))))"

function decrypt_chunks ::
  "aead \<Rightarrow> 's reading \<Rightarrow> bytes \<Rightarrow> read_key \<Rightarrow> nat \<Rightarrow> nat \<Rightarrow> 's \<Rightarrow> store_error + bytes \<times> 's" where
  "decrypt_chunks A rd header key index remaining s =
     (let size = min remaining CHUNK in
      bindR (read_exact rd s 24) (\<lambda>(nonce, s).
      bindR (read_exact rd s (size + 16)) (\<lambda>(cipher, s).
      bindR (aead_open A key nonce (chunk_aad header index (remaining = 0)) cipher) (\<lambda>clear.
      if remaining = 0 then Ok (clear, s)
      else bindR (decrypt_chunks A rd header key (index + 1) (remaining - size) s)
             (\<lambda>(more, s). Ok (clear @ more, s))))))"
  by pat_completeness auto
termination by (relation "measure (\<lambda>(A, rd, header, key, index, remaining, s). remaining)") auto

declare decrypt_chunks.simps [simp del]

definition decrypt_stream ::
  "aead \<Rightarrow> 's reading \<Rightarrow> bytes \<Rightarrow> read_key \<Rightarrow> 's \<Rightarrow> store_error + bytes" where
  "decrypt_stream A rd header key s =
     bindR (payload_length header) (\<lambda>remaining.
     bindR (decrypt_chunks A rd header key 0 remaining s) (\<lambda>(clear, s).
     bindR (at_end rd s) (\<lambda>_. Ok clear)))"

subsection \<open>The pull-based reader (\<open>stream.rs\<close>)\<close>

record 's decrypt_reader =
  dr_input :: 's
  dr_key :: read_key
  dr_header :: bytes
  dr_remaining :: nat
  dr_index :: nat
  dr_buffer :: bytes
  dr_offset :: nat
  dr_done :: bool

definition decrypt_reader_new :: "'s \<Rightarrow> read_key \<Rightarrow> bytes \<Rightarrow> store_error + 's decrypt_reader" where
  "decrypt_reader_new input key header =
     bindR (payload_length header) (\<lambda>remaining.
     if remaining > MAX_PAYLOAD then Err TooLarge
     else Ok \<lparr>dr_input = input, dr_key = key, dr_header = header, dr_remaining = remaining,
              dr_index = 0, dr_buffer = [], dr_offset = 0, dr_done = False\<rparr>)"

definition decrypt_next :: "aead \<Rightarrow> 's reading \<Rightarrow> 's decrypt_reader \<Rightarrow> store_error + 's decrypt_reader" where
  "decrypt_next A rd d =
     (let final_chunk = (dr_remaining d = 0); size = min (dr_remaining d) CHUNK in
      bindR (read_exact rd (dr_input d) 24) (\<lambda>(nonce, s).
      bindR (read_exact rd s (size + 16)) (\<lambda>(cipher, s).
      bindR (aead_open A (dr_key d) nonce (chunk_aad (dr_header d) (dr_index d) final_chunk) cipher) (\<lambda>clear.
      let d = d\<lparr>dr_input := s, dr_buffer := clear, dr_offset := 0, dr_remaining := dr_remaining d - size,
                dr_index := dr_index d + 1\<rparr> in
      if final_chunk
      then bindR (at_end rd s) (\<lambda>_. Ok (d\<lparr>dr_done := True\<rparr>))
      else Ok d))))"

definition decrypt_read :: "aead \<Rightarrow> 's reading \<Rightarrow> 's decrypt_reader reading" where
  "decrypt_read A rd d n =
     (if n = 0 \<or> dr_done d then Ok ([], d)
      else bindR (if dr_offset d = length (dr_buffer d) then decrypt_next A rd d else Ok d) (\<lambda>d.
      let size = min n (length (dr_buffer d) - dr_offset d) in
      Ok (take size (drop (dr_offset d) (dr_buffer d)), d\<lparr>dr_offset := dr_offset d + size\<rparr>)))"

subsection \<open>Local drafts\<close>

definition seal_draft :: "aead \<Rightarrow> rng \<Rightarrow> nat \<Rightarrow> bytes \<Rightarrow> read_key \<Rightarrow> bytes \<Rightarrow> store_error + bytes" where
  "seal_draft A rng k header key clear =
     (if length clear > MAX_FILE_SIZE - 40 then Err TooLarge
      else bindR (random_bytes rng k 24) (\<lambda>nonce.
      bindR (aead_seal A key nonce (take WRAPPED header @ ascii ''/local-draft'') clear) (\<lambda>cipher.
      Ok (nonce @ cipher))))"

definition open_draft :: "aead \<Rightarrow> bytes \<Rightarrow> read_key \<Rightarrow> bytes \<Rightarrow> store_error + bytes" where
  "open_draft A header key bytes =
     (if length bytes < 40 then Err InvalidFile
      else aead_open A key (take 24 bytes) (take WRAPPED header @ ascii ''/local-draft'') (drop 24 bytes))"

end
