(* ===== verification/Store_Object.thy ===== *)
theory Store_Object
  imports Store_Crypto
begin

text \<open>
  \<open>crates/taypeer-storage/src/encrypted_object.rs\<close>: an encrypted object is a magic number, the
  signed envelope and the ciphertext; it is accepted only if its bytes are the announced ones
  and its envelope verifies. The JSON form of an envelope (\<open>serde_json\<close>) is the record
  \<open>envelope_codec\<close>; files are immutable byte lists, allocation of temporary files succeeds.
\<close>

record envelope_codec =
  en_encode :: "object_envelope \<Rightarrow> bytes option"
  en_decode :: "bytes \<Rightarrow> object_envelope option"

text \<open>Documented behaviour: what was written can be parsed back.\<close>

definition envelope_codec_laws :: "envelope_codec \<Rightarrow> bool" where
  "envelope_codec_laws J \<longleftrightarrow> (\<forall>e b. en_encode J e = Some b \<longrightarrow> en_decode J b = Some e)"

definition OBJECT_MAGIC :: bytes where "OBJECT_MAGIC = ascii ''TAYOBJ4'' @ [0]"
definition MAX_ENVELOPE :: nat where "MAX_ENVELOPE = 16 * 1024"

record encrypted_object =
  eo_file :: bytes
  eo_descriptor :: cipher_object
  eo_envelope :: object_envelope
  eo_offset :: nat

definition read_envelope ::
  "crypto \<Rightarrow> envelope_codec \<Rightarrow> 's reading \<Rightarrow> 's \<Rightarrow> cipher_object \<Rightarrow> control_chain
     \<Rightarrow> store_error + (object_envelope \<times> nat) \<times> 's" where
  "read_envelope K J rd s descriptor ch =
     bindR (read_exact rd s 12) (\<lambda>(prefix, s).
     if take 8 prefix \<noteq> OBJECT_MAGIC then Err InvalidFile
     else let len = le_value (slice 8 12 prefix) in
     if len > MAX_ENVELOPE then Err TooLarge
     else bindR (read_exact rd s len) (\<lambda>(json, s).
     bindR (ok_or (en_decode J json) InvalidFile) (\<lambda>envelope.
     bindR (map_errR Trust (envelope_verify K envelope ch)) (\<lambda>_.
     let offset = 12 + len in
     if checked_add (eb_length envelope) offset \<noteq> Some (co_length descriptor)
        \<or> eb_kind envelope \<noteq> co_kind descriptor
     then Err InvalidFile
     else Ok ((envelope, offset), s)))))"

text \<open>A file positioned at a byte: what \<open>File::read\<close> returns from there on.\<close>

definition file_at :: "bytes \<Rightarrow> nat \<Rightarrow> object_reader" where
  "file_at file offset = \<lparr>or_file = file, or_offset = offset, or_remaining = length file - offset\<rparr>"

definition receive_in ::
  "crypto \<Rightarrow> envelope_codec \<Rightarrow> 's reading \<Rightarrow> 's \<Rightarrow> cipher_object \<Rightarrow> control_chain \<Rightarrow> store_error + encrypted_object" where
  "receive_in K J rd input descriptor ch =
     (if co_length descriptor > MAX_ENCODED_SIZE \<or> co_length descriptor < 12 then Err TooLarge
      else bindR (copy_exact rd input (co_length descriptor)) (\<lambda>file.
      bindR (hash_exact K object_read (file_at file 0) (co_length descriptor)) (\<lambda>digest.
      if digest \<noteq> co_digest descriptor then Err Authentication
      else bindR (read_envelope K J object_read (file_at file 0) descriptor ch) (\<lambda>((envelope, offset), rest).
      bindR (hash_exact K object_read rest (eb_length envelope)) (\<lambda>ciphertext.
      if ciphertext \<noteq> eb_ciphertext envelope then Err Authentication
      else Ok \<lparr>eo_file = file, eo_descriptor = descriptor, eo_envelope = envelope, eo_offset = offset\<rparr>)))))"

text \<open>\<open>open_source\<close>: the descriptor of a local spool is derived from its bytes.\<close>

definition open_source ::
  "crypto \<Rightarrow> envelope_codec \<Rightarrow> bytes \<Rightarrow> control_chain \<Rightarrow> store_error + encrypted_object" where
  "open_source K J file ch =
     (let len = length file in
      if len < 12 \<or> len > MAX_ENCODED_SIZE then Err TooLarge
      else bindR (hash_exact K object_read (file_at file 0) len) (\<lambda>digest.
      bindR (read_exact object_read (file_at file 0) 12) (\<lambda>(prefix, s).
      if take 8 prefix \<noteq> OBJECT_MAGIC then Err InvalidFile
      else let json_length = le_value (slice 8 12 prefix) in
      if json_length > MAX_ENVELOPE then Err TooLarge
      else bindR (read_exact object_read s json_length) (\<lambda>(json, _).
      bindR (ok_or (en_decode J json) InvalidFile) (\<lambda>envelope.
      receive_in K J object_read (file_at file 0)
        \<lparr>co_digest = digest, co_length = len, co_kind = eb_kind envelope\<rparr> ch)))))"

definition seal_in ::
  "crypto \<Rightarrow> envelope_codec \<Rightarrow> aead \<Rightarrow> rng \<Rightarrow> nat \<Rightarrow> control_chain \<Rightarrow> author_key \<Rightarrow> object_kind \<Rightarrow> bytes \<Rightarrow> read_key
     \<Rightarrow> 's reading \<Rightarrow> 's \<Rightarrow> nat \<Rightarrow> store_error + encrypted_object" where
  "seal_in K J A rng k ch author kind header key rd clear len =
     (if length header \<noteq> HEADER then Err InvalidFile
      else bindR (encrypt_stream A rng k header key rd clear len) (\<lambda>(_, encrypted).
      bindR (hash_exact K object_read (file_at encrypted 0) (length encrypted)) (\<lambda>ciphertext.
      bindR (map_errR Trust (envelope_sign K ch author kind (length encrypted) ciphertext)) (\<lambda>envelope.
      bindR (ok_or (en_encode J envelope) InvalidFile) (\<lambda>prefix.
      if length prefix > MAX_ENVELOPE then Err TooLarge
      else let file = OBJECT_MAGIC @ le_bytes 4 (length prefix) @ prefix @ encrypted in
      bindR (hash_exact K object_read (file_at file 0) (length file)) (\<lambda>digest.
      Ok \<lparr>eo_file = file, eo_descriptor = \<lparr>co_digest = digest, co_length = length file, co_kind = kind\<rparr>,
           eo_envelope = envelope, eo_offset = 12 + length prefix\<rparr>))))))"

definition object_reader_of :: "encrypted_object \<Rightarrow> object_reader" where
  "object_reader_of o1 = \<lparr>or_file = eo_file o1, or_offset = 0, or_remaining = co_length (eo_descriptor o1)\<rparr>"

definition cipher_reader :: "encrypted_object \<Rightarrow> object_reader" where
  "cipher_reader o1 = \<lparr>or_file = eo_file o1, or_offset = eo_offset o1, or_remaining = eb_length (eo_envelope o1)\<rparr>"

definition password_header :: "encrypted_object \<Rightarrow> store_error + bytes" where
  "password_header o1 =
     bindR (read_exact object_read (cipher_reader o1) HEADER) (\<lambda>(header, _).
     bindR (validate_header header (eb_length (eo_envelope o1))) (\<lambda>_. Ok header))"

definition object_unlock_key :: "aead \<Rightarrow> nat \<Rightarrow> encrypted_object \<Rightarrow> bytes \<Rightarrow> store_error + read_key" where
  "object_unlock_key A elapsed o1 password =
     bindR (password_header o1) (\<lambda>header. unlock_key A elapsed header password)"

definition object_decrypt :: "aead \<Rightarrow> encrypted_object \<Rightarrow> read_key \<Rightarrow> store_error + bytes" where
  "object_decrypt A o1 key =
     bindR (read_exact object_read (cipher_reader o1) HEADER) (\<lambda>(header, s).
     bindR (validate_header header (eb_length (eo_envelope o1))) (\<lambda>_.
     decrypt_stream A object_read header key s))"

end
