(* ===== verification/Store_Archive.thy ===== *)
theory Store_Archive
  imports Store_Object
begin

text \<open>
  \<open>crates/taypeer-storage/src/archive\<close> (\<open>mod.rs\<close>, \<open>read.rs\<close>, \<open>write.rs\<close>): the portable
  ciphertext file. It is a prefix, the JSON metadata (chain, signed manifest, journal) and
  the encrypted objects of the manifest in the order of their digests. A snapshot is a fully
  verified file, a candidate the composition of its successor.

  JSON forms are the record \<open>archive_codec\<close>; a file is its bytes; the allocation policy of
  temporary files has no influence on contents and is left out.
\<close>

definition FORMAT :: bytes where "FORMAT = [1, 0, 5, 0]"
definition ARCHIVE_PREFIX :: nat where "ARCHIVE_PREFIX = 20"
definition MAX_METADATA :: nat where "MAX_METADATA = 16 * 1024 * 1024"
definition MAX_ARCHIVE :: nat where "MAX_ARCHIVE = 16 * 1024 * 1024 * 1024"

record invitation_record =
  ir_invitation :: invitation
  ir_status :: invitation_status

record offered_state =
  of_controls :: "signed_control list"
  of_manifest :: signed_manifest

record archive_journal =
  aj_invitations :: "(digest, invitation_record) fmap"
  aj_offers :: "(digest, offered_state) fmap"
  aj_retained :: "digest fset"
  aj_forks :: "signed_control list list"

record archive_metadata =
  am_controls :: "signed_control list"
  am_manifest :: signed_manifest
  am_journal :: archive_journal

record archive_codec =
  ac_envelope :: envelope_codec
  ac_auxiliary :: "signed_control list \<times> archive_journal \<Rightarrow> bytes option"
  ac_encode :: "archive_metadata \<Rightarrow> bytes option"
  ac_decode :: "bytes \<Rightarrow> archive_metadata option"

text \<open>Documented behaviour of \<open>serde_json\<close>: what was written can be parsed back.\<close>

definition archive_codec_laws :: "archive_codec \<Rightarrow> bool" where
  "archive_codec_laws C \<longleftrightarrow> envelope_codec_laws (ac_envelope C)
     \<and> (\<forall>m b. ac_encode C m = Some b \<longrightarrow> ac_decode C b = Some m)"

subsection \<open>Metadata\<close>

definition trustR :: "trust_error + 'a \<Rightarrow> store_error + 'a" where
  "trustR = map_errR Trust"

definition offered_verify :: "crypto \<Rightarrow> offered_state \<Rightarrow> digest \<Rightarrow> store_error + control_chain" where
  "offered_verify K offer pinned =
     bindR (trustR (validate K (of_controls offer) pinned)) (\<lambda>ch.
     bindR (trustR (manifest_verify K (of_manifest offer) ch)) (\<lambda>_. Ok ch))"

definition AUXILIARY_DOMAIN :: bytes where "AUXILIARY_DOMAIN = ascii ''taypeer/archive-auxiliary/1''"

definition auxiliary ::
  "crypto \<Rightarrow> archive_codec \<Rightarrow> signed_control list \<Rightarrow> archive_journal \<Rightarrow> store_error + digest" where
  "auxiliary K C controls journal =
     bindR (ok_or (ac_auxiliary C (controls, journal)) (Trust Invalid)) (\<lambda>body.
     Ok (sha256 K (AUXILIARY_DOMAIN @ le_bytes 8 (length body) @ body)))"

definition verify_offer ::
  "crypto \<Rightarrow> digest \<Rightarrow> control_chain \<Rightarrow> digest \<times> offered_state \<Rightarrow> store_error + unit" where
  "verify_offer K pinned ch = (\<lambda>(key, offer).
     bindR (offered_verify K offer pinned) (\<lambda>offered_chain.
     bindR (trustR (manifest_id K (of_manifest offer))) (\<lambda>h.
     if h \<noteq> key then Err InvalidFile
     else bindR (trustR (reconcile K ch offered_chain)) (\<lambda>_. Ok ()))))"

definition verify_fork :: "crypto \<Rightarrow> digest \<Rightarrow> control_chain \<Rightarrow> signed_control list \<Rightarrow> store_error + unit" where
  "verify_fork K pinned ch records =
     bindR (trustR (validate K records pinned)) (\<lambda>other.
     if reconcile K ch other \<noteq> Err Fork then Err InvalidFile else Ok ())"

definition verify_invitation ::
  "crypto \<Rightarrow> digest \<Rightarrow> control_chain \<Rightarrow> signed_control list \<Rightarrow> digest \<times> invitation_record \<Rightarrow> store_error + unit" where
  "verify_invitation K pinned ch controls = (\<lambda>(key, record).
     bindR (trustR (invitation_id K (ir_invitation record))) (\<lambda>h.
     if h \<noteq> key then Err InvalidFile
     else bindR (trustR (control_at K ch (inv_control (ir_invitation record)))) (\<lambda>c.
     bindR (trustR (validate K (takeWhile (\<lambda>s. c_sequence (sc_body s) \<le> c_sequence c) controls) pinned)) (\<lambda>issuing.
     trustR (invitation_verify K (ir_invitation record) issuing (inv_issued_at (ir_invitation record)))))))"

definition metadata_verify ::
  "crypto \<Rightarrow> archive_codec \<Rightarrow> archive_metadata \<Rightarrow> digest \<Rightarrow> store_error + control_chain" where
  "metadata_verify K C self pinned =
     (let journal = am_journal self in
      if bt_len (aj_invitations journal) > 10000 \<or> bt_len (aj_offers journal) > 1024
         \<or> length (aj_forks journal) > 16
      then Err TooLarge
      else bindR (trustR (validate K (am_controls self) pinned)) (\<lambda>ch.
      bindR (trustR (manifest_verify K (am_manifest self) ch)) (\<lambda>_.
      bindR (auxiliary K C (am_controls self) journal) (\<lambda>aux.
      if mf_auxiliary (sm_body (am_manifest self)) \<noteq> aux then Err Authentication
      else bindR (each (verify_offer K pinned ch) (bt_iter (aj_offers journal))) (\<lambda>_.
      bindR (each (verify_fork K pinned ch) (aj_forks journal)) (\<lambda>_.
      bindR (each (verify_invitation K pinned ch (am_controls self)) (bt_iter (aj_invitations journal))) (\<lambda>_.
      if \<not> aj_retained journal |\<subseteq>| fmdom (mf_objects (sm_body (am_manifest self)))
      then Err InvalidFile else Ok ch)))))))"

definition metadata_offer :: "archive_metadata \<Rightarrow> offered_state" where
  "metadata_offer self = \<lparr>of_controls = am_controls self, of_manifest = am_manifest self\<rparr>"

abbreviation am_objects :: "archive_metadata \<Rightarrow> (digest, cipher_object) fmap" where
  "am_objects m \<equiv> mf_objects (sm_body (am_manifest m))"

subsection \<open>Snapshots\<close>

record archive_snapshot =
  as_file :: bytes
  as_metadata :: archive_metadata
  as_chain :: control_chain
  as_offsets :: "(digest, nat) fmap"
  as_fingerprint :: digest
  as_length :: nat

text \<open>A bounded reader (\<open>Read::take\<close>) over the file from a position ends where the file does.\<close>

definition bounded_at :: "bytes \<Rightarrow> nat \<Rightarrow> nat \<Rightarrow> object_reader" where
  "bounded_at file offset limit = file_at (take limit (drop offset file)) 0"

text \<open>\<open>file::fingerprint_reader\<close>: the digest of exactly the announced number of bytes.\<close>

function fingerprint_loop ::
  "crypto \<Rightarrow> nat \<Rightarrow> object_reader \<Rightarrow> nat \<Rightarrow> bytes \<Rightarrow> store_error + digest" where
  "fingerprint_loop K len r consumed seen =
     bindR (object_read r CHUNK) (\<lambda>(bs, r').
     let consumed = consumed + length bs in
     if consumed > len then Err Changed
     else if bs = [] then (if consumed \<noteq> len then Err Changed else Ok (sha256 K seen))
     else fingerprint_loop K len r' consumed (seen @ bs))"
  by pat_completeness auto
termination
  by (relation "measure (\<lambda>(K, len, r, consumed, seen). or_remaining r)")
    (auto simp: object_read_def Let_def split: if_splits)

declare fingerprint_loop.simps [simp del]

definition fingerprint_reader :: "crypto \<Rightarrow> bytes \<Rightarrow> nat \<Rightarrow> store_error + digest" where
  "fingerprint_reader K file len =
     (if len > MAX_ENCODED_SIZE then Err TooLarge
      else fingerprint_loop K len (bounded_at file 0 (len + 1)) 0 [])"

definition fingerprint :: "crypto \<Rightarrow> bytes \<Rightarrow> store_error + digest" where
  "fingerprint K file = fingerprint_reader K file (length file)"

text \<open>The check of one section, at the position the previous one ended.\<close>

definition read_section ::
  "crypto \<Rightarrow> archive_codec \<Rightarrow> bytes \<Rightarrow> manifest \<Rightarrow> control_chain
     \<Rightarrow> nat \<times> (digest, nat) fmap \<Rightarrow> digest \<times> cipher_object \<Rightarrow> store_error + nat \<times> (digest, nat) fmap" where
  "read_section K C file body ch = (\<lambda>(offset, offsets) (key, object).
     bindR (ok_or (checked_add offset (co_length object)) TooLarge) (\<lambda>stop.
     if stop > length file then Err InvalidFile
     else bindR (hash_exact K object_read (bounded_at file offset (co_length object)) (co_length object)) (\<lambda>h.
     if h \<noteq> key then Err Authentication
     else bindR (read_envelope K (ac_envelope C) object_read (bounded_at file offset (co_length object)) object ch)
       (\<lambda>((envelope, _), bounded).
     if (key = mf_checkpoint body \<or> key = mf_baseline body) \<and> eb_control envelope \<noteq> mf_control body
     then Err InvalidFile
     else bindR (hash_exact K object_read bounded (eb_length envelope)) (\<lambda>ciphertext.
     if ciphertext \<noteq> eb_ciphertext envelope then Err Authentication
     else Ok (stop, fmupd key offset offsets))))))"

definition from_source ::
  "crypto \<Rightarrow> archive_codec \<Rightarrow> bytes \<Rightarrow> digest option \<Rightarrow> store_error + archive_snapshot" where
  "from_source K C file pinned =
     (let len = length file in
      if len < ARCHIVE_PREFIX \<or> len > MAX_ARCHIVE then Err TooLarge
      else bindR (read_exact object_read (file_at file 0) ARCHIVE_PREFIX) (\<lambda>(prefix, s).
      if take 8 prefix \<noteq> MAGIC then Err InvalidFile
      else if slice 8 12 prefix \<noteq> FORMAT then Err UnsupportedVersion
      else let meta_length = le_value (slice 12 20 prefix) in
      if meta_length > MAX_METADATA \<or> meta_length + ARCHIVE_PREFIX > len then Err TooLarge
      else bindR (read_exact object_read s meta_length) (\<lambda>(bytes, _).
      bindR (ok_or (ac_decode C bytes) InvalidFile) (\<lambda>metadata.
      bindR (case am_controls metadata of [] \<Rightarrow> Err InvalidFile | first # _ \<Rightarrow> trustR (sc_hash K first)) (\<lambda>root.
      bindR (metadata_verify K C metadata (case pinned of None \<Rightarrow> root | Some p \<Rightarrow> p)) (\<lambda>ch.
      bindR (foldR (read_section K C file (sm_body (am_manifest metadata)) ch)
               (ARCHIVE_PREFIX + meta_length, fmempty) (bt_iter (am_objects metadata))) (\<lambda>(offset, offsets).
      if offset \<noteq> len then Err InvalidFile
      else bindR (fingerprint_reader K file len) (\<lambda>fp.
      Ok \<lparr>as_file = file, as_metadata = metadata, as_chain = ch, as_offsets = offsets,
          as_fingerprint = fp, as_length = len\<rparr>))))))))"

definition snapshot_compatibility :: "archive_snapshot \<Rightarrow> client_capabilities \<Rightarrow> compatibility_report" where
  "snapshot_compatibility self capabilities = assess capabilities (c_schema (head (as_chain self)))"

definition copy_ciphertext :: "archive_snapshot \<Rightarrow> store_error + bytes" where
  "copy_ciphertext self =
     copy_exact object_read \<lparr>or_file = as_file self, or_offset = 0, or_remaining = as_length self\<rparr> (as_length self)"

definition snapshot_reader :: "archive_snapshot \<Rightarrow> digest \<Rightarrow> store_error + object_reader" where
  "snapshot_reader self key =
     bindR (ok_or (fmlookup (as_offsets self) key) MissingBlob) (\<lambda>offset.
     bindR (ok_or (fmlookup (am_objects (as_metadata self)) key) InvalidFile) (\<lambda>descriptor.
     Ok \<lparr>or_file = as_file self, or_offset = offset, or_remaining = co_length descriptor\<rparr>))"

definition snapshot_object ::
  "crypto \<Rightarrow> archive_codec \<Rightarrow> archive_snapshot \<Rightarrow> digest \<Rightarrow> store_error + encrypted_object" where
  "snapshot_object K C self key =
     bindR (ok_or (fmlookup (am_objects (as_metadata self)) key) MissingBlob) (\<lambda>descriptor.
     bindR (snapshot_reader self key) (\<lambda>r.
     receive_in K (ac_envelope C) object_read r descriptor (as_chain self)))"

subsection \<open>Candidates\<close>

record archive_candidate =
  cd_base :: "archive_snapshot option"
  cd_staged :: "(digest, encrypted_object) fmap"
  cd_retained :: "digest fset"

definition candidate_new :: archive_candidate where
  "candidate_new = \<lparr>cd_base = None, cd_staged = fmempty, cd_retained = {||}\<rparr>"

definition snapshot_candidate :: "archive_snapshot \<Rightarrow> archive_candidate" where
  "snapshot_candidate self = \<lparr>cd_base = Some self, cd_staged = fmempty,
     cd_retained = fmdom (am_objects (as_metadata self))\<rparr>"

definition descriptors :: "archive_candidate \<Rightarrow> (digest, cipher_object) fmap" where
  "descriptors self =
     fmfilter (\<lambda>key. key |\<in>| cd_retained self)
       ((case cd_base self of None \<Rightarrow> fmempty | Some b \<Rightarrow> am_objects (as_metadata b))
         ++\<^sub>f fmmap eo_descriptor (cd_staged self))"

definition candidate_reader :: "archive_candidate \<Rightarrow> digest \<Rightarrow> store_error + object_reader" where
  "candidate_reader self key =
     (if key |\<notin>| cd_retained self then Err MissingBlob
      else case fmlookup (cd_staged self) key of
        Some object \<Rightarrow> Ok (object_reader_of object)
      | None \<Rightarrow> bindR (ok_or (cd_base self) MissingBlob) (\<lambda>b. snapshot_reader b key))"

text \<open>The bytewise comparison that deduplication relies on.\<close>

function same_bytes :: "object_reader \<Rightarrow> object_reader \<Rightarrow> store_error + unit" where
  "same_bytes old new =
     bindR (object_read old CHUNK) (\<lambda>(left, old').
     bindR (read_exact object_read new (length left)) (\<lambda>(right, new').
     if left \<noteq> right then Err BlobMismatch
     else if left = [] then Ok ()
     else same_bytes old' new'))"
  by pat_completeness auto
termination
  by (relation "measure (\<lambda>(old, new). or_remaining old)")
    (auto simp: object_read_def Let_def split: if_splits)

declare same_bytes.simps [simp del]

definition candidate_insert ::
  "archive_candidate \<Rightarrow> encrypted_object \<Rightarrow> store_error + digest \<times> archive_candidate" where
  "candidate_insert self object =
     (let key = co_digest (eo_descriptor object) in
      case fmlookup (descriptors self) key of
        Some existing \<Rightarrow>
          if existing \<noteq> eo_descriptor object then Err BlobMismatch
          else bindR (candidate_reader self key) (\<lambda>old.
               bindR (same_bytes old (object_reader_of object)) (\<lambda>_. Ok (key, self)))
      | None \<Rightarrow> Ok (key, self\<lparr>cd_retained := finsert key (cd_retained self),
                   cd_staged := fmupd key object (cd_staged self)\<rparr>))"

definition candidate_remove :: "archive_candidate \<Rightarrow> digest \<Rightarrow> archive_candidate" where
  "candidate_remove self key =
     self\<lparr>cd_retained := cd_retained self |-| {|key|}, cd_staged := fmdrop key (cd_staged self)\<rparr>"

definition candidate_metadata ::
  "crypto \<Rightarrow> archive_codec \<Rightarrow> archive_candidate \<Rightarrow> control_chain \<Rightarrow> transport_key \<Rightarrow> manifest \<Rightarrow> archive_journal
     \<Rightarrow> store_error + archive_metadata" where
  "candidate_metadata K C self ch key body journal =
     bindR (trustR (control_at K ch (mf_control body))) (\<lambda>control.
     bindR (ok_or (map_option fst (List.find (\<lambda>(_, member). id_transport (m_identity member) = transport_public K key)
               (bt_iter (c_members control)))) (Trust Unauthorized)) (\<lambda>signer.
     bindR (auxiliary K C ch journal) (\<lambda>aux.
     bindR (trustR (manifest_sign K (body\<lparr>mf_signer := signer, mf_objects := descriptors self,
               mf_auxiliary := aux\<rparr>) ch key)) (\<lambda>manifest.
     let metadata = \<lparr>am_controls = ch, am_manifest = manifest, am_journal = journal\<rparr> in
     bindR (trustR (chain_root K ch)) (\<lambda>root.
     bindR (metadata_verify K C metadata root) (\<lambda>_. Ok metadata))))))"

text \<open>The bytes of a new generation, verified by reading them back.\<close>

definition archive_bytes :: "bytes \<Rightarrow> bytes list \<Rightarrow> bytes" where
  "archive_bytes bytes sections = MAGIC @ FORMAT @ le_bytes 8 (length bytes) @ bytes @ concat sections"

definition prepare ::
  "crypto \<Rightarrow> archive_codec \<Rightarrow> archive_candidate \<Rightarrow> archive_metadata \<Rightarrow> store_error + bytes \<times> archive_snapshot" where
  "prepare K C self metadata =
     bindR (case am_controls metadata of [] \<Rightarrow> Err InvalidFile | first # _ \<Rightarrow> trustR (sc_hash K first)) (\<lambda>root.
     bindR (metadata_verify K C metadata root) (\<lambda>_.
     if am_objects metadata \<noteq> descriptors self then Err InvalidFile
     else bindR (ok_or (ac_encode C metadata) InvalidFile) (\<lambda>bytes.
     if length bytes > MAX_METADATA then Err TooLarge
     else bindR (foldR (\<lambda>sum (object :: cipher_object). ok_or (checked_add sum (co_length object)) TooLarge)
                   (ARCHIVE_PREFIX + length bytes) (bt_values (am_objects metadata))) (\<lambda>len.
     if len > MAX_ARCHIVE then Err TooLarge
     else bindR (mapR (\<lambda>(key, descriptor). bindR (candidate_reader self key)
                   (\<lambda>r. copy_exact object_read r (co_length descriptor))) (bt_iter (am_objects metadata))) (\<lambda>sections.
     let file = archive_bytes bytes sections in
     bindR (from_source K C file (Some root)) (\<lambda>snapshot. Ok (file, snapshot)))))))"

end
