(* ===== verification/Store_Commit.thy ===== *)
theory Store_Commit
  imports Store_Archive
begin

text \<open>
  \<open>crates/taypeer-storage/src/publication.rs\<close> and the writer of \<open>archive/mod.rs\<close>,
  \<open>archive/read.rs\<close>, \<open>archive/write.rs\<close>: publication of a prepared file and the two-phase
  marker that protects it.

  The disk is the visible content of the one path a writer owns, the contents a power cut may
  leave there, the protected marker and the outcomes of the coming input and output steps.
  A step works, is refused without effect, or fails although its effect took place; where the
  schedule is used up every step works. A power cut is a schedule that refuses every later
  step. The atomic rename of a POSIX file system either replaces the content or leaves it
  (the Windows branch of the source is not modelled); only the directory barrier that follows
  makes it durable. The file lock keeps other writers out.
\<close>

subsection \<open>Steps\<close>

definition bindS :: "('s \<Rightarrow> ('e + 'a) \<times> 's) \<Rightarrow> ('a \<Rightarrow> 's \<Rightarrow> ('e + 'b) \<times> 's) \<Rightarrow> 's \<Rightarrow> ('e + 'b) \<times> 's" where
  "bindS m f s = (case m s of (Inl e, s') \<Rightarrow> (Inl e, s') | (Inr x, s') \<Rightarrow> f x s')"

definition pureS :: "'e + 'a \<Rightarrow> 's \<Rightarrow> ('e + 'a) \<times> 's" where
  "pureS r s = (r, s)"

record anchor =
  an_accepted :: "digest option"
  an_prepared :: "digest option"

datatype outcome = Works | Refused store_error | Lost store_error

record disk =
  dk_file :: "bytes option"
  dk_durable :: "bytes option list"
  dk_marker :: "anchor option"
  dk_outcomes :: "outcome list"

definition next_outcome :: "disk \<Rightarrow> outcome \<times> disk" where
  "next_outcome d = (case dk_outcomes d of [] \<Rightarrow> (Works, d) | x # xs \<Rightarrow> (x, d\<lparr>dk_outcomes := xs\<rparr>))"

text \<open>A step without effect on the disk: opening, reading, locking, staging.\<close>

definition attempt :: "(store_error \<Rightarrow> store_error) \<Rightarrow> disk \<Rightarrow> (store_error + unit) \<times> disk" where
  "attempt conv d = (case next_outcome d of
      (Works, d) \<Rightarrow> (Ok (), d) | (Refused e, d) \<Rightarrow> (Err (conv e), d) | (Lost e, d) \<Rightarrow> (Err (conv e), d))"

definition read_path :: "disk \<Rightarrow> (store_error + bytes) \<times> disk" where
  "read_path = bindS (attempt (\<lambda>_. Io)) (\<lambda>_ d. (ok_or (dk_file d) Io, d))"

definition path_exists :: "disk \<Rightarrow> (store_error + bool) \<times> disk" where
  "path_exists = bindS (attempt (\<lambda>_. Io)) (\<lambda>_ d. (Ok (dk_file d \<noteq> None), d))"

definition marker_load :: "disk \<Rightarrow> (store_error + anchor option) \<times> disk" where
  "marker_load = bindS (attempt (\<lambda>e. e)) (\<lambda>_ d. (Ok (dk_marker d), d))"

definition marker_save :: "anchor \<Rightarrow> disk \<Rightarrow> (store_error + unit) \<times> disk" where
  "marker_save a d = (case next_outcome d of
      (Works, d) \<Rightarrow> (Ok (), d\<lparr>dk_marker := Some a\<rparr>)
    | (Refused e, d) \<Rightarrow> (Err e, d)
    | (Lost e, d) \<Rightarrow> (Err e, d\<lparr>dk_marker := Some a\<rparr>))"

subsection \<open>Publication\<close>

datatype publication_mode = Create | Replace

definition confirm_published_file :: "disk \<Rightarrow> (store_error + unit) \<times> disk" where
  "confirm_published_file d = (case next_outcome d of
      (Works, d) \<Rightarrow> (if dk_file d = None then Err Io else Ok (), d\<lparr>dk_durable := [dk_file d]\<rparr>)
    | (Refused e, d) \<Rightarrow> (Err Io, d)
    | (Lost e, d) \<Rightarrow> (Err Io, d\<lparr>dk_durable := [dk_file d]\<rparr>))"

definition rename :: "bytes \<Rightarrow> publication_mode \<Rightarrow> disk \<Rightarrow> (store_error + unit) \<times> disk" where
  "rename content mode =
     bindS (attempt (\<lambda>_. Io)) (\<lambda>_ d.
       if mode = Create \<and> dk_file d \<noteq> None then (Err AlreadyExists, d)
       else (Ok (), d\<lparr>dk_file := Some content, dk_durable := Some content # dk_durable d\<rparr>))"

definition map_errS :: "('e \<Rightarrow> 'f) \<Rightarrow> ('s \<Rightarrow> ('e + 'a) \<times> 's) \<Rightarrow> 's \<Rightarrow> ('f + 'a) \<times> 's" where
  "map_errS g m s = (case m s of (r, s') \<Rightarrow> (map_errR g r, s'))"

definition publish_file :: "bytes \<Rightarrow> publication_mode \<Rightarrow> disk \<Rightarrow> (store_error + unit) \<times> disk" where
  "publish_file content mode =
     bindS (attempt (\<lambda>_. Io)) (\<lambda>_.
     bindS (attempt (\<lambda>_. Io)) (\<lambda>_.
     bindS (rename content mode) (\<lambda>_.
     map_errS (\<lambda>_. CommitUncertain) confirm_published_file)))"

definition remove_published_file :: "disk \<Rightarrow> (store_error + unit) \<times> disk" where
  "remove_published_file =
     bindS (bindS (attempt (\<lambda>_. Io)) (\<lambda>_ d.
       (Ok (), d\<lparr>dk_file := None, dk_durable := (if dk_file d = None then [] else [None]) @ dk_durable d\<rparr>))) (\<lambda>_ d.
     case next_outcome d of
       (Works, d) \<Rightarrow> (Ok (), d\<lparr>dk_durable := [dk_file d]\<rparr>)
     | (Refused e, d) \<Rightarrow> (Err CommitUncertain, d)
     | (Lost e, d) \<Rightarrow> (Err CommitUncertain, d\<lparr>dk_durable := [dk_file d]\<rparr>))"

subsection \<open>The writer\<close>

record archive_store =
  ar_disk :: disk
  ar_snapshot :: archive_snapshot
  ar_anchor :: bool
  ar_uncertain :: bool
  ar_last_commit :: "(digest \<times> archive_snapshot) option"

type_synonym 'a writing = "archive_store \<Rightarrow> (store_error + 'a) \<times> archive_store"

definition on_disk :: "(disk \<Rightarrow> (store_error + 'a) \<times> disk) \<Rightarrow> 'a writing" where
  "on_disk m s = (case m (ar_disk s) of (r, d) \<Rightarrow> (r, s\<lparr>ar_disk := d\<rparr>))"

definition current_fingerprint :: "crypto \<Rightarrow> disk \<Rightarrow> (store_error + digest) \<times> disk" where
  "current_fingerprint K = bindS read_path (\<lambda>content. pureS (fingerprint K content))"

definition when_anchored :: "unit writing \<Rightarrow> unit writing" where
  "when_anchored m s = (if ar_anchor s then m s else (Ok (), s))"

definition expect_fingerprint :: "crypto \<Rightarrow> digest \<Rightarrow> disk \<Rightarrow> (store_error + unit) \<times> disk" where
  "expect_fingerprint K expected =
     bindS (current_fingerprint K) (\<lambda>h. pureS (if h \<noteq> expected then Err Changed else Ok ()))"

definition check_unchanged :: "crypto \<Rightarrow> unit writing" where
  "check_unchanged K s = on_disk (expect_fingerprint K (as_fingerprint (ar_snapshot s))) s"

text \<open>
  \<open>confirm_commit\<close>; the open handle \<open>input\<close> keeps reading the content it was opened on, and
  a second read of it is a step that can fail.
\<close>

definition check_marker :: "digest \<Rightarrow> digest \<Rightarrow> anchor option \<Rightarrow> store_error + unit" where
  "check_marker expected fp marker =
     bindR (ok_or marker Changed) (\<lambda>a.
     if \<not> (an_accepted a = Some expected \<and> an_prepared a = Some fp)
        \<and> \<not> (an_accepted a = Some fp \<and> an_prepared a = None)
     then Err Changed else Ok ())"

definition confirm_candidate :: "crypto \<Rightarrow> digest \<Rightarrow> archive_snapshot \<Rightarrow> bool writing" where
  "confirm_candidate K expected candidate =
     (let fp = as_fingerprint candidate in
      bindS (on_disk (expect_fingerprint K fp)) (\<lambda>_.
      bindS (when_anchored (on_disk (bindS marker_load (\<lambda>marker. pureS (check_marker expected fp marker))))) (\<lambda>_.
      bindS (on_disk (map_errS (\<lambda>_. CommitUncertain) confirm_published_file)) (\<lambda>_.
      bindS (on_disk (attempt (\<lambda>_. Io))) (\<lambda>_.
      bindS (on_disk (expect_fingerprint K fp)) (\<lambda>_.
      bindS (when_anchored (on_disk (map_errS (\<lambda>_. CommitUncertain)
         (marker_save \<lparr>an_accepted = Some fp, an_prepared = None\<rparr>)))) (\<lambda>_.
      bindS (on_disk (expect_fingerprint K fp)) (\<lambda>_ s.
      (Ok True, s\<lparr>ar_snapshot := candidate, ar_uncertain := False\<rparr>)))))))))"

definition confirm_commit :: "crypto \<Rightarrow> digest \<Rightarrow> archive_metadata \<Rightarrow> bool writing" where
  "confirm_commit K expected metadata s =
     (case ar_last_commit s of
        None \<Rightarrow> (Ok False, s)
      | Some (previous, candidate) \<Rightarrow>
          if previous \<noteq> expected \<or> as_metadata candidate \<noteq> metadata then (Ok False, s)
          else confirm_candidate K expected candidate s)"

definition commit_checks ::
  "crypto \<Rightarrow> archive_codec \<Rightarrow> digest \<Rightarrow> archive_candidate \<Rightarrow> archive_metadata \<Rightarrow> archive_store \<Rightarrow> store_error + unit" where
  "commit_checks K C expected candidate metadata s =
     (let cur = ar_snapshot s in
      if ar_uncertain s then Err CommitUncertain
      else if expected \<noteq> as_fingerprint cur \<or> map_option as_fingerprint (cd_base candidate) \<noteq> Some expected
        \<or> checked_add (mf_generation (sm_body (am_manifest (as_metadata cur)))) 1
            \<noteq> Some (mf_generation (sm_body (am_manifest metadata)))
      then Err Changed
      else bindR (trustR (chain_root K (as_chain cur))) (\<lambda>pinned.
      bindR (metadata_verify K C metadata pinned) (\<lambda>next_chain.
      bindR (trustR (reconcile K (as_chain cur) next_chain)) (\<lambda>longer.
      if longer \<noteq> next_chain then Err Changed else Ok ()))))"

definition finish_commit :: "unit writing" where
  "finish_commit s =
     (case when_anchored (on_disk (marker_save \<lparr>an_accepted = Some (as_fingerprint (ar_snapshot s)), an_prepared = None\<rparr>)) s of
        (Inl _, s) \<Rightarrow> (Err CommitUncertain, s\<lparr>ar_uncertain := True\<rparr>)
      | (Inr _, s) \<Rightarrow> (Ok (), s))"

definition publish_commit :: "digest \<Rightarrow> bytes \<Rightarrow> archive_snapshot \<Rightarrow> unit writing" where
  "publish_commit expected content snapshot s =
     (case on_disk (publish_file content Replace) s of
        (Inl e, s) \<Rightarrow>
          (Err e, if e = CommitUncertain then s\<lparr>ar_uncertain := True, ar_last_commit := Some (expected, snapshot)\<rparr> else s)
      | (Inr _, s) \<Rightarrow>
          finish_commit (s\<lparr>ar_snapshot := snapshot, ar_last_commit := Some (expected, snapshot)\<rparr>))"

definition store_commit ::
  "crypto \<Rightarrow> archive_codec \<Rightarrow> digest \<Rightarrow> archive_candidate \<Rightarrow> archive_metadata \<Rightarrow> unit writing" where
  "store_commit K C expected candidate metadata =
     bindS (confirm_commit K expected metadata) (\<lambda>confirmed.
     if confirmed then pureS (Ok ())
     else bindS (\<lambda>s. (commit_checks K C expected candidate metadata s, s)) (\<lambda>_.
     bindS (check_unchanged K) (\<lambda>_.
     bindS (pureS (prepare K C candidate metadata)) (\<lambda>(content, snapshot).
     bindS (on_disk (attempt (\<lambda>_. Io))) (\<lambda>_.
     bindS (when_anchored (on_disk (marker_save
       \<lparr>an_accepted = Some expected, an_prepared = Some (as_fingerprint snapshot)\<rparr>))) (\<lambda>_.
     bindS (check_unchanged K) (\<lambda>_.
     publish_commit expected content snapshot)))))))"

text \<open>Creation of the first generation and opening of a registered file.\<close>

definition store_create ::
  "crypto \<Rightarrow> archive_codec \<Rightarrow> archive_candidate \<Rightarrow> archive_metadata \<Rightarrow> bool
     \<Rightarrow> disk \<Rightarrow> (store_error + archive_store) \<times> disk" where
  "store_create K C candidate metadata anchored =
     (if mf_generation (sm_body (am_manifest metadata)) \<noteq> 0 \<or> cd_base candidate \<noteq> None then pureS (Err InvalidFile)
      else bindS (attempt (\<lambda>_. Io)) (\<lambda>_.
      bindS (attempt (\<lambda>e. if e = Busy then Busy else Io)) (\<lambda>_.
      bindS path_exists (\<lambda>present.
      if present then pureS (Err AlreadyExists)
      else bindS (pureS (prepare K C candidate metadata)) (\<lambda>(content, snapshot).
      bindS (attempt (\<lambda>_. Io)) (\<lambda>_.
      bindS (if \<not> anchored then pureS (Ok ())
             else bindS marker_load (\<lambda>marker.
               if (case marker of None \<Rightarrow> False | Some a \<Rightarrow> an_accepted a \<noteq> None) then pureS (Err Changed)
               else marker_save \<lparr>an_accepted = None, an_prepared = Some (as_fingerprint snapshot)\<rparr>)) (\<lambda>_.
      bindS (publish_file content Create) (\<lambda>_.
      bindS (if \<not> anchored then pureS (Ok ())
             else map_errS (\<lambda>_. CommitUncertain)
               (marker_save \<lparr>an_accepted = Some (as_fingerprint snapshot), an_prepared = None\<rparr>)) (\<lambda>_ d.
      (Ok \<lparr>ar_disk = d, ar_snapshot = snapshot, ar_anchor = anchored, ar_uncertain = False,
           ar_last_commit = None\<rparr>, d))))))))))"

definition store_open ::
  "crypto \<Rightarrow> archive_codec \<Rightarrow> digest option \<Rightarrow> bool \<Rightarrow> disk \<Rightarrow> (store_error + archive_store) \<times> disk" where
  "store_open K C pinned anchored =
     bindS (attempt (\<lambda>_. Io)) (\<lambda>_.
     bindS (attempt (\<lambda>e. if e = Busy then Busy else Io)) (\<lambda>_.
     bindS read_path (\<lambda>content.
     bindS (pureS (from_source K C content pinned)) (\<lambda>snapshot.
     bindS (if \<not> anchored then pureS (Ok ())
            else bindS marker_load (\<lambda>marker.
              if (case marker of None \<Rightarrow> False
                  | Some a \<Rightarrow> an_accepted a \<noteq> Some (as_fingerprint snapshot) \<and> an_prepared a \<noteq> Some (as_fingerprint snapshot))
              then pureS (Err Changed)
              else bindS (expect_fingerprint K (as_fingerprint snapshot)) (\<lambda>_.
              bindS (map_errS (\<lambda>_. CommitUncertain) confirm_published_file) (\<lambda>_.
              bindS (expect_fingerprint K (as_fingerprint snapshot)) (\<lambda>_.
              marker_save \<lparr>an_accepted = Some (as_fingerprint snapshot), an_prepared = None\<rparr>))))) (\<lambda>_ d.
     (Ok \<lparr>ar_disk = d, ar_snapshot = snapshot, ar_anchor = anchored, ar_uncertain = False,
          ar_last_commit = None\<rparr>, d))))))"

end
