(* ===== verification/Store_Crypto_Laws.thy ===== *)
theory Store_Crypto_Laws
  imports Store_Crypto
begin

text \<open>
  Correctness of the password header and of the chunked stream: what a stream accepts is
  exactly what sealing produces, the pull-based reader equals the one-pass decryption, and
  the password alone opens everything sealed under its header.
\<close>

subsection \<open>Bytes\<close>

lemma slice_append: "length xs = a \<Longrightarrow> a + length ys = b \<Longrightarrow> slice a b (xs @ ys @ zs) = ys"
  by (auto simp: slice_def)

lemma length_slice: "b \<le> length xs \<Longrightarrow> length (slice a b xs) = b - a"
  by (simp add: slice_def)

lemma slice_take: "b \<le> n \<Longrightarrow> slice a b (take n xs) = slice a b xs"
  by (simp add: slice_def drop_take)

lemma le_bytes_le_value: "le_bytes (length bs) (le_value bs) = bs"
proof (induction bs)
  case (Cons b bs)
  have "unat b < 256" using unsigned_less [of b] by simp
  then have "(unat b + 256 * le_value bs) mod 256 = unat b" "(unat b + 256 * le_value bs) div 256 = le_value bs"
    by simp_all
  then show ?case using Cons by simp
qed simp

definition reader_of :: "bytes \<Rightarrow> object_reader" where
  "reader_of bs = \<lparr>or_file = bs, or_offset = 0, or_remaining = length bs\<rparr>"

lemma content_reader_of [simp]: "object_content (reader_of bs) = (bs, None)"
  by (simp add: object_content_def window_def reader_of_def)

lemma aead_open_seal:
  "aead_laws A \<Longrightarrow> aead_open A k n a c = Ok m \<longleftrightarrow> aead_seal A k n a m = Ok c"
  by (auto simp: aead_laws_def aead_open_def aead_seal_def)

lemma aead_seal_length: "aead_laws A \<Longrightarrow> aead_seal A k n a m = Ok c \<Longrightarrow> length c = length m + 16"
  by (auto simp: aead_laws_def aead_seal_def)

lemma random_length: "rng_laws rng \<Longrightarrow> random_bytes rng k n = Ok b \<Longrightarrow> length b = n"
  by (auto simp: rng_laws_def random_bytes_def)

subsection \<open>What a stream delivers\<close>

function stream_content ::
  "aead \<Rightarrow> 's reading \<Rightarrow> bytes \<Rightarrow> read_key \<Rightarrow> nat \<Rightarrow> nat \<Rightarrow> 's \<Rightarrow> bytes \<times> store_error option" where
  "stream_content A rd header key index remaining s =
     (case bindR (read_exact rd s 24) (\<lambda>(nonce, s).
           bindR (read_exact rd s (min remaining CHUNK + 16)) (\<lambda>(cipher, s).
           bindR (aead_open A key nonce (chunk_aad header index (remaining = 0)) cipher) (\<lambda>clear.
           bindR (if remaining = 0 then at_end rd s else Ok ()) (\<lambda>_. Ok (clear, s))))) of
        Inl e \<Rightarrow> ([], Some e)
      | Inr (clear, s) \<Rightarrow>
          if remaining = 0 then ([], None)
          else let c = stream_content A rd header key (index + 1) (remaining - min remaining CHUNK) s
               in (clear @ fst c, snd c))"
  by pat_completeness auto
termination by (relation "measure (\<lambda>(A, rd, header, key, index, remaining, s). remaining)") auto

declare stream_content.simps [simp del]

context byte_source
begin

lemma opened_length:
  assumes "aead_laws A" and "read_exact rd s (n + 16) = Ok (cipher, t)"
    and "aead_open A k nonce a cipher = Ok clear"
  shows "length clear = n"
  using assms aead_seal_length [of A k nonce a clear cipher] read_exact_Ok [of s "n + 16" cipher t]
  by (simp add: aead_open_seal)

lemma decrypt_chunks_content:
  assumes laws: "aead_laws A"
  shows "bindR (decrypt_chunks A rd header key index remaining s) (\<lambda>(clear, s). bindR (at_end rd s) (\<lambda>_. Ok clear))
     = (let c = stream_content A rd header key index remaining s
        in case snd c of None \<Rightarrow> Ok (fst c) | Some e \<Rightarrow> Err e)"
proof (induction remaining arbitrary: index s rule: less_induct)
  case (less remaining)
  let ?size = "min remaining CHUNK"
  show ?case
  proof (cases "read_exact rd s 24")
    case (Inl e)
    then show ?thesis by (simp add: decrypt_chunks.simps [of A rd] stream_content.simps [of A rd])
  next
    case (Inr p)
    obtain nonce s1 where p: "p = (nonce, s1)" by fastforce
    note r1 = Inr [unfolded p]
    show ?thesis
    proof (cases "read_exact rd s1 (?size + 16)")
      case (Inl e)
      then show ?thesis using r1 by (simp add: decrypt_chunks.simps [of A rd] stream_content.simps [of A rd])
    next
      case (Inr q)
      obtain cipher s2 where q: "q = (cipher, s2)" by fastforce
      note r2 = Inr [unfolded q]
      show ?thesis
      proof (cases "aead_open A key nonce (chunk_aad header index (remaining = 0)) cipher")
        case (Inl e)
        then show ?thesis using r1 r2
          by (simp add: decrypt_chunks.simps [of A rd] stream_content.simps [of A rd])
      next
        case (Inr clear)
        have l: "length clear = ?size" using opened_length [OF laws r2 Inr] .
        show ?thesis
        proof (cases "remaining = 0")
          case True
          then have "clear = []" using l by simp
          then show ?thesis using r1 r2 Inr True
            by (cases "at_end rd s2") (simp_all add: decrypt_chunks.simps [of A rd] stream_content.simps [of A rd])
        next
          case False
          then have "remaining - ?size < remaining" by simp
          from less.IH [OF this, of "index + 1" s2] show ?thesis
            using r1 r2 Inr False
            by (simp add: decrypt_chunks.simps [of A rd header key index remaining]
                stream_content.simps [of A rd header key index remaining] Let_def bindR_assoc split_def)
               (auto simp: bindR_def split: sum.splits option.splits)
        qed
      qed
    qed
  qed
qed

lemma stream_content_length:
  assumes laws: "aead_laws A"
  shows "(let c = stream_content A rd header key index remaining s
     in length (fst c) \<le> remaining \<and> (snd c = None \<longrightarrow> length (fst c) = remaining))"
proof (induction remaining arbitrary: index s rule: less_induct)
  case (less remaining)
  let ?size = "min remaining CHUNK"
  let ?c = "stream_content A rd header key index remaining s"
  show ?case
  proof (cases "bindR (read_exact rd s 24) (\<lambda>(nonce, s).
           bindR (read_exact rd s (?size + 16)) (\<lambda>(cipher, s).
           bindR (aead_open A key nonce (chunk_aad header index (remaining = 0)) cipher) (\<lambda>clear.
           bindR (if remaining = 0 then at_end rd s else Ok ()) (\<lambda>_. Ok (clear, s)))))")
    case (Inl e)
    then show ?thesis by (simp add: stream_content.simps [of A rd header key index remaining])
  next
    case (Inr p)
    obtain clear t where p: "p = (clear, t)" by fastforce
    have l: "length clear = ?size" using Inr p by (auto dest: opened_length [OF laws])
    show ?thesis
    proof (cases "remaining = 0")
      case True
      have "?c = ([], None)"
        by (subst stream_content.simps, subst Inr [unfolded p]) (simp add: True)
      then show ?thesis using True by simp
    next
      case False
      then have "remaining - ?size < remaining" by simp
      let ?d = "stream_content A rd header key (index + 1) (remaining - ?size) t"
      have "?c = (clear @ fst ?d, snd ?d)"
        by (subst stream_content.simps, subst Inr [unfolded p]) (simp add: False Let_def)
      then show ?thesis
        using less.IH [OF \<open>remaining - ?size < remaining\<close>, of "index + 1" t] l by (auto simp: Let_def)
    qed
  qed
qed

end

subsection \<open>The pull-based reader\<close>

definition decrypt_content :: "aead \<Rightarrow> 's reading \<Rightarrow> 's decrypt_reader \<Rightarrow> bytes \<times> store_error option" where
  "decrypt_content A rd d =
     (if dr_done d \<or> length (dr_buffer d) < dr_offset d then ([], None)
      else let c = stream_content A rd (dr_header d) (dr_key d) (dr_index d) (dr_remaining d) (dr_input d)
           in (drop (dr_offset d) (dr_buffer d) @ fst c, snd c))"

context byte_source
begin

lemma decrypt_next_content:
  assumes laws: "aead_laws A" and "\<not> dr_done d" and "dr_offset d = length (dr_buffer d)"
  shows "case decrypt_next A rd d of
      Inl e \<Rightarrow> decrypt_content A rd d = ([], Some e)
    | Inr d' \<Rightarrow> decrypt_content A rd d' = decrypt_content A rd d \<and> dr_offset d' = 0
        \<and> (dr_buffer d' = [] \<longleftrightarrow> dr_done d')"
proof -
  let ?size = "min (dr_remaining d) CHUNK"
  show ?thesis
  proof (cases "read_exact rd (dr_input d) 24")
    case (Inl e)
    then show ?thesis using assms by (simp add: decrypt_next_def decrypt_content_def stream_content.simps [of A rd])
  next
    case (Inr p)
    obtain nonce s1 where p: "p = (nonce, s1)" by fastforce
    note r1 = Inr [unfolded p]
    show ?thesis
    proof (cases "read_exact rd s1 (?size + 16)")
      case (Inl e)
      then show ?thesis using r1 assms
        by (simp add: decrypt_next_def decrypt_content_def stream_content.simps [of A rd])
    next
      case (Inr q)
      obtain cipher s2 where q: "q = (cipher, s2)" by fastforce
      note r2 = Inr [unfolded q]
      show ?thesis
      proof (cases "aead_open A (dr_key d) nonce (chunk_aad (dr_header d) (dr_index d) (dr_remaining d = 0)) cipher")
        case (Inl e)
        then show ?thesis using r1 r2 assms
          by (simp add: decrypt_next_def decrypt_content_def stream_content.simps [of A rd])
      next
        case (Inr clear)
        have l: "length clear = ?size" using opened_length [OF laws r2 Inr] .
        show ?thesis
        proof (cases "dr_remaining d = 0")
          case True
          then show ?thesis using r1 r2 Inr assms l
            by (cases "at_end rd s2")
               (simp_all add: decrypt_next_def decrypt_content_def stream_content.simps [of A rd])
        next
          case False
          moreover have "clear \<noteq> []" using l False by (cases clear) (auto simp: min_def split: if_splits)
          ultimately show ?thesis using r1 r2 Inr assms
            by (simp add: decrypt_next_def decrypt_content_def Let_def
                stream_content.simps [of A rd "dr_header d" "dr_key d" "dr_index d" "dr_remaining d" "dr_input d"])
        qed
      qed
    qed
  qed
qed

lemma decrypt_source:
  assumes laws: "aead_laws A"
  shows "byte_source (decrypt_read A rd) (decrypt_content A rd)"
proof
  fix d d' n bs
  assume n: "0 < n" and read: "decrypt_read A rd d n = Inr (bs, d')" and ne: "bs \<noteq> []"
  have nd: "\<not> dr_done d" using read ne n by (auto simp: decrypt_read_def)
  obtain d1 where d1: "decrypt_content A rd d1 = decrypt_content A rd d" "\<not> dr_done d1"
    "bs = take (min n (length (dr_buffer d1) - dr_offset d1)) (drop (dr_offset d1) (dr_buffer d1))"
    "d' = d1\<lparr>dr_offset := dr_offset d1 + min n (length (dr_buffer d1) - dr_offset d1)\<rparr>"
  proof (cases "dr_offset d = length (dr_buffer d)")
    case True
    then obtain d1 where "decrypt_next A rd d = Inr d1"
      "bs = take (min n (length (dr_buffer d1) - dr_offset d1)) (drop (dr_offset d1) (dr_buffer d1))"
      "d' = d1\<lparr>dr_offset := dr_offset d1 + min n (length (dr_buffer d1) - dr_offset d1)\<rparr>"
      using read nd n by (auto simp: decrypt_read_def Let_def)
    moreover from this have "decrypt_content A rd d1 = decrypt_content A rd d" "dr_buffer d1 = [] \<longleftrightarrow> dr_done d1"
      using decrypt_next_content [OF laws nd True] by simp_all
    moreover have "dr_buffer d1 \<noteq> []" using calculation(2) ne by auto
    ultimately show ?thesis using that by blast
  next
    case False
    then show ?thesis using that [of d] read nd n by (auto simp: decrypt_read_def Let_def)
  qed
  let ?k = "min n (length (dr_buffer d1) - dr_offset d1)"
  have o: "dr_offset d1 < length (dr_buffer d1)" using d1(3) ne by (cases "dr_offset d1 < length (dr_buffer d1)") auto
  have l: "length bs = ?k" using o by (simp add: d1(3))
  have k: "dr_offset d1 + ?k \<le> length (dr_buffer d1)" using o by linarith
  have "bs @ drop (dr_offset d1 + ?k) (dr_buffer d1) = drop (dr_offset d1) (dr_buffer d1)"
    using append_take_drop_id [of ?k "drop (dr_offset d1) (dr_buffer d1)"] d1(3) by (simp add: add.commute)
  moreover have "decrypt_content A rd d1 =
      (let c = stream_content A rd (dr_header d1) (dr_key d1) (dr_index d1) (dr_remaining d1) (dr_input d1)
       in (drop (dr_offset d1) (dr_buffer d1) @ fst c, snd c))"
    using d1(2) o by (simp add: decrypt_content_def)
  moreover have "decrypt_content A rd d' =
      (let c = stream_content A rd (dr_header d1) (dr_key d1) (dr_index d1) (dr_remaining d1) (dr_input d1)
       in (drop (dr_offset d1 + ?k) (dr_buffer d1) @ fst c, snd c))"
    using d1(2) k by (simp add: decrypt_content_def d1(4) not_less)
  ultimately show "length bs \<le> n
      \<and> decrypt_content A rd d = (bs @ fst (decrypt_content A rd d'), snd (decrypt_content A rd d'))"
    using d1(1) l by (simp add: Let_def)
next
  fix d d' n
  assume n: "0 < n" and read: "decrypt_read A rd d n = Inr ([], d')"
  show "decrypt_content A rd d = ([], None)"
  proof (cases "dr_done d \<or> length (dr_buffer d) < dr_offset d")
    case True
    then show ?thesis by (simp add: decrypt_content_def)
  next
    case False
    then have o: "dr_offset d = length (dr_buffer d)"
      using read n by (auto simp: decrypt_read_def Let_def split: if_splits)
    then obtain d1 where d1: "decrypt_next A rd d = Inr d1"
      "take (min n (length (dr_buffer d1) - dr_offset d1)) (drop (dr_offset d1) (dr_buffer d1)) = []"
      using read False n by (auto simp: decrypt_read_def Let_def)
    have "decrypt_content A rd d1 = decrypt_content A rd d" "dr_offset d1 = 0" "dr_buffer d1 = [] \<longleftrightarrow> dr_done d1"
      using decrypt_next_content [OF laws _ o] False d1(1) by simp_all
    then show ?thesis using d1(2) n by (cases "dr_buffer d1") (auto simp: decrypt_content_def)
  qed
next
  fix d n e
  assume n: "0 < n" and read: "decrypt_read A rd d n = Inl e"
  then have "\<not> dr_done d" "dr_offset d = length (dr_buffer d)" "decrypt_next A rd d = Inl e"
    by (auto simp: decrypt_read_def Let_def split: if_splits sum.splits)
       (auto simp: bindR_def Let_def split: sum.splits)
  then show "decrypt_content A rd d = ([], Some e)"
    using decrypt_next_content [OF laws, of d] by simp
qed

lemma pull_reader:
  assumes laws: "aead_laws A" and new: "decrypt_reader_new s key header = Ok d"
    and n: "payload_length header = Ok n"
  shows "copy_exact (decrypt_read A rd) d n = decrypt_stream A rd header key s"
proof -
  let ?c = "stream_content A rd header key 0 n s"
  have d: "decrypt_content A rd d = ?c"
    using new n by (auto simp: decrypt_reader_new_def decrypt_content_def Let_def)
  have "copy_exact (decrypt_read A rd) d n = exactly ?c n"
    using byte_source.copy_exact_content [OF decrypt_source [OF laws], of d n] d by simp
  also have "\<dots> = (case snd ?c of None \<Rightarrow> Ok (fst ?c) | Some e \<Rightarrow> Err e)"
    using stream_content_length [OF laws, of header key 0 n s]
    by (auto simp: exactly_def ending_def Let_def split: option.splits)
  also have "\<dots> = decrypt_stream A rd header key s"
    using decrypt_chunks_content [OF laws, of header key 0 n s] n
    by (simp add: decrypt_stream_def Let_def)
  finally show ?thesis .
qed

end

subsection \<open>Sealing\<close>

definition frames_length :: "nat \<Rightarrow> nat" where
  "frames_length n = n + (div_ceil n CHUNK + 1) * 40"

lemma div_ceil_step: "n \<noteq> 0 \<Longrightarrow> div_ceil n CHUNK = div_ceil (n - min n CHUNK) CHUNK + 1"
proof (cases "n \<le> CHUNK")
  case True
  assume "n \<noteq> 0"
  have "(n + CHUNK - 1) div CHUNK = 1" using True \<open>n \<noteq> 0\<close> by (intro div_nat_eqI) auto
  then show ?thesis using True by (simp add: div_ceil_def)
next
  case False
  then have "n + CHUNK - 1 = (n - CHUNK + CHUNK - 1) + CHUNK" by simp
  then have "(n + CHUNK - 1) div CHUNK = (n - CHUNK + CHUNK - 1) div CHUNK + 1"
    using div_add_self2 [of CHUNK "n - CHUNK + CHUNK - 1"] by simp
  then show ?thesis using False by (simp add: div_ceil_def min_def)
qed

lemma frames_length_step:
  assumes "n \<noteq> 0"
  shows "frames_length n = 24 + (min n CHUNK + 16) + frames_length (n - min n CHUNK)"
  using div_ceil_step [OF assms] by (simp add: frames_length_def)

lemma frames_length_0: "frames_length 0 = 40"
  by (simp add: frames_length_def div_ceil_def)

lemma encrypt_chunks_cong:
  "(\<And>j. k \<le> j \<Longrightarrow> rng j 24 = rng' j 24) \<Longrightarrow>
     encrypt_chunks A rng k header key index remaining rd s = encrypt_chunks A rng' k header key index remaining rd s"
proof (induction remaining arbitrary: k index s rule: less_induct)
  case (less remaining)
  show ?case
  proof (cases "remaining = 0")
    case True
    then show ?thesis using less.prems [of k]
      by (simp add: encrypt_chunks.simps [of A rng] encrypt_chunks.simps [of A rng'] random_bytes_def)
  next
    case False
    have "encrypt_chunks A rng (k + 1) header key (index + 1) (remaining - min remaining CHUNK) rd t
        = encrypt_chunks A rng' (k + 1) header key (index + 1) (remaining - min remaining CHUNK) rd t" for t
      using less.prems False by (intro less.IH) auto
    then show ?thesis using False less.prems [of k]
      by (simp add: encrypt_chunks.simps [of A rng k header key index remaining]
          encrypt_chunks.simps [of A rng' k header key index remaining] random_bytes_def)
  qed
qed

context byte_source
begin

text \<open>What was sealed from any source is delivered by decryption, and nothing of what follows.\<close>

lemma decrypt_sealed:
  assumes laws: "aead_laws A" "rng_laws rng" and source: "byte_source rd1 content1"
  shows "encrypt_chunks A rng k header key index remaining rd1 s1 = Ok (written, t1) \<Longrightarrow>
    content s = (written @ tail, err) \<Longrightarrow>
    length written = frames_length remaining \<and> remaining \<le> length (fst (content1 s1))
    \<and> content1 t1 = (drop remaining (fst (content1 s1)), snd (content1 s1))
    \<and> (\<exists>t. decrypt_chunks A rd header key index remaining s = Ok (take remaining (fst (content1 s1)), t)
         \<and> content t = (tail, err))"
proof (induction remaining arbitrary: k index s1 written s rule: less_induct)
  case (less remaining)
  let ?size = "min remaining CHUNK"
  from less.prems(1) obtain buffer u1 nonce cipher where e: "read_exact rd1 s1 ?size = Ok (buffer, u1)"
    "random_bytes rng k 24 = Ok nonce"
    "aead_seal A key nonce (chunk_aad header index (remaining = 0)) buffer = Ok cipher"
    by (auto simp: encrypt_chunks.simps [of A rng k header key index remaining] Let_def)
  note b = byte_source.read_exact_Ok [OF source e(1)]
  have size: "?size \<le> length (fst (content1 s1))" using b(1) b(2) by simp
  have n: "length nonce = 24" using random_length [OF laws(2) e(2)] .
  have c: "length cipher = ?size + 16" using aead_seal_length [OF laws(1) e(3)] b(2) by simp
  obtain rest where w: "written = nonce @ cipher @ rest"
    and rest: "remaining = 0 \<Longrightarrow> rest = [] \<and> t1 = u1"
      "remaining \<noteq> 0 \<Longrightarrow> encrypt_chunks A rng (k + 1) header key (index + 1) (remaining - ?size) rd1 u1 = Ok (rest, t1)"
  proof (cases "remaining = 0")
    case True
    then show ?thesis using that [of "[]"] less.prems(1) e
      by (simp add: encrypt_chunks.simps [of A rng k header key index 0] Let_def)
  next
    case False
    then show ?thesis using that less.prems(1) e
      by (auto simp: encrypt_chunks.simps [of A rng k header key index remaining] Let_def)
  qed
  have cs: "content s = (nonce @ cipher @ rest @ tail, err)" using less.prems(2) w by simp
  obtain s2 where s2: "read_exact rd s 24 = Ok (nonce, s2)" "content s2 = (cipher @ rest @ tail, err)"
    using read_exact_full [of 24 s] cs n by auto
  obtain s3 where s3: "read_exact rd s2 (?size + 16) = Ok (cipher, s3)" "content s3 = (rest @ tail, err)"
    using read_exact_full [of "?size + 16" s2] s2(2) c by auto
  have o: "aead_open A key nonce (chunk_aad header index (remaining = 0)) cipher = Ok buffer"
    using e(3) aead_open_seal [OF laws(1)] by blast
  show ?case
  proof (cases "remaining = 0")
    case True
    then have "decrypt_chunks A rd header key index remaining s = Ok (buffer, s3)"
      using s2(1) s3(1) o by (simp add: decrypt_chunks.simps [of A rd header key index 0])
    then show ?thesis using True rest(1) s3(2) b w n c by (simp add: frames_length_0)
  next
    case False
    let ?r = "remaining - ?size"
    have "?r < remaining" using False by simp
    from less.IH [OF this rest(2) [OF False] s3(2)] obtain t where ih: "length rest = frames_length ?r"
      "?r \<le> length (fst (content1 u1))" "content1 t1 = (drop ?r (fst (content1 u1)), snd (content1 u1))"
      "decrypt_chunks A rd header key (index + 1) ?r s3 = Ok (take ?r (fst (content1 u1)), t)"
      "content t = (tail, err)"
      by blast
    have "decrypt_chunks A rd header key index remaining s = Ok (buffer @ take ?r (fst (content1 u1)), t)"
      using s2(1) s3(1) o False ih(4) by (simp add: decrypt_chunks.simps [of A rd header key index remaining] Let_def)
    moreover have "buffer @ take ?r (fst (content1 u1)) = take remaining (fst (content1 s1))"
      using b by (metis fst_conv le_add_diff_inverse min.cobounded1 take_add)
    moreover have "drop ?r (fst (content1 u1)) = drop remaining (fst (content1 s1))"
      using b(3) by (simp add: min_def)
    moreover have "length written = frames_length remaining"
      using frames_length_step [OF False] ih(1) w n c by simp
    moreover have "remaining \<le> length (fst (content1 s1))"
      using ih(2) b(3) size by (simp add: min_def split: if_splits)
    ultimately show ?thesis using ih(3,5) b(3) by simp
  qed
qed

text \<open>Whatever decryption accepts was sealed: some random source makes sealing write it.\<close>

lemma sealed_decrypted:
  assumes laws: "aead_laws A"
  shows "decrypt_chunks A rd header key index remaining s = Ok (clear, t) \<Longrightarrow>
    \<exists>rng written. rng_laws rng \<and> content s = (written @ fst (content t), snd (content t))
      \<and> length clear = remaining
      \<and> (\<forall>(rd1 :: 'x reading) content1 s1 rest err. byte_source rd1 content1 \<longrightarrow> content1 s1 = (clear @ rest, err) \<longrightarrow>
           (\<exists>t1. encrypt_chunks A rng k header key index remaining rd1 s1 = Ok (written, t1)
               \<and> content1 t1 = (rest, err)))"
proof (induction remaining arbitrary: k index s clear rule: less_induct)
  case (less remaining)
  let ?size = "min remaining CHUNK"
  from less.prems obtain nonce s2 cipher s3 buffer where r: "read_exact rd s 24 = Ok (nonce, s2)"
    "read_exact rd s2 (?size + 16) = Ok (cipher, s3)"
    "aead_open A key nonce (chunk_aad header index (remaining = 0)) cipher = Ok buffer"
    by (auto simp: decrypt_chunks.simps [of A rd header key index remaining] Let_def)
  note n = read_exact_Ok [OF r(1)] and c = read_exact_Ok [OF r(2)]
  have l: "length buffer = ?size" using opened_length [OF laws r(2,3)] .
  have cs: "content s = (nonce @ cipher @ fst (content s3), snd (content s3))"
    using n c by (metis append_take_drop_id fst_conv prod.collapse snd_conv)
  have seal: "aead_seal A key nonce (chunk_aad header index (remaining = 0)) buffer = Ok cipher"
    using r(3) aead_open_seal [OF laws] by blast
  have first: "\<exists>u1. read_exact rd1 s1 ?size = Ok (buffer, u1) \<and> content1 u1 = (more, err)"
    if "byte_source rd1 content1" "content1 s1 = (buffer @ more, err)"
    for rd1 :: "'x reading" and content1 s1 more err
    using byte_source.read_exact_full [OF that(1), of ?size s1] that(2) l by auto
  show ?case
  proof (cases "remaining = 0")
    case True
    then have t: "clear = buffer" "t = s3" using less.prems r
      by (simp_all add: decrypt_chunks.simps [of A rd header key index 0])
    define rng where "rng = (\<lambda>(j :: nat) (m :: nat). Some (if m = 24 then nonce else replicate m (0 :: byte)))"
    have "rng_laws rng" using n(2) by (auto simp: rng_laws_def rng_def)
    moreover have "random_bytes rng k 24 = Ok nonce" by (simp add: random_bytes_def rng_def)
    moreover have "\<exists>t1. encrypt_chunks A rng k header key index remaining rd1 s1 = Ok (nonce @ cipher, t1)
        \<and> content1 t1 = (rest, err)"
      if src: "byte_source rd1 content1" and s1: "content1 s1 = (clear @ rest, err)" for rd1 :: "'x reading" and content1 s1 rest err
    proof -
      obtain u1 where "read_exact rd1 s1 ?size = Ok (buffer, u1)" "content1 u1 = (rest, err)"
        using first [OF src, of s1 rest err] s1 t(1) by auto
      then show ?thesis using True seal \<open>random_bytes rng k 24 = Ok nonce\<close>
        by (simp add: encrypt_chunks.simps [of A rng k header key index 0] Let_def)
    qed
    ultimately show ?thesis
      using True t l cs by (intro exI [of _ rng] exI [of _ "nonce @ cipher"]) auto
  next
    case False
    let ?r = "remaining - ?size"
    from less.prems r False obtain more where m: "decrypt_chunks A rd header key (index + 1) ?r s3 = Ok (more, t)"
      "clear = buffer @ more"
      by (auto simp: decrypt_chunks.simps [of A rd header key index remaining] Let_def)
    have "?r < remaining" using False by simp
    from less.IH [OF this m(1), of "k + 1"] obtain rng written where ih: "rng_laws rng"
      "content s3 = (written @ fst (content t), snd (content t))" "length more = ?r"
      "\<And>(rd1 :: 'x reading) content1 s1 rest err. byte_source rd1 content1 \<Longrightarrow> content1 s1 = (more @ rest, err) \<Longrightarrow>
         \<exists>t1. encrypt_chunks A rng (k + 1) header key (index + 1) ?r rd1 s1 = Ok (written, t1) \<and> content1 t1 = (rest, err)"
      by blast
    define rng' where "rng' = (\<lambda>j m. if j = k \<and> m = 24 then Some nonce else rng j m)"
    have "rng_laws rng'" using ih(1) n(2) by (auto simp: rng_laws_def rng'_def)
    moreover have k: "random_bytes rng' k 24 = Ok nonce" by (simp add: random_bytes_def rng'_def)
    moreover have cong: "encrypt_chunks A rng' (k + 1) header key (index + 1) ?r rd1 s1
        = encrypt_chunks A rng (k + 1) header key (index + 1) ?r rd1 s1" for rd1 :: "'x reading" and s1
      by (rule encrypt_chunks_cong) (simp add: rng'_def)
    moreover have "\<exists>t1. encrypt_chunks A rng' k header key index remaining rd1 s1 = Ok (nonce @ cipher @ written, t1)
        \<and> content1 t1 = (rest, err)"
      if src: "byte_source rd1 content1" and s1: "content1 s1 = (clear @ rest, err)"
      for rd1 :: "'x reading" and content1 s1 rest err
    proof -
      obtain u1 where u1: "read_exact rd1 s1 ?size = Ok (buffer, u1)" "content1 u1 = (more @ rest, err)"
        using first [OF src, of s1 "more @ rest" err] s1 m(2) by auto
      obtain t1 where "encrypt_chunks A rng (k + 1) header key (index + 1) ?r rd1 u1 = Ok (written, t1)"
        "content1 t1 = (rest, err)"
        using ih(4) [OF src u1(2)] by blast
      then show ?thesis using u1 k seal False cong [of rd1 u1]
        by (simp add: encrypt_chunks.simps [of A rng' k header key index remaining] Let_def)
    qed
    ultimately show ?thesis
      using cs ih(2,3) m(2) l
      by (intro exI [of _ rng'] exI [of _ "nonce @ cipher @ written"]) auto
  qed
qed

end

subsection \<open>A concrete cipher for the witnesses\<close>

definition toy_tag :: "bytes \<Rightarrow> bytes \<Rightarrow> bytes \<Rightarrow> bytes" where
  "toy_tag k n a = replicate 16 (sum_list k + last n + last a)"

definition toy_aead :: aead where
  "toy_aead = \<lparr>ae_seal = \<lambda>k n a m. Some (toy_tag k n a @ m),
     ae_open = \<lambda>k n a c. if take 16 c = toy_tag k n a then Some (drop 16 c) else None,
     ae_derive = \<lambda>password salt t. Some (replicate 32 (sum_list password + sum_list salt + of_nat t))\<rparr>"

definition zero_rng :: rng where
  "zero_rng k n = Some (replicate n 0)"

lemma toy_aead_laws: "aead_laws toy_aead"
proof -
  have "toy_tag k n a @ drop 16 c = c" if "take 16 c = toy_tag k n a" for k n a c
    using that by (metis append_take_drop_id)
  moreover have "length (toy_tag k n a) = 16" for k n a by (simp add: toy_tag_def)
  ultimately show ?thesis by (auto simp: aead_laws_def toy_aead_def)
qed

lemma zero_rng_laws: "rng_laws zero_rng"
  by (simp add: rng_laws_def zero_rng_def)

subsection \<open>Streams\<close>

lemma encrypt_stream_Ok:
  assumes "encrypt_stream A rng k header key rd s len = Ok (nxt, out)" and "rng_laws rng" and "WRAPPED \<le> length header"
  shows "len \<le> MAX_PAYLOAD" and "length nxt = HEADER" and "take WRAPPED nxt = take WRAPPED header"
    and "payload_length nxt = Ok len"
    and "\<exists>written t. encrypt_chunks A rng (k + 1) nxt key 0 len rd s = Ok (written, t) \<and> at_end rd t = Ok ()
       \<and> out = nxt @ written"
proof -
  obtain stream written t where e: "len \<le> MAX_PAYLOAD" "random_bytes rng k 24 = Ok stream"
    "nxt = take WRAPPED header @ stream @ le_bytes 8 len"
    "encrypt_chunks A rng (k + 1) nxt key 0 len rd s = Ok (written, t)" "at_end rd t = Ok ()"
    "out = nxt @ written"
    using assms(1) by (auto simp: encrypt_stream_def Let_def not_less)
  have l: "length stream = 24" using random_length [OF assms(2) e(2)] .
  show "len \<le> MAX_PAYLOAD" by fact
  show n: "length nxt = HEADER" using assms(3) l by (simp add: e(3) HEADER_def WRAPPED_def)
  show "take WRAPPED nxt = take WRAPPED header" using assms(3) by (simp add: e(3))
  have "slice 128 136 nxt = le_bytes 8 len"
    using assms(3) l unfolding e(3) by (simp add: slice_def WRAPPED_def)
  moreover have "len < 256 ^ 8" using e(1) by (simp add: MAX_PAYLOAD_def)
  ultimately show "payload_length nxt = Ok len" using n by (simp add: payload_length_def le_value_le_bytes)
  show "\<exists>written t. encrypt_chunks A rng (k + 1) nxt key 0 len rd s = Ok (written, t) \<and> at_end rd t = Ok ()
       \<and> out = nxt @ written"
    using e by blast
qed

lemma stream_roundtrip:
  assumes laws: "aead_laws A" "rng_laws rng" and source: "byte_source rd1 content1"
    and enc: "encrypt_stream A rng k header key rd1 s1 len = Ok (nxt, out)" and h: "WRAPPED \<le> length header"
    and into: "byte_source rd content" and s: "content s = (drop HEADER out, None)"
  shows "take HEADER out = nxt" and "length out = encoded_length len"
    and "content1 s1 = (fst (content1 s1), None)" and "length (fst (content1 s1)) = len"
    and "decrypt_stream A rd nxt key s = Ok (fst (content1 s1))"
proof -
  note e = encrypt_stream_Ok [OF enc laws(2) h]
  obtain written t1 where w: "encrypt_chunks A rng (k + 1) nxt key 0 len rd1 s1 = Ok (written, t1)"
    "at_end rd1 t1 = Ok ()" "out = nxt @ written"
    using e(5) by blast
  have s': "content s = (written @ [], None)" using s w(3) e(2) by simp
  from byte_source.decrypt_sealed [OF into laws source w(1) s'] obtain t where
    d: "length written = frames_length len" "len \<le> length (fst (content1 s1))"
    "content1 t1 = (drop len (fst (content1 s1)), snd (content1 s1))"
    "decrypt_chunks A rd nxt key 0 len s = Ok (take len (fst (content1 s1)), t)" "content t = ([], None)"
    by blast
  have "drop len (fst (content1 s1)) = [] \<and> snd (content1 s1) = None"
    using w(2) d(3) by (auto simp: byte_source.at_end_content [OF source] split: list.splits option.splits)
  then have c: "length (fst (content1 s1)) = len" "snd (content1 s1) = None" using d(2) by auto
  show "take HEADER out = nxt" using w(3) e(2) by simp
  show "length out = encoded_length len"
    using w(3) e(2) d(1) by (simp add: encoded_length_def frames_length_def)
  show "content1 s1 = (fst (content1 s1), None)" using c(2) by (metis prod.collapse)
  show "length (fst (content1 s1)) = len" by (rule c(1))
  have "at_end rd t = Ok ()" using d(5) by (simp add: byte_source.at_end_content [OF into])
  then show "decrypt_stream A rd nxt key s = Ok (fst (content1 s1))"
    using e(4) d(4) c(1) by (simp add: decrypt_stream_def)
qed

text \<open>
  C34: an encrypted stream is accepted exactly when it was sealed. Decrypting a body under a
  header succeeds with some text if and only if sealing that text under the header, for some
  random nonces, writes exactly this body: nothing can be cut off, appended, reordered or
  replaced, and everything sealed can be read back.
\<close>

theorem stream_iff_sealed:
  assumes "aead_laws A" and "payload_length header = Ok n" and "n \<le> MAX_PAYLOAD"
  shows "decrypt_stream A object_read header key (reader_of body) = Ok clear \<longleftrightarrow>
     (\<exists>rng. rng_laws rng \<and> encrypt_stream A rng 0 header key object_read (reader_of clear) n
        = Ok (header, header @ body))"
proof -
  have h: "length header = HEADER" "le_value (slice 128 136 header) = n"
    using assms(2) by (auto simp: payload_length_def split: if_splits)
  let ?stream = "slice WRAPPED 128 header"
  have sl: "length (slice 128 136 header) = 8" "length ?stream = 24"
    using h(1) by (simp_all add: length_slice HEADER_def WRAPPED_def)
  have parts: "take WRAPPED header @ ?stream @ le_bytes 8 n = header"
  proof -
    have "?stream @ slice 128 136 header = drop WRAPPED header"
      using append_take_drop_id [of 24 "drop WRAPPED header"] h(1)
      by (simp add: slice_def WRAPPED_def HEADER_def)
    moreover have "slice 128 136 header = le_bytes 8 n"
      using le_bytes_le_value [of "slice 128 136 header"] sl(1) h(2) by simp
    ultimately show ?thesis using append_take_drop_id [of WRAPPED header] by simp
  qed
  have "\<exists>rng. rng_laws rng \<and> encrypt_stream A rng 0 header key object_read (reader_of clear) n = Ok (header, header @ body)"
    if accepted: "decrypt_stream A object_read header key (reader_of body) = Ok clear"
  proof -
    obtain t where d: "decrypt_chunks A object_read header key 0 n (reader_of body) = Ok (clear, t)"
      "at_end object_read t = Ok ()"
      using assms(2) accepted by (auto simp: decrypt_stream_def)
    have t: "object_content t = ([], None)"
      using d(2) by (simp only: object_source.at_end_Ok)
    have "\<exists>rng written. rng_laws rng
      \<and> object_content (reader_of body) = (written @ fst (object_content t), snd (object_content t))
      \<and> length clear = n
      \<and> (\<forall>(rd1 :: object_reader reading) content1 s1 rest err. byte_source rd1 content1 \<longrightarrow>
         content1 s1 = (clear @ rest, err) \<longrightarrow>
         (\<exists>t1. encrypt_chunks A rng 1 header key 0 n rd1 s1 = Ok (written, t1) \<and> content1 t1 = (rest, err)))"
      by (rule object_source.sealed_decrypted [OF assms(1) d(1)])
    then obtain rng written where r: "rng_laws rng"
      "object_content (reader_of body) = (written @ fst (object_content t), snd (object_content t))"
      "\<forall>(rd1 :: object_reader reading) content1 s1 rest err. byte_source rd1 content1 \<longrightarrow>
         content1 s1 = (clear @ rest, err) \<longrightarrow>
         (\<exists>t1. encrypt_chunks A rng 1 header key 0 n rd1 s1 = Ok (written, t1) \<and> content1 t1 = (rest, err))"
      by (elim exE conjE) (rule that)
    have body: "written = body" using r(2) t by simp
    define rng' where "rng' = (\<lambda>j m. if j = 0 \<and> m = 24 then Some ?stream else rng j m)"
    have laws': "rng_laws rng'" using r(1) sl(2) by (auto simp: rng_laws_def rng'_def)
    obtain t1 where t1: "encrypt_chunks A rng 1 header key 0 n object_read (reader_of clear) = Ok (body, t1)"
      "object_content t1 = ([], None)"
      using r(3) [rule_format, OF object_source.byte_source_axioms, of "reader_of clear" "[]" None]
      unfolding body by (simp only: content_reader_of append_Nil2) blast
    have cong: "encrypt_chunks A rng' 1 header key 0 n object_read (reader_of clear)
        = encrypt_chunks A rng 1 header key 0 n object_read (reader_of clear)"
      by (rule encrypt_chunks_cong) (simp add: rng'_def)
    have "random_bytes rng' 0 24 = Ok ?stream" by (simp add: random_bytes_def rng'_def)
    moreover have "at_end object_read t1 = Ok ()" using t1(2) by (simp only: object_source.at_end_Ok)
    ultimately have "encrypt_stream A rng' 0 header key object_read (reader_of clear) n = Ok (header, header @ body)"
      using assms(3) t1(1) cong by (simp add: encrypt_stream_def parts)
    then show ?thesis using laws' by blast
  qed
  moreover have "decrypt_stream A object_read header key (reader_of body) = Ok clear"
    if "rng_laws rng" "encrypt_stream A rng 0 header key object_read (reader_of clear) n = Ok (header, header @ body)"
    for rng
    using stream_roundtrip(5) [OF assms(1) that(1) object_source.byte_source_axioms that(2) _
        object_source.byte_source_axioms, of "reader_of body"] h(1)
    by (simp add: HEADER_def WRAPPED_def)
  ultimately show ?thesis by blast
qed

definition demo_stream_header :: bytes where
  "demo_stream_header = MAGIC @ VERSION @ le_bytes 4 3 @ replicate 112 0 @ le_bytes 8 3"

definition demo_stream :: bytes where
  "demo_stream = replicate 24 0 @ replicate 16 7 @ [1, 2, 3] @ replicate 24 0 @ replicate 16 8"

lemmas evaluate_reads = read_exact.simps object_read_def reader_of_def at_end_def random_bytes_def
  zero_rng_def toy_aead_def toy_tag_def chunk_aad_def CHUNK_def aead_seal_def aead_open_def ascii_def

lemma demo_header: "payload_length demo_stream_header = Ok 3" "take WRAPPED demo_stream_header @ replicate 24 0 @ le_bytes 8 3 = demo_stream_header"
  by (simp_all add: demo_stream_header_def payload_length_def HEADER_def WRAPPED_def MAGIC_def VERSION_def slice_def
      le_value_le_bytes replicate_add [symmetric])

lemma demo_header_append:
  "take WRAPPED demo_stream_header @ replicate 24 0 @ le_bytes 8 3 @ xs = demo_stream_header @ xs"
  by (metis append.assoc demo_header(2))

lemma demo_sealed: "encrypt_stream toy_aead zero_rng 0 demo_stream_header [7] object_read (reader_of [1, 2, 3]) 3
    = Ok (demo_stream_header, demo_stream_header @ demo_stream)"
  by (simp add: encrypt_stream_def demo_header encrypt_chunks.simps evaluate_reads Let_def
      demo_header_append demo_stream_def MAX_PAYLOAD_def)

theorem stream_iff_sealed_witness:
  "decrypt_stream toy_aead object_read demo_stream_header [7] (reader_of demo_stream) = Ok [1, 2, 3]"
proof -
  have "(3::nat) \<le> MAX_PAYLOAD" by (simp add: MAX_PAYLOAD_def)
  then show ?thesis
    using stream_iff_sealed [OF toy_aead_laws demo_header(1), of "[7]" demo_stream "[1, 2, 3]"]
      demo_sealed zero_rng_laws by blast
qed



subsection \<open>Passwords\<close>

lemma derive_measured_Ok:
  "derive_measured A elapsed password salt t = Ok (key, m) \<longleftrightarrow>
     password \<noteq> [] \<and> ae_derive A password salt t = Some key \<and> elapsed \<le> U64_MAX
     \<and> m = \<lparr>km_parameters = kdf_with t, km_elapsed_ms = elapsed\<rparr>"
  by (auto simp: derive_measured_def)

lemma calibrated_bounds:
  "KDF_MIN_ITERATIONS \<le> calibrated_iterations target e" "calibrated_iterations target e \<le> KDF_MAX_ITERATIONS"
  by (simp_all add: calibrated_iterations_def KDF_MIN_ITERATIONS_def KDF_MAX_ITERATIONS_def)

lemma calibrated_kek_Ok:
  assumes "calibrated_kek A e1 e2 password salt target = Ok (kek, m)"
  shows "password \<noteq> [] \<and> 500 \<le> target \<and> target \<le> 5000
    \<and> (\<exists>t. km_parameters m = kdf_with t \<and> ae_derive A password salt t = Some kek
         \<and> t = calibrated_iterations target e1 \<and> e1 \<le> U64_MAX)"
proof -
  obtain trial measured where t: "500 \<le> target" "target \<le> 5000"
    "derive_measured A e1 password salt KDF_MIN_ITERATIONS = Ok (trial, measured)"
    "(if calibrated_iterations target (km_elapsed_ms measured) = KDF_MIN_ITERATIONS then Ok (trial, measured)
      else derive_measured A e2 password salt (calibrated_iterations target (km_elapsed_ms measured))) = Ok (kek, m)"
    using assms by (auto simp: calibrated_kek_def validate_kdf_target_def Let_def split: if_splits)
  then show ?thesis by (auto simp: derive_measured_Ok split: if_splits)
qed

text \<open>
  Calibration stays within the bounds of the format. For an accepted target the chosen work
  is between 3 and 256 passes, never below what the trial needs and never above what fits the
  target at the measured speed; and it is the work the wrapping key is derived with.
\<close>

theorem calibration_bounds:
  assumes "calibrated_kek A e1 e2 password salt target = Ok (kek, m)" and "t = kp_iterations (km_parameters m)"
  shows "3 \<le> t \<and> t \<le> 256 \<and> ae_derive A password salt t = Some kek
    \<and> (3 < t \<longrightarrow> t * max e1 1 \<le> target * 3) \<and> (t < 256 \<longrightarrow> target * 3 < (t + 1) * max e1 1)"
proof -
  have k: "ae_derive A password salt t = Some kek" "t = calibrated_iterations target e1"
    using calibrated_kek_Ok [OF assms(1)] assms(2) by (auto simp: kdf_with_def)
  let ?q = "target * 3 div max e1 1"
  have t: "t = max 3 (min 256 ?q)"
    using k(2) by (simp add: calibrated_iterations_def KDF_MIN_ITERATIONS_def KDF_MAX_ITERATIONS_def)
  have q: "?q * max e1 1 \<le> target * 3" by (rule div_times_less_eq_dividend)
  have q': "target * 3 < (?q + 1) * max e1 1"
    using dividend_less_div_times [of "max e1 1" "target * 3"] by (simp add: algebra_simps)
  have "t * max e1 1 \<le> target * 3" if "3 < t"
  proof -
    have "t \<le> ?q" using that t by auto
    then show ?thesis using q mult_le_mono1 order_trans by blast
  qed
  moreover have "target * 3 < (t + 1) * max e1 1" if "t < 256"
  proof -
    have "?q + 1 \<le> t + 1" using that t by auto
    then show ?thesis using q' mult_le_mono1 less_le_trans by blast
  qed
  ultimately show ?thesis using k(1) t by auto
qed

theorem calibration_bounds_witness:
  "\<exists>kek m. calibrated_kek toy_aead 100 900 [1] (replicate 16 0) 1000 = Ok (kek, m)
     \<and> 3 \<le> kp_iterations (km_parameters m) \<and> kp_iterations (km_parameters m) \<le> 256"
proof -
  have c: "calibrated_kek toy_aead 100 900 [1] (replicate 16 0) 1000
      = Ok (replicate 32 31, \<lparr>km_parameters = kdf_with 30, km_elapsed_ms = 900\<rparr>)"
    by (simp add: calibrated_kek_def validate_kdf_target_def derive_measured_def toy_aead_def U64_MAX_def
        calibrated_iterations_def KDF_MIN_ITERATIONS_def KDF_MAX_ITERATIONS_def Let_def sum_list_replicate)
  show ?thesis using calibration_bounds [OF c refl] c by blast
qed

lemma create_header_Ok:
  assumes "create_header A rng k e1 e2 password target = Ok (header, key)" and "aead_laws A" and "rng_laws rng"
  shows "\<exists>t salt kek nonce wrapped. 3 \<le> t \<and> t \<le> 256 \<and> length salt = 16 \<and> length nonce = 24 \<and> length wrapped = 48
    \<and> length key = 32 \<and> password \<noteq> [] \<and> ae_derive A password salt t = Some kek
    \<and> aead_seal A kek nonce ((MAGIC @ VERSION @ le_bytes 4 t @ salt) @ ascii ''/wrap'') key = Ok wrapped
    \<and> header = (MAGIC @ VERSION @ le_bytes 4 t @ salt) @ nonce @ wrapped @ replicate 32 0"
proof -
  obtain salt kek m nonce wrapped where c: "random_bytes rng k 16 = Ok salt"
    "calibrated_kek A e1 e2 password salt target = Ok (kek, m)" "random_bytes rng (k + 1) 32 = Ok key"
    "random_bytes rng (k + 2) 24 = Ok nonce"
    "aead_seal A kek nonce ((MAGIC @ VERSION @ le_bytes 4 (kp_iterations (km_parameters m)) @ salt) @ ascii ''/wrap'') key
       = Ok wrapped"
    "header = take HEADER (((MAGIC @ VERSION @ le_bytes 4 (kp_iterations (km_parameters m)) @ salt) @ nonce @ wrapped)
       @ replicate (HEADER - length ((MAGIC @ VERSION @ le_bytes 4 (kp_iterations (km_parameters m)) @ salt) @ nonce @ wrapped)) 0)"
    using assms(1)
    by (auto simp: create_header_def create_header_with_magic_def Let_def
        simp del: append_assoc take_append length_append)
  let ?t = "kp_iterations (km_parameters m)"
  have l: "length salt = 16" "length key = 32" "length nonce = 24"
    using random_length [OF assms(3)] c(1,3,4) by blast+
  have w: "length wrapped = 48" using aead_seal_length [OF assms(2) c(5)] l by simp
  obtain t where t: "password \<noteq> []" "km_parameters m = kdf_with t" "ae_derive A password salt t = Some kek"
    "t = calibrated_iterations target e1"
    using calibrated_kek_Ok [OF c(2)] by blast
  have t': "?t = t" using t(2) by (simp add: kdf_with_def)
  have b: "3 \<le> t" "t \<le> 256"
    using calibrated_bounds [of target e1] t(4) by (simp_all add: KDF_MIN_ITERATIONS_def KDF_MAX_ITERATIONS_def)
  have "length ((MAGIC @ VERSION @ le_bytes 4 t @ salt) @ nonce @ wrapped) = 104"
    using l w by (simp add: MAGIC_def VERSION_def)
  then have h: "header = (MAGIC @ VERSION @ le_bytes 4 t @ salt) @ nonce @ wrapped @ replicate 32 0"
    using c(6) unfolding t' by (simp add: HEADER_def)
  show ?thesis
    using b l w t(1,3) c(5) h unfolding t' by blast
qed

lemma unlock_created:
  assumes created: "create_header A rng k e1 e2 password target = Ok (header, key)"
    and laws: "aead_laws A" "rng_laws rng" and n: "length nxt = HEADER" and same: "take WRAPPED nxt = take WRAPPED header"
    and e: "elapsed \<le> U64_MAX"
  shows "unlock_key A elapsed nxt password = Ok key" and "take 8 nxt = MAGIC" and "slice 8 12 nxt = VERSION"
    and "3 \<le> header_iterations nxt" and "header_iterations nxt \<le> 256"
proof -
  obtain t salt kek nonce wrapped where h: "3 \<le> t" "t \<le> 256" "length salt = 16" "length nonce = 24"
    "length wrapped = 48" "length key = 32" "password \<noteq> []" "ae_derive A password salt t = Some kek"
    "aead_seal A kek nonce ((MAGIC @ VERSION @ le_bytes 4 t @ salt) @ ascii ''/wrap'') key = Ok wrapped"
    "header = (MAGIC @ VERSION @ le_bytes 4 t @ salt) @ nonce @ wrapped @ replicate 32 0"
    using create_header_Ok [OF created laws] by blast
  have w: "take WRAPPED nxt = (MAGIC @ VERSION @ le_bytes 4 t @ salt) @ nonce @ wrapped"
    using same h(3,4,5) unfolding h(10) by (simp add: WRAPPED_def MAGIC_def VERSION_def)
  have cut: "slice a b nxt = slice a b ((MAGIC @ VERSION @ le_bytes 4 t @ salt) @ nonce @ wrapped)"
    if "b \<le> 104" for a b
    using slice_take [of b WRAPPED a nxt] that w by (simp add: WRAPPED_def)
  have parts: "slice 0 8 nxt = MAGIC" "slice 8 12 nxt = VERSION" "slice 12 16 nxt = le_bytes 4 t"
    "slice 16 32 nxt = salt" "slice 32 56 nxt = nonce" "slice 56 104 nxt = wrapped"
    "slice 0 32 nxt = MAGIC @ VERSION @ le_bytes 4 t @ salt"
    using h(3,4,5) by (simp_all add: cut) (simp_all add: slice_def MAGIC_def VERSION_def)
  then have take: "take 8 nxt = MAGIC" "take 32 nxt = MAGIC @ VERSION @ le_bytes 4 t @ salt"
    by (simp_all add: slice_def)
  have it: "header_iterations nxt = t"
    using h(2) parts(3) by (simp add: header_iterations_def le_value_le_bytes)
  show "take 8 nxt = MAGIC" "slice 8 12 nxt = VERSION" "3 \<le> header_iterations nxt" "header_iterations nxt \<le> 256"
    using take parts it h by simp_all
  have p: "kdf_parameters_with_magic nxt MAGIC = Ok (kdf_with t)"
    using n take parts it h by (simp add: kdf_parameters_with_magic_def KDF_MIN_ITERATIONS_def KDF_MAX_ITERATIONS_def)
  have "aead_open A kek nonce ((MAGIC @ VERSION @ le_bytes 4 t @ salt) @ ascii ''/wrap'') wrapped = Ok key"
    using h(9) aead_open_seal [OF laws(1)] by blast
  then show "unlock_key A elapsed nxt password = Ok key"
    using p parts take h e
    by (simp add: unlock_key_def unlock_key_measured_with_magic_def derive_measured_def kdf_with_def PREFIX_def WRAPPED_def)
qed

lemma password_opens:
  assumes "aead_laws A" and "rng_laws rng" and "rng_laws rng'" and "elapsed \<le> U64_MAX"
    and "create_header A rng k e1 e2 password target = Ok (header, key)"
    and "byte_source rd content" and "encrypt_stream A rng' k' header key rd s n = Ok (nxt, out)"
    and "byte_source rd2 content2" and "content2 t = (drop HEADER out, None)"
  shows "validate_header (take HEADER out) (length out) = Ok ()"
    and "unlock_key A elapsed (take HEADER out) password = Ok key"
    and "same_key_binding header (take HEADER out)"
    and "decrypt_stream A rd2 (take HEADER out) key t = Ok (fst (content s))"
    and "length (fst (content s)) = n" and "HEADER \<le> length out"
proof -
  have h: "length header = HEADER"
    using create_header_Ok [OF assms(5,1,2)] by (auto simp: MAGIC_def VERSION_def HEADER_def)
  then have w: "WRAPPED \<le> length header" by (simp add: HEADER_def WRAPPED_def)
  note e = encrypt_stream_Ok [OF assms(7,3) w]
  note r = stream_roundtrip [OF assms(1,3,6,7) w assms(8,9)]
  note u = unlock_created [OF assms(5,1,2) e(2,3) assms(4)]
  have "validate_header nxt (length out) = Ok ()"
    using e(1,2,4) u(2-5) r(2)
    by (simp add: validate_header_def KDF_MIN_ITERATIONS_def KDF_MAX_ITERATIONS_def Let_def)
  then show "validate_header (take HEADER out) (length out) = Ok ()" using r(1) by simp
  show "unlock_key A elapsed (take HEADER out) password = Ok key" using u(1) r(1) by simp
  show "same_key_binding header (take HEADER out)" using e(2,3) h r(1) by (simp add: same_key_binding_def)
  show "decrypt_stream A rd2 (take HEADER out) key t = Ok (fst (content s))" using r(1,5) by simp
  show "length (fst (content s)) = n" by (rule r(4))
  show "HEADER \<le> length out" using r(2) by (simp add: encoded_length_def)
qed

text \<open>
  The password alone opens everything sealed under its header. For a header created from a
  password and a stream sealed with the header's key from any well-behaved source, the file
  passes the format check, the password unlocks the very content key from the first bytes
  of the file, and decrypting the rest gives exactly the source.
\<close>

theorem password_opens_streams:
  assumes "aead_laws A" and "rng_laws rng" and "rng_laws rng'" and "elapsed \<le> U64_MAX"
    and "create_header A rng k e1 e2 password target = Ok (header, key)"
    and "byte_source rd content" and "encrypt_stream A rng' k' header key rd s n = Ok (nxt, file)"
  shows "validate_header (take HEADER file) (length file) = Ok ()
    \<and> unlock_key A elapsed (take HEADER file) password = Ok key
    \<and> same_key_binding header (take HEADER file)
    \<and> decrypt_stream A object_read (take HEADER file) key (reader_of (drop HEADER file)) = Ok (fst (content s))
    \<and> length (fst (content s)) = n"
  using password_opens [OF assms object_source.byte_source_axioms content_reader_of] by blast

lemma toy_streams:
  "\<exists>header key nxt out. create_header toy_aead zero_rng 0 100 900 [1] 1000 = Ok (header, key)
     \<and> encrypt_stream toy_aead zero_rng 9 header key object_read (reader_of [1, 2, 3]) 3 = Ok (nxt, out)"
proof -
  obtain header key where "create_header toy_aead zero_rng 0 100 900 [1] 1000 = Ok (header, key)"
    by (simp add: create_header_def create_header_with_magic_def calibrated_kek_def validate_kdf_target_def
        derive_measured_def toy_aead_def U64_MAX_def calibrated_iterations_def KDF_MIN_ITERATIONS_def
        KDF_MAX_ITERATIONS_def Let_def random_bytes_def zero_rng_def aead_seal_def)
  moreover obtain nxt out where
    "encrypt_stream toy_aead zero_rng 9 header key object_read (reader_of [1, 2, 3]) 3 = Ok (nxt, out)"
    by (simp add: encrypt_stream_def encrypt_chunks.simps evaluate_reads Let_def MAX_PAYLOAD_def)
  ultimately show ?thesis by blast
qed

theorem password_opens_streams_witness:
  "\<exists>header key nxt out. create_header toy_aead zero_rng 0 100 900 [1] 1000 = Ok (header, key)
     \<and> encrypt_stream toy_aead zero_rng 9 header key object_read (reader_of [1, 2, 3]) 3 = Ok (nxt, out)
     \<and> unlock_key toy_aead 5 (take HEADER out) [1] = Ok key
     \<and> decrypt_stream toy_aead object_read (take HEADER out) key (reader_of (drop HEADER out)) = Ok [1, 2, 3]"
proof -
  have e: "(5::nat) \<le> U64_MAX" by (simp add: U64_MAX_def)
  obtain header key nxt out where c: "create_header toy_aead zero_rng 0 100 900 [1] 1000 = Ok (header, key)"
    and f: "encrypt_stream toy_aead zero_rng 9 header key object_read (reader_of [1, 2, 3]) 3 = Ok (nxt, out)"
    using toy_streams by blast
  show ?thesis
    using password_opens_streams [OF toy_aead_laws zero_rng_laws zero_rng_laws e c
        object_source.byte_source_axioms f] c f by auto
qed

end
