(* ===== verification/Store_Object_Laws.thy ===== *)
theory Store_Object_Laws
  imports Store_Object Store_Crypto_Laws
begin

text \<open>
  Acceptance of encrypted objects: what \<open>receive_in\<close> accepts is exactly the announced bytes
  under a verified envelope, and every sealed object is accepted, however it is read, and
  opens to what was sealed.
\<close>

lemma content_file_at: "object_content (file_at bs n) = (drop n bs, None)"
  by (simp add: object_content_def window_def file_at_def)

lemma hash_file: "hash_exact K object_read (file_at bs 0) n =
    (if n = length bs then Ok (sha256 K bs) else if length bs < n then Err Io else Err InvalidFile)"
  by (auto simp: object_source.hash_exact_content content_file_at exactly_def ending_def)

lemma slice_prefix: "slice 8 12 (take 12 xs) = slice 8 12 xs" "take 8 (take 12 xs) = take 8 xs"
  by (simp_all add: slice_def drop_take)

text \<open>The shape of a readable envelope.\<close>

lemma read_envelope_Ok:
  "read_envelope K J object_read (file_at file 0) d ch = Ok ((e, offset), rest) \<Longrightarrow>
     \<exists>json. en_decode J json = Some e \<and> envelope_verify K e ch = Ok () \<and> offset = 12 + length json
       \<and> length json \<le> MAX_ENVELOPE \<and> eb_length e + offset = co_length d \<and> eb_kind e = co_kind d
       \<and> take offset file = OBJECT_MAGIC @ le_bytes 4 (length json) @ json \<and> offset \<le> length file
       \<and> object_content rest = (drop offset file, None)"
proof -
  assume "read_envelope K J object_read (file_at file 0) d ch = Ok ((e, offset), rest)"
  then obtain prefix s json where r: "read_exact object_read (file_at file 0) 12 = Ok (prefix, s)"
    "take 8 prefix = OBJECT_MAGIC" "le_value (slice 8 12 prefix) \<le> MAX_ENVELOPE"
    "read_exact object_read s (le_value (slice 8 12 prefix)) = Ok (json, rest)" "en_decode J json = Some e"
    "envelope_verify K e ch = Ok ()" "offset = 12 + le_value (slice 8 12 prefix)"
    "eb_length e + offset = co_length d" "eb_kind e = co_kind d"
    by (auto simp: read_envelope_def Let_def not_less)
  note p = object_source.read_exact_Ok [OF r(1), unfolded content_file_at fst_conv snd_conv drop_0]
  note j = object_source.read_exact_Ok [OF r(4), unfolded p(3) fst_conv snd_conv]
  have l: "le_value (slice 8 12 prefix) = length json" using j(2) by simp
  have "length (slice 8 12 prefix) = 4" using p(2) by (simp add: length_slice)
  then have "slice 8 12 prefix = le_bytes 4 (length json)"
    using le_bytes_le_value [of "slice 8 12 prefix"] l by simp
  moreover have "prefix = take 8 prefix @ slice 8 12 prefix"
    using append_take_drop_id [of 8 prefix] p(2) by (simp add: slice_def)
  ultimately have "prefix = OBJECT_MAGIC @ le_bytes 4 (length json)" using r(2) by metis
  then have "take 12 file = OBJECT_MAGIC @ le_bytes 4 (length json)" using p(1) by metis
  moreover have "take offset file = take 12 file @ json"
    using j(1) unfolding r(7) l by (simp add: take_add)
  ultimately have t: "take offset file = OBJECT_MAGIC @ le_bytes 4 (length json) @ json" by simp
  have "length json = min (length json) (length file - 12)" using arg_cong [OF j(1), of length] l by simp
  moreover have "12 \<le> length file" using p(1,2) by simp
  ultimately have "offset \<le> length file" unfolding r(7) l by simp
  moreover have "object_content rest = (drop offset file, None)"
    using j(3) unfolding r(7) l by (simp add: add.commute)
  ultimately show ?thesis using r(3,5,6,8,9) t unfolding r(7) l by blast
qed

lemma read_envelope_written:
  assumes "en_decode J json = Some e" and "envelope_verify K e ch = Ok ()" and "length json \<le> MAX_ENVELOPE"
    and "file = OBJECT_MAGIC @ le_bytes 4 (length json) @ json @ body"
    and "eb_length e + 12 + length json = co_length d" and "eb_kind e = co_kind d"
    and "eb_length e + 12 + length json \<le> U64_MAX"
  shows "\<exists>rest. read_envelope K J object_read (file_at file 0) d ch = Ok ((e, 12 + length json), rest)
     \<and> object_content rest = (body, None)"
proof -
  have m: "length OBJECT_MAGIC = 8" by (simp add: OBJECT_MAGIC_def)
  obtain s where s: "read_exact object_read (file_at file 0) 12 = Ok (OBJECT_MAGIC @ le_bytes 4 (length json), s)"
    "object_content s = (json @ body, None)"
    using object_source.read_exact_full [of 12 "file_at file 0"] m
    by (auto simp: content_file_at assms(4))
  have "slice 8 12 (OBJECT_MAGIC @ le_bytes 4 (length json)) = le_bytes 4 (length json)"
    by (simp add: slice_def m)
  moreover have "length json < 256 ^ 4" using assms(3) by (simp add: MAX_ENVELOPE_def)
  ultimately have l: "le_value (slice 8 12 (OBJECT_MAGIC @ le_bytes 4 (length json))) = length json"
    by (simp add: le_value_le_bytes)
  obtain t where t: "read_exact object_read s (length json) = Ok (json, t)" "object_content t = (body, None)"
    using object_source.read_exact_full [of "length json" s] s(2) by auto
  have "checked_add (eb_length e) (12 + length json) = Some (co_length d)"
    using assms(5,7) by (simp add: checked_add_def add.assoc)
  then show ?thesis
    using s(1) t l m assms(1-3,6) by (simp add: read_envelope_def Let_def)
qed

text \<open>
  What is accepted is exactly what was announced. An object received from any source is the
  whole source, has the announced length and digest, and consists of the magic number, an
  envelope of the announced kind that the chain verifies, and a ciphertext with the signed
  length and digest; reading it again from its own bytes gives the same object.
\<close>

theorem received_object_sound:
  assumes "byte_source rd content" and "receive_in K J rd input d ch = Ok obj"
  shows "content input = (eo_file obj, None) \<and> eo_descriptor obj = d \<and> length (eo_file obj) = co_length d
    \<and> sha256 K (eo_file obj) = co_digest d \<and> envelope_verify K (eo_envelope obj) ch = Ok ()
    \<and> eb_kind (eo_envelope obj) = co_kind d
    \<and> (\<exists>json body. en_decode J json = Some (eo_envelope obj) \<and> eo_offset obj = 12 + length json
         \<and> eo_file obj = OBJECT_MAGIC @ le_bytes 4 (length json) @ json @ body
         \<and> length body = eb_length (eo_envelope obj) \<and> sha256 K body = eb_ciphertext (eo_envelope obj))
    \<and> receive_in K J object_read (object_reader_of obj) d ch = Ok obj"
proof -
  from assms(2) obtain rest where r: "co_length d \<le> MAX_ENCODED_SIZE" "12 \<le> co_length d"
    "copy_exact rd input (co_length d) = Ok (eo_file obj)"
    "hash_exact K object_read (file_at (eo_file obj) 0) (co_length d) = Ok (co_digest d)"
    "read_envelope K J object_read (file_at (eo_file obj) 0) d ch = Ok ((eo_envelope obj, eo_offset obj), rest)"
    "hash_exact K object_read rest (eb_length (eo_envelope obj)) = Ok (eb_ciphertext (eo_envelope obj))"
    "eo_descriptor obj = d"
    by (auto simp: receive_in_def not_less)
  have h: "length (eo_file obj) = co_length d" "sha256 K (eo_file obj) = co_digest d"
    using r(4) by (auto simp: hash_file split: if_splits)
  have c: "content input = (eo_file obj, None)"
    using r(3) unfolding byte_source.copy_exact_content [OF assms(1)] exactly_def
    by (cases "content input") (auto split: if_splits option.splits)
  obtain json where j: "en_decode J json = Some (eo_envelope obj)" "envelope_verify K (eo_envelope obj) ch = Ok ()"
    "eo_offset obj = 12 + length json" "eb_kind (eo_envelope obj) = co_kind d"
    "take (eo_offset obj) (eo_file obj) = OBJECT_MAGIC @ le_bytes 4 (length json) @ json"
    "object_content rest = (drop (eo_offset obj) (eo_file obj), None)"
    using read_envelope_Ok [OF r(5)] by blast
  let ?body = "drop (eo_offset obj) (eo_file obj)"
  have b: "length ?body = eb_length (eo_envelope obj)" "sha256 K ?body = eb_ciphertext (eo_envelope obj)"
    using r(6) unfolding object_source.hash_exact_content j(6) exactly_def
    by (auto split: if_splits)
  have f: "eo_file obj = OBJECT_MAGIC @ le_bytes 4 (length json) @ json @ ?body"
    using append_take_drop_id [of "eo_offset obj" "eo_file obj"] j(5) by simp
  have "object_content (object_reader_of obj) = (eo_file obj, None)"
    using h(1) r(7) by (simp add: object_content_def window_def object_reader_of_def)
  then have "copy_exact object_read (object_reader_of obj) (co_length d) = Ok (eo_file obj)"
    using h(1) by (simp add: object_source.copy_exact_content exactly_def)
  then have "receive_in K J object_read (object_reader_of obj) d ch = Ok obj"
    using r by (simp add: receive_in_def)
  then show ?thesis using c r(7) h j b f by blast
qed

lemma envelope_sign_fields:
  "envelope_sign K ch key kind len c = Ok e \<Longrightarrow> envelope_verify K e ch = Ok () \<and> eb_kind e = kind
     \<and> eb_length e = len \<and> eb_ciphertext e = c"
  by (auto simp: envelope_sign_def Let_def)

lemma envelope_verify_length: "envelope_verify K e ch = Ok () \<Longrightarrow> eb_length e \<le> GIB16"
  by (auto simp: envelope_verify_Ok)

lemma window_inside: "n + k \<le> length bs \<Longrightarrow>
    object_content \<lparr>or_file = bs, or_offset = n, or_remaining = k\<rparr> = (take k (drop n bs), None)"
  by (simp add: object_content_def window_def)

text \<open>
  C33: a sealed object is accepted everywhere and opens with the password. What \<open>seal_in\<close>
  returns is received unchanged by anyone who verifies with the same chain and the announced
  descriptor, is the object that opening its bare bytes derives, and gives back with the
  password of the header's epoch the key and exactly the text that was sealed.
\<close>

theorem sealed_object_opens:
  assumes "aead_laws A" and "rng_laws rng" and "rng_laws rng'" and "envelope_codec_laws J" and "elapsed \<le> U64_MAX"
    and "create_header A rng k e1 e2 password target = Ok (header, key)"
    and "byte_source rd content"
    and "seal_in K J A rng' k' ch author kind header key rd clear n = Ok obj"
  shows "receive_in K J object_read (object_reader_of obj) (eo_descriptor obj) ch = Ok obj
    \<and> open_source K J (eo_file obj) ch = Ok obj \<and> co_kind (eo_descriptor obj) = kind
    \<and> object_unlock_key A elapsed obj password = Ok key
    \<and> object_decrypt A obj key = Ok (fst (content clear)) \<and> length (fst (content clear)) = n"
proof -
  obtain nxt enc env json where s: "encrypt_stream A rng' k' header key rd clear n = Ok (nxt, enc)"
    "envelope_sign K ch author kind (length enc) (sha256 K enc) = Ok env"
    "en_encode J env = Some json" "length json \<le> MAX_ENVELOPE"
    and obj: "obj = \<lparr>eo_file = OBJECT_MAGIC @ le_bytes 4 (length json) @ json @ enc,
      eo_descriptor = \<lparr>co_digest = sha256 K (OBJECT_MAGIC @ le_bytes 4 (length json) @ json @ enc),
         co_length = 12 + length json + length enc, co_kind = kind\<rparr>,
      eo_envelope = env, eo_offset = 12 + length json\<rparr>"
  proof -
    have m: "length OBJECT_MAGIC = 8" by (simp add: OBJECT_MAGIC_def)
    show ?thesis using that assms(8)
      by (auto simp: seal_in_def hash_file Let_def m add.assoc split: if_splits)
  qed
  let ?file = "OBJECT_MAGIC @ le_bytes 4 (length json) @ json @ enc"
  have len: "length ?file = 12 + length json + length enc" by (simp add: OBJECT_MAGIC_def)
  note v = envelope_sign_fields [OF s(2)]
  have dec: "en_decode J json = Some env" using assms(4) s(3) by (simp add: envelope_codec_laws_def)
  have le: "length enc \<le> GIB16" using envelope_verify_length [of K env ch] v by simp
  have size: "length ?file \<le> MAX_ENCODED_SIZE" "12 \<le> length ?file" "length enc + 12 + length json \<le> U64_MAX"
    using le s(4) unfolding len
    by (simp_all add: MAX_ENCODED_SIZE_def HEADER_def MAX_PAYLOAD_def CHUNK_def div_ceil_def GIB16_def MAX_ENVELOPE_def U64_MAX_def)
  obtain rest where rest: "read_envelope K J object_read (file_at ?file 0) (eo_descriptor obj) ch = Ok ((env, 12 + length json), rest)"
    "object_content rest = (enc, None)"
    using read_envelope_written [OF dec _ s(4) refl, where K = K and ch = ch and body = enc and d = "eo_descriptor obj"] v size(3) obj by auto
  have rec: "receive_in K J object_read r (eo_descriptor obj) ch = Ok obj" if "object_content r = (?file, None)" for r
    using that size rest v len
    by (simp add: receive_in_def object_source.copy_exact_content exactly_def hash_file obj
        object_source.hash_exact_content not_less content_file_at)
  have one: "object_content (object_reader_of obj) = (?file, None)"
    using len by (simp add: object_content_def window_def object_reader_of_def obj)
  have m: "length OBJECT_MAGIC = 8" by (simp add: OBJECT_MAGIC_def)
  have opened: "open_source K J (eo_file obj) ch = Ok obj"
  proof -
    obtain p where p: "read_exact object_read (file_at ?file 0) 12 = Ok (OBJECT_MAGIC @ le_bytes 4 (length json), p)"
      "object_content p = (json @ enc, None)"
      using object_source.read_exact_full [of 12 "file_at ?file 0"] m by (auto simp: content_file_at)
    obtain q where q: "read_exact object_read p (length json) = Ok (json, q)"
      using object_source.read_exact_full [of "length json" p] p(2) by auto
    have "slice 8 12 (OBJECT_MAGIC @ le_bytes 4 (length json)) = le_bytes 4 (length json)"
      by (simp add: slice_def m)
    moreover have "length json < 256 ^ 4" using s(4) by (simp add: MAX_ENVELOPE_def)
    ultimately have l: "le_value (slice 8 12 (OBJECT_MAGIC @ le_bytes 4 (length json))) = length json"
      by (simp add: le_value_le_bytes)
    have "eo_descriptor obj = \<lparr>co_digest = sha256 K ?file, co_length = length ?file, co_kind = eb_kind env\<rparr>"
      using v len by (simp add: obj)
    moreover have "eo_file obj = ?file" by (simp add: obj)
    moreover have "receive_in K J object_read (file_at ?file 0) (eo_descriptor obj) ch = Ok obj"
      by (rule rec) (simp add: content_file_at)
    ultimately show ?thesis
      using p(1) q l dec s(4) size m by (simp add: open_source_def hash_file Let_def)
  qed
  have cr: "object_content (cipher_reader obj) = (enc, None)"
    using v len window_inside [of "12 + length json" "length enc" ?file] m
    by (simp add: cipher_reader_def obj)
  note src = object_source.byte_source_axioms
  have "HEADER \<le> length enc"
    using password_opens(6) [OF assms(1,2,3,5,6,7) s(1) src, of "file_at enc HEADER"] by (simp add: content_file_at)
  then obtain t where t: "read_exact object_read (cipher_reader obj) HEADER = Ok (take HEADER enc, t)"
    "object_content t = (drop HEADER enc, None)"
    using object_source.read_exact_full [of HEADER "cipher_reader obj"] cr by auto
  note p = password_opens [OF assms(1,2,3,5,6,7) s(1) src t(2)]
  have env: "eb_length (eo_envelope obj) = length enc" using v by (simp add: obj)
  have "object_unlock_key A elapsed obj password = Ok key"
    using t(1) p(1,2) env by (simp add: object_unlock_key_def password_header_def)
  moreover have "object_decrypt A obj key = Ok (fst (content clear))"
    using t(1) p(1,4) env by (simp add: object_decrypt_def)
  ultimately show ?thesis
    using rec [OF one] opened p(5) by (simp add: obj)
qed

subsection \<open>Witnesses\<close>

definition toy_envelope :: object_envelope where
  "toy_envelope = projr (envelope_sign toy_crypto toy_chain toy_key Checkpoint 3 [4, 5, 6])"

definition toy_codec :: "object_envelope \<Rightarrow> envelope_codec" where
  "toy_codec e = \<lparr>en_encode = \<lambda>x. if x = e then Some [1] else None,
     en_decode = \<lambda>b. if b = [1] then Some e else None\<rparr>"

lemma toy_codec_laws: "envelope_codec_laws (toy_codec e)"
  by (simp add: envelope_codec_laws_def toy_codec_def)

lemma toy_envelope_signed:
  assumes "0 < len" and "len \<le> GIB16"
  shows "\<exists>e. envelope_sign toy_crypto toy_chain toy_key Checkpoint len c = Ok e"
  using envelope_sign_iff [OF toy_crypto_laws toy_head(5,4) toy_member toy_key_matches, of Checkpoint len c] assms
  by simp

lemma toy_envelope_Ok: "envelope_sign toy_crypto toy_chain toy_key Checkpoint 3 [4, 5, 6] = Ok toy_envelope"
  using toy_envelope_signed [of 3 "[4, 5, 6]"] by (auto simp: toy_envelope_def GIB16_def)

definition toy_file :: bytes where
  "toy_file = OBJECT_MAGIC @ le_bytes 4 1 @ [1] @ [4, 5, 6]"

definition toy_descriptor :: cipher_object where
  "toy_descriptor = \<lparr>co_digest = toy_file, co_length = 16, co_kind = Checkpoint\<rparr>"

lemma toy_received:
  "\<exists>obj. receive_in toy_crypto (toy_codec toy_envelope) object_read (reader_of toy_file) toy_descriptor toy_chain = Ok obj
     \<and> eo_envelope obj = toy_envelope"
proof -
  note v = envelope_sign_fields [OF toy_envelope_Ok]
  have len: "length toy_file = 16" by (simp add: toy_file_def OBJECT_MAGIC_def)
  have dec: "en_decode (toy_codec toy_envelope) [1] = Some toy_envelope" by (simp add: toy_codec_def)
  have "\<exists>rest. read_envelope toy_crypto (toy_codec toy_envelope) object_read (file_at toy_file 0) toy_descriptor toy_chain
        = Ok ((toy_envelope, 12 + length [1 :: byte]), rest) \<and> object_content rest = ([4, 5, 6], None)"
    using v by (intro read_envelope_written [OF dec])
      (simp_all add: MAX_ENVELOPE_def toy_file_def toy_descriptor_def U64_MAX_def)
  then obtain rest where r: "read_envelope toy_crypto (toy_codec toy_envelope) object_read (file_at toy_file 0) toy_descriptor toy_chain
        = Ok ((toy_envelope, 13), rest)" "object_content rest = ([4, 5, 6], None)"
    by auto
  have "sha256 toy_crypto x = x" for x by (simp add: toy_crypto_def)
  then show ?thesis
    using len r v
    by (simp add: receive_in_def object_source.copy_exact_content exactly_def hash_file object_source.hash_exact_content
        toy_descriptor_def MAX_ENCODED_SIZE_def HEADER_def content_file_at)
qed

theorem received_object_sound_witness:
  "\<exists>obj. receive_in toy_crypto (toy_codec toy_envelope) object_read (reader_of toy_file) toy_descriptor toy_chain = Ok obj
     \<and> eo_file obj = toy_file \<and> envelope_verify toy_crypto (eo_envelope obj) toy_chain = Ok ()"
proof -
  obtain obj where r: "receive_in toy_crypto (toy_codec toy_envelope) object_read (reader_of toy_file) toy_descriptor toy_chain = Ok obj"
    using toy_received by blast
  show ?thesis using received_object_sound [OF object_source.byte_source_axioms r] r by auto
qed

theorem sealed_object_opens_witness:
  "\<exists>header key e obj. seal_in toy_crypto (toy_codec e) toy_aead zero_rng 9 toy_chain toy_key Checkpoint header key
       object_read (reader_of [1, 2, 3]) 3 = Ok obj
     \<and> object_unlock_key toy_aead 5 obj [1] = Ok key \<and> object_decrypt toy_aead obj key = Ok [1, 2, 3]"
proof -
  have el: "(5::nat) \<le> U64_MAX" by (simp add: U64_MAX_def)
  obtain header key nxt out where c: "create_header toy_aead zero_rng 0 100 900 [1] 1000 = Ok (header, key)"
    and s: "encrypt_stream toy_aead zero_rng 9 header key object_read (reader_of [1, 2, 3]) 3 = Ok (nxt, out)"
    using toy_streams by blast
  have h: "length header = HEADER"
    using create_header_Ok [OF c toy_aead_laws zero_rng_laws] by (auto simp: MAGIC_def VERSION_def HEADER_def)
  have "length out = encoded_length 3"
    using stream_roundtrip(2) [OF toy_aead_laws zero_rng_laws object_source.byte_source_axioms s _
        object_source.byte_source_axioms content_reader_of] h by (simp add: HEADER_def WRAPPED_def)
  then have "length out = 219" by (simp add: encoded_length_def HEADER_def div_ceil_def CHUNK_def)
  then obtain e where e: "envelope_sign toy_crypto toy_chain toy_key Checkpoint (length out) (sha256 toy_crypto out) = Ok e"
    using toy_envelope_signed [of "length out" "sha256 toy_crypto out"] by (auto simp: GIB16_def)
  obtain obj where o: "seal_in toy_crypto (toy_codec e) toy_aead zero_rng 9 toy_chain toy_key Checkpoint header key
       object_read (reader_of [1, 2, 3]) 3 = Ok obj"
    using h s e by (simp add: seal_in_def hash_file toy_codec_def MAX_ENVELOPE_def Let_def)
  show ?thesis
    using sealed_object_opens [OF toy_aead_laws zero_rng_laws zero_rng_laws toy_codec_laws el c
        object_source.byte_source_axioms o] o by auto
qed

end
