(* ===== verification/Store_Archive_Laws.thy ===== *)
theory Store_Archive_Laws
  imports Store_Archive Store_Object_Laws
begin

text \<open>
  The archive file: exactly which byte strings open, to which snapshot; that every section of
  a snapshot is an acceptable object; when a candidate can be written and that the written
  file reads back as the metadata and the very bytes of the candidate.
\<close>

subsection \<open>Readers of the archive\<close>

lemma object_read_shape:
  "object_read r n = Ok (bs, r') \<Longrightarrow> 0 < n \<Longrightarrow>
     (bs = [] \<and> or_remaining r = 0 \<and> r' = r) \<or>
     (bs \<noteq> [] \<and> or_remaining r' < or_remaining r \<and> length bs \<le> n
       \<and> fst (object_content r) = bs @ fst (object_content r') \<and> snd (object_content r') = snd (object_content r))"
proof -
  assume r: "object_read r n = Ok (bs, r')" "0 < n"
  show ?thesis
  proof (cases "bs = []")
    case True
    then have "or_remaining r = 0" "r' = r" using r by (auto simp: object_read_def Let_def split: if_splits)
    then show ?thesis using True by simp
  next
    case False
    have c: "length bs \<le> n" "object_content r = (bs @ fst (object_content r'), snd (object_content r'))"
      using object_source.read_bytes [OF r(2,1) False] by auto
    moreover have "or_remaining r' < or_remaining r"
      using r False by (auto simp: object_read_def Let_def split: if_splits)
    ultimately show ?thesis using False by simp
  qed
qed

lemma fingerprint_loop_content:
  assumes "object_content r = (bs, None)"
  shows "fingerprint_loop K len r n seen =
    (if n + length bs = len then Ok (sha256 K (seen @ bs)) else Err Changed)"
  using assms
proof (induction K len r n seen arbitrary: bs rule: fingerprint_loop.induct)
  case (1 K len r n seen)
  have pos: "0 < CHUNK" by simp
  obtain chunk r' where r: "object_read r CHUNK = Ok (chunk, r')"
    using object_source.read_fails [OF pos, of r] 1(2) by (cases "object_read r CHUNK") auto
  show ?case
  proof (cases "chunk = []")
    case True
    then have "bs = []" using object_source.read_end [OF pos, of r r'] r 1(2) by simp
    then show ?thesis using r True by (simp add: fingerprint_loop.simps [of K len r n seen])
  next
    case False
    then have bs: "bs = chunk @ fst (object_content r')" and e: "snd (object_content r') = None"
      using object_read_shape [OF r pos] 1(2) by auto
    have c: "object_content r' = (fst (object_content r'), None)" by (rule prod_eqI) (simp_all add: e)
    show ?thesis
    proof (cases "n + length chunk > len")
      case True
      then show ?thesis using r bs by (simp add: fingerprint_loop.simps [of K len r n seen])
    next
      case small: False
      have "fingerprint_loop K len r' (n + length chunk) (seen @ chunk) =
        (if n + length chunk + length (fst (object_content r')) = len
         then Ok (sha256 K ((seen @ chunk) @ fst (object_content r'))) else Err Changed)"
        using "1.IH" [OF r refl refl small False c] .
      then show ?thesis using r bs False small by (simp add: fingerprint_loop.simps [of K len r n seen] add.assoc)
    qed
  qed
qed

lemma bounded_content: "object_content (bounded_at file offset n) = (take n (drop offset file), None)"
  by (simp add: bounded_at_def content_file_at)

text \<open>A fingerprint is the digest of the whole file.\<close>

lemma fingerprint_file:
  "fingerprint K file = (if length file > MAX_ENCODED_SIZE then Err TooLarge else Ok (sha256 K file))"
  by (simp add: fingerprint_def fingerprint_reader_def fingerprint_loop_content [OF bounded_content])

subsection \<open>Sections\<close>

text \<open>The bytes of one acceptable section of a manifest.\<close>

definition section_ok ::
  "crypto \<Rightarrow> archive_codec \<Rightarrow> manifest \<Rightarrow> control_chain \<Rightarrow> digest \<times> cipher_object \<Rightarrow> bytes \<Rightarrow> bool" where
  "section_ok K C body ch = (\<lambda>(key, object) sec.
     length sec = co_length object \<and> sha256 K sec = key
     \<and> (\<exists>json env cipher. en_decode (ac_envelope C) json = Some env \<and> length json \<le> MAX_ENVELOPE
          \<and> sec = OBJECT_MAGIC @ le_bytes 4 (length json) @ json @ cipher
          \<and> envelope_verify K env ch = Ok () \<and> eb_kind env = co_kind object
          \<and> eb_length env = length cipher \<and> eb_ciphertext env = sha256 K cipher
          \<and> (key = mf_checkpoint body \<or> key = mf_baseline body \<longrightarrow> eb_control env = mf_control body)))"

lemma magic_length: "length OBJECT_MAGIC = 8"
  by (simp add: OBJECT_MAGIC_def)

lemma read_section_sound:
  assumes "read_section K C file body ch (offset, offs) (key, object) = Ok (stop, offs')"
  shows "stop = offset + co_length object \<and> stop \<le> length file \<and> offs' = fmupd key offset offs
    \<and> section_ok K C body ch (key, object) (take (co_length object) (drop offset file))"
proof -
  let ?sec = "take (co_length object) (drop offset file)"
  let ?r = "file_at ?sec 0"
  obtain env eo rest where s: "stop = offset + co_length object" "stop \<le> length file" "offs' = fmupd key offset offs"
    "hash_exact K object_read ?r (co_length object) = Ok key"
    "read_envelope K (ac_envelope C) object_read ?r object ch = Ok ((env, eo), rest)"
    "\<not> ((key = mf_checkpoint body \<or> key = mf_baseline body) \<and> eb_control env \<noteq> mf_control body)"
    "hash_exact K object_read rest (eb_length env) = Ok (eb_ciphertext env)"
    using assms by (auto simp: read_section_def bounded_at_def not_less)
  have len: "length ?sec = co_length object" using s(1,2) by simp
  obtain json where j: "en_decode (ac_envelope C) json = Some env" "envelope_verify K env ch = Ok ()"
    "eo = 12 + length json" "length json \<le> MAX_ENVELOPE" "eb_kind env = co_kind object"
    "take eo ?sec = OBJECT_MAGIC @ le_bytes 4 (length json) @ json"
    "object_content rest = (drop eo ?sec, None)"
    using read_envelope_Ok [OF s(5)] by blast
  have sec: "?sec = OBJECT_MAGIC @ le_bytes 4 (length json) @ json @ drop eo ?sec"
    using append_take_drop_id [of eo ?sec] j(6) by (metis append.assoc)
  have "exactly (drop eo ?sec, None) (eb_length env) = Ok (drop eo ?sec) \<and> eb_length env = length (drop eo ?sec)"
    using s(7) unfolding object_source.hash_exact_content j(7) exactly_def by (auto split: if_splits)
  then have c: "eb_length env = length (drop eo ?sec)" "eb_ciphertext env = sha256 K (drop eo ?sec)"
    using s(7) unfolding object_source.hash_exact_content j(7) by auto
  have "sha256 K ?sec = key" using s(4) by (auto simp: hash_file split: if_splits)
  then have "section_ok K C body ch (key, object) ?sec"
    unfolding section_ok_def using len sec j(1,2,4,5) c s(6) by blast
  then show ?thesis using s(1-3) by blast
qed

lemma read_section_complete:
  assumes ok: "section_ok K C body ch (key, object) (take (co_length object) (drop offset file))"
    and fits: "offset + co_length object \<le> length file" and size: "length file \<le> U64_MAX"
  shows "read_section K C file body ch (offset, offs) (key, object)
     = Ok (offset + co_length object, fmupd key offset offs)"
proof -
  let ?sec = "take (co_length object) (drop offset file)"
  have len: "length ?sec = co_length object" using fits by simp
  obtain json env cipher where s: "en_decode (ac_envelope C) json = Some env" "length json \<le> MAX_ENVELOPE"
    "?sec = OBJECT_MAGIC @ le_bytes 4 (length json) @ json @ cipher"
    "envelope_verify K env ch = Ok ()" "eb_kind env = co_kind object"
    "eb_length env = length cipher" "eb_ciphertext env = sha256 K cipher"
    "key = mf_checkpoint body \<or> key = mf_baseline body \<longrightarrow> eb_control env = mf_control body"
    "sha256 K ?sec = key"
    using ok unfolding section_ok_def by blast
  have l: "eb_length env + 12 + length json = co_length object"
    using len s(6) unfolding s(3) by (simp add: magic_length)
  have u: "eb_length env + 12 + length json \<le> U64_MAX" using l fits size by linarith
  obtain rest where r: "read_envelope K (ac_envelope C) object_read (file_at ?sec 0) object ch
      = Ok ((env, 12 + length json), rest)" "object_content rest = (cipher, None)"
    using read_envelope_written [OF s(1,4,2,3) l s(5) u] by blast
  have "hash_exact K object_read rest (eb_length env) = Ok (eb_ciphertext env)"
    using r(2) s(6,7) by (simp add: object_source.hash_exact_content exactly_def)
  moreover have "hash_exact K object_read (file_at ?sec 0) (co_length object) = Ok key"
    using len s(9) by (simp add: hash_file)
  ultimately show ?thesis
    using r(1) s(8) fits size by (auto simp: read_section_def bounded_at_def checked_add_def)
qed

text \<open>All sections, one after the other.\<close>

fun offsets_from :: "nat \<Rightarrow> (digest, nat) fmap \<Rightarrow> (digest \<times> cipher_object) list \<Rightarrow> (digest, nat) fmap" where
  "offsets_from p offs [] = offs"
| "offsets_from p offs ((key, object) # xs) = offsets_from (p + co_length object) (fmupd key p offs) xs"

lemma section_ok_length: "section_ok K C body ch x sec \<Longrightarrow> length sec = co_length (snd x)"
  by (cases x) (simp add: section_ok_def)

lemma read_sections:
  assumes "length file \<le> U64_MAX"
  shows "foldR (read_section K C file body ch) (p, offs) xs = Ok (stop, offs') \<longleftrightarrow>
    (\<exists>secs. list_all2 (section_ok K C body ch) xs secs \<and> offs' = offsets_from p offs xs
       \<and> (\<exists>rest. drop p file = concat secs @ rest) \<and> stop = p + length (concat secs)
       \<and> (xs = [] \<or> stop \<le> length file))" (is "?l p offs xs \<longleftrightarrow> ?r p offs xs")
proof (induction xs arbitrary: p offs)
  case Nil
  show ?case by auto
next
  case (Cons x xs)
  obtain key object where x: "x = (key, object)" by (cases x)
  let ?q = "p + co_length object" and ?offs = "fmupd key p offs"
  let ?sec = "take (co_length object) (drop p file)"
  have step: "?l p offs (x # xs) \<longleftrightarrow>
      ?q \<le> length file \<and> section_ok K C body ch x ?sec \<and> ?l ?q ?offs xs"
  proof
    assume "?l p offs (x # xs)"
    then obtain t where t: "read_section K C file body ch (p, offs) (key, object) = Ok t"
      "foldR (read_section K C file body ch) t xs = Ok (stop, offs')"
      unfolding x by auto
    obtain q f where "t = (q, f)" by (cases t)
    then show "?q \<le> length file \<and> section_ok K C body ch x ?sec \<and> ?l ?q ?offs xs"
      using t read_section_sound x by blast
  next
    assume "?q \<le> length file \<and> section_ok K C body ch x ?sec \<and> ?l ?q ?offs xs"
    then show "?l p offs (x # xs)"
      using read_section_complete [OF _ _ assms] x by simp
  qed
  have "?q \<le> length file \<and> section_ok K C body ch x ?sec \<and> ?r ?q ?offs xs \<longleftrightarrow> ?r p offs (x # xs)"
  proof
    assume "?q \<le> length file \<and> section_ok K C body ch x ?sec \<and> ?r ?q ?offs xs"
    then obtain secs rest where s: "?q \<le> length file" "section_ok K C body ch x ?sec"
      "list_all2 (section_ok K C body ch) xs secs" "offs' = offsets_from ?q ?offs xs"
      "drop ?q file = concat secs @ rest" "stop = ?q + length (concat secs)" "xs = [] \<or> stop \<le> length file"
      by blast
    have "drop p file = ?sec @ drop ?q file"
      by (metis append_take_drop_id drop_drop add.commute)
    then have "drop p file = concat (?sec # secs) @ rest" using s(5) by simp
    moreover have "length ?sec = co_length object" using s(1) by simp
    moreover have "stop \<le> length file" using s(1,3,6,7) by (cases "xs = []") auto
    ultimately show "?r p offs (x # xs)"
      using s(2,3,4,6) unfolding x by (intro exI [of _ "?sec # secs"]) (auto simp del: concat.simps simp: concat.simps(2))
  next
    assume "?r p offs (x # xs)"
    then obtain sec secs rest where s: "section_ok K C body ch x sec"
      "list_all2 (section_ok K C body ch) xs secs" "offs' = offsets_from ?q ?offs xs"
      "drop p file = sec @ concat secs @ rest" "stop = p + length sec + length (concat secs)" "stop \<le> length file"
      unfolding x by (auto simp: list_all2_Cons1)
    have l: "length sec = co_length object" using section_ok_length [OF s(1)] x by simp
    have "?sec = sec" using s(4) l by simp
    moreover have "drop ?q file = concat secs @ rest"
      using arg_cong [OF s(4), of "drop (co_length object)"] l by (simp add: add.commute)
    moreover have "?q \<le> length file" using s(5,6) l by simp
    ultimately show "?q \<le> length file \<and> section_ok K C body ch x ?sec \<and> ?r ?q ?offs xs"
      using s l by auto
  qed
  then show ?case using step Cons.IH [of ?q ?offs] by blast
qed

lemma offsets_from_other: "key \<notin> fst ` set xs \<Longrightarrow> fmlookup (offsets_from p offs xs) key = fmlookup offs key"
  by (induction p offs xs rule: offsets_from.induct) auto

lemma offsets_from_section:
  assumes "list_all2 (section_ok K C body ch) xs secs" and "distinct (map fst xs)"
    and "(key, object) \<in> set xs" and "drop p file = concat secs @ rest" and "p \<le> length file"
  shows "\<exists>q. fmlookup (offsets_from p offs xs) key = Some q \<and> q + co_length object \<le> length file
    \<and> section_ok K C body ch (key, object) (take (co_length object) (drop q file))"
  using assms
proof (induction xs secs arbitrary: p offs rule: list_all2_induct)
  case (Cons x xs sec secs)
  obtain k o1 where x: "x = (k, o1)" by (cases x)
  have l: "length sec = co_length o1" using section_ok_length [OF Cons.hyps(1)] x by simp
  have d: "drop (p + co_length o1) file = concat secs @ rest"
    using arg_cong [OF Cons.prems(3), of "drop (co_length o1)"] l by (simp add: add.commute)
  have size: "length file = p + length sec + length (concat secs @ rest)"
    using arg_cong [OF Cons.prems(3), of length] Cons.prems(4) by simp
  show ?case
  proof (cases "k = key")
    case True
    then have "(key, object) \<notin> set xs" using Cons.prems(1) x by force
    then have "o1 = object" using Cons.prems(2) x True by auto
    moreover have "fmlookup (offsets_from p offs (x # xs)) key = Some p"
      using offsets_from_other [of key xs] Cons.prems(1) x True by simp
    moreover have "take (co_length o1) (drop p file) = sec" using Cons.prems(3) l by simp
    ultimately show ?thesis using Cons.hyps(1) x True size l by auto
  next
    case False
    then have "(key, object) \<in> set xs" using Cons.prems(2) x by simp
    then show ?thesis
      using Cons.IH [of "p + co_length o1" "fmupd k p offs"] Cons.prems(1) d size l x by simp
  qed
qed simp

subsection \<open>Opening\<close>

lemma archive_bytes_length: "length (archive_bytes bytes secs) = ARCHIVE_PREFIX + length bytes + length (concat secs)"
  by (simp add: archive_bytes_def MAGIC_def FORMAT_def ARCHIVE_PREFIX_def)

lemma archive_sizes: "MAX_ARCHIVE \<le> MAX_ENCODED_SIZE" "MAX_ARCHIVE \<le> U64_MAX" "MAX_METADATA < 256 ^ 8"
  by (simp_all add: MAX_ARCHIVE_def MAX_ENCODED_SIZE_def HEADER_def MAX_PAYLOAD_def U64_MAX_def MAX_METADATA_def)

lemma metadata_verify_root:
  assumes "metadata_verify K C m r = Ok ch"
  shows "\<exists>first rest. am_controls m = first # rest \<and> sc_hash K first = Ok r" and "ch = am_controls m"
    and "validate K (am_controls m) r = Ok ch" and "manifest_verify K (am_manifest m) ch = Ok ()"
proof -
  show v: "validate K (am_controls m) r = Ok ch" and mv: "manifest_verify K (am_manifest m) ch = Ok ()"
    using assms by (auto simp: metadata_verify_def Let_def trustR_def)
  show "ch = am_controls m" using v by (simp add: validate_Ok)
  show "\<exists>first rest. am_controls m = first # rest \<and> sc_hash K first = Ok r"
  proof (cases "am_controls m")
    case (Cons first rest)
    then have "sc_hash K first = Ok r" using v by (simp add: validate_def)
    then show ?thesis using Cons by blast
  qed (use v in \<open>simp add: validate_def\<close>)
qed

text \<open>Reading the prefix and the metadata, apart from the checks on their contents.\<close>

lemma archive_front:
  assumes "ARCHIVE_PREFIX \<le> length file"
  shows "\<exists>prefix s. read_exact object_read (file_at file 0) ARCHIVE_PREFIX = Ok (prefix, s)
    \<and> prefix = take ARCHIVE_PREFIX file
    \<and> (ARCHIVE_PREFIX + n \<le> length file \<longrightarrow>
         (\<exists>t. read_exact object_read s n = Ok (take n (drop ARCHIVE_PREFIX file), t)))"
proof -
  obtain s where s: "read_exact object_read (file_at file 0) ARCHIVE_PREFIX = Ok (take ARCHIVE_PREFIX file, s)"
    "object_content s = (drop ARCHIVE_PREFIX file, None)"
    using object_source.read_exact_full [of ARCHIVE_PREFIX "file_at file 0"] assms
    by (auto simp: content_file_at)
  show ?thesis
    using s object_source.read_exact_full [of n s] by (fastforce simp: add.commute le_diff_conv2)
qed

lemma archive_shape:
  assumes "ARCHIVE_PREFIX \<le> length file" and "take 8 file = MAGIC" and "slice 8 12 file = FORMAT"
    and "n = le_value (slice 12 20 file)" and "ARCHIVE_PREFIX + n \<le> length file"
    and "drop (ARCHIVE_PREFIX + n) file = concat secs"
  shows "file = archive_bytes (take n (drop ARCHIVE_PREFIX file)) secs"
proof -
  have l: "length (slice 12 20 file) = 8"
    using assms(1) by (simp add: length_slice ARCHIVE_PREFIX_def)
  then have n: "slice 12 20 file = le_bytes 8 n" using le_bytes_le_value [of "slice 12 20 file"] assms(4) by simp
  have "take 20 file = take 8 file @ slice 8 12 file @ slice 12 20 file"
    using take_add [of 8 12 "file"] take_add [of 4 8 "drop 8 file"] by (simp add: slice_def)
  then have "take 20 file = MAGIC @ FORMAT @ le_bytes 8 n" using assms(2,3) n by simp
  moreover have "file = take 20 file @ take n (drop 20 file) @ drop (20 + n) file"
    by (metis add.commute append_take_drop_id drop_drop)
  moreover have "length (take n (drop ARCHIVE_PREFIX file)) = n" using assms(5) by simp
  ultimately show ?thesis using assms(6) by (simp add: archive_bytes_def ARCHIVE_PREFIX_def)
qed

text \<open>The snapshot of a well-formed archive.\<close>

definition archive_snapshot_of ::
  "crypto \<Rightarrow> bytes \<Rightarrow> bytes \<Rightarrow> archive_metadata \<Rightarrow> control_chain \<Rightarrow> archive_snapshot" where
  "archive_snapshot_of K file bytes m ch =
     \<lparr>as_file = file, as_metadata = m, as_chain = ch,
      as_offsets = offsets_from (ARCHIVE_PREFIX + length bytes) fmempty (bt_iter (am_objects m)),
      as_fingerprint = sha256 K file, as_length = length file\<rparr>"

lemma pinned_root:
  "metadata_verify K C m (case pinned of None \<Rightarrow> r | Some p \<Rightarrow> p) = Ok ch \<Longrightarrow>
     (case am_controls m of [] \<Rightarrow> Err InvalidFile | first # _ \<Rightarrow> trustR (sc_hash K first)) = Ok r \<Longrightarrow>
     (pinned = None \<or> pinned = Some r) \<and> metadata_verify K C m r = Ok ch"
  by (cases pinned) (use metadata_verify_root(1) in \<open>fastforce simp: trustR_def\<close>)+

lemma opens_sound:
  assumes "from_source K C file pinned = Ok s"
  shows "\<exists>bytes secs m ch r. file = archive_bytes bytes secs
       \<and> length bytes \<le> MAX_METADATA \<and> length file \<le> MAX_ARCHIVE \<and> ac_decode C bytes = Some m
       \<and> (pinned = None \<or> pinned = Some r) \<and> metadata_verify K C m r = Ok ch
       \<and> list_all2 (section_ok K C (sm_body (am_manifest m)) ch) (bt_iter (am_objects m)) secs
       \<and> s = archive_snapshot_of K file bytes m ch"
proof -
  have len: "ARCHIVE_PREFIX \<le> length file" "length file \<le> MAX_ARCHIVE"
    using assms by (auto simp: from_source_def Let_def not_less)
  obtain prefix s0 where front: "read_exact object_read (file_at file 0) ARCHIVE_PREFIX = Ok (prefix, s0)"
    "prefix = take ARCHIVE_PREFIX file"
    using archive_front [OF len(1)] by blast
  have sl: "take 8 prefix = take 8 file" "slice 8 12 prefix = slice 8 12 file" "slice 12 20 prefix = slice 12 20 file"
    unfolding front(2) by (simp_all add: slice_def drop_take ARCHIVE_PREFIX_def)
  let ?n = "le_value (slice 12 20 file)"
  obtain bytes t m r ch stop offs where g: "take 8 file = MAGIC" "slice 8 12 file = FORMAT"
    "?n \<le> MAX_METADATA" "?n + ARCHIVE_PREFIX \<le> length file"
    "read_exact object_read s0 ?n = Ok (bytes, t)" "ac_decode C bytes = Some m"
    "(case am_controls m of [] \<Rightarrow> Err InvalidFile | first # _ \<Rightarrow> trustR (sc_hash K first)) = Ok r"
    "metadata_verify K C m (case pinned of None \<Rightarrow> r | Some p \<Rightarrow> p) = Ok ch"
    "foldR (read_section K C file (sm_body (am_manifest m)) ch)
               (ARCHIVE_PREFIX + ?n, fmempty) (bt_iter (am_objects m)) = Ok (stop, offs)"
    "stop = length file"
    "s = \<lparr>as_file = file, as_metadata = m, as_chain = ch, as_offsets = offs,
          as_fingerprint = sha256 K file, as_length = length file\<rparr>"
    using assms len front(1) sl fingerprint_file [of K "file"]
    by (auto simp: from_source_def fingerprint_def Let_def not_less split: if_splits)
  have bytes: "bytes = take ?n (drop ARCHIVE_PREFIX file)" "length bytes = ?n"
    using archive_front [OF len(1), of ?n] front(1) g(4,5) by auto
  have u: "length file \<le> U64_MAX" using len(2) archive_sizes(2) by linarith
  obtain secs rest where secs: "list_all2 (section_ok K C (sm_body (am_manifest m)) ch) (bt_iter (am_objects m)) secs"
    "offs = offsets_from (ARCHIVE_PREFIX + ?n) fmempty (bt_iter (am_objects m))"
    "drop (ARCHIVE_PREFIX + ?n) file = concat secs @ rest" "stop = ARCHIVE_PREFIX + ?n + length (concat secs)"
    using g(9) unfolding read_sections [OF u] by blast
  have "length (drop (ARCHIVE_PREFIX + ?n) file) = length (concat secs)" using secs(4) g(10) by simp
  then have "rest = []" using secs(3) by simp
  then have "file = archive_bytes bytes secs"
    using archive_shape [OF len(1) g(1,2) refl _ , of secs] g(4) secs(3) bytes(1) by (simp add: add.commute)
  then show ?thesis
    using g(3,6,11) len(2) pinned_root [OF g(8,7)] secs(1,2) bytes(2) unfolding archive_snapshot_of_def by metis
qed

lemma opens_complete:
  assumes layout: "file = archive_bytes bytes secs" and b: "length bytes \<le> MAX_METADATA"
    and a: "length file \<le> MAX_ARCHIVE" and d: "ac_decode C bytes = Some m"
    and p: "pinned = None \<or> pinned = Some r" and v: "metadata_verify K C m r = Ok ch"
    and secs: "list_all2 (section_ok K C (sm_body (am_manifest m)) ch) (bt_iter (am_objects m)) secs"
  shows "from_source K C file pinned = Ok (archive_snapshot_of K file bytes m ch)"
proof -
  have len: "length file = ARCHIVE_PREFIX + length bytes + length (concat secs)"
    unfolding layout by (rule archive_bytes_length)
  have mag: "length MAGIC = 8" "length FORMAT = 4" by (simp_all add: MAGIC_def FORMAT_def)
  let ?n = "length bytes"
  obtain prefix s0 t where front: "read_exact object_read (file_at file 0) ARCHIVE_PREFIX = Ok (prefix, s0)"
    "prefix = take ARCHIVE_PREFIX file" "read_exact object_read s0 ?n = Ok (take ?n (drop ARCHIVE_PREFIX file), t)"
    using archive_front [of "file" ?n] len by auto
  have pre: "prefix = MAGIC @ FORMAT @ le_bytes 8 ?n"
    unfolding front(2) layout by (simp add: archive_bytes_def ARCHIVE_PREFIX_def mag)
  have tail: "take ?n (drop ARCHIVE_PREFIX file) = bytes" "drop (ARCHIVE_PREFIX + ?n) file = concat secs"
    unfolding layout by (simp_all add: archive_bytes_def ARCHIVE_PREFIX_def mag)
  have "?n < 256 ^ 8" using b archive_sizes(3) by linarith
  then have sl: "take 8 prefix = MAGIC" "slice 8 12 prefix = FORMAT" "le_value (slice 12 20 prefix) = ?n"
    unfolding pre by (simp_all add: slice_def mag le_value_le_bytes del: power.simps)
  have root: "(case am_controls m of [] \<Rightarrow> Err InvalidFile | first # _ \<Rightarrow> trustR (sc_hash K first)) = Ok r"
    using metadata_verify_root(1) [OF v] by (auto simp: trustR_def)
  have "foldR (read_section K C file (sm_body (am_manifest m)) ch)
               (ARCHIVE_PREFIX + ?n, fmempty) (bt_iter (am_objects m))
     = Ok (length file, offsets_from (ARCHIVE_PREFIX + ?n) fmempty (bt_iter (am_objects m)))"
    using a archive_sizes(2) secs tail(2) len by (subst read_sections) auto
  moreover have "fingerprint_reader K file (length file) = Ok (sha256 K file)"
    using fingerprint_file [of K "file"] a archive_sizes(1) by (simp add: fingerprint_def)
  moreover have "metadata_verify K C m (case pinned of None \<Rightarrow> r | Some p \<Rightarrow> p) = Ok ch"
    using p v by (auto split: option.splits)
  ultimately show ?thesis
    using front(1,3) sl d root len b a tail(1)
    by (simp add: from_source_def Let_def archive_snapshot_of_def)
qed

subsection \<open>Objects of a snapshot\<close>

lemma section_received:
  assumes ok: "section_ok K C body ch (key, d) sec" and r: "object_content r = (sec, None)"
    and size: "length sec \<le> MAX_ARCHIVE" and key: "key = co_digest d"
  shows "\<exists>obj. receive_in K (ac_envelope C) object_read r d ch = Ok obj \<and> eo_file obj = sec \<and> eo_descriptor obj = d"
proof -
  obtain json env cipher where s: "en_decode (ac_envelope C) json = Some env" "length json \<le> MAX_ENVELOPE"
    "sec = OBJECT_MAGIC @ le_bytes 4 (length json) @ json @ cipher"
    "envelope_verify K env ch = Ok ()" "eb_kind env = co_kind d"
    "eb_length env = length cipher" "eb_ciphertext env = sha256 K cipher"
    "length sec = co_length d"
    using ok unfolding section_ok_def by blast
  have l: "eb_length env + 12 + length json = co_length d"
    using s(6,8) unfolding s(3) by (simp add: magic_length)
  have u: "eb_length env + 12 + length json \<le> U64_MAX" using l s(8) size archive_sizes(2) by linarith
  obtain rest where rest: "read_envelope K (ac_envelope C) object_read (file_at sec 0) d ch
      = Ok ((env, 12 + length json), rest)" "object_content rest = (cipher, None)"
    using read_envelope_written [OF s(1,4,2,3) l s(5) u] by blast
  have "hash_exact K object_read rest (eb_length env) = Ok (eb_ciphertext env)"
    using rest(2) s(6,7) by (simp add: object_source.hash_exact_content exactly_def)
  moreover have "copy_exact object_read r (co_length d) = Ok sec"
    using r s(8) by (simp add: object_source.copy_exact_content exactly_def)
  moreover have "hash_exact K object_read (file_at sec 0) (co_length d) = Ok (co_digest d)"
    using s(8) ok key by (simp add: hash_file section_ok_def)
  moreover have "co_length d \<le> MAX_ENCODED_SIZE" "12 \<le> co_length d"
    using l s(8) size archive_sizes(1) by linarith+
  ultimately show ?thesis using rest(1) by (simp add: receive_in_def)
qed

text \<open>What the chain of a snapshot and its manifest promise of the listed objects.\<close>

lemma manifest_keys:
  "manifest_verify K sm ch = Ok () \<Longrightarrow> fmlookup (mf_objects (sm_body sm)) key = Some d \<Longrightarrow> key = co_digest d"
  by (auto simp: manifest_verify_Ok composition_accepted fmpred_iff)

lemma opened_reader:
  assumes o: "from_source K C file pinned = Ok s" and d: "fmlookup (am_objects (as_metadata s)) key = Some d"
  shows "\<exists>sec r. snapshot_reader s key = Ok r \<and> object_content r = (sec, None)
    \<and> section_ok K C (sm_body (am_manifest (as_metadata s))) (as_chain s) (key, d) sec
    \<and> length sec \<le> MAX_ARCHIVE \<and> key = co_digest d"
proof -
  obtain bytes secs m ch r where a: "file = archive_bytes bytes secs" "length file \<le> MAX_ARCHIVE"
    "metadata_verify K C m r = Ok ch"
    "list_all2 (section_ok K C (sm_body (am_manifest m)) ch) (bt_iter (am_objects m)) secs"
    "s = archive_snapshot_of K file bytes m ch"
    using opens_sound [OF o] by blast
  have m: "as_metadata s = m" "as_chain s = ch" "as_file s = file"
    "as_offsets s = offsets_from (ARCHIVE_PREFIX + length bytes) fmempty (bt_iter (am_objects m))"
    by (simp_all add: a(5) archive_snapshot_of_def)
  have "length MAGIC = 8" "length FORMAT = 4" by (simp_all add: MAGIC_def FORMAT_def)
  then have tail: "drop (ARCHIVE_PREFIX + length bytes) file = concat secs @ []"
    unfolding a(1) by (simp add: archive_bytes_def ARCHIVE_PREFIX_def)
  have le: "ARCHIVE_PREFIX + length bytes \<le> length file" unfolding a(1) archive_bytes_length by simp
  obtain q where q: "fmlookup (as_offsets s) key = Some q" "q + co_length d \<le> length file"
    "section_ok K C (sm_body (am_manifest m)) ch (key, d) (take (co_length d) (drop q file))"
    using offsets_from_section [OF a(4) _ _ tail le, of key d] d m(1,4) by auto
  have "object_content \<lparr>or_file = file, or_offset = q, or_remaining = co_length d\<rparr>
      = (take (co_length d) (drop q file), None)"
    using q(2) by (rule window_inside)
  moreover have "key = co_digest d"
    using manifest_keys [OF metadata_verify_root(4) [OF a(3)]] d m(1) by simp
  ultimately show ?thesis
    using q d m a(2) by (auto simp: snapshot_reader_def)
qed

subsection \<open>Writing\<close>

lemma sum_sections:
  "foldR (\<lambda>sum (object :: cipher_object). ok_or (checked_add sum (co_length object)) TooLarge) n xs = Ok len \<longleftrightarrow>
     len = n + sum_list (map co_length xs) \<and> (xs = [] \<or> len \<le> U64_MAX)"
proof (induction xs arbitrary: n)
  case (Cons x xs)
  show ?case unfolding foldR.simps by (auto simp: Cons.IH add.assoc)
qed auto

lemma sections_total: "list_all2 (section_ok K C body ch) (bt_iter m) secs \<Longrightarrow>
    length (concat secs) = sum_list (map co_length (bt_values m))"
proof -
  have "list_all2 (section_ok K C body ch) xs secs \<Longrightarrow>
      length (concat secs) = sum_list (map co_length (map snd xs))" for xs
    by (induction rule: list_all2_induct) (auto dest: section_ok_length)
  then show "list_all2 (section_ok K C body ch) (bt_iter m) secs \<Longrightarrow>
      length (concat secs) = sum_list (map co_length (bt_values m))"
    by (simp add: bt_values_def)
qed

text \<open>The bytes a candidate holds for a descriptor.\<close>

definition candidate_holds :: "archive_candidate \<Rightarrow> digest \<times> cipher_object \<Rightarrow> bytes \<Rightarrow> bool" where
  "candidate_holds c = (\<lambda>(key, d) sec. length sec = co_length d
     \<and> (\<exists>r. candidate_reader c key = Ok r \<and> object_content r = (sec, None)))"

lemma candidate_copies:
  "(case x of (key, d) \<Rightarrow> bindR (candidate_reader c key) (\<lambda>r. copy_exact object_read r (co_length d))) = Ok sec
     \<longleftrightarrow> candidate_holds c x sec"
  by (cases x) (auto simp: candidate_holds_def object_source.copy_exact_content exactly_def prod_eq_iff
      split: if_splits option.splits)

lemma archive_bytes_inj:
  assumes "archive_bytes b secs = archive_bytes b' secs'" and "length b < 256 ^ 8" and "length b' < 256 ^ 8"
  shows "b = b' \<and> concat secs = concat secs'"
proof -
  have e: "le_bytes 8 (length b) @ b @ concat secs = le_bytes 8 (length b') @ b' @ concat secs'"
    using assms(1) by (simp add: archive_bytes_def)
  moreover have "length (le_bytes 8 (length b)) = length (le_bytes 8 (length b'))" by simp
  ultimately have "le_bytes 8 (length b) = le_bytes 8 (length b')" "b @ concat secs = b' @ concat secs'"
    by (metis append_eq_append_conv)+
  moreover from this(1) have "length b = length b'" using le_bytes_inj [OF assms(2,3)] by simp
  ultimately show ?thesis by simp
qed

lemma prepare_cases:
  assumes laws: "archive_codec_laws C"
  shows "prepare K C c m = Ok (file, s) \<longleftrightarrow>
    (\<exists>bytes secs ch r. ac_encode C m = Some bytes \<and> length bytes \<le> MAX_METADATA
       \<and> file = archive_bytes bytes secs \<and> length file \<le> MAX_ARCHIVE
       \<and> metadata_verify K C m r = Ok ch \<and> am_objects m = descriptors c
       \<and> list_all2 (candidate_holds c) (bt_iter (am_objects m)) secs
       \<and> list_all2 (section_ok K C (sm_body (am_manifest m)) ch) (bt_iter (am_objects m)) secs
       \<and> s = archive_snapshot_of K file bytes m ch)" (is "?l \<longleftrightarrow> ?r")
proof
  assume ?l
  then obtain r ch bytes len secs where p:
    "(case am_controls m of [] \<Rightarrow> Err InvalidFile | first # _ \<Rightarrow> trustR (sc_hash K first)) = Ok r"
    "metadata_verify K C m r = Ok ch" "am_objects m = descriptors c" "ac_encode C m = Some bytes"
    "length bytes \<le> MAX_METADATA"
    "mapR (\<lambda>(key, descriptor). bindR (candidate_reader c key)
       (\<lambda>r. copy_exact object_read r (co_length descriptor))) (bt_iter (am_objects m)) = Ok secs"
    "file = archive_bytes bytes secs" "from_source K C file (Some r) = Ok s"
    by (auto simp: prepare_def Let_def not_less)
  have holds: "list_all2 (candidate_holds c) (bt_iter (am_objects m)) secs"
    using p(6) unfolding mapR_Inr by (rule list_all2_mono) (simp only: candidate_copies)
  obtain bytes' secs' m' ch' r' where o: "file = archive_bytes bytes' secs'"
    "length bytes' \<le> MAX_METADATA" "length file \<le> MAX_ARCHIVE" "ac_decode C bytes' = Some m'"
    "metadata_verify K C m' r' = Ok ch'" "r = r'"
    "list_all2 (section_ok K C (sm_body (am_manifest m')) ch') (bt_iter (am_objects m')) secs'"
    "s = archive_snapshot_of K file bytes' m' ch'"
    using opens_sound [OF p(8)] by auto
  have "length bytes < 256 ^ 8" "length bytes' < 256 ^ 8" using p(5) o(2) archive_sizes(3) by linarith+
  then have bytes: "bytes' = bytes" "concat secs' = concat secs"
    using archive_bytes_inj [of bytes secs bytes' secs'] p(7) o(1) by metis+
  have "m' = m" using laws p(4) o(4) bytes(1) by (simp add: archive_codec_laws_def)
  then have m': "m' = m" "ch' = ch" using p(2) o(5,6) by auto
  have "secs' = secs"
  proof (rule concat_injective [OF bytes(2)])
    show "length secs' = length secs" using o(7) holds m'(1) by (metis list_all2_lengthD)
    show "\<forall>(x, y) \<in> set (zip secs' secs). length x = length y"
    proof clarify
      fix x y
      assume "(x, y) \<in> set (zip secs' secs)"
      then obtain i where i: "i < length secs'" "x = secs' ! i" "y = secs ! i" "i < length secs"
        by (auto simp: in_set_zip)
      let ?e = "bt_iter (am_objects m) ! i"
      have "section_ok K C (sm_body (am_manifest m)) ch ?e x" "candidate_holds c ?e y"
        using o(7) holds m' i by (auto simp: list_all2_conv_all_nth)
      then show "length x = length y" by (cases ?e) (auto simp: section_ok_def candidate_holds_def)
    qed
  qed
  then have sec: "list_all2 (section_ok K C (sm_body (am_manifest m)) ch) (bt_iter (am_objects m)) secs"
    and s: "s = archive_snapshot_of K file bytes m ch"
    using o(7,8) m' bytes(1) by simp_all
  show ?r
    by (rule exI [of _ bytes], rule exI [of _ secs], rule exI [of _ ch], rule exI [of _ r])
      (intro conjI p holds sec s o(3))
next
  assume ?r
  then obtain bytes secs ch r where p: "ac_encode C m = Some bytes" "length bytes \<le> MAX_METADATA"
    "file = archive_bytes bytes secs" "length file \<le> MAX_ARCHIVE"
    "metadata_verify K C m r = Ok ch" "am_objects m = descriptors c"
    "list_all2 (candidate_holds c) (bt_iter (am_objects m)) secs"
    "list_all2 (section_ok K C (sm_body (am_manifest m)) ch) (bt_iter (am_objects m)) secs"
    "s = archive_snapshot_of K file bytes m ch"
    by blast
  have root: "(case am_controls m of [] \<Rightarrow> Err InvalidFile | first # _ \<Rightarrow> trustR (sc_hash K first)) = Ok r"
    using metadata_verify_root(1) [OF p(5)] by (auto simp: trustR_def)
  have len: "length file = ARCHIVE_PREFIX + length bytes + sum_list (map co_length (bt_values (am_objects m)))"
    unfolding p(3) archive_bytes_length sections_total [OF p(8)] by simp
  have copies: "mapR (\<lambda>(key, descriptor). bindR (candidate_reader c key)
       (\<lambda>r. copy_exact object_read r (co_length descriptor))) (bt_iter (am_objects m)) = Ok secs"
    unfolding mapR_Inr using p(7) by (rule list_all2_mono) (simp only: candidate_copies)
  have dec: "ac_decode C bytes = Some m" using laws p(1) by (simp add: archive_codec_laws_def)
  have "foldR (\<lambda>sum (object :: cipher_object). ok_or (checked_add sum (co_length object)) TooLarge)
      (ARCHIVE_PREFIX + length bytes) (bt_values (am_objects m)) = Ok (length file)"
    unfolding sum_sections using len p(4) archive_sizes(2) by linarith
  moreover have "from_source K C file (Some r) = Ok s"
    unfolding p(9) by (rule opens_complete [OF p(3,2,4) dec _ p(5,8)]) simp
  ultimately show ?l
    using root p(1-6) copies by (simp add: prepare_def Let_def)
qed

subsection \<open>Properties\<close>

lemma archive_layout:
  "from_source K C file pinned = Ok s \<longleftrightarrow>
    (\<exists>bytes secs m ch r. file = archive_bytes bytes secs
       \<and> length bytes \<le> MAX_METADATA \<and> length file \<le> MAX_ARCHIVE \<and> ac_decode C bytes = Some m
       \<and> (pinned = None \<or> pinned = Some r) \<and> metadata_verify K C m r = Ok ch
       \<and> list_all2 (section_ok K C (sm_body (am_manifest m)) ch) (bt_iter (am_objects m)) secs
       \<and> s = archive_snapshot_of K file bytes m ch)"
  using opens_sound [of K C "file" pinned s] opens_complete by metis

text \<open>
  C27: exactly the well-formed archives open. A byte string opens to a snapshot if and only if
  it is the prefix with the metadata length, metadata of at most 16 MiB that verifies (against
  the pinned root when there is one), and then the sections of the manifest in digest order,
  nothing between or after them, each with its announced digest and length and an envelope the
  chain verifies; the snapshot then shows this metadata, the position of every section and
  the digest of the whole file.
\<close>

theorem archive_opens_iff:
  "from_source K C file pinned = Ok s \<longleftrightarrow>
    (\<exists>bytes secs m ch r. file = archive_bytes bytes secs
       \<and> length bytes \<le> MAX_METADATA \<and> length file \<le> MAX_ARCHIVE \<and> ac_decode C bytes = Some m
       \<and> (pinned = None \<or> pinned = Some r) \<and> metadata_verify K C m r = Ok ch
       \<and> list_all2 (section_ok K C (sm_body (am_manifest m)) ch) (bt_iter (am_objects m)) secs
       \<and> s = archive_snapshot_of K file bytes m ch)"
  by (rule archive_layout)

text \<open>
  Every listed object of an opened archive can be read. For each digest of the manifest the
  snapshot gives a reader of exactly the listed length and digest, and \<open>object\<close> receives it as
  an encrypted object with that descriptor.
\<close>

theorem archive_objects_available:
  assumes "from_source K C file pinned = Ok s" and "fmlookup (am_objects (as_metadata s)) key = Some d"
  shows "\<exists>r obj. snapshot_reader s key = Ok r \<and> snapshot_object K C s key = Ok obj
    \<and> object_content r = (eo_file obj, None) \<and> eo_descriptor obj = d
    \<and> sha256 K (eo_file obj) = key \<and> length (eo_file obj) = co_length d"
proof -
  obtain sec r where r: "snapshot_reader s key = Ok r" "object_content r = (sec, None)"
    "section_ok K C (sm_body (am_manifest (as_metadata s))) (as_chain s) (key, d) sec"
    "length sec \<le> MAX_ARCHIVE" "key = co_digest d"
    using opened_reader [OF assms] by blast
  obtain obj where o: "receive_in K (ac_envelope C) object_read r d (as_chain s) = Ok obj" "eo_file obj = sec"
    "eo_descriptor obj = d"
    using section_received [OF r(3,2,4,5)] by blast
  have "sha256 K sec = key" "length sec = co_length d" using r(3) by (auto simp: section_ok_def)
  then show ?thesis using r(1,2) o assms(2) by (simp add: snapshot_object_def)
qed

text \<open>
  Writing an archive. A candidate and verified metadata that lists exactly its composition
  are written if and only if the encoded metadata and the file are within the limits and the
  candidate holds an acceptable section for every listed object; the written file then
  consists of these very bytes and reads back as the same metadata.
\<close>

theorem archive_written_iff:
  assumes "archive_codec_laws C"
  shows "prepare K C c m = Ok (file, s) \<longleftrightarrow>
    (\<exists>bytes secs ch r. ac_encode C m = Some bytes \<and> length bytes \<le> MAX_METADATA
       \<and> file = archive_bytes bytes secs \<and> length file \<le> MAX_ARCHIVE
       \<and> metadata_verify K C m r = Ok ch \<and> am_objects m = descriptors c
       \<and> list_all2 (candidate_holds c) (bt_iter (am_objects m)) secs
       \<and> list_all2 (section_ok K C (sm_body (am_manifest m)) ch) (bt_iter (am_objects m)) secs
       \<and> s = archive_snapshot_of K file bytes m ch)"
  by (rule prepare_cases [OF assms])

subsection \<open>A small archive\<close>

definition toy_section_envelope :: "object_kind \<Rightarrow> byte \<Rightarrow> object_envelope" where
  "toy_section_envelope kind c = projr (envelope_sign toy_crypto toy_chain toy_key kind 1 [c])"

definition toy_section :: "byte \<Rightarrow> byte \<Rightarrow> bytes" where
  "toy_section tag c = OBJECT_MAGIC @ le_bytes 4 1 @ [tag] @ [c]"

definition toy_codecs :: "archive_metadata \<Rightarrow> archive_metadata \<Rightarrow> archive_codec" where
  "toy_codecs m0 m1 = \<lparr>
     ac_envelope = \<lparr>en_encode = \<lambda>_. None,
       en_decode = \<lambda>b. if b = [1] then Some (toy_section_envelope Checkpoint 5)
         else if b = [2] then Some (toy_section_envelope Baseline 6)
         else if b = [3] then Some (toy_section_envelope Change 7) else None\<rparr>,
     ac_auxiliary = \<lambda>_. Some [],
     ac_encode = \<lambda>m. if m = m0 then Some [0] else if m = m1 then Some [1] else None,
     ac_decode = \<lambda>b. if b = [0] then Some m0 else if b = [1] then Some m1 else None\<rparr>"

lemma toy_codecs_laws: "archive_codec_laws (toy_codecs m0 m1)"
  by (auto simp: archive_codec_laws_def envelope_codec_laws_def toy_codecs_def)

definition toy_entry :: "object_kind \<Rightarrow> byte \<Rightarrow> byte \<Rightarrow> cipher_object" where
  "toy_entry kind tag c = \<lparr>co_digest = toy_section tag c, co_length = 14, co_kind = kind\<rparr>"

definition toy_objects :: "(digest, cipher_object) fmap" where
  "toy_objects = fmupd (toy_section 2 6) (toy_entry Baseline 2 6)
     (fmupd (toy_section 1 5) (toy_entry Checkpoint 1 5) fmempty)"

definition toy_manifest_body :: "nat \<Rightarrow> (digest, cipher_object) fmap \<Rightarrow> manifest" where
  "toy_manifest_body g objects = \<lparr>mf_version = 1, mf_database = ''db'', mf_trust_set = [9], mf_control = toy_root,
     mf_generation = g, mf_signer = id_device toy_identity, mf_objects = objects,
     mf_checkpoint = toy_section 1 5, mf_baseline = toy_section 2 6,
     mf_auxiliary = AUXILIARY_DOMAIN @ le_bytes 8 0\<rparr>"

definition toy_journal :: archive_journal where
  "toy_journal = \<lparr>aj_invitations = fmempty, aj_offers = fmempty, aj_retained = {||}, aj_forks = []\<rparr>"

definition toy_metadata :: "nat \<Rightarrow> (digest, cipher_object) fmap \<Rightarrow> archive_metadata" where
  "toy_metadata g objects = \<lparr>am_controls = toy_chain,
     am_manifest = projr (manifest_sign toy_crypto (toy_manifest_body g objects) toy_chain toy_transport),
     am_journal = toy_journal\<rparr>"

lemma toy_section_simps: "length (toy_section t c) = 14"
  "toy_section t c = toy_section t' c' \<longleftrightarrow> t = t' \<and> c = c'"
  by (auto simp: toy_section_def magic_length)

lemma toy_composition:
  assumes "fmlookup objects (toy_section 1 5) = Some (toy_entry Checkpoint 1 5)"
    and "fmlookup objects (toy_section 2 6) = Some (toy_entry Baseline 2 6)"
    and "\<And>k x. fmlookup objects k = Some x \<Longrightarrow> k = co_digest x \<and> co_length x = 14 \<and> co_kind x \<noteq> LocalDraft"
    and "fcard (fmdom objects) \<le> 3"
  shows "manifest_validate toy_crypto (toy_manifest_body g objects) toy_chain = Ok ()"
    and "sum_list (map co_length (bt_values objects)) \<le> 42"
proof -
  have "length (bt_keys objects) = fcard (fmdom objects)"
    by (metis distinct_bt_keys distinct_card fcard.rep_eq set_bt_keys)
  then have "length (bt_iter objects) \<le> 3" using assms(4) by (metis length_map map_fst_bt_iter)
  moreover have "\<forall>x \<in> set xs. co_length x = 14 \<Longrightarrow> sum_list (map co_length xs) = 14 * length xs" for xs :: "cipher_object list"
    by (induction xs) auto
  moreover have "\<forall>x \<in> set (bt_values objects). co_length x = 14"
    using assms(3) by (auto simp: set_bt_values)
  ultimately have "sum_list (map co_length (bt_values objects)) = 14 * length (bt_values objects)"
    and "length (bt_values objects) \<le> 3"
    by (blast, simp add: bt_values_def)
  then show sum: "sum_list (map co_length (bt_values objects)) \<le> 42" by simp
  then have "manifest_total (toy_manifest_body g objects) \<le> GIB16"
    by (simp add: manifest_total_def toy_manifest_body_def GIB16_def)
  moreover have "objects \<noteq> fmempty" using assms(1) by auto
  ultimately show "manifest_validate toy_crypto (toy_manifest_body g objects) toy_chain = Ok ()"
    using assms toy_head(1,5)
    by (auto simp: composition_accepted toy_manifest_body_def genesis_body_def bt_len_def fmpred_iff has_kind_def
        toy_entry_def fcard_0_eq simp flip: bt_len_0)
qed

lemma toy_metadata_verified:
  assumes "manifest_validate toy_crypto (toy_manifest_body g objects) toy_chain = Ok ()"
  shows "metadata_verify toy_crypto (toy_codecs m0 m1) (toy_metadata g objects) toy_root = Ok toy_chain"
    and "am_objects (toy_metadata g objects) = objects"
    and "sm_body (am_manifest (toy_metadata g objects)) = toy_manifest_body g objects"
proof -
  let ?b = "toy_manifest_body g objects"
  obtain sig where "transport_sign toy_crypto toy_transport MANIFEST_DOMAIN (PManifest ?b) = Ok sig"
    using transport_sign_verify [OF toy_crypto_laws] by (auto simp: transport_sign_def canonical_def toy_crypto_def)
  then have s: "\<exists>sm. manifest_sign toy_crypto ?b toy_chain toy_transport = Ok sm"
    using assms toy_head toy_key_simps(4) by (auto simp: manifest_sign_def toy_manifest_body_def)
  then have v: "manifest_verify toy_crypto (am_manifest (toy_metadata g objects)) toy_chain = Ok ()"
    and b: "sm_body (am_manifest (toy_metadata g objects)) = ?b"
    using manifest_sign_verifies [OF toy_crypto_laws] by (auto simp: toy_metadata_def)
  show "sm_body (am_manifest (toy_metadata g objects)) = ?b" "am_objects (toy_metadata g objects) = objects"
    using b by (simp_all add: toy_manifest_body_def)
  have "auxiliary toy_crypto (toy_codecs m0 m1) toy_chain toy_journal = Ok (mf_auxiliary ?b)"
    by (simp add: auxiliary_def toy_codecs_def toy_manifest_body_def toy_crypto_def)
  then show "metadata_verify toy_crypto (toy_codecs m0 m1) (toy_metadata g objects) toy_root = Ok toy_chain"
    using v b toy_valid
    by (simp add: metadata_verify_def trustR_def toy_metadata_def toy_journal_def bt_iter_def bt_keys_def
        List.map_filter_def bt_len_def Let_def fcard.rep_eq)
qed

lemma toy_section_signed:
  assumes "kind \<in> {Checkpoint, Baseline, Change}"
  shows "envelope_sign toy_crypto toy_chain toy_key kind 1 [c] = Ok (toy_section_envelope kind c)"
proof -
  have "baseline_authority toy_crypto toy_chain (head toy_chain) (author_device toy_crypto toy_key)"
    using toy_head(3) toy_key_simps(3) by (simp add: baseline_authority_def)
  then have "\<exists>e. envelope_sign toy_crypto toy_chain toy_key kind 1 [c] = Ok e"
    using envelope_sign_iff [OF toy_crypto_laws toy_head(5,4) toy_member toy_key_matches, of kind 1 "[c]"]
    by (simp add: GIB16_def)
  then show ?thesis by (auto simp: toy_section_envelope_def)
qed

lemma envelope_sign_control:
  "envelope_sign K ch key kind len c = Ok e \<Longrightarrow> head_hash K ch = Ok (eb_control e)"
  by (auto simp: envelope_sign_def Let_def)

lemma toy_section_ok:
  assumes "(kind, t, c) \<in> {(Checkpoint, 1, 5), (Baseline, 2, 6), (Change, 3, 7)}"
  shows "section_ok toy_crypto (toy_codecs m0 m1) (toy_manifest_body g objects) toy_chain
    (toy_section t c, toy_entry kind t c) (toy_section t c)"
proof -
  have k: "kind \<in> {Checkpoint, Baseline, Change}" using assms by auto
  note e = envelope_sign_fields [OF toy_section_signed [OF k, of c]]
  have "eb_control (toy_section_envelope kind c) = toy_root"
    using envelope_sign_control [OF toy_section_signed [OF k, of c]] toy_head(4) by simp
  then have "mf_control (toy_manifest_body g objects) = eb_control (toy_section_envelope kind c)"
    by (simp add: toy_manifest_body_def)
  moreover have "en_decode (ac_envelope (toy_codecs m0 m1)) [t] = Some (toy_section_envelope kind c)"
    using assms by (auto simp: toy_codecs_def)
  moreover have "sha256 toy_crypto x = x" for x by (simp add: toy_crypto_def)
  moreover have "toy_section t c = OBJECT_MAGIC @ le_bytes 4 (length [t]) @ [t] @ [c]"
    by (simp only: toy_section_def One_nat_def list.size add_0)
  ultimately have "\<exists>json env cipher. en_decode (ac_envelope (toy_codecs m0 m1)) json = Some env \<and> length json \<le> MAX_ENVELOPE
      \<and> toy_section t c = OBJECT_MAGIC @ le_bytes 4 (length json) @ json @ cipher
      \<and> envelope_verify toy_crypto env toy_chain = Ok () \<and> eb_kind env = kind
      \<and> eb_length env = length cipher \<and> eb_ciphertext env = sha256 toy_crypto cipher
      \<and> eb_control env = mf_control (toy_manifest_body g objects)"
    using e by (intro exI [of _ "[t]"] exI [of _ "toy_section_envelope kind c"] exI [of _ "[c]"])
      (simp add: MAX_ENVELOPE_def)
  moreover have "length (toy_section t c) = 14" by (rule toy_section_simps)
  moreover have "sha256 toy_crypto (toy_section t c) = toy_section t c" by (simp add: toy_crypto_def)
  ultimately show ?thesis unfolding section_ok_def toy_entry_def by auto
qed

definition toy_object :: "object_kind \<Rightarrow> byte \<Rightarrow> byte \<Rightarrow> encrypted_object" where
  "toy_object kind t c = \<lparr>eo_file = toy_section t c, eo_descriptor = toy_entry kind t c,
     eo_envelope = toy_section_envelope kind c, eo_offset = 13\<rparr>"

definition toy_candidate :: archive_candidate where
  "toy_candidate = \<lparr>cd_base = None,
     cd_staged = fmupd (toy_section 2 6) (toy_object Baseline 2 6)
       (fmupd (toy_section 1 5) (toy_object Checkpoint 1 5) fmempty),
     cd_retained = {|toy_section 1 5, toy_section 2 6|}\<rparr>"

lemma toy_objects_lookup: "fmlookup toy_objects k =
    (if k = toy_section 2 6 then Some (toy_entry Baseline 2 6)
     else if k = toy_section 1 5 then Some (toy_entry Checkpoint 1 5) else None)"
  by (simp add: toy_objects_def)

lemma toy_objects_valid:
  "manifest_validate toy_crypto (toy_manifest_body g toy_objects) toy_chain = Ok ()"
  "sum_list (map co_length (bt_values toy_objects)) \<le> 42"
proof -
  have "fcard (fmdom toy_objects) \<le> 3"
    unfolding toy_objects_def by (simp add: fcard_finsert_disjoint toy_section_simps fcard.rep_eq)
  moreover have "fmlookup toy_objects k = Some x \<Longrightarrow> k = co_digest x \<and> co_length x = 14 \<and> co_kind x \<noteq> LocalDraft" for k x
    by (auto simp: toy_objects_lookup toy_entry_def split: if_splits)
  ultimately show "manifest_validate toy_crypto (toy_manifest_body g toy_objects) toy_chain = Ok ()"
    "sum_list (map co_length (bt_values toy_objects)) \<le> 42"
    by (auto intro!: toy_composition simp: toy_objects_lookup toy_section_simps)
qed

lemma toy_candidate_descriptors: "descriptors toy_candidate = toy_objects"
  by (rule fmap_ext)
    (auto simp: descriptors_def toy_candidate_def toy_objects_lookup toy_object_def toy_section_simps)

lemma toy_object_content: "object_content (object_reader_of (toy_object kind t c)) = (toy_section t c, None)"
  using window_inside [of 0 14 "toy_section t c"]
  by (simp add: object_reader_of_def toy_object_def toy_entry_def toy_section_simps)

abbreviation toy_codec0 :: archive_codec where
  "toy_codec0 \<equiv> toy_codecs (toy_metadata 0 toy_objects) (toy_metadata 1 toy_objects)"

definition toy_archive :: bytes where
  "toy_archive = archive_bytes [0] (map fst (bt_iter toy_objects))"

definition toy_snapshot :: archive_snapshot where
  "toy_snapshot = archive_snapshot_of toy_crypto toy_archive [0] (toy_metadata 0 toy_objects) toy_chain"

lemma entries_by_key:
  "(\<And>k d. fmlookup m k = Some d \<Longrightarrow> P (k, d) k) \<Longrightarrow> list_all2 P (bt_iter m) (map fst (bt_iter m))"
  unfolding list_all2_map2 by (rule list.rel_refl_strong) (metis prod.collapse set_bt_iter)

lemma toy_body_objects [simp]: "mf_objects (toy_manifest_body g objects) = objects"
  by (simp add: toy_manifest_body_def)

lemma toy_sections_ok:
  "list_all2 (section_ok toy_crypto (toy_codecs m0 m1) (toy_manifest_body g objects) toy_chain)
     (bt_iter toy_objects) (map fst (bt_iter toy_objects))"
  using toy_section_ok [of Checkpoint 1 5 m0 m1 g objects] toy_section_ok [of Baseline 2 6 m0 m1 g objects]
  by (intro entries_by_key) (auto simp: toy_objects_lookup split: if_splits)

lemma toy_archive_small: "length toy_archive \<le> MAX_ARCHIVE"
proof -
  have "length (concat (map fst (bt_iter toy_objects))) \<le> 42"
    unfolding sections_total [OF toy_sections_ok] by (rule toy_objects_valid(2))
  then show ?thesis
    unfolding toy_archive_def archive_bytes_length by (simp add: ARCHIVE_PREFIX_def MAX_ARCHIVE_def)
qed

lemma toy_opens:
  "from_source toy_crypto toy_codec0 toy_archive None = Ok toy_snapshot"
  unfolding toy_snapshot_def
proof (rule opens_complete)
  show "toy_archive = archive_bytes [0] (map fst (bt_iter toy_objects))" by (rule toy_archive_def)
  note m = toy_metadata_verified [OF toy_objects_valid(1)]
  show "metadata_verify toy_crypto toy_codec0 (toy_metadata 0 toy_objects) toy_root = Ok toy_chain" by (rule m(1))
  show "list_all2 (section_ok toy_crypto toy_codec0 (sm_body (am_manifest (toy_metadata 0 toy_objects))) toy_chain)
     (bt_iter (am_objects (toy_metadata 0 toy_objects))) (map fst (bt_iter toy_objects))"
    unfolding m(3) toy_body_objects by (rule toy_sections_ok)
qed (simp_all add: MAX_METADATA_def toy_archive_small, simp add: toy_codecs_def)

text \<open>The first generation is written from two staged objects.\<close>

lemma toy_holds:
  "list_all2 (candidate_holds toy_candidate) (bt_iter toy_objects) (map fst (bt_iter toy_objects))"
  using toy_object_content [of Checkpoint 1 5] toy_object_content [of Baseline 2 6]
  by (intro entries_by_key)
    (auto simp: candidate_holds_def toy_objects_lookup candidate_reader_def toy_candidate_def toy_entry_def
      toy_section_simps split: if_splits)

lemma toy_written_parts:
  "ac_encode toy_codec0 (toy_metadata 0 toy_objects) = Some [0]"
  "metadata_verify toy_crypto toy_codec0 (toy_metadata 0 toy_objects) toy_root = Ok toy_chain"
  "am_objects (toy_metadata 0 toy_objects) = descriptors toy_candidate"
  "list_all2 (candidate_holds toy_candidate) (bt_iter (am_objects (toy_metadata 0 toy_objects))) (map fst (bt_iter toy_objects))"
  "list_all2 (section_ok toy_crypto toy_codec0 (sm_body (am_manifest (toy_metadata 0 toy_objects))) toy_chain)
     (bt_iter (am_objects (toy_metadata 0 toy_objects))) (map fst (bt_iter toy_objects))"
proof -
  note m = toy_metadata_verified [OF toy_objects_valid(1)]
  show "ac_encode toy_codec0 (toy_metadata 0 toy_objects) = Some [0]" by (simp add: toy_codecs_def)
  show "metadata_verify toy_crypto toy_codec0 (toy_metadata 0 toy_objects) toy_root = Ok toy_chain" by (rule m(1))
  show "am_objects (toy_metadata 0 toy_objects) = descriptors toy_candidate"
    unfolding m(2) toy_candidate_descriptors ..
  show "list_all2 (candidate_holds toy_candidate) (bt_iter (am_objects (toy_metadata 0 toy_objects))) (map fst (bt_iter toy_objects))"
    unfolding m(2) by (rule toy_holds)
  show "list_all2 (section_ok toy_crypto toy_codec0 (sm_body (am_manifest (toy_metadata 0 toy_objects))) toy_chain)
     (bt_iter (am_objects (toy_metadata 0 toy_objects))) (map fst (bt_iter toy_objects))"
    unfolding m(3) toy_body_objects by (rule toy_sections_ok)
qed

theorem archive_written_iff_witness:
  "prepare toy_crypto toy_codec0 toy_candidate (toy_metadata 0 toy_objects) = Ok (toy_archive, toy_snapshot)"
  unfolding archive_written_iff [OF toy_codecs_laws]
  by (rule exI [of _ "[0]"], rule exI [of _ "map fst (bt_iter toy_objects)"], rule exI [of _ toy_chain],
      rule exI [of _ toy_root])
    (intro conjI toy_written_parts toy_archive_small, simp_all add: MAX_METADATA_def toy_archive_def toy_snapshot_def)

theorem archive_objects_available_witness:
  "\<exists>r obj. snapshot_reader toy_snapshot (toy_section 1 5) = Ok r
    \<and> snapshot_object toy_crypto toy_codec0 toy_snapshot (toy_section 1 5) = Ok obj
    \<and> eo_file obj = toy_section 1 5 \<and> eo_descriptor obj = toy_entry Checkpoint 1 5"
proof -
  have "fmlookup (am_objects (as_metadata toy_snapshot)) (toy_section 1 5) = Some (toy_entry Checkpoint 1 5)"
    using toy_metadata_verified(2) [OF toy_objects_valid(1), of 0]
    by (simp add: toy_snapshot_def archive_snapshot_of_def toy_objects_lookup toy_section_simps)
  from archive_objects_available [OF toy_opens this] show ?thesis
    by (auto simp: toy_crypto_def)
qed

end
