(* ===== verification/Store_Commit_Laws.thy ===== *)
theory Store_Commit_Laws
  imports Store_Commit Store_Archive_Laws
begin

text \<open>
  Safety of the archive writer under every schedule of failing steps and under a power cut at
  any moment: the file is always the complete old or the complete new generation, the marker
  admits what is there, and an uncertain commit can be confirmed and is never applied twice.

  Programs over the disk are reasoned about with weakest preconditions: \<open>wpS m Q E s\<close> says
  that running \<open>m\<close> in \<open>s\<close> ends in \<open>Q\<close> with its value or in \<open>E\<close> with its error.
\<close>

definition wpS :: "('s \<Rightarrow> ('e + 'a) \<times> 's) \<Rightarrow> ('a \<Rightarrow> 's \<Rightarrow> bool) \<Rightarrow> ('e \<Rightarrow> 's \<Rightarrow> bool) \<Rightarrow> 's \<Rightarrow> bool" where
  "wpS m Q E s = (case m s of (Inl e, s') \<Rightarrow> E e s' | (Inr x, s') \<Rightarrow> Q x s')"

lemma wp_bind [simp]: "wpS (bindS m f) Q E s = wpS m (\<lambda>x. wpS (f x) Q E) E s"
  by (auto simp: wpS_def bindS_def split: sum.splits prod.splits)

lemma wp_pure [simp]: "wpS (pureS r) Q E s = (case r of Inl e \<Rightarrow> E e s | Inr x \<Rightarrow> Q x s)"
  by (simp add: wpS_def pureS_def)

lemma wp_state [simp]: "wpS (\<lambda>s. (r s, g s)) Q E s = (case r s of Inl e \<Rightarrow> E e (g s) | Inr x \<Rightarrow> Q x (g s))"
  by (simp add: wpS_def)

lemma wp_map_err [simp]: "wpS (map_errS g m) Q E s = wpS m Q (\<lambda>e. E (g e)) s"
  by (auto simp: wpS_def map_errS_def map_errR_def split: sum.splits prod.splits)

lemma wp_if [simp]: "wpS (if b then m else n) Q E s = (if b then wpS m Q E s else wpS n Q E s)"
  by simp

lemma wp_on_disk [simp]:
  "wpS (on_disk m) Q E s = wpS m (\<lambda>x d. Q x (s\<lparr>ar_disk := d\<rparr>)) (\<lambda>e d. E e (s\<lparr>ar_disk := d\<rparr>)) (ar_disk s)"
  by (auto simp: wpS_def on_disk_def split: sum.splits prod.splits)

lemma wp_anchored [simp]:
  "wpS (when_anchored m) Q E s = (if ar_anchor s then wpS m Q E s else Q () s)"
  by (simp add: wpS_def when_anchored_def)

lemma wp_mono:
  "wpS m Q E s \<Longrightarrow> (\<And>x s. Q x s \<Longrightarrow> Q' x s) \<Longrightarrow> (\<And>e s. E e s \<Longrightarrow> E' e s) \<Longrightarrow> wpS m Q' E' s"
  by (auto simp: wpS_def split: sum.splits prod.splits)

lemma wp_run: "wpS m Q E s \<Longrightarrow> m s = (r, s') \<Longrightarrow> case r of Inl e \<Rightarrow> E e s' | Inr x \<Rightarrow> Q x s'"
  by (simp add: wpS_def)

text \<open>What a disk holds, whatever its coming outcomes, and the primitive steps.\<close>

definition disk_is :: "bytes option \<Rightarrow> bytes option list \<Rightarrow> anchor option \<Rightarrow> disk \<Rightarrow> bool" where
  "disk_is f du m d \<longleftrightarrow> dk_file d = f \<and> dk_durable d = du \<and> dk_marker d = m"

lemma disk_is_self: "disk_is (dk_file d) (dk_durable d) (dk_marker d) d"
  by (simp add: disk_is_def)

lemma next_outcome_is: "disk_is f du m d \<Longrightarrow> next_outcome d = (x, d') \<Longrightarrow> disk_is f du m d'"
  by (auto simp: disk_is_def next_outcome_def split: list.splits)

lemma wp_attempt:
  assumes "disk_is f du m d" and "\<And>d'. disk_is f du m d' \<Longrightarrow> Q () d'"
    and "\<And>e d'. disk_is f du m d' \<Longrightarrow> E (conv e) d'"
  shows "wpS (attempt conv) Q E d"
proof -
  obtain x d' where n: "next_outcome d = (x, d')" by fastforce
  then have "disk_is f du m d'" using assms(1) next_outcome_is by blast
  then show ?thesis using assms(2,3) n by (cases x) (simp_all add: wpS_def attempt_def)
qed

lemma wp_read:
  assumes "disk_is f du m d" and "\<And>c d'. f = Some c \<Longrightarrow> disk_is f du m d' \<Longrightarrow> Q c d'"
    and "\<And>d'. disk_is f du m d' \<Longrightarrow> E Io d'"
  shows "wpS read_path Q E d"
  unfolding read_path_def wp_bind
proof (rule wp_attempt [OF assms(1)])
  fix d'
  assume d: "disk_is f du m d'"
  then show "wpS (\<lambda>d. (ok_or (dk_file d) Io, d)) Q E d'"
    using assms(2,3) by (cases f) (auto simp: disk_is_def)
qed (rule assms(3))

lemma wp_exists:
  assumes "disk_is f du m d" and "\<And>d'. disk_is f du m d' \<Longrightarrow> Q (f \<noteq> None) d'"
    and "\<And>d'. disk_is f du m d' \<Longrightarrow> E Io d'"
  shows "wpS path_exists Q E d"
  unfolding path_exists_def wp_bind
  by (rule wp_attempt [OF assms(1)]) (use assms(2,3) in \<open>auto simp: disk_is_def\<close>)

lemma wp_load:
  assumes "disk_is f du m d" and "\<And>d'. disk_is f du m d' \<Longrightarrow> Q m d'"
    and "\<And>e d'. disk_is f du m d' \<Longrightarrow> E e d'"
  shows "wpS marker_load Q E d"
  unfolding marker_load_def wp_bind
  by (rule wp_attempt [OF assms(1)]) (use assms(2,3) in \<open>auto simp: disk_is_def\<close>)

lemma wp_save:
  assumes "disk_is f du m d" and "\<And>d'. disk_is f du (Some a) d' \<Longrightarrow> Q () d'"
    and "\<And>e d' m'. m' = m \<or> m' = Some a \<Longrightarrow> disk_is f du m' d' \<Longrightarrow> E e d'"
  shows "wpS (marker_save a) Q E d"
proof -
  obtain x d' where n: "next_outcome d = (x, d')" by fastforce
  then have d: "disk_is f du m d'" using assms(1) next_outcome_is by blast
  then have a: "disk_is f du (Some a) (d'\<lparr>dk_marker := Some a\<rparr>)" by (simp add: disk_is_def)
  show ?thesis
    using assms(2) [OF a] assms(3) [OF _ a] assms(3) [OF _ d] n
    by (cases x) (simp_all add: wpS_def marker_save_def)
qed

lemma wp_confirm:
  assumes "disk_is f du m d" and "\<And>d'. f \<noteq> None \<Longrightarrow> disk_is f [f] m d' \<Longrightarrow> Q () d'"
    and "\<And>d' du'. du' = du \<or> du' = [f] \<Longrightarrow> disk_is f du' m d' \<Longrightarrow> E Io d'"
  shows "wpS confirm_published_file Q E d"
proof -
  obtain x d' where n: "next_outcome d = (x, d')" by fastforce
  then have d: "disk_is f du m d'" using assms(1) next_outcome_is by blast
  then have a: "disk_is f [f] m (d'\<lparr>dk_durable := [f]\<rparr>)" and f: "dk_file d' = f" by (simp_all add: disk_is_def)
  show ?thesis
    using assms(2) [OF _ a] assms(3) [OF _ a] assms(3) [OF _ d] n f
    by (cases x; cases f) (simp_all add: wpS_def confirm_published_file_def)
qed

lemma wp_publish:
  assumes "disk_is f du m d" and "\<And>d'. mode = Create \<longrightarrow> f = None \<Longrightarrow> disk_is (Some c) [Some c] m d' \<Longrightarrow> Q () d'"
    and "\<And>e d'. e \<noteq> CommitUncertain \<Longrightarrow> disk_is f du m d' \<Longrightarrow> E e d'"
    and "\<And>d' du'. du' = Some c # du \<or> du' = [Some c] \<Longrightarrow> mode = Create \<longrightarrow> f = None \<Longrightarrow>
      disk_is (Some c) du' m d' \<Longrightarrow> E CommitUncertain d'"
  shows "wpS (publish_file c mode) Q E d"
  unfolding publish_file_def wp_bind wp_map_err
proof (rule wp_attempt [OF assms(1)])
  fix d1
  assume d1: "disk_is f du m d1"
  show "wpS (attempt (\<lambda>_. Io)) (\<lambda>_. wpS (rename c mode)
      (\<lambda>_. wpS confirm_published_file Q (\<lambda>e. E CommitUncertain)) E) E d1"
  proof (rule wp_attempt [OF d1])
    fix d2
    assume d2: "disk_is f du m d2"
    show "wpS (rename c mode) (\<lambda>_. wpS confirm_published_file Q (\<lambda>e. E CommitUncertain)) E d2"
      unfolding rename_def wp_bind
    proof (rule wp_attempt [OF d2])
      fix d3
      assume d3: "disk_is f du m d3"
      show "wpS (\<lambda>d. if mode = Create \<and> dk_file d \<noteq> None then (Err AlreadyExists, d)
           else (Ok (), d\<lparr>dk_file := Some c, dk_durable := Some c # dk_durable d\<rparr>))
         (\<lambda>_. wpS confirm_published_file Q (\<lambda>e. E CommitUncertain)) E d3"
      proof (cases "mode = Create \<and> f \<noteq> None")
        case True
        then show ?thesis using assms(3) [OF _ d3, of AlreadyExists] d3 by (simp add: wpS_def disk_is_def)
      next
        case False
        let ?d = "d3\<lparr>dk_file := Some c, dk_durable := Some c # dk_durable d3\<rparr>"
        have n: "disk_is (Some c) (Some c # du) m ?d" using d3 by (simp add: disk_is_def)
        have "wpS confirm_published_file Q (\<lambda>e. E CommitUncertain) ?d"
          by (rule wp_confirm [OF n]) (use assms(2,4) False in auto)
        moreover have "\<not> (mode = Create \<and> dk_file d3 \<noteq> None)" using False d3 by (simp add: disk_is_def)
        ultimately show ?thesis by (simp only: wpS_def if_False prod.case sum.case)
      qed
    qed (use assms(3) in auto)
  qed (use assms(3) in auto)
qed (use assms(3) in auto)

lemma wp_expect:
  assumes "disk_is (Some c) du m d" and "length c \<le> MAX_ENCODED_SIZE"
    and "\<And>d'. h = sha256 K c \<Longrightarrow> disk_is (Some c) du m d' \<Longrightarrow> Q () d'"
    and "\<And>e d'. e \<noteq> CommitUncertain \<Longrightarrow> disk_is (Some c) du m d' \<Longrightarrow> E e d'"
  shows "wpS (expect_fingerprint K h) Q E d"
  unfolding expect_fingerprint_def current_fingerprint_def wp_bind wp_pure
  by (rule wp_read [OF assms(1)]) (use assms(2-4) in \<open>auto simp: fingerprint_file\<close>)

lemma wp_check_marker:
  assumes "disk_is f du m d" and "\<And>d'. disk_is f du m d' \<Longrightarrow> Q () d'"
    and "\<And>e d'. disk_is f du m d' \<Longrightarrow> E e d'"
  shows "wpS (bindS marker_load (\<lambda>marker. pureS (check_marker a b marker))) Q E d"
  unfolding wp_bind
proof (rule wp_load [OF assms(1)])
  fix d'
  assume "disk_is f du m d'"
  then show "wpS (pureS (check_marker a b m)) Q E d'"
    using assms(2,3) by (cases "check_marker a b m") simp_all
qed (rule assms(3))

subsection \<open>The state of a writer\<close>

definition opens :: "crypto \<Rightarrow> archive_codec \<Rightarrow> bytes \<Rightarrow> archive_snapshot \<Rightarrow> bool" where
  "opens K C content t \<longleftrightarrow> (\<exists>p. from_source K C content p = Ok t)"

definition admits :: "anchor \<Rightarrow> digest \<Rightarrow> bool" where
  "admits a h \<longleftrightarrow> an_accepted a = Some h \<or> an_prepared a = Some h"

text \<open>Whatever survives a power cut is a complete archive that the marker admits.\<close>

definition recoverable :: "crypto \<Rightarrow> archive_codec \<Rightarrow> bool \<Rightarrow> disk \<Rightarrow> bool" where
  "recoverable K C anchored d \<longleftrightarrow> dk_file d \<in> set (dk_durable d)
     \<and> (\<forall>c \<in> set (dk_durable d). \<exists>content t. c = Some content \<and> opens K C content t
          \<and> (anchored \<longrightarrow> (\<exists>a. dk_marker d = Some a \<and> admits a (as_fingerprint t))))"

text \<open>The generation the writer stands for: in doubt, the one it last tried to commit.\<close>

definition target :: "archive_store \<Rightarrow> archive_snapshot" where
  "target s = (if ar_uncertain s then snd (the (ar_last_commit s)) else ar_snapshot s)"

definition accepted_marker :: "archive_snapshot \<Rightarrow> anchor" where
  "accepted_marker t = \<lparr>an_accepted = Some (as_fingerprint t), an_prepared = None\<rparr>"

definition prepared_marker :: "digest \<Rightarrow> archive_snapshot \<Rightarrow> anchor" where
  "prepared_marker e t = \<lparr>an_accepted = Some e, an_prepared = Some (as_fingerprint t)\<rparr>"

definition writer_ok :: "crypto \<Rightarrow> archive_codec \<Rightarrow> archive_store \<Rightarrow> bool" where
  "writer_ok K C s \<longleftrightarrow> opens K C (as_file (target s)) (target s)
     \<and> dk_file (ar_disk s) = Some (as_file (target s))
     \<and> recoverable K C (ar_anchor s) (ar_disk s)
     \<and> (if ar_uncertain s
        then \<exists>e. ar_last_commit s = Some (e, target s)
          \<and> (ar_anchor s \<longrightarrow> dk_marker (ar_disk s) \<in> {Some (prepared_marker e (target s)), Some (accepted_marker (target s))})
        else set (dk_durable (ar_disk s)) = {Some (as_file (target s))}
          \<and> (\<forall>e t. ar_last_commit s = Some (e, t) \<longrightarrow> t = target s))"

lemma opens_facts:
  assumes "opens K C content t"
  shows "as_file t = content" and "as_fingerprint t = sha256 K content" and "length content \<le> MAX_ENCODED_SIZE"
proof -
  obtain bytes m ch where "length content \<le> MAX_ARCHIVE" "t = archive_snapshot_of K content bytes m ch"
    using assms opens_sound unfolding opens_def by blast
  then show "as_file t = content" and "as_fingerprint t = sha256 K content" and "length content \<le> MAX_ENCODED_SIZE"
    using archive_sizes(1) by (simp_all add: archive_snapshot_of_def)
qed

lemma target_disk [simp]: "target (s\<lparr>ar_disk := d\<rparr>) = target s"
  by (simp add: target_def)

lemma writer_kept:
  assumes ok: "writer_ok K C s" and d: "disk_is (Some (as_file (target s))) du m d"
    and "du = dk_durable (ar_disk s) \<and> m = dk_marker (ar_disk s)
       \<or> du = [Some (as_file (target s))] \<and> (m = dk_marker (ar_disk s) \<or> m = Some (accepted_marker (target s)))"
  shows "writer_ok K C (s\<lparr>ar_disk := d\<rparr>)"
proof -
  let ?c = "Some (as_file (target s))"
  have t: "opens K C (as_file (target s)) (target s)" and f: "dk_file (ar_disk s) = ?c"
    and r: "recoverable K C (ar_anchor s) (ar_disk s)"
    using ok by (auto simp: writer_ok_def)
  have own: "ar_anchor s \<longrightarrow> (\<exists>a. dk_marker (ar_disk s) = Some a \<and> admits a (as_fingerprint (target s)))"
    using r f opens_facts(2) [OF t] unfolding recoverable_def
    by (metis opens_facts(2) option.inject)
  have "recoverable K C (ar_anchor s) d"
  proof (cases "du = dk_durable (ar_disk s) \<and> m = dk_marker (ar_disk s)")
    case True
    then show ?thesis using r d f by (simp add: recoverable_def disk_is_def)
  next
    case False
    then have "du = [?c]" "m = dk_marker (ar_disk s) \<or> m = Some (accepted_marker (target s))"
      using assms(3) by auto
    then show ?thesis
      using d t own by (auto simp: recoverable_def disk_is_def admits_def accepted_marker_def)
  qed
  then show ?thesis
    using ok d assms(3) by (auto simp: writer_ok_def disk_is_def split: if_splits)
qed

lemma writer_disk: "writer_ok K C s \<Longrightarrow>
    disk_is (Some (as_file (target s))) (dk_durable (ar_disk s)) (dk_marker (ar_disk s)) (ar_disk s)"
  by (simp add: writer_ok_def disk_is_def)

subsection \<open>Confirming\<close>

text \<open>What holds in between: nothing but the durability and the marker of the target changes.\<close>

definition confirming :: "crypto \<Rightarrow> archive_codec \<Rightarrow> archive_store \<Rightarrow> archive_store \<Rightarrow> bool" where
  "confirming K C s s' \<longleftrightarrow> (\<exists>d. s' = s\<lparr>ar_disk := d\<rparr> \<and> writer_ok K C s' \<and> dk_file d = dk_file (ar_disk s)
     \<and> (dk_durable d = dk_durable (ar_disk s) \<or> dk_durable d = [dk_file (ar_disk s)])
     \<and> (dk_marker d = dk_marker (ar_disk s) \<or> dk_marker d = Some (accepted_marker (target s))))"

lemma confirmingI:
  assumes ok: "writer_ok K C s" and d: "disk_is (Some (as_file (target s))) du m d"
    and "du = dk_durable (ar_disk s) \<and> m = dk_marker (ar_disk s)
       \<or> du = [Some (as_file (target s))] \<and> (m = dk_marker (ar_disk s) \<or> m = Some (accepted_marker (target s)))"
  shows "confirming K C s (s\<lparr>ar_disk := d\<rparr>)"
  unfolding confirming_def
  using writer_kept [OF ok d assms(3)] d assms(3) writer_disk [OF ok] by (auto simp: disk_is_def)

definition confirmed :: "crypto \<Rightarrow> archive_codec \<Rightarrow> archive_store \<Rightarrow> archive_store \<Rightarrow> bool" where
  "confirmed K C s s' \<longleftrightarrow> writer_ok K C s' \<and> \<not> ar_uncertain s' \<and> ar_snapshot s' = target s
     \<and> ar_last_commit s' = ar_last_commit s \<and> ar_anchor s' = ar_anchor s
     \<and> dk_file (ar_disk s') = dk_file (ar_disk s) \<and> dk_durable (ar_disk s') = [dk_file (ar_disk s)]
     \<and> (ar_anchor s \<longrightarrow> dk_marker (ar_disk s') = Some (accepted_marker (target s)))"

lemma confirmedI:
  assumes ok: "writer_ok K C s" and l: "ar_last_commit s = Some (e, target s)"
    and d: "disk_is (Some (as_file (target s))) [Some (as_file (target s))] m d"
    and m: "ar_anchor s \<longrightarrow> m = Some (accepted_marker (target s))"
  shows "confirmed K C s (s\<lparr>ar_disk := d, ar_snapshot := target s, ar_uncertain := False\<rparr>)"
proof -
  let ?s = "s\<lparr>ar_disk := d, ar_snapshot := target s, ar_uncertain := False\<rparr>"
  have t: "opens K C (as_file (target s)) (target s)" using ok by (simp add: writer_ok_def)
  have [simp]: "target ?s = target s" by (simp add: target_def)
  have "recoverable K C (ar_anchor s) d"
    using d m t by (auto simp: recoverable_def disk_is_def admits_def accepted_marker_def)
  then have "writer_ok K C ?s"
    using t d l by (simp add: writer_ok_def disk_is_def)
  then show ?thesis
    using d m writer_disk [OF ok] by (simp add: confirmed_def disk_is_def)
qed

lemma last_target:
  "writer_ok K C s \<Longrightarrow> ar_last_commit s = Some (e, t) \<Longrightarrow> t = target s"
  by (auto simp: writer_ok_def target_def split: if_splits)

lemma wp_confirm_candidate:
  assumes ok: "writer_ok K C s" and l: "ar_last_commit s = Some (expected, target s)"
  shows "wpS (confirm_candidate K expected (target s)) (\<lambda>b s'. b \<and> confirmed K C s s') (\<lambda>e. confirming K C s) s"
proof -
  let ?t = "target s" and ?f = "Some (as_file (target s))"
  let ?du = "dk_durable (ar_disk s)" and ?m = "dk_marker (ar_disk s)"
  have o: "opens K C (as_file ?t) ?t" using ok by (simp add: writer_ok_def)
  note small = opens_facts(3) [OF o]
  note keep = confirmingI [OF ok]
  have acc: "accepted_marker ?t = \<lparr>an_accepted = Some (as_fingerprint ?t), an_prepared = None\<rparr>"
    by (simp add: accepted_marker_def)
  have final: "wpS (expect_fingerprint K (as_fingerprint ?t))
      (\<lambda>_ d. b \<longrightarrow> confirmed K C s (s\<lparr>ar_disk := d, ar_snapshot := ?t, ar_uncertain := False\<rparr>))
      (\<lambda>e d. confirming K C s (s\<lparr>ar_disk := d\<rparr>)) d"
    if "disk_is ?f [?f] m d" "m = ?m \<and> \<not> ar_anchor s \<or> m = Some (accepted_marker ?t)" for m d b
    by (rule wp_expect [OF that(1) small]) (use keep confirmedI [OF ok l] that(2) in blast)+
  have saved: "wpS (when_anchored (on_disk (map_errS (\<lambda>_. CommitUncertain)
         (marker_save \<lparr>an_accepted = Some (as_fingerprint ?t), an_prepared = None\<rparr>))))
      (\<lambda>_. wpS (on_disk (expect_fingerprint K (as_fingerprint ?t))) (\<lambda>_ s'. confirmed K C s (s'\<lparr>ar_snapshot := ?t, ar_uncertain := False\<rparr>))
           (\<lambda>e. confirming K C s)) (\<lambda>e. confirming K C s) (s\<lparr>ar_disk := d\<rparr>)"
    if d: "disk_is ?f [?f] ?m d" for d
  proof (cases "ar_anchor s")
    case True
    show ?thesis
      unfolding wp_anchored wp_on_disk wp_map_err acc [symmetric]
      using True
      by (simp, intro wp_save [OF d]) (use final [of _ _ True] keep in \<open>force+\<close>)
  next
    case False
    then show ?thesis using final [OF d, of True] by simp
  qed
  let ?saved = "\<lambda>d. wpS (when_anchored (on_disk (map_errS (\<lambda>_. CommitUncertain)
         (marker_save \<lparr>an_accepted = Some (as_fingerprint ?t), an_prepared = None\<rparr>))))
      (\<lambda>_. wpS (on_disk (expect_fingerprint K (as_fingerprint ?t))) (\<lambda>_ s'. confirmed K C s (s'\<lparr>ar_snapshot := ?t, ar_uncertain := False\<rparr>))
           (\<lambda>e. confirming K C s)) (\<lambda>e. confirming K C s) (s\<lparr>ar_disk := d\<rparr>)"
  let ?E = "\<lambda>e d. confirming K C s (s\<lparr>ar_disk := d\<rparr>)"
  have published: "wpS confirm_published_file (\<lambda>_. wpS (attempt (\<lambda>_. Io)) (\<lambda>_.
      wpS (expect_fingerprint K (as_fingerprint ?t)) (\<lambda>_. ?saved) ?E) ?E) (\<lambda>e. ?E CommitUncertain) d"
    if d: "disk_is ?f ?du ?m d" for d
  proof (rule wp_confirm [OF d])
    fix d1
    assume d1: "disk_is ?f [?f] ?m d1"
    show "wpS (attempt (\<lambda>_. Io)) (\<lambda>_. wpS (expect_fingerprint K (as_fingerprint ?t)) (\<lambda>_. ?saved) ?E) ?E d1"
    proof (rule wp_attempt [OF d1])
      fix d2
      assume d2: "disk_is ?f [?f] ?m d2"
      show "wpS (expect_fingerprint K (as_fingerprint ?t)) (\<lambda>_. ?saved) ?E d2"
        by (rule wp_expect [OF d2 small]) (use saved keep in blast)+
    qed (use keep in blast)
  qed (use keep in blast)
  have marked: "wpS (when_anchored (on_disk (bindS marker_load
      (\<lambda>marker. pureS (check_marker expected (as_fingerprint ?t) marker)))))
      (\<lambda>_ s'. wpS confirm_published_file (\<lambda>_. wpS (attempt (\<lambda>_. Io)) (\<lambda>_.
        wpS (expect_fingerprint K (as_fingerprint ?t)) (\<lambda>_. ?saved) ?E) ?E) (\<lambda>e. ?E CommitUncertain) (ar_disk s'))
      (\<lambda>e. confirming K C s) (s\<lparr>ar_disk := d\<rparr>)"
    if d: "disk_is ?f ?du ?m d" for d
  proof (cases "ar_anchor s")
    case True
    have "wpS (bindS marker_load (\<lambda>marker. pureS (check_marker expected (as_fingerprint ?t) marker)))
        (\<lambda>_. wpS confirm_published_file (\<lambda>_. wpS (attempt (\<lambda>_. Io)) (\<lambda>_.
        wpS (expect_fingerprint K (as_fingerprint ?t)) (\<lambda>_. ?saved) ?E) ?E) (\<lambda>e. ?E CommitUncertain)) ?E d"
      by (rule wp_check_marker [OF d]) (use published keep in blast)+
    then show ?thesis using True by simp
  next
    case False
    then show ?thesis using published [OF d] by simp
  qed
  have "wpS (expect_fingerprint K (as_fingerprint ?t)) (\<lambda>_ d. wpS (when_anchored (on_disk (bindS marker_load
      (\<lambda>marker. pureS (check_marker expected (as_fingerprint ?t) marker)))))
      (\<lambda>_ s'. wpS confirm_published_file (\<lambda>_. wpS (attempt (\<lambda>_. Io)) (\<lambda>_.
        wpS (expect_fingerprint K (as_fingerprint ?t)) (\<lambda>_. ?saved) ?E) ?E) (\<lambda>e. ?E CommitUncertain) (ar_disk s'))
      (\<lambda>e. confirming K C s) (s\<lparr>ar_disk := d\<rparr>)) ?E (ar_disk s)"
    by (rule wp_expect [OF writer_disk [OF ok] small]) (use marked keep in blast)+
  then show ?thesis
    unfolding confirm_candidate_def Let_def by (cases "ar_anchor s") simp_all
qed

lemma wp_confirm_commit:
  assumes ok: "writer_ok K C s"
  shows "wpS (confirm_commit K expected metadata)
    (\<lambda>b s'. if b then confirmed K C s s' \<and> ar_last_commit s = Some (expected, target s)
         \<and> as_metadata (target s) = metadata else s' = s)
    (\<lambda>e. confirming K C s) s"
proof (cases "ar_last_commit s")
  case None
  then show ?thesis by (simp add: wpS_def confirm_commit_def)
next
  case (Some p)
  obtain previous candidate where p: "p = (previous, candidate)" by fastforce
  then have c: "candidate = target s" using last_target [OF ok] Some by simp
  show ?thesis
  proof (cases "previous = expected \<and> as_metadata (target s) = metadata")
    case False
    then show ?thesis by (auto simp: wpS_def confirm_commit_def Some p c)
  next
    case True
    then have l: "ar_last_commit s = Some (expected, target s)" using Some p c by simp
    have "confirm_commit K expected metadata s = confirm_candidate K expected (target s) s"
      using True by (simp add: confirm_commit_def Some p c)
    then show ?thesis
      using wp_confirm_candidate [OF ok l] True l unfolding wpS_def by (auto split: sum.splits prod.splits)
  qed
qed

subsection \<open>Committing\<close>

lemma prepare_opens: "prepare K C c m = Ok (content, t) \<Longrightarrow> opens K C content t"
  by (auto simp: prepare_def Let_def opens_def)

lemma commit_checks_fresh:
  "commit_checks K C expected c m s = Ok () \<Longrightarrow>
     \<not> ar_uncertain s \<and> expected = as_fingerprint (ar_snapshot s)"
  by (auto simp: commit_checks_def Let_def split: if_splits)

text \<open>A writer with nothing in doubt that may have announced its next generation.\<close>

definition announcing :: "crypto \<Rightarrow> archive_codec \<Rightarrow> archive_store \<Rightarrow> archive_store \<Rightarrow> bool" where
  "announcing K C s s' \<longleftrightarrow> writer_ok K C s' \<and> (\<exists>d. s' = s\<lparr>ar_disk := d\<rparr> \<and> dk_file d = dk_file (ar_disk s)
     \<and> dk_durable d = dk_durable (ar_disk s))"

lemma announcingI:
  assumes ok: "writer_ok K C s" and u: "\<not> ar_uncertain s"
    and d: "disk_is (Some (as_file (target s))) (dk_durable (ar_disk s)) m d"
    and m: "m = dk_marker (ar_disk s) \<or> m = Some (prepared_marker (as_fingerprint (target s)) t)"
  shows "announcing K C s (s\<lparr>ar_disk := d\<rparr>)"
proof -
  have o: "opens K C (as_file (target s)) (target s)" using ok by (simp add: writer_ok_def)
  have one: "set (dk_durable (ar_disk s)) = {Some (as_file (target s))}" using ok u by (auto simp: writer_ok_def)
  have r: "recoverable K C (ar_anchor s) (ar_disk s)" using ok by (simp add: writer_ok_def)
  have "recoverable K C (ar_anchor s) d"
  proof (cases "m = dk_marker (ar_disk s)")
    case True
    then show ?thesis using r d writer_disk [OF ok] by (simp add: recoverable_def disk_is_def)
  next
    case False
    then show ?thesis
      using m d one o by (auto simp: recoverable_def disk_is_def admits_def prepared_marker_def)
  qed
  then have "writer_ok K C (s\<lparr>ar_disk := d\<rparr>)"
    using ok u d one by (auto simp: writer_ok_def disk_is_def)
  then show ?thesis using d writer_disk [OF ok] by (auto simp: announcing_def disk_is_def)
qed

text \<open>The new generation is in place and acknowledged.\<close>

definition committed ::
  "crypto \<Rightarrow> archive_codec \<Rightarrow> digest \<Rightarrow> bytes \<Rightarrow> archive_snapshot \<Rightarrow> archive_store \<Rightarrow> archive_store \<Rightarrow> bool" where
  "committed K C expected content t s s' \<longleftrightarrow> writer_ok K C s' \<and> \<not> ar_uncertain s' \<and> ar_snapshot s' = t
     \<and> ar_last_commit s' = Some (expected, t) \<and> ar_anchor s' = ar_anchor s
     \<and> dk_file (ar_disk s') = Some content \<and> dk_durable (ar_disk s') = [Some content]
     \<and> (ar_anchor s \<longrightarrow> dk_marker (ar_disk s') = Some (accepted_marker t))"

text \<open>The new generation is visible, but its durability or its acknowledgement is in doubt.\<close>

definition in_doubt ::
  "crypto \<Rightarrow> archive_codec \<Rightarrow> digest \<Rightarrow> bytes \<Rightarrow> archive_snapshot \<Rightarrow> archive_store \<Rightarrow> archive_store \<Rightarrow> bool" where
  "in_doubt K C expected content t s s' \<longleftrightarrow> writer_ok K C s' \<and> ar_uncertain s' \<and> target s' = t
     \<and> ar_last_commit s' = Some (expected, t) \<and> ar_anchor s' = ar_anchor s \<and> dk_file (ar_disk s') = Some content
     \<and> set (dk_durable (ar_disk s')) \<subseteq> insert (Some content) (set (dk_durable (ar_disk s)))
     \<and> (ar_snapshot s' = ar_snapshot s \<or> ar_snapshot s' = t)"

lemma doubtI:
  assumes o: "opens K C content t" and l: "ar_last_commit s' = Some (expected, t)" and u: "ar_uncertain s'"
    and a: "ar_anchor s' = ar_anchor s" and f: "dk_file (ar_disk s') = Some content"
    and du: "Some content \<in> set (dk_durable (ar_disk s'))"
    and sn: "ar_snapshot s' = ar_snapshot s \<or> ar_snapshot s' = t"
    and sub: "set (dk_durable (ar_disk s')) \<subseteq> insert (Some content) (set (dk_durable (ar_disk s)))"
    and old: "\<And>c. c \<in> set (dk_durable (ar_disk s')) \<Longrightarrow> c = Some content \<or>
       (\<exists>t0 c0. c = Some c0 \<and> opens K C c0 t0 \<and> as_fingerprint t0 = expected
          \<and> (ar_anchor s \<longrightarrow> dk_marker (ar_disk s') = Some (prepared_marker expected t)))"
    and m: "ar_anchor s \<longrightarrow> dk_marker (ar_disk s') \<in> {Some (prepared_marker expected t), Some (accepted_marker t)}"
  shows "in_doubt K C expected content t s s'"
proof -
  have t: "target s' = t" using l u by (simp add: target_def)
  have "\<exists>c0 t0. c = Some c0 \<and> opens K C c0 t0 \<and>
      (ar_anchor s \<longrightarrow> (\<exists>a. dk_marker (ar_disk s') = Some a \<and> admits a (as_fingerprint t0)))"
    if c: "c \<in> set (dk_durable (ar_disk s'))" for c
    using old [OF c]
  proof
    assume "c = Some content"
    then show ?thesis using o m by (auto simp: admits_def prepared_marker_def accepted_marker_def)
  next
    assume "\<exists>t0 c0. c = Some c0 \<and> opens K C c0 t0 \<and> as_fingerprint t0 = expected
          \<and> (ar_anchor s \<longrightarrow> dk_marker (ar_disk s') = Some (prepared_marker expected t))"
    then show ?thesis by (auto simp: admits_def prepared_marker_def)
  qed
  then have "recoverable K C (ar_anchor s') (ar_disk s')"
    using du f a by (simp add: recoverable_def)
  then show ?thesis
    using o t l u a f m sub sn opens_facts(1) [OF o] by (auto simp: in_doubt_def writer_ok_def)
qed

lemma wp_publish_commit:
  assumes ok: "writer_ok K C s" and u: "\<not> ar_uncertain s" and e: "expected = as_fingerprint (target s)"
    and o: "opens K C content t"
    and d: "disk_is (Some (as_file (target s))) (dk_durable (ar_disk s)) m d"
    and m: "if ar_anchor s then m = Some (prepared_marker expected t) else m = dk_marker (ar_disk s)"
  shows "wpS (publish_commit expected content t) (\<lambda>_. committed K C expected content t s)
    (\<lambda>e s'. e \<noteq> CommitUncertain \<and> announcing K C s s'
       \<or> e = CommitUncertain \<and> in_doubt K C expected content t s s') (s\<lparr>ar_disk := d\<rparr>)"
proof -
  let ?E = "\<lambda>e s'. e \<noteq> CommitUncertain \<and> announcing K C s s'
       \<or> e = CommitUncertain \<and> in_doubt K C expected content t s s'"
  have own: "opens K C (as_file (target s)) (target s)" using ok by (simp add: writer_ok_def)
  have one: "set (dk_durable (ar_disk s)) = {Some (as_file (target s))}" using ok u by (auto simp: writer_ok_def)
  have doubt: "in_doubt K C expected content t s s'"
    if "disk_is (Some content) du' m' (ar_disk s')" "du' = Some content # dk_durable (ar_disk s) \<and> m' = m \<or> du' = [Some content]"
      "ar_last_commit s' = Some (expected, t)" "ar_uncertain s'" "ar_anchor s' = ar_anchor s"
      "m' = m \<or> m' = Some (accepted_marker t)" "ar_snapshot s' = ar_snapshot s \<or> ar_snapshot s' = t" for s' du' m'
  proof (rule doubtI [OF o that(3,4,5)])
    show "ar_snapshot s' = ar_snapshot s \<or> ar_snapshot s' = t" by (rule that(7))
    show "dk_file (ar_disk s') = Some content" "Some content \<in> set (dk_durable (ar_disk s'))"
      "set (dk_durable (ar_disk s')) \<subseteq> insert (Some content) (set (dk_durable (ar_disk s)))"
      using that(1,2) by (auto simp: disk_is_def)
    show "ar_anchor s \<longrightarrow> dk_marker (ar_disk s') \<in> {Some (prepared_marker expected t), Some (accepted_marker t)}"
      using that(1,6) m by (auto simp: disk_is_def)
  next
    fix c
    assume "c \<in> set (dk_durable (ar_disk s'))"
    then have c: "c \<in> set du'" using that(1) by (simp add: disk_is_def)
    have "c = Some content \<or> m' = m \<and> c = Some (as_file (target s))"
      using that(2)
    proof
      assume "du' = Some content # dk_durable (ar_disk s) \<and> m' = m"
      then show ?thesis using c one by simp
    next
      assume "du' = [Some content]"
      then show ?thesis using c by simp
    qed
    moreover have "ar_anchor s \<longrightarrow> dk_marker (ar_disk s') = Some (prepared_marker expected t)" if "m' = m"
      using that(1) m \<open>disk_is (Some content) du' m' (ar_disk s')\<close> by (simp add: disk_is_def)
    ultimately show "c = Some content \<or> (\<exists>t0 c0. c = Some c0 \<and> opens K C c0 t0 \<and> as_fingerprint t0 = expected
        \<and> (ar_anchor s \<longrightarrow> dk_marker (ar_disk s') = Some (prepared_marker expected t)))"
      using own e by blast
  qed
  let ?s1 = "\<lambda>d'. s\<lparr>ar_disk := d', ar_snapshot := t, ar_last_commit := Some (expected, t)\<rparr>"
  have ord: "s\<lparr>ar_snapshot := t, ar_last_commit := l, ar_disk := x\<rparr>
      = s\<lparr>ar_disk := x, ar_snapshot := t, ar_last_commit := l\<rparr>" for x l
    by simp
  have done1: "committed K C expected content t s (?s1 d')"
    if "disk_is (Some content) [Some content] m' d'" "ar_anchor s \<longrightarrow> m' = Some (accepted_marker t)" for d' m'
    using that o u opens_facts(1) [OF o]
    by (auto simp: committed_def writer_ok_def target_def recoverable_def disk_is_def admits_def accepted_marker_def)
  have finish: "wpS finish_commit (\<lambda>_. committed K C expected content t s) ?E (?s1 d')"
    if d': "disk_is (Some content) [Some content] m d'" for d'
  proof (cases "ar_anchor s")
    case True
    have "wpS (marker_save (accepted_marker t)) (\<lambda>_ d. committed K C expected content t s (?s1 d))
        (\<lambda>_ d. in_doubt K C expected content t s ((?s1 d)\<lparr>ar_uncertain := True\<rparr>)) d'"
      by (rule wp_save [OF d']) (use done1 in blast, rule doubt, auto)
    then show ?thesis
      using True
      by (auto simp: wpS_def finish_commit_def when_anchored_def on_disk_def accepted_marker_def ord
          split: sum.splits prod.splits)
  next
    case False
    then show ?thesis
      using done1 [OF d'] by (simp add: wpS_def finish_commit_def when_anchored_def)
  qed
  have "wpS (publish_file content Replace) (\<lambda>_ d. wpS finish_commit (\<lambda>_. committed K C expected content t s) ?E (?s1 d))
     (\<lambda>e d. ?E e (if e = CommitUncertain then s\<lparr>ar_disk := d, ar_uncertain := True, ar_last_commit := Some (expected, t)\<rparr>
                 else s\<lparr>ar_disk := d\<rparr>)) d"
  proof (rule wp_publish [OF d])
    fix err d'
    assume "err \<noteq> CommitUncertain" and "disk_is (Some (as_file (target s))) (dk_durable (ar_disk s)) m d'"
    then show "?E err (if err = CommitUncertain then s\<lparr>ar_disk := d', ar_uncertain := True, ar_last_commit := Some (expected, t)\<rparr>
                 else s\<lparr>ar_disk := d'\<rparr>)"
      using announcingI [OF ok u, of m d' t] m e by (auto split: if_splits)
  next
    fix d' du'
    assume "du' = Some content # dk_durable (ar_disk s) \<or> du' = [Some content]"
      and "disk_is (Some content) du' m d'"
    then have "in_doubt K C expected content t s
        (s\<lparr>ar_disk := d', ar_uncertain := True, ar_last_commit := Some (expected, t)\<rparr>)"
      by (intro doubt [where du' = du' and m' = m]) auto
    then show "?E CommitUncertain (if CommitUncertain = CommitUncertain
        then s\<lparr>ar_disk := d', ar_uncertain := True, ar_last_commit := Some (expected, t)\<rparr> else s\<lparr>ar_disk := d'\<rparr>)"
      by simp
  qed (use finish in simp)
  then show ?thesis
    by (auto simp: wpS_def publish_commit_def on_disk_def split: sum.splits prod.splits if_splits)
qed

text \<open>All of \<open>store_commit\<close>.\<close>

definition commit_failed ::
  "crypto \<Rightarrow> archive_codec \<Rightarrow> digest \<Rightarrow> archive_candidate \<Rightarrow> archive_metadata \<Rightarrow> store_error
     \<Rightarrow> archive_store \<Rightarrow> archive_store \<Rightarrow> bool" where
  "commit_failed K C expected c m e s s' \<longleftrightarrow> confirming K C s s' \<or> announcing K C s s'
     \<or> e = CommitUncertain \<and> (\<exists>content t. prepare K C c m = Ok (content, t)
          \<and> commit_checks K C expected c m s = Ok () \<and> in_doubt K C expected content t s s')"

lemma wp_store_commit:
  assumes ok: "writer_ok K C s"
  shows "wpS (store_commit K C expected c m)
    (\<lambda>_ s'. confirmed K C s s' \<and> ar_last_commit s = Some (expected, target s) \<and> as_metadata (target s) = m
       \<or> (\<exists>content t. prepare K C c m = Ok (content, t) \<and> commit_checks K C expected c m s = Ok ()
            \<and> committed K C expected content t s s'))
    (\<lambda>e s'. commit_failed K C expected c m e s s') s"
    (is "wpS _ ?Q ?E s")
  unfolding store_commit_def wp_bind
proof (rule wp_mono [OF wp_confirm_commit [OF ok, of expected m]])
  fix e s'
  show "confirming K C s s' \<Longrightarrow> ?E e s'" by (simp add: commit_failed_def)
next
  fix b s'
  assume confirm: "if b then confirmed K C s s' \<and> ar_last_commit s = Some (expected, target s)
     \<and> as_metadata (target s) = m else s' = s"
  let ?rest = "bindS (\<lambda>s. (commit_checks K C expected c m s, s)) (\<lambda>_.
     bindS (check_unchanged K) (\<lambda>_.
     bindS (pureS (prepare K C c m)) (\<lambda>(content, snapshot).
     bindS (on_disk (attempt (\<lambda>_. Io))) (\<lambda>_.
     bindS (when_anchored (on_disk (marker_save
       \<lparr>an_accepted = Some expected, an_prepared = Some (as_fingerprint snapshot)\<rparr>))) (\<lambda>_.
     bindS (check_unchanged K) (\<lambda>_.
     publish_commit expected content snapshot))))))"
  show "wpS (if b then pureS (Ok ()) else ?rest) ?Q ?E s'"
  proof (cases b)
    case True
    then show ?thesis using confirm by simp
  next
    case False
    then have s': "s' = s" using confirm by simp
    have "wpS ?rest ?Q ?E s"
    proof (cases "commit_checks K C expected c m s")
      case (Inl e)
      have "announcing K C s s" using ok by (auto simp: announcing_def intro: exI [of _ "ar_disk s"])
      then show ?thesis using Inl by (simp add: commit_failed_def)
    next
      case (Inr x)
      then have u: "\<not> ar_uncertain s" and e: "expected = as_fingerprint (target s)"
        using commit_checks_fresh [of K C expected c m s] by (auto simp: target_def)
      have cur: "ar_snapshot s = target s" using u by (simp add: target_def)
      have "opens K C (as_file (target s)) (target s)" using ok by (simp add: writer_ok_def)
      note small = opens_facts(3) [OF this]
      let ?f = "Some (as_file (target s))" and ?du = "dk_durable (ar_disk s)" and ?m = "dk_marker (ar_disk s)"
      have quiet: "?E e' (s\<lparr>ar_disk := d\<rparr>)" if "disk_is ?f ?du m' d" "m' = ?m \<or> m' = Some (prepared_marker expected t)" for e' d m' t
        using announcingI [OF ok u that(1)] that(2) e by (auto simp: commit_failed_def)
      have unchanged: "wpS (check_unchanged K) Q ?E (s\<lparr>ar_disk := d\<rparr>)"
        if d: "disk_is ?f ?du m' d" "m' = ?m \<or> m' = Some (prepared_marker expected t)"
          and Q: "\<And>d'. disk_is ?f ?du m' d' \<Longrightarrow> Q () (s\<lparr>ar_disk := d'\<rparr>)" for Q d m' t
      proof -
        have "wpS (expect_fingerprint K (as_fingerprint (target s))) (\<lambda>_ d. Q () (s\<lparr>ar_disk := d\<rparr>)) (\<lambda>e d. ?E e (s\<lparr>ar_disk := d\<rparr>)) d"
          by (rule wp_expect [OF d(1) small]) (use Q quiet d(2) in blast)+
        then show ?thesis
          by (simp add: check_unchanged_def [abs_def] wpS_def on_disk_def cur split: sum.splits prod.splits)
      qed
      have publish: "wpS (publish_commit expected content t) ?Q ?E (s\<lparr>ar_disk := d\<rparr>)"
        if "prepare K C c m = Ok (content, t)" "disk_is ?f ?du m' d"
          "if ar_anchor s then m' = Some (prepared_marker expected t) else m' = ?m" for content t d m'
      proof (rule wp_mono [OF wp_publish_commit [OF ok u e prepare_opens [OF that(1)] that(2,3)]])
        show "committed K C expected content t s s' \<Longrightarrow> ?Q y s'" for y s' using that(1) Inr by auto
        show "e \<noteq> CommitUncertain \<and> announcing K C s s' \<or> e = CommitUncertain \<and> in_doubt K C expected content t s s'
           \<Longrightarrow> ?E e s'" for e s' using that(1) Inr by (auto simp: commit_failed_def)
      qed
      have marked: "wpS (bindS (when_anchored (on_disk (marker_save (prepared_marker expected t)))) (\<lambda>_.
          bindS (check_unchanged K) (\<lambda>_. publish_commit expected content t))) ?Q ?E (s\<lparr>ar_disk := d\<rparr>)"
        if p: "prepare K C c m = Ok (content, t)" and d: "disk_is ?f ?du ?m d" for content t d
      proof (cases "ar_anchor s")
        case True
        have "wpS (marker_save (prepared_marker expected t))
            (\<lambda>_ d. wpS (check_unchanged K) (\<lambda>_. wpS (publish_commit expected content t) ?Q ?E) ?E (s\<lparr>ar_disk := d\<rparr>))
            (\<lambda>e d. ?E e (s\<lparr>ar_disk := d\<rparr>)) d"
          by (rule wp_save [OF d], rule unchanged [where t = t], assumption, simp, rule publish [OF p])
            (use quiet True in auto)
        then show ?thesis using True by simp
      next
        case False
        have "wpS (check_unchanged K) (\<lambda>_. wpS (publish_commit expected content t) ?Q ?E) ?E (s\<lparr>ar_disk := d\<rparr>)"
          by (rule unchanged [OF d, where t = t], simp, rule publish [OF p]) (use False in auto)
        then show ?thesis using False by simp
      qed
      have staged: "wpS (pureS (prepare K C c m)) (\<lambda>p. wpS (case p of (content, t) \<Rightarrow>
          bindS (on_disk (attempt (\<lambda>_. Io))) (\<lambda>_. bindS (when_anchored (on_disk (marker_save
            \<lparr>an_accepted = Some expected, an_prepared = Some (as_fingerprint t)\<rparr>))) (\<lambda>_.
          bindS (check_unchanged K) (\<lambda>_. publish_commit expected content t)))) ?Q ?E) ?E (s\<lparr>ar_disk := d\<rparr>)"
        if d: "disk_is ?f ?du ?m d" for d
      proof (cases "prepare K C c m")
        case Inl
        then show ?thesis using quiet [OF d, of undefined] by simp
      next
        case (Inr q)
        obtain content t where q: "q = (content, t)" by fastforce
        have "wpS (attempt (\<lambda>_. Io)) (\<lambda>_ d. wpS (bindS (when_anchored (on_disk (marker_save (prepared_marker expected t)))) (\<lambda>_.
          bindS (check_unchanged K) (\<lambda>_. publish_commit expected content t))) ?Q ?E (s\<lparr>ar_disk := d\<rparr>))
            (\<lambda>e d. ?E e (s\<lparr>ar_disk := d\<rparr>)) d"
          by (rule wp_attempt [OF d], rule marked [OF Inr [unfolded q]], assumption) (use quiet in auto)
        then show ?thesis using Inr q by (simp add: prepared_marker_def)
      qed
      have "wpS (check_unchanged K) (\<lambda>_. wpS (bindS (pureS (prepare K C c m)) (\<lambda>(content, t).
          bindS (on_disk (attempt (\<lambda>_. Io))) (\<lambda>_. bindS (when_anchored (on_disk (marker_save
            \<lparr>an_accepted = Some expected, an_prepared = Some (as_fingerprint t)\<rparr>))) (\<lambda>_.
          bindS (check_unchanged K) (\<lambda>_. publish_commit expected content t))))) ?Q ?E) ?E (s\<lparr>ar_disk := ar_disk s\<rparr>)"
        by (rule unchanged [OF writer_disk [OF ok], where t = undefined], simp, unfold wp_bind, rule staged)
      then show ?thesis using Inr by simp
    qed
    then show ?thesis using False s' by simp
  qed
qed

text \<open>How a writer's generation changes, whatever happens on the disk.\<close>

definition succeeds ::
  "crypto \<Rightarrow> archive_codec \<Rightarrow> digest \<Rightarrow> archive_candidate \<Rightarrow> archive_metadata \<Rightarrow> archive_store \<Rightarrow> archive_snapshot \<Rightarrow> bool" where
  "succeeds K C expected c m s t \<longleftrightarrow> (\<exists>content. prepare K C c m = Ok (content, t)) \<and> commit_checks K C expected c m s = Ok ()"

lemma store_commit_step:
  assumes ok: "writer_ok K C s" and c: "store_commit K C expected c m s = (r, s')"
  shows "writer_ok K C s' \<and> ar_anchor s' = ar_anchor s
    \<and> (target s' = target s \<or> succeeds K C expected c m s (target s'))
    \<and> (ar_snapshot s' = ar_snapshot s \<or> ar_snapshot s' = target s')
    \<and> (r = Ok () \<longrightarrow> \<not> ar_uncertain s'
         \<and> (as_metadata (target s) = m \<and> target s' = target s \<or> succeeds K C expected c m s (target s')))"
proof (cases r)
  case (Inl e)
  then consider "confirming K C s s'" | "announcing K C s s'"
    | content t where "prepare K C c m = Ok (content, t)" "commit_checks K C expected c m s = Ok ()"
        "in_doubt K C expected content t s s'"
    using wp_run [OF wp_store_commit [OF ok, of expected c m] c] by (auto simp: commit_failed_def)
  then show ?thesis
  proof cases
    case 3
    then show ?thesis using Inl by (auto simp: in_doubt_def succeeds_def)
  qed (use Inl in \<open>auto simp: confirming_def announcing_def target_def\<close>)
next
  case (Inr x)
  from Inr consider "confirmed K C s s'" "as_metadata (target s) = m"
    | content t where "prepare K C c m = Ok (content, t)" "commit_checks K C expected c m s = Ok ()"
        "committed K C expected content t s s'"
    using wp_run [OF wp_store_commit [OF ok, of expected c m] c] by auto
  then show ?thesis
    by cases (auto simp: confirmed_def committed_def target_def succeeds_def)
qed

subsection \<open>When every step works\<close>

lemma working [simp]:
  assumes "dk_outcomes d = []"
  shows "next_outcome d = (Works, d)" and "attempt conv d = (Ok (), d)"
    and "read_path d = (ok_or (dk_file d) Io, d)" and "path_exists d = (Ok (dk_file d \<noteq> None), d)"
    and "marker_load d = (Ok (dk_marker d), d)" and "marker_save a d = (Ok (), d\<lparr>dk_marker := Some a\<rparr>)"
    and "dk_file d \<noteq> None \<Longrightarrow> confirm_published_file d = (Ok (), d\<lparr>dk_durable := [dk_file d]\<rparr>)"
  using assms
  by (simp_all add: next_outcome_def attempt_def read_path_def path_exists_def marker_load_def marker_save_def
      confirm_published_file_def bindS_def)

lemma bindS_working [simp]: "m s = (Inr x, s') \<Longrightarrow> bindS m f s = f x s'"
  by (simp add: bindS_def)

lemma expect_working [simp]:
  assumes "dk_outcomes d = []" and "dk_file d = Some content" and "length content \<le> MAX_ENCODED_SIZE"
  shows "expect_fingerprint K (sha256 K content) d = (Ok (), d)"
  using assms by (simp add: expect_fingerprint_def current_fingerprint_def bindS_def fingerprint_file pureS_def)

lemma opens_unpinned: "opens K C content t \<Longrightarrow> from_source K C content None = Ok t"
  unfolding opens_def archive_layout by blast

text \<open>A restart after a power cut that left \<open>c\<close> on the disk.\<close>

definition power_cut :: "bytes option \<Rightarrow> disk \<Rightarrow> disk" where
  "power_cut c d = d\<lparr>dk_file := c, dk_durable := [c], dk_outcomes := []\<rparr>"

lemma reopens:
  assumes r: "recoverable K C anchored d" and c: "c \<in> set (dk_durable d)"
  shows "\<exists>content s'. c = Some content \<and> fst (store_open K C None anchored (power_cut c d)) = Ok s'
    \<and> writer_ok K C s' \<and> as_file (ar_snapshot s') = content"
proof -
  obtain content t where t: "c = Some content" "opens K C content t"
    "anchored \<longrightarrow> (\<exists>a. dk_marker d = Some a \<and> admits a (as_fingerprint t))"
    using r c by (auto simp: recoverable_def)
  note o = opens_facts [OF t(2)]
  let ?d = "power_cut c d"
  have d: "dk_outcomes ?d = []" "dk_file ?d = Some content" "dk_marker ?d = dk_marker d" "dk_durable ?d = [Some content]"
    by (simp_all add: power_cut_def t(1))
  let ?mk = "\<lambda>d. \<lparr>ar_disk = d, ar_snapshot = t, ar_anchor = anchored, ar_uncertain = False, ar_last_commit = None\<rparr>"
  have "\<exists>d'. store_open K C None anchored ?d = (Ok (?mk d'), d')
      \<and> dk_file d' = Some content \<and> dk_durable d' = [Some content]
      \<and> (anchored \<longrightarrow> dk_marker d' = Some (accepted_marker t))"
  proof (cases anchored)
    case True
    then obtain a where a: "dk_marker d = Some a" "admits a (as_fingerprint t)" using t(3) by auto
    then have ok: "\<not> (an_accepted a \<noteq> Some (sha256 K content) \<and> an_prepared a \<noteq> Some (sha256 K content))"
      by (auto simp: admits_def o(2))
    show ?thesis
      using d True a(1) ok o
      by (simp add: store_open_def opens_unpinned [OF t(2)] pureS_def map_errS_def accepted_marker_def)
  next
    case False
    then show ?thesis
      using d by (simp add: store_open_def opens_unpinned [OF t(2)] pureS_def)
  qed
  then obtain d' where e: "store_open K C None anchored ?d = (Ok (?mk d'), d')"
    and d': "dk_file d' = Some content" "dk_durable d' = [Some content]"
      "anchored \<longrightarrow> dk_marker d' = Some (accepted_marker t)" by blast
  have "writer_ok K C (?mk d')"
    using t(2) o d' by (auto simp: writer_ok_def target_def recoverable_def admits_def accepted_marker_def)
  then show ?thesis using e t(1) o(1) by auto
qed

text \<open>The next run of the writer on a disk that works again.\<close>

definition calm :: "archive_store \<Rightarrow> archive_store" where
  "calm s = s\<lparr>ar_disk := (ar_disk s)\<lparr>dk_outcomes := []\<rparr>\<rparr>"

lemma calm_simps [simp]:
  "target (calm s) = target s" "ar_last_commit (calm s) = ar_last_commit s" "ar_anchor (calm s) = ar_anchor s"
  "ar_uncertain (calm s) = ar_uncertain s" "ar_snapshot (calm s) = ar_snapshot s"
  "dk_file (ar_disk (calm s)) = dk_file (ar_disk s)" "dk_durable (ar_disk (calm s)) = dk_durable (ar_disk s)"
  "dk_marker (ar_disk (calm s)) = dk_marker (ar_disk s)" "dk_outcomes (ar_disk (calm s)) = []"
  by (simp_all add: calm_def target_def)

lemma calm_ok [simp]: "writer_ok K C (calm s) \<longleftrightarrow> writer_ok K C s"
  by (simp add: writer_ok_def recoverable_def)

lemma confirm_commit_works:
  assumes ok: "writer_ok K C s" and calm: "dk_outcomes (ar_disk s) = []"
    and l: "ar_last_commit s = Some (e, target s)" and m: "as_metadata (target s) = m"
    and mk: "ar_anchor s \<longrightarrow> dk_marker (ar_disk s) \<in> {Some (prepared_marker e (target s)), Some (accepted_marker (target s))}"
  shows "\<exists>s'. confirm_commit K e m s = (Ok True, s') \<and> confirmed K C s s'"
proof -
  let ?t = "target s"
  have o: "opens K C (as_file ?t) ?t" using ok by (simp add: writer_ok_def)
  note f = opens_facts [OF o]
  have d: "dk_file (ar_disk s) = Some (as_file ?t)" using ok by (simp add: writer_ok_def)
  have chk: "ar_anchor s \<longrightarrow> check_marker e (as_fingerprint ?t) (dk_marker (ar_disk s)) = Ok ()"
    using mk by (auto simp: check_marker_def prepared_marker_def accepted_marker_def)
  have "\<exists>s'. confirm_candidate K e ?t s = (Ok True, s')"
  proof (cases "ar_anchor s")
    case True
    then show ?thesis
      using calm d f chk
      by (simp add: confirm_candidate_def bindS_def on_disk_def when_anchored_def map_errS_def pureS_def Let_def)
  next
    case False
    then show ?thesis
      using calm d f
      by (simp add: confirm_candidate_def bindS_def on_disk_def when_anchored_def map_errS_def Let_def)
  qed
  then obtain s' where c: "confirm_commit K e m s = (Ok True, s')"
    using l m by (auto simp: confirm_commit_def)
  have "confirmed K C s s'"
    using wp_run [OF wp_confirm_commit [OF ok, of e m] c] by simp
  then show ?thesis using c by blast
qed

lemma confirm_works:
  assumes ok: "writer_ok K C s" and calm: "dk_outcomes (ar_disk s) = []"
    and l: "ar_last_commit s = Some (e, target s)" and m: "as_metadata (target s) = m"
    and mk: "ar_anchor s \<longrightarrow> dk_marker (ar_disk s) \<in> {Some (prepared_marker e (target s)), Some (accepted_marker (target s))}"
  shows "\<exists>s'. store_commit K C e c m s = (Ok (), s') \<and> confirmed K C s s'"
  using confirm_commit_works [OF assms] by (auto simp: store_commit_def pureS_def)

subsection \<open>Properties\<close>

text \<open>
  C6: the archive survives every failure. Start a writer with nothing corrupt and run a commit
  under any schedule of failing steps; the writer's state stays sound. Cut the power then, or
  at any step (the remaining steps refused): whatever content the disk shows afterwards is one
  it could have shown before or the complete new generation, and opening it again succeeds,
  with its marker, on exactly this content.
\<close>

theorem commit_crash_safe:
  assumes "writer_ok K C s" and "store_commit K C expected c m s = (r, s')"
  shows "writer_ok K C s' \<and> (\<forall>x \<in> set (dk_durable (ar_disk s')).
    (x \<in> set (dk_durable (ar_disk s)) \<or> (\<exists>content t. x = Some content \<and> prepare K C c m = Ok (content, t)))
    \<and> (\<exists>content s''. x = Some content \<and> fst (store_open K C None (ar_anchor s) (power_cut x (ar_disk s'))) = Ok s''
         \<and> writer_ok K C s'' \<and> as_file (ar_snapshot s'') = content))"
proof -
  have own: "dk_file (ar_disk s) \<in> set (dk_durable (ar_disk s))"
    using assms(1) unfolding writer_ok_def recoverable_def by blast
  note wp = wp_run [OF wp_store_commit [OF assms(1), of expected c m] assms(2)]
  have k: "writer_ok K C s' \<and> ar_anchor s' = ar_anchor s \<and> (\<forall>x \<in> set (dk_durable (ar_disk s')).
     x \<in> set (dk_durable (ar_disk s)) \<or> (\<exists>content t. x = Some content \<and> prepare K C c m = Ok (content, t)))"
  proof (cases r)
    case (Inl e)
    then consider "confirming K C s s'" | "announcing K C s s'"
      | content t where "prepare K C c m = Ok (content, t)" "in_doubt K C expected content t s s'"
      using wp by (auto simp: commit_failed_def)
    then show ?thesis
    proof cases
      case 1
      then show ?thesis using own by (auto simp: confirming_def)
    next
      case 2
      then show ?thesis by (auto simp: announcing_def)
    next
      case 3
      then show ?thesis by (auto simp: in_doubt_def)
    qed
  next
    case (Inr x)
    then show ?thesis using wp own by (auto simp: confirmed_def committed_def)
  qed
  then have "recoverable K C (ar_anchor s) (ar_disk s')" by (auto simp: writer_ok_def)
  from reopens [OF this] show ?thesis using k by blast
qed

text \<open>
  C8: what the result of a commit means. A success says that the file now is a durable archive
  with exactly the submitted metadata, acknowledged by the marker. A failure that leaves the
  writer certain has not changed the file; when it leaves the writer in doubt, the error said
  so and the file shows the complete new generation (or the doubt was there before).
\<close>

theorem commit_outcome:
  assumes "archive_codec_laws C" and "writer_ok K C s" and "store_commit K C expected c m s = (r, s')"
  shows "(r = Ok () \<longrightarrow> \<not> ar_uncertain s' \<and> as_metadata (ar_snapshot s') = m
         \<and> dk_file (ar_disk s') = Some (as_file (ar_snapshot s')) \<and> dk_durable (ar_disk s') = [dk_file (ar_disk s')]
         \<and> (ar_anchor s \<longrightarrow> dk_marker (ar_disk s') = Some (accepted_marker (ar_snapshot s'))))
    \<and> (\<forall>e. r = Err e \<and> \<not> ar_uncertain s' \<longrightarrow> \<not> ar_uncertain s \<and> dk_file (ar_disk s') = dk_file (ar_disk s)
         \<and> ar_snapshot s' = ar_snapshot s)
    \<and> (ar_uncertain s' \<and> \<not> ar_uncertain s \<longrightarrow> r = Err CommitUncertain
         \<and> (\<exists>content t. prepare K C c m = Ok (content, t) \<and> dk_file (ar_disk s') = Some content))"
proof (cases r)
  case (Inl e)
  then consider "confirming K C s s'" | "announcing K C s s'"
    | content t where "e = CommitUncertain" "prepare K C c m = Ok (content, t)" "in_doubt K C expected content t s s'"
    using wp_run [OF wp_store_commit [OF assms(2), of expected c m] assms(3)] by (auto simp: commit_failed_def)
  then show ?thesis
    using Inl by cases (auto simp: confirming_def announcing_def in_doubt_def)
next
  case (Inr x)
  have t: "as_metadata t = m" if "prepare K C c m = Ok (content, t)" for content t
    using that unfolding prepare_cases [OF assms(1)] by (auto simp: archive_snapshot_of_def)
  from Inr consider "confirmed K C s s'" "as_metadata (target s) = m"
    | content t where "prepare K C c m = Ok (content, t)" "committed K C expected content t s s'"
    using wp_run [OF wp_store_commit [OF assms(2), of expected c m] assms(3)] by auto
  then show ?thesis
  proof cases
    case 1
    then show ?thesis using Inr assms(2) by (auto simp: confirmed_def writer_ok_def)
  next
    case 2
    then show ?thesis using Inr t prepare_opens [OF 2(1)] opens_facts(1) by (auto simp: committed_def)
  qed
qed

text \<open>
  C7: a commit is never applied twice and a lost answer can be asked for again. When a fresh
  commit succeeded or ended in doubt, submitting the same commit once the disk works again
  succeeds, leaves the file as it is and the writer certain, on the generation that was
  prepared then.
\<close>

theorem commit_retry:
  assumes "writer_ok K C s" and "store_commit K C expected c m s = (r, s')"
    and "r = Ok () \<or> ar_uncertain s'" and "archive_codec_laws C" and "\<not> ar_uncertain s"
    and "ar_last_commit s \<noteq> Some (expected, ar_snapshot s)"
  shows "\<exists>content t s''. prepare K C c m = Ok (content, t) \<and> store_commit K C expected c m (calm s') = (Ok (), s'')
    \<and> \<not> ar_uncertain s'' \<and> ar_snapshot s'' = t \<and> dk_file (ar_disk s'') = dk_file (ar_disk s')
    \<and> dk_file (ar_disk s') = Some content"
proof -
  note wp = wp_run [OF wp_store_commit [OF assms(1), of expected c m] assms(2)]
  have tgt: "target s = ar_snapshot s" using assms(5) by (simp add: target_def)
  obtain content t where p: "prepare K C c m = Ok (content, t)"
    and s': "committed K C expected content t s s' \<or> in_doubt K C expected content t s s'"
    using wp assms(3,5,6) tgt by (cases r) (auto simp: commit_failed_def confirming_def announcing_def)
  have m: "as_metadata t = m"
    using p unfolding prepare_cases [OF assms(4)] by (auto simp: archive_snapshot_of_def)
  have f: "writer_ok K C s' \<and> target s' = t \<and> ar_last_commit s' = Some (expected, t)
      \<and> dk_file (ar_disk s') = Some content \<and> (ar_anchor s' \<longrightarrow>
        dk_marker (ar_disk s') \<in> {Some (prepared_marker expected t), Some (accepted_marker t)})"
    using s'
  proof
    assume "committed K C expected content t s s'"
    then show ?thesis by (simp add: committed_def target_def)
  next
    assume d: "in_doubt K C expected content t s s'"
    then have "\<exists>e. ar_last_commit s' = Some (e, t) \<and> (ar_anchor s' \<longrightarrow>
        dk_marker (ar_disk s') \<in> {Some (prepared_marker e t), Some (accepted_marker t)})"
      unfolding in_doubt_def writer_ok_def by metis
    then show ?thesis using d by (auto simp: in_doubt_def)
  qed
  have "\<exists>s''. store_commit K C expected c m (calm s') = (Ok (), s'') \<and> confirmed K C (calm s') s''"
    by (rule confirm_works) (use f m in auto)
  then show ?thesis using p f by (auto simp: confirmed_def)
qed

subsection \<open>Witnesses\<close>

definition toy_store :: "outcome list \<Rightarrow> archive_store" where
  "toy_store os = \<lparr>ar_disk = \<lparr>dk_file = Some toy_archive, dk_durable = [Some toy_archive],
       dk_marker = Some (accepted_marker toy_snapshot), dk_outcomes = os\<rparr>,
     ar_snapshot = toy_snapshot, ar_anchor = True, ar_uncertain = False, ar_last_commit = None\<rparr>"

lemma toy_snapshot_fields: "as_file toy_snapshot = toy_archive" "as_fingerprint toy_snapshot = toy_archive"
  "as_metadata toy_snapshot = toy_metadata 0 toy_objects" "as_chain toy_snapshot = toy_chain"
  by (simp_all add: toy_snapshot_def archive_snapshot_of_def toy_crypto_def)

lemma toy_store_ok: "writer_ok toy_crypto toy_codec0 (toy_store os)"
  using toy_opens
  by (auto simp: writer_ok_def toy_store_def target_def recoverable_def opens_def admits_def accepted_marker_def
      toy_snapshot_fields)

definition toy_next :: archive_candidate where "toy_next = snapshot_candidate toy_snapshot"

lemma toy_metadata_distinct: "toy_metadata 1 toy_objects \<noteq> toy_metadata 0 toy_objects"
  using toy_metadata_verified(3) [OF toy_objects_valid(1), of 0] toy_metadata_verified(3) [OF toy_objects_valid(1), of 1]
  by (auto simp: toy_manifest_body_def dest!: arg_cong [of _ _ "\<lambda>m. sm_body (am_manifest m)"])

lemma toy_next_prepared: "\<exists>content t. prepare toy_crypto toy_codec0 toy_next (toy_metadata 1 toy_objects) = Ok (content, t)"
proof -
  note m = toy_metadata_verified [OF toy_objects_valid(1), where g = 1]
  have desc: "descriptors toy_next = toy_objects"
    using toy_metadata_verified(2) [OF toy_objects_valid(1), of 0]
    by (intro fmap_ext) (auto simp: toy_next_def snapshot_candidate_def descriptors_def toy_snapshot_fields fmlookup_dom_iff)
  have holds: "list_all2 (candidate_holds toy_next) (bt_iter toy_objects) (map fst (bt_iter toy_objects))"
  proof (rule entries_by_key)
    fix k d
    assume k: "fmlookup toy_objects k = Some d"
    then have "fmlookup (am_objects (as_metadata toy_snapshot)) k = Some d"
      using toy_metadata_verified(2) [OF toy_objects_valid(1), of 0] by (simp add: toy_snapshot_fields)
    from opened_reader [OF toy_opens this] obtain sec r where "snapshot_reader toy_snapshot k = Ok r"
      "object_content r = (sec, None)" "section_ok toy_crypto toy_codec0 (sm_body (am_manifest (as_metadata toy_snapshot)))
        (as_chain toy_snapshot) (k, d) sec"
      by blast
    moreover have "k |\<in>| fmdom toy_objects" using k by (simp add: fmlookup_dom_iff)
    ultimately show "candidate_holds toy_next (k, d) k"
      using toy_metadata_verified(2) [OF toy_objects_valid(1), of 0]
      by (auto simp: candidate_holds_def candidate_reader_def toy_next_def snapshot_candidate_def toy_snapshot_fields
          section_ok_def toy_crypto_def)
  qed
  have enc: "ac_encode toy_codec0 (toy_metadata 1 toy_objects) = Some [1]"
    using toy_metadata_distinct by (simp add: toy_codecs_def)
  have small: "length (archive_bytes [1] (map fst (bt_iter toy_objects))) \<le> MAX_ARCHIVE"
    using toy_archive_small by (simp add: toy_archive_def archive_bytes_length)
  show ?thesis
    unfolding prepare_cases [OF toy_codecs_laws]
    by (rule exI, rule exI, rule exI [of _ "[1]"], rule exI [of _ "map fst (bt_iter toy_objects)"], rule exI [of _ toy_chain],
        rule exI [of _ toy_root], intro conjI)
      (rule enc, simp add: MAX_METADATA_def, rule refl, rule small, rule m(1), simp only: m(2) desc,
        simp only: m(2) holds, unfold m(3) toy_body_objects, rule toy_sections_ok, rule refl)
qed

lemma toy_checks: "commit_checks toy_crypto toy_codec0 toy_archive toy_next (toy_metadata 1 toy_objects) (toy_store os) = Ok ()"
proof -
  note m = toy_metadata_verified [OF toy_objects_valid(1)]
  have "chain_root toy_crypto toy_chain = Ok toy_root" by (simp add: chain_root_def toy_hash)
  moreover have "reconcile toy_crypto toy_chain toy_chain = Ok toy_chain"
    using calculation by (simp add: reconcile_def)
  ultimately show ?thesis
    using m(1) [where g = 1] m(3) [where g = 0] m(3) [where g = 1]
    by (simp add: commit_checks_def toy_store_def toy_snapshot_fields toy_next_def snapshot_candidate_def trustR_def
        toy_manifest_body_def checked_add_def U64_MAX_def)
qed

text \<open>The first seven steps work, then the directory barrier fails.\<close>

lemma toy_doubt:
  "\<exists>s'. store_commit toy_crypto toy_codec0 toy_archive toy_next (toy_metadata 1 toy_objects)
      (toy_store [Works, Works, Works, Works, Works, Works, Works, Refused Io]) = (Err CommitUncertain, s')
    \<and> ar_uncertain s' \<and> dk_durable (ar_disk s') \<noteq> [dk_file (ar_disk s')] \<and> ar_snapshot s' = toy_snapshot"
proof -
  obtain content t where p: "prepare toy_crypto toy_codec0 toy_next (toy_metadata 1 toy_objects) = Ok (content, t)"
    using toy_next_prepared by blast
  have "fingerprint toy_crypto toy_archive = Ok toy_archive"
    using toy_archive_small archive_sizes(1) by (simp add: fingerprint_file toy_crypto_def)
  then show ?thesis
    using toy_checks [of "[Works, Works, Works, Works, Works, Works, Works, Refused Io]"] p
    by (simp add: toy_store_def store_commit_def confirm_commit_def bindS_def pureS_def check_unchanged_def
        on_disk_def expect_fingerprint_def current_fingerprint_def read_path_def attempt_def next_outcome_def
        toy_snapshot_fields when_anchored_def marker_save_def publish_commit_def publish_file_def rename_def
        map_errS_def confirm_published_file_def)
qed

theorem commit_crash_safe_witness:
  "\<exists>s' x content s''. store_commit toy_crypto toy_codec0 toy_archive toy_next (toy_metadata 1 toy_objects)
      (toy_store [Works, Works, Works, Works, Works, Works, Works, Refused Io]) = (Err CommitUncertain, s')
    \<and> x \<in> set (dk_durable (ar_disk s')) \<and> x = Some content
    \<and> fst (store_open toy_crypto toy_codec0 None True (power_cut x (ar_disk s'))) = Ok s''"
proof -
  let ?s = "toy_store [Works, Works, Works, Works, Works, Works, Works, Refused Io]"
  obtain s' where s': "store_commit toy_crypto toy_codec0 toy_archive toy_next (toy_metadata 1 toy_objects) ?s
      = (Err CommitUncertain, s')"
    using toy_doubt by blast
  note safe = commit_crash_safe [OF toy_store_ok s']
  have a: "ar_anchor ?s = True" by (simp add: toy_store_def)
  obtain x where x: "x \<in> set (dk_durable (ar_disk s'))"
    using safe unfolding writer_ok_def recoverable_def by blast
  have "\<exists>content s''. x = Some content
      \<and> fst (store_open toy_crypto toy_codec0 None (ar_anchor ?s) (power_cut x (ar_disk s'))) = Ok s''"
    using safe x by blast
  then show ?thesis using s' x unfolding a by blast
qed

theorem commit_outcome_witness:
  "\<exists>s'. store_commit toy_crypto toy_codec0 toy_archive toy_next (toy_metadata 1 toy_objects)
      (toy_store [Works, Works, Works, Works, Works, Works, Works, Refused Io]) = (Err CommitUncertain, s')
    \<and> ar_uncertain s' \<and> (\<exists>content t. prepare toy_crypto toy_codec0 toy_next (toy_metadata 1 toy_objects) = Ok (content, t)
      \<and> dk_file (ar_disk s') = Some content)"
proof -
  let ?s = "toy_store [Works, Works, Works, Works, Works, Works, Works, Refused Io]"
  obtain s' where s': "store_commit toy_crypto toy_codec0 toy_archive toy_next (toy_metadata 1 toy_objects) ?s
      = (Err CommitUncertain, s')" "ar_uncertain s'"
    using toy_doubt by blast
  have "\<not> ar_uncertain ?s" by (simp add: toy_store_def)
  then show ?thesis using commit_outcome [OF toy_codecs_laws toy_store_ok s'(1)] s' by blast
qed

theorem commit_retry_witness:
  "\<exists>s' s''. store_commit toy_crypto toy_codec0 toy_archive toy_next (toy_metadata 1 toy_objects)
      (toy_store [Works, Works, Works, Works, Works, Works, Works, Refused Io]) = (Err CommitUncertain, s')
    \<and> store_commit toy_crypto toy_codec0 toy_archive toy_next (toy_metadata 1 toy_objects) (calm s') = (Ok (), s'')
    \<and> \<not> ar_uncertain s''"
proof -
  let ?s = "toy_store [Works, Works, Works, Works, Works, Works, Works, Refused Io]"
  obtain s' where s': "store_commit toy_crypto toy_codec0 toy_archive toy_next (toy_metadata 1 toy_objects) ?s
      = (Err CommitUncertain, s')" "ar_uncertain s'"
    using toy_doubt by blast
  have "\<not> ar_uncertain ?s" "ar_last_commit ?s \<noteq> Some (toy_archive, ar_snapshot ?s)" by (simp_all add: toy_store_def)
  then show ?thesis using commit_retry [OF toy_store_ok s'(1) _ toy_codecs_laws] s' by blast
qed

end
