(* ===== verification/Sync_Management.thy ===== *)
theory Sync_Management
  imports Trust_Manifest Store_Read
begin

text \<open>
  \<open>crates/taypeer-sync/src/management.rs\<close> and the errors of \<open>lib.rs\<close>: the immutable intent of
  an explicit handoff, its check against a verified chain, and the search for the one signed
  transfer that carries it out. The answers of the management protocol are data only.
\<close>

datatype sync_error =
    TransportErr | TimeoutErr | ProtocolErr | UnauthorizedErr | StateErr
  | StorageErr store_error | TrustErr trust_error

definition trustS :: "trust_error + 'a \<Rightarrow> sync_error + 'a" where
  "trustS = map_errR TrustErr"

definition storageS :: "store_error + 'a \<Rightarrow> sync_error + 'a" where
  "storageS = map_errR StorageErr"

lemma trustS_Ok [simp]: "trustS r = Inr x \<longleftrightarrow> r = Inr x"
  by (simp add: trustS_def)

record management_intent =
  mi_database :: database_id
  mi_root :: digest
  mi_previous :: digest
  mi_operation :: digest
  mi_manager :: device_id
  mi_recipient :: device_id

definition intent_verify :: "crypto \<Rightarrow> management_intent \<Rightarrow> control_chain \<Rightarrow> sync_error + unit" where
  "intent_verify K self ch =
     bindR (trustS (control_at K ch (mi_previous self))) (\<lambda>previous.
     bindR (trustS (chain_root K ch)) (\<lambda>pinned.
     if pinned \<noteq> mi_root self \<or> c_database previous \<noteq> mi_database self \<or> c_manager previous \<noteq> mi_manager self
        \<or> mi_manager self = mi_recipient self \<or> \<not> bt_contains (c_members previous) (mi_recipient self)
     then Err UnauthorizedErr
     else bindR (trustS (continuous K ch (mi_manager self) (mi_previous self))) (\<lambda>manager.
          if \<not> manager then Err UnauthorizedErr
          else bindR (trustS (continuous K ch (mi_recipient self) (mi_previous self))) (\<lambda>recipient.
               if \<not> recipient then Err UnauthorizedErr else Ok ()))))"

definition carries_out :: "management_intent \<Rightarrow> control \<Rightarrow> bool" where
  "carries_out self body \<longleftrightarrow> c_previous body = Some (mi_previous self) \<and> c_manager body = mi_recipient self
     \<and> (case c_handoff body of None \<Rightarrow> False | Some consent \<Rightarrow> hc_previous consent = mi_previous self
          \<and> hc_operation consent = mi_operation self \<and> hc_recipient consent = mi_recipient self)"

fun find_transfer :: "crypto \<Rightarrow> management_intent \<Rightarrow> signed_control list \<Rightarrow> sync_error + digest option" where
  "find_transfer K self [] = Ok None"
| "find_transfer K self (r # rs) =
     (if c_operation (sc_body r) \<noteq> Some (mi_operation self) then find_transfer K self rs
      else if carries_out self (sc_body r) then bindR (trustS (sc_hash K r)) (\<lambda>h. Ok (Some h))
      else Err StateErr)"

definition committed_control :: "crypto \<Rightarrow> management_intent \<Rightarrow> control_chain \<Rightarrow> sync_error + digest option" where
  "committed_control K self ch = bindR (intent_verify K self ch) (\<lambda>_. find_transfer K self ch)"

datatype management_readiness =
    Locked | PendingApply | Ready nat identity digest digest

record management_applied =
  ma_intent :: management_intent
  ma_transition :: digest
  ma_control :: digest
  ma_baseline :: digest

datatype management_decision =
    DecisionUnknown | DecisionProposed | DecisionWaiting | DecisionAccepted handoff_consent | DecisionRejected
  | DecisionCommitted digest | DecisionApplied management_applied

record management_reply =
  mr_intent :: management_intent
  mr_challenge :: digest
  mr_decision :: management_decision
  mr_readiness :: management_readiness

subsection \<open>The intent and the chain\<close>

lemma intent_verify_Ok:
  "intent_verify K self ch = Ok () \<longleftrightarrow> (\<exists>previous. control_at K ch (mi_previous self) = Ok previous
     \<and> chain_root K ch = Ok (mi_root self) \<and> c_database previous = mi_database self \<and> c_manager previous = mi_manager self
     \<and> mi_manager self \<noteq> mi_recipient self \<and> bt_contains (c_members previous) (mi_recipient self)
     \<and> continuous K ch (mi_manager self) (mi_previous self) = Ok True
     \<and> continuous K ch (mi_recipient self) (mi_previous self) = Ok True)"
  by (auto simp: intent_verify_def split: if_splits)

text \<open>
  An intent verifies against a validated chain exactly when the chain pins its root and
  the approved control names its database and its manager, and both devices, manager and
  another recipient, hold one and the same admission in every control from the approved one
  to the head.
\<close>

theorem intent_verify_iff:
  assumes "validate K recs r = Ok ch"
  shows "intent_verify K self ch = Ok () \<longleftrightarrow> r = mi_root self \<and> mi_manager self \<noteq> mi_recipient self
    \<and> (\<exists>n < length ch. control_at K ch (mi_previous self) = Ok (sc_body (ch ! n))
         \<and> c_database (sc_body (ch ! n)) = mi_database self \<and> c_manager (sc_body (ch ! n)) = mi_manager self
         \<and> (\<forall>d \<in> {mi_manager self, mi_recipient self}. \<exists>m. \<forall>k \<in> {n..<length ch}. fmlookup (c_members (sc_body (ch ! k))) d = Some m))"
    (is "?l \<longleftrightarrow> ?r")
proof -
  have pinned: "chain_root K ch = Ok r" using assms by (auto simp: validate_Ok chain_root_def)
  have same: "n = n'" if "n < length ch" "n' < length ch" "sc_body (ch ! n) = sc_body (ch ! n')" for n n'
    using conjunct1 [OF chain_holds [OF assms that(1)]] conjunct1 [OF chain_holds [OF assms that(2)]] that(3) by metis
  have admitted: "continuous K ch d (mi_previous self) = Ok True \<longleftrightarrow>
      (\<exists>m. \<forall>k \<in> {n..<length ch}. fmlookup (c_members (sc_body (ch ! k))) d = Some m)"
    if "n < length ch" "control_at K ch (mi_previous self) = Ok (sc_body (ch ! n))" for n d
    unfolding continuous_uninterrupted [OF assms] using that same
    by (metis sum.inject(2))
  show ?thesis
  proof
    assume l: ?l
    then obtain c where c: "control_at K ch (mi_previous self) = Ok c" "c_database c = mi_database self"
      "c_manager c = mi_manager self" "r = mi_root self" "mi_manager self \<noteq> mi_recipient self"
      "continuous K ch (mi_manager self) (mi_previous self) = Ok True"
      "continuous K ch (mi_recipient self) (mi_previous self) = Ok True"
      unfolding intent_verify_Ok pinned sum.inject by blast
    then obtain n where n: "n < length ch" "c = sc_body (ch ! n)"
      using find_control_Some by (fastforce simp: control_at_def)
    moreover have "\<exists>m. \<forall>k \<in> {n..<length ch}. fmlookup (c_members (sc_body (ch ! k))) d = Some m"
      if "d \<in> {mi_manager self, mi_recipient self}" for d
      using that c(1,6,7) n admitted [of n d] by blast
    ultimately show ?r using c(1-5) by (intro conjI exI [of _ n]) simp_all
  next
    assume ?r
    then obtain n where r: "r = mi_root self" "mi_manager self \<noteq> mi_recipient self" and n: "n < length ch"
      "control_at K ch (mi_previous self) = Ok (sc_body (ch ! n))" "c_database (sc_body (ch ! n)) = mi_database self"
      "c_manager (sc_body (ch ! n)) = mi_manager self"
      and all: "\<forall>d \<in> {mi_manager self, mi_recipient self}. \<exists>m. \<forall>k \<in> {n..<length ch}. fmlookup (c_members (sc_body (ch ! k))) d = Some m"
      by blast
    have "continuous K ch d (mi_previous self) = Ok True" if "d \<in> {mi_manager self, mi_recipient self}" for d
      using admitted [OF n(1,2)] all that by blast
    moreover have "bt_contains (c_members (sc_body (ch ! n))) (mi_recipient self)"
      using bspec [OF all, of "mi_recipient self"] n(1) by (force simp: bt_contains_def)
    ultimately show ?l
      unfolding intent_verify_Ok pinned using r n by (intro exI [of _ "sc_body (ch ! n)"] conjI) simp_all
  qed
qed

lemma found_transfer:
  assumes "find_transfer K self rs = Ok (Some h)"
  shows "\<exists>r \<in> set rs. c_operation (sc_body r) = Some (mi_operation self) \<and> carries_out self (sc_body r) \<and> sc_hash K r = Ok h"
  using assms by (induction rs) (auto split: if_splits)

lemma find_transfer_unique:
  assumes "r \<in> set rs" and "c_operation (sc_body r) = Some (mi_operation self)"
    and "\<forall>x \<in> set rs. c_operation (sc_body x) = Some (mi_operation self) \<longrightarrow> x = r"
    and "carries_out self (sc_body r)" and "sc_hash K r = Ok h"
  shows "find_transfer K self rs = Ok (Some h)"
  using assms(1,3) by (induction rs) (use assms(2,4,5) in auto)

lemma find_transfer_append:
  "find_transfer K self rs = Ok (Some h) \<Longrightarrow> find_transfer K self (rs @ rs') = Ok (Some h)"
  by (induction rs) (auto split: if_splits)

lemma operations_unique:
  assumes "validate K recs r = Ok ch" and "x \<in> set ch" and "y \<in> set ch" and "c_operation (sc_body x) = Some op"
    and "c_operation (sc_body y) = Some op"
  shows "x = y"
proof -
  have g: "c_operation (sc_body (ch ! 0)) = None" and ne: "ch \<noteq> []" and d: "distinct (map operation_of (tl ch))"
    using assms(1) by (auto simp: validate_Ok validate_links_iff dest: validate_genesis_wf)
  have "ch = ch ! 0 # tl ch" using ne by (cases ch) auto
  then have "x \<in> set (tl ch)" "y \<in> set (tl ch)" using assms(2-5) g by (metis option.distinct(1) set_ConsD)+
  then show ?thesis using d assms(4,5) by (auto simp: distinct_map inj_on_def)
qed

lemma transfer_step:
  assumes v: "validate K recs r = Ok ch" and n: "Suc n < length ch"
    and op: "c_operation (sc_body (ch ! Suc n)) = Some (mi_operation self)"
  shows "carries_out self (sc_body (ch ! Suc n)) \<longleftrightarrow> sc_hash K (ch ! n) = Ok (mi_previous self)
    \<and> (\<exists>c. signed_step K (ch ! n) (Transfer c) (sc_body (ch ! Suc n)) \<and> hc_recipient c = mi_recipient self)"
proof -
  obtain h t where link: "sc_hash K (ch ! n) = Ok h" "c_previous (sc_body (ch ! Suc n)) = Some h"
    "signed_step K (ch ! n) t (sc_body (ch ! Suc n))"
    using chain_link [OF v n] by (auto simp: linked_def)
  show ?thesis
  proof
    assume c: "carries_out self (sc_body (ch ! Suc n))"
    then obtain consent where consent: "c_handoff (sc_body (ch ! Suc n)) = Some consent" "hc_recipient consent = mi_recipient self"
      by (auto simp: carries_out_def split: option.splits)
    then have "t = Transfer consent" using link(3) by (auto simp: signed_step_def handoff_matches_def split: control_transition.splits)
    then show "sc_hash K (ch ! n) = Ok (mi_previous self)
      \<and> (\<exists>c. signed_step K (ch ! n) (Transfer c) (sc_body (ch ! Suc n)) \<and> hc_recipient c = mi_recipient self)"
      using link consent c by (auto simp: carries_out_def)
  next
    assume "sc_hash K (ch ! n) = Ok (mi_previous self)
      \<and> (\<exists>c. signed_step K (ch ! n) (Transfer c) (sc_body (ch ! Suc n)) \<and> hc_recipient c = mi_recipient self)"
    then obtain c where h: "h = mi_previous self" and s: "signed_step K (ch ! n) (Transfer c) (sc_body (ch ! Suc n))"
      "hc_recipient c = mi_recipient self"
      using link(1) by auto
    have hand: "c_handoff (sc_body (ch ! Suc n)) = Some c" "consent_verify K c (ch ! n) = Ok ()"
      "c_operation (sc_body (ch ! Suc n)) = Some (hc_operation c)"
      "authority_step (abs_control (sc_body (ch ! n))) (Transfer c) (abs_control (sc_body (ch ! Suc n)))"
      using s(1) by (auto simp: signed_step_def handoff_matches_def)
    have "hc_previous c = h" using hand(2) link(1) by (auto simp: consent_verify_def split: if_splits)
    moreover have "c_manager (sc_body (ch ! Suc n)) = hc_recipient c"
      using hand(4) by (auto elim!: authority_stepE dest: arg_cong [of _ _ au_manager])
    ultimately show "carries_out self (sc_body (ch ! Suc n))"
      using hand op s(2) h link(2) by (simp add: carries_out_def)
  qed
qed

text \<open>
  A handoff has happened exactly when, directly behind the control that was approved, the
  chain makes the signed step that transfers management to the intended recipient with its own
  consent under this very operation; the answer is the hash of that control. It stays the
  answer in every verified extension in which the intent still holds.
\<close>

theorem handoff_committed_iff:
  assumes "validate K recs r = Ok ch" and "intent_verify K self ch = Ok ()"
  shows "(committed_control K self ch = Ok (Some h) \<longleftrightarrow>
      (\<exists>n c. Suc n < length ch \<and> sc_hash K (ch ! n) = Ok (mi_previous self) \<and> sc_hash K (ch ! Suc n) = Ok h
         \<and> signed_step K (ch ! n) (Transfer c) (sc_body (ch ! Suc n)) \<and> consent_verify K c (ch ! n) = Ok ()
         \<and> hc_recipient c = mi_recipient self \<and> hc_operation c = mi_operation self))
    \<and> (committed_control K self ch = Ok (Some h) \<longrightarrow> intent_verify K self (ch @ ext) = Ok ()
         \<longrightarrow> committed_control K self (ch @ ext) = Ok (Some h))"
proof (intro conjI impI iffI)
  show "committed_control K self (ch @ ext) = Ok (Some h)"
    if "committed_control K self ch = Ok (Some h)" "intent_verify K self (ch @ ext) = Ok ()"
    using that assms(2) find_transfer_append by (simp add: committed_control_def)
next
  assume "committed_control K self ch = Ok (Some h)"
  then obtain x where x: "x \<in> set ch" "c_operation (sc_body x) = Some (mi_operation self)" "carries_out self (sc_body x)" "sc_hash K x = Ok h"
    using assms(2) found_transfer by (fastforce simp: committed_control_def)
  then obtain i where i: "i < length ch" "x = ch ! i" by (auto simp: in_set_conv_nth)
  have "c_operation (sc_body (ch ! 0)) = None" using assms(1) by (auto simp: validate_Ok dest: validate_genesis_wf)
  then obtain n where n: "i = Suc n" using x(2) i by (cases i) auto
  have op: "c_operation (sc_body (ch ! Suc n)) = Some (mi_operation self)" using x(2) i(2) n by simp
  obtain c where c: "sc_hash K (ch ! n) = Ok (mi_previous self)" "signed_step K (ch ! n) (Transfer c) (sc_body (ch ! Suc n))"
    "hc_recipient c = mi_recipient self"
    using transfer_step [OF assms(1) _ op] x(3) i n by auto
  moreover have "consent_verify K c (ch ! n) = Ok ()" "hc_operation c = mi_operation self"
    using c(2) op by (simp_all add: signed_step_def handoff_matches_def)
  ultimately show "\<exists>n c. Suc n < length ch \<and> sc_hash K (ch ! n) = Ok (mi_previous self) \<and> sc_hash K (ch ! Suc n) = Ok h
         \<and> signed_step K (ch ! n) (Transfer c) (sc_body (ch ! Suc n)) \<and> consent_verify K c (ch ! n) = Ok ()
         \<and> hc_recipient c = mi_recipient self \<and> hc_operation c = mi_operation self"
    using i n x(4) by blast
next
  assume "\<exists>n c. Suc n < length ch \<and> sc_hash K (ch ! n) = Ok (mi_previous self) \<and> sc_hash K (ch ! Suc n) = Ok h
         \<and> signed_step K (ch ! n) (Transfer c) (sc_body (ch ! Suc n)) \<and> consent_verify K c (ch ! n) = Ok ()
         \<and> hc_recipient c = mi_recipient self \<and> hc_operation c = mi_operation self"
  then obtain n c where n: "Suc n < length ch" "sc_hash K (ch ! n) = Ok (mi_previous self)" "sc_hash K (ch ! Suc n) = Ok h"
    "signed_step K (ch ! n) (Transfer c) (sc_body (ch ! Suc n))" "hc_recipient c = mi_recipient self" "hc_operation c = mi_operation self"
    by blast
  have op: "c_operation (sc_body (ch ! Suc n)) = Some (mi_operation self)"
    using n(4,6) by (simp add: signed_step_def handoff_matches_def)
  have "carries_out self (sc_body (ch ! Suc n))" unfolding transfer_step [OF assms(1) n(1) op] using n by blast
  then have "find_transfer K self ch = Ok (Some h)"
    using find_transfer_unique [of "ch ! Suc n" ch self K h] op n(1,3) operations_unique [OF assms(1)] by auto
  then show "committed_control K self ch = Ok (Some h)" using assms(2) by (simp add: committed_control_def)
qed

subsection \<open>From the consent to the committed transfer\<close>

lemma consent_verifies:
  assumes laws: "crypto_laws K" and ne: "ch \<noteq> []" and c: "consent_sign K ch key op = Ok c"
    and m: "fmlookup (c_members (head ch)) (author_device K key) = Some m" "author_public K key = id_author (m_identity m)"
  shows "consent_verify K c (last ch) = Ok ()" and "hc_operation c = op" and "hc_recipient c = author_device K key"
    and "author_device K key \<noteq> c_manager (head ch)"
proof -
  have "author_device K key \<noteq> c_manager (head ch) \<and> hc_operation c = op \<and> hc_recipient c = author_device K key
      \<and> head_hash K ch = Ok (hc_previous c)
      \<and> author_sign K key HANDOFF_DOMAIN (PHandoff (hc_previous c) (author_device K key) op) = Ok (hc_signature c)"
    using c by (auto simp: consent_sign_def Let_def split: if_splits)
  moreover have "head ch = sc_body (last ch)" "head_hash K ch = sc_hash K (last ch)" by (simp_all add: head_def head_hash_def)
  ultimately show "consent_verify K c (last ch) = Ok ()" "hc_operation c = op" "hc_recipient c = author_device K key"
    "author_device K key \<noteq> c_manager (head ch)"
    using m author_sign_verify [OF laws, of key HANDOFF_DOMAIN "PHandoff (hc_previous c) (author_device K key) op" "hc_signature c"]
    by (auto simp: consent_verify_def)
qed

lemma handoff_carried_out:
  assumes "crypto_laws K" and "validate K recs r = Ok ch" and "collision_free K ch"
    and "\<forall>s \<in> set ch. c_operation (sc_body s) \<noteq> Some op"
    and "fmlookup (c_members (head ch)) (author_device K recipient) = Some m"
    and "author_public K recipient = id_author (m_identity m)"
    and "consent_sign K ch recipient op = Ok consent" and "transition K ch key op (Transfer consent) = Ok ch'"
    and "head_hash K ch = Ok previous"
  shows "intent_verify K \<lparr>mi_database = c_database (head ch), mi_root = r, mi_previous = previous, mi_operation = op,
      mi_manager = c_manager (head ch), mi_recipient = author_device K recipient\<rparr> ch' = Ok ()
    \<and> (\<exists>h. head_hash K ch' = Ok h \<and> committed_control K \<lparr>mi_database = c_database (head ch), mi_root = r,
         mi_previous = previous, mi_operation = op, mi_manager = c_manager (head ch),
         mi_recipient = author_device K recipient\<rparr> ch' = Ok (Some h))"
    (is "intent_verify K ?i ch' = Ok () \<and> ?committed")
proof -
  note hd = chain_head [OF assms(2)]
  note c = consent_verifies [OF assms(1) hd(5) assms(7,5,6)]
  obtain i p b s r' where b': "apply_intent K ch op (Transfer consent)
      (successor_base (head ch) p (Suc (c_sequence (head ch))) op i) = Ok b" "head_hash K ch = Ok p"
    and s': "sc_signed K b key = Ok s" "chain_root K ch = Ok r'" "validate K (ch @ [s]) r' = Ok ch'"
    using assms(8) [unfolded transition_fresh [OF assms(4)]] by blast
  have b: "apply_intent K ch op (Transfer consent)
      (successor_base (head ch) previous (Suc (c_sequence (head ch))) op i) = Ok b"
    using b' assms(9) by simp
  have s: "sc_signed K b key = Ok s" "validate K (ch @ [s]) r = Ok ch'" using s' hd(4) by simp_all
  have ch': "ch' = ch @ [s]" and v: "validate K ch' r = Ok ch'" using s(2) by (auto simp: validate_Ok)
  have body: "sc_body s = b" using s(1) by (auto simp: sc_signed_def)
  have beq: "b = (successor_base (head ch) previous (Suc (c_sequence (head ch))) op i)
      \<lparr>c_manager := hc_recipient consent, c_handoff := Some consent\<rparr>"
    using b by (auto simp: apply_intent_def split: if_splits)
  have fields: "c_members b = c_members (head ch)" "c_operation b = Some op" "c_previous b = Some previous"
    "c_manager b = author_device K recipient" "c_handoff b = Some consent"
    using beq c(3) by (simp_all add: successor_base_def)
  have at: "control_at K ch' previous = Ok (head ch)"
    using control_at_head [OF assms(3) hd(5) assms(9)] find_control_append ch' by (simp add: control_at_def)
  have new: "head ch' = b" using ch' body by (simp add: head_def)
  have "bt_contains (c_members (head ch)) (c_manager (head ch))"
    using hd(1) by (auto simp: body_wf_def)
  then obtain mgr where mgr: "fmlookup (c_members (head ch)) (c_manager (head ch)) = Some mgr"
    by (auto simp: bt_contains_def)
  have cont: "continuous K ch' d previous = Ok True" if "fmlookup (c_members (head ch)) d = Some x" for d x
    using that at new fields(1) by (simp add: continuous_def)
  have "chain_root K ch' = Ok r" using v by (auto simp: validate_Ok chain_root_def)
  then have ok: "intent_verify K ?i ch' = Ok ()"
    unfolding intent_verify_Ok using at cont [OF mgr] cont [OF assms(5)] c(4) assms(5)
    by (intro exI [of _ "head ch"] conjI) (simp_all add: bt_contains_def)
  obtain h where h: "sc_hash K s = Ok h" using digest_object_total [OF assms(1)] by (metis sc_hash_def)
  have prev: "hc_previous consent = previous"
    using consent_verify_Ok [OF c(1)] assms(9) by (simp add: head_hash_def)
  have "carries_out ?i (sc_body s)" using body fields prev c(2,3) by (simp add: carries_out_def)
  moreover have "c_operation (sc_body s) = Some op" and "s \<in> set ch'" using body fields(2) ch' by simp_all
  moreover from this have "\<forall>x \<in> set ch'. c_operation (sc_body x) = Some op \<longrightarrow> x = s"
    using operations_unique [OF v] by blast
  ultimately have "find_transfer K ?i ch' = Ok (Some h)"
    using find_transfer_unique [of s ch' ?i K h, unfolded management_intent.select_convs] h by blast
  then have "committed_control K ?i ch' = Ok (Some h)" using ok by (simp add: committed_control_def)
  moreover have "head_hash K ch' = Ok h" using ch' h by (simp add: head_hash_def)
  ultimately show ?thesis using ok by blast
qed

text \<open>
  C25: A handoff can be completed. When the recipient, a current member, signs its consent on the
  head of a chain without hash collisions and the manager transfers management with it under a
  fresh operation, the intent that names this head, both devices and the operation verifies
  against the new chain, and its committed control is the new head.
\<close>

theorem handoff_completes:
  assumes "crypto_laws K" and "validate K recs r = Ok ch" and "collision_free K ch"
    and "\<forall>s \<in> set ch. c_operation (sc_body s) \<noteq> Some op"
    and "fmlookup (c_members (head ch)) (author_device K recipient) = Some m"
    and "author_public K recipient = id_author (m_identity m)"
    and "consent_sign K ch recipient op = Ok consent" and "transition K ch key op (Transfer consent) = Ok ch'"
    and "head_hash K ch = Ok previous"
  shows "intent_verify K \<lparr>mi_database = c_database (head ch), mi_root = r, mi_previous = previous, mi_operation = op,
      mi_manager = c_manager (head ch), mi_recipient = author_device K recipient\<rparr> ch' = Ok ()
    \<and> (\<exists>h. head_hash K ch' = Ok h \<and> committed_control K \<lparr>mi_database = c_database (head ch), mi_root = r,
         mi_previous = previous, mi_operation = op, mi_manager = c_manager (head ch),
         mi_recipient = author_device K recipient\<rparr> ch' = Ok (Some h))"
  by (rule handoff_carried_out [OF assms])

subsection \<open>Witnesses\<close>

definition toy_heir :: author_key where "toy_heir = AuthorKey [11]"

definition toy_heir_identity :: identity where
  "toy_heir_identity = \<lparr>id_device = device_id_of toy_crypto [1, 11], id_author = [1, 11], id_transport = [1, 12]\<rparr>"

lemma toy_pair:
  obtains ch m n where "validate toy_crypto ch toy_root = Ok ch" and "collision_free toy_crypto ch"
    and "\<forall>s \<in> set ch. c_operation (sc_body s) \<noteq> Some [6]" and "length ch = 2"
    and "fmlookup (c_members (head ch)) (author_device toy_crypto toy_heir) = Some m"
    and "author_public toy_crypto toy_heir = id_author (m_identity m)"
    and "fmlookup (c_members (head ch)) (c_manager (head ch)) = Some n"
    and "author_public toy_crypto toy_key = id_author (m_identity n)"
proof -
  let ?d = "id_device toy_heir_identity"
  have differ: "id_device toy_identity \<noteq> ?d"
    by (simp add: toy_identity_def toy_heir_identity_def device_id_of_def toy_crypto_def)
  have valid: "identity_validate toy_crypto toy_heir_identity = Ok ()"
    by (simp add: identity_validate_def key_validate_def toy_heir_identity_def toy_crypto_def)
  have members: "c_members (head toy_chain) = fmupd (id_device toy_identity) \<lparr>m_identity = toy_identity, admitted_at = 0\<rparr> fmempty"
    by (simp add: toy_head(1) genesis_body_def)
  have "id_transport toy_identity \<noteq> id_transport toy_heir_identity" by (simp add: toy_identity_def toy_heir_identity_def)
  then have "lawful toy_crypto toy_chain [5] (Admit toy_heir_identity)"
    using differ valid members
    by (auto simp: lawful_def bt_contains_def set_bt_values bt_len_def MAX_MEMBERS_def fcard.rep_eq split: if_splits)
  then have "\<exists>ch'. transition toy_crypto toy_chain toy_key [5] (Admit toy_heir_identity) = Ok ch'"
    unfolding transition_Ok_iff [OF toy_crypto_laws toy_valid toy_fresh toy_manager toy_key_matches]
    by (simp add: MAX_CONTROLS_def)
  then obtain b i q s r ch' where s: "apply_intent toy_crypto toy_chain [5] (Admit toy_heir_identity)
      (successor_base (head toy_chain) q (Suc (c_sequence (head toy_chain))) [5] i) = Ok b"
    "sc_signed toy_crypto b toy_key = Ok s" "chain_root toy_crypto toy_chain = Ok r" "validate toy_crypto (toy_chain @ [s]) r = Ok ch'"
    unfolding transition_fresh [OF toy_fresh] by blast
  let ?ch = "toy_chain @ [s]"
  have body: "sc_body s = b" using s(2) by (auto simp: sc_signed_def)
  have b: "c_members b = fmupd ?d \<lparr>m_identity = toy_heir_identity, admitted_at = c_sequence b\<rparr> (c_members (head toy_chain))"
    "c_manager b = c_manager (head toy_chain)" "c_operation b = Some [5]"
    using s(1) by (auto simp: apply_intent_def successor_base_def split: if_splits)
  have "r = toy_root" using s(3) by (simp add: chain_root_def toy_hash)
  then have v: "validate toy_crypto ?ch toy_root = Ok ?ch" using s(4) by (auto simp: validate_Ok)
  have heir: "author_device toy_crypto toy_heir = ?d" "author_public toy_crypto toy_heir = id_author toy_heir_identity"
    by (simp_all add: author_device_def author_public_def toy_heir_def toy_heir_identity_def toy_crypto_def)
  have "c_sequence b = 1" using chain_head(2) [OF v] body by (simp add: head_def)
  moreover have "le_value (le_bytes 8 1) = 1" "le_value (le_bytes 8 0) = 0" by (rule le_value_le_bytes, simp)+
  then have "le_bytes 8 1 \<noteq> le_bytes 8 0" by (metis zero_neq_one)
  ultimately have "sc_hash toy_crypto s \<noteq> sc_hash toy_crypto toy_signed"
    using body by (simp add: sc_hash_def digest_object_def canonical_def toy_crypto_def toy_body genesis_body_def
        del: le_bytes.simps One_nat_def)
  then have "collision_free toy_crypto ?ch" by (auto simp: collision_free_def)
  moreover have "\<forall>s \<in> set ?ch. c_operation (sc_body s) \<noteq> Some [6]" using body b(3) by (simp add: toy_body genesis_body_def)
  moreover have "head ?ch = b" using body by (simp add: head_def)
  ultimately show ?thesis
    using that [of ?ch "\<lparr>m_identity = toy_heir_identity, admitted_at = c_sequence b\<rparr>" "\<lparr>m_identity = toy_identity, admitted_at = 0\<rparr>"]
      v heir b(1,2) differ toy_manager toy_head(3) toy_key_matches by simp
qed

lemma toy_handoff:
  obtains ch m consent ch' previous where "validate toy_crypto ch toy_root = Ok ch" and "collision_free toy_crypto ch"
    and "\<forall>s \<in> set ch. c_operation (sc_body s) \<noteq> Some [6]"
    and "fmlookup (c_members (head ch)) (author_device toy_crypto toy_heir) = Some m"
    and "author_public toy_crypto toy_heir = id_author (m_identity m)"
    and "consent_sign toy_crypto ch toy_heir [6] = Ok consent"
    and "transition toy_crypto ch toy_key [6] (Transfer consent) = Ok ch'" and "head_hash toy_crypto ch = Ok previous"
    and "validate toy_crypto ch' toy_root = Ok ch'"
proof -
  obtain ch m n where ch: "validate toy_crypto ch toy_root = Ok ch" "collision_free toy_crypto ch"
    "\<forall>s \<in> set ch. c_operation (sc_body s) \<noteq> Some [6]" "length ch = 2"
    and m: "fmlookup (c_members (head ch)) (author_device toy_crypto toy_heir) = Some m"
      "author_public toy_crypto toy_heir = id_author (m_identity m)"
    and n: "fmlookup (c_members (head ch)) (c_manager (head ch)) = Some n"
      "author_public toy_crypto toy_key = id_author (m_identity n)"
    by (rule toy_pair)
  have ne: "ch \<noteq> []" using ch(4) by auto
  obtain previous where p: "head_hash toy_crypto ch = Ok previous"
    using digest_object_total [OF toy_crypto_laws] by (metis head_hash_def sc_hash_def)
  have "id_author (m_identity m) \<noteq> id_author (m_identity n)"
    unfolding m(2) [symmetric] n(2) [symmetric] by (simp add: author_public_def toy_heir_def toy_key_def toy_crypto_def)
  then have other: "author_device toy_crypto toy_heir \<noteq> c_manager (head ch)" using m n by auto
  obtain sig where "author_sign toy_crypto toy_heir HANDOFF_DOMAIN (PHandoff previous (author_device toy_crypto toy_heir) [6]) = Ok sig"
    using author_sign_total [OF toy_crypto_laws] by blast
  then obtain consent where c: "consent_sign toy_crypto ch toy_heir [6] = Ok consent"
    using p m(1) other by (simp add: consent_sign_def Let_def bt_contains_def)
  have "\<exists>ch'. transition toy_crypto ch toy_key [6] (Transfer consent) = Ok ch'"
    unfolding transition_Ok_iff [OF toy_crypto_laws ch(1,3) n]
    using consent_verifies [OF toy_crypto_laws ne c m] ch(4) by (simp add: lawful_def MAX_CONTROLS_def)
  then obtain ch' where t: "transition toy_crypto ch toy_key [6] (Transfer consent) = Ok ch'" by blast
  have "validate toy_crypto ch' toy_root = Ok ch'"
    using t [unfolded transition_fresh [OF ch(3)]] chain_head(4) [OF ch(1)] by (auto simp: validate_Ok)
  then show thesis using that ch(1-3) m c t p by blast
qed

theorem handoff_completes_witness:
  "\<exists>i ch' h. intent_verify toy_crypto i ch' = Ok () \<and> committed_control toy_crypto i ch' = Ok (Some h)"
proof -
  obtain ch m consent ch' previous where c: "validate toy_crypto ch toy_root = Ok ch" "collision_free toy_crypto ch"
    "\<forall>s \<in> set ch. c_operation (sc_body s) \<noteq> Some [6]"
    "fmlookup (c_members (head ch)) (author_device toy_crypto toy_heir) = Some m"
    "author_public toy_crypto toy_heir = id_author (m_identity m)"
    "consent_sign toy_crypto ch toy_heir [6] = Ok consent"
    "transition toy_crypto ch toy_key [6] (Transfer consent) = Ok ch'" "head_hash toy_crypto ch = Ok previous"
    "validate toy_crypto ch' toy_root = Ok ch'"
    by (rule toy_handoff)
  show ?thesis using handoff_completes [OF toy_crypto_laws c(1-8)]
by blast
qed

lemma toy_intent:
  obtains i ch' h where "validate toy_crypto ch' toy_root = Ok ch'" and "intent_verify toy_crypto i ch' = Ok ()"
    and "committed_control toy_crypto i ch' = Ok (Some h)"
proof -
  obtain ch m consent ch' previous where c: "validate toy_crypto ch toy_root = Ok ch" "collision_free toy_crypto ch"
    "\<forall>s \<in> set ch. c_operation (sc_body s) \<noteq> Some [6]"
    "fmlookup (c_members (head ch)) (author_device toy_crypto toy_heir) = Some m"
    "author_public toy_crypto toy_heir = id_author (m_identity m)"
    "consent_sign toy_crypto ch toy_heir [6] = Ok consent"
    "transition toy_crypto ch toy_key [6] (Transfer consent) = Ok ch'" "head_hash toy_crypto ch = Ok previous"
    "validate toy_crypto ch' toy_root = Ok ch'"
    by (rule toy_handoff)
  show thesis using that [OF c(9)] handoff_carried_out [OF toy_crypto_laws c(1-8)] by blast
qed

theorem intent_verify_iff_witness:
  "\<exists>i ch'. intent_verify toy_crypto i ch' = Ok () \<and> toy_root = mi_root i \<and> mi_manager i \<noteq> mi_recipient i"
  by (rule toy_intent) (use intent_verify_iff in \<open>metis (no_types)\<close>)

theorem handoff_committed_iff_witness:
  "\<exists>(i :: management_intent) ch' n c. Suc n < length ch' \<and> sc_hash toy_crypto (ch' ! n) = Ok (mi_previous i)
     \<and> signed_step toy_crypto (ch' ! n) (Transfer c) (sc_body (ch' ! Suc n))"
proof -
  obtain i ch' h where h: "validate toy_crypto ch' toy_root = Ok ch'" "intent_verify toy_crypto i ch' = Ok ()"
    "committed_control toy_crypto i ch' = Ok (Some h)"
    by (rule toy_intent)
  from handoff_committed_iff [OF h(1,2), THEN conjunct1, THEN iffD1, OF h(3)]
  obtain n c where "Suc n < length ch'" "sc_hash toy_crypto (ch' ! n) = Ok (mi_previous i)"
    "signed_step toy_crypto (ch' ! n) (Transfer c) (sc_body (ch' ! Suc n))"
    by blast
  then show ?thesis by (intro exI [of _ i] exI [of _ ch'] exI [of _ n] exI [of _ c] conjI)
qed

end
