(* ===== verification/Sync_Coordinator.thy ===== *)
theory Sync_Coordinator
  imports Store_Commit Sync_Management
begin

text \<open>
  \<open>crates/taypeer-sync/src/coordinator.rs\<close> (with the commands of \<open>wire.rs\<close> and
  the request of \<open>taypeer-storage/src/cipher_persistence.rs\<close>): the single writer
  of the registered ciphertext copies. It serves authenticated peers and the unlocked local
  worker, each call one transaction under the mutex.

  A call is a function on the coordinator's state that returns the new state with its result,
  errors included, since the code keeps the changes made before an early return. \<open>host\<close> holds
  what is fixed: the cryptography, the JSON codec and the transport key. The authenticated
  peer and the time are arguments. An endpoint address of the transport library is its
  identity and opaque routes. Events are collected in the order they are sent.
\<close>

record endpoint_addr =
  ea_id :: public_key
  ea_routes :: bytes

datatype coordinator_event =
    Received database_id digest
  | ControlChanged database_id digest bool
  | Frozen database_id
  | JoinRequested database_id digest
  | Committed database_id

record coordinator_state =
  ct_fingerprint :: digest
  ct_control :: digest
  ct_epoch :: nat
  ct_admitted :: bool
  ct_frozen :: bool

record prepared_commit =
  pr_expected :: digest
  pr_control :: digest
  pr_controls :: "signed_control list"
  pr_objects :: "encrypted_object list"
  pr_remove :: "digest fset"
  pr_checkpoint :: digest
  pr_baseline :: digest
  pr_journal :: archive_journal

record commit_receipt =
  rc_intent :: digest
  rc_metadata :: archive_metadata
  rc_uncertain :: bool

record working_copy =
  wc_store :: archive_store
  wc_frozen :: bool
  wc_commit :: "commit_receipt option"

record coordinator =
  cn_copies :: "(database_id, working_copy) fmap"
  cn_routes :: "(public_key, endpoint_addr) fmap"
  cn_events :: "coordinator_event list"

text \<open>The JSON form of a commit request, descriptors in place of its objects.\<close>

type_synonym intent_codec =
  "digest \<times> digest \<times> signed_control list \<times> cipher_object list \<times> digest fset \<times> digest \<times> digest \<times> archive_journal
     \<Rightarrow> bytes option"

record host =
  ho_crypto :: crypto
  ho_codec :: archive_codec
  ho_intent :: intent_codec
  ho_key :: transport_key

datatype reply =
    Management management_reply
  | Inventory archive_metadata
  | Needed "digest fset"
  | JoinPending digest
  | Joined archive_metadata
  | JoinRejected

datatype command =
    ManagementProposalCommand management_intent digest endpoint_addr
  | ManagementStatusCommand management_intent digest
  | InventoryCommand database_id endpoint_addr
  | OfferCommand archive_metadata
  | JoinCommand invitation invitation_secret join_proof endpoint_addr
  | JoinStatusCommand database_id digest

subsection \<open>One working copy\<close>

text \<open>A transaction runs on the copy it locked and the events sent so far.\<close>

record transaction =
  tx_copy :: working_copy
  tx_events :: "coordinator_event list"

type_synonym 'a transacting = "transaction \<Rightarrow> (sync_error + 'a) \<times> transaction"

abbreviation tx_snapshot :: "transaction \<Rightarrow> archive_snapshot" where
  "tx_snapshot t \<equiv> ar_snapshot (wc_store (tx_copy t))"

definition on_store :: "'a writing \<Rightarrow> 'a transacting" where
  "on_store m t = (case m (wc_store (tx_copy t)) of
     (r, s) \<Rightarrow> (storageS r, t\<lparr>tx_copy := (tx_copy t)\<lparr>wc_store := s\<rparr>\<rparr>))"

definition send :: "coordinator_event \<Rightarrow> unit transacting" where
  "send e t = (Ok (), t\<lparr>tx_events := tx_events t @ [e]\<rparr>)"

definition freeze :: "unit transacting" where
  "freeze t = (Ok (), t\<lparr>tx_copy := (tx_copy t)\<lparr>wc_frozen := True\<rparr>\<rparr>)"

definition at_copy :: "sync_error \<Rightarrow> database_id \<Rightarrow> 'a transacting \<Rightarrow> coordinator \<Rightarrow> (sync_error + 'a) \<times> coordinator" where
  "at_copy absent database m s =
     (case fmlookup (cn_copies s) database of
        None \<Rightarrow> (Err absent, s)
      | Some c \<Rightarrow> (case m \<lparr>tx_copy = c, tx_events = cn_events s\<rparr> of
          (r, t) \<Rightarrow> (r, s\<lparr>cn_copies := fmupd database (tx_copy t) (cn_copies s), cn_events := tx_events t\<rparr>)))"

definition authorize :: "crypto \<Rightarrow> working_copy \<Rightarrow> public_key \<Rightarrow> sync_error + unit" where
  "authorize K copy peer =
     (if wc_frozen copy then Err (TrustErr Fork)
      else bindR (trustS (admit_transport (as_chain (ar_snapshot (wc_store copy))) peer)) (\<lambda>_. Ok ()))"

definition authorize_peer :: "host \<Rightarrow> public_key \<Rightarrow> unit transacting" where
  "authorize_peer H peer t = (authorize (ho_crypto H) (tx_copy t) peer, t)"

definition announced :: "archive_snapshot \<Rightarrow> cipher_object \<Rightarrow> bool" where
  "announced snapshot descriptor \<longleftrightarrow>
     fmlookup (am_objects (as_metadata snapshot)) (co_digest descriptor) = Some descriptor
     \<or> list_ex (\<lambda>offer. fmlookup (mf_objects (sm_body (of_manifest offer))) (co_digest descriptor) = Some descriptor)
         (bt_values (aj_offers (am_journal (as_metadata snapshot))))"

text \<open>
  The next signed generation of a copy: the common part of every transaction that writes.
  The manifest carries the old checkpoint unless the request replaces it.
\<close>

definition next_body :: "archive_snapshot \<Rightarrow> sync_error + manifest" where
  "next_body snapshot =
     (let body = sm_body (am_manifest (as_metadata snapshot)) in
      bindR (ok_or (checked_add (mf_generation body) 1) StateErr) (\<lambda>g. Ok (body\<lparr>mf_generation := g\<rparr>)))"

definition advance ::
  "host \<Rightarrow> archive_snapshot \<Rightarrow> archive_candidate \<Rightarrow> control_chain \<Rightarrow> archive_journal \<Rightarrow> unit transacting" where
  "advance H snapshot candidate ch journal =
     bindS (pureS (next_body snapshot)) (\<lambda>body.
     bindS (pureS (storageS (candidate_metadata (ho_crypto H) (ho_codec H) candidate ch (ho_key H) body journal))) (\<lambda>metadata.
     on_store (store_commit (ho_crypto H) (ho_codec H) (as_fingerprint snapshot) candidate metadata)))"

definition notify_control :: "host \<Rightarrow> database_id \<Rightarrow> archive_snapshot \<Rightarrow> archive_snapshot \<Rightarrow> unit transacting" where
  "notify_control H database old new =
     bindS (pureS (trustS (head_hash (ho_crypto H) (as_chain old)))) (\<lambda>h.
     bindS (pureS (trustS (head_hash (ho_crypto H) (as_chain new)))) (\<lambda>h'.
     if h \<noteq> h' then
       send (ControlChanged database h'
         (c_epoch (head (as_chain old)) \<noteq> c_epoch (head (as_chain new))
          \<or> \<not> is_ok (admit_transport (as_chain new) (transport_public (ho_crypto H) (ho_key H)))))
     else pureS (Ok ())))"

subsection \<open>Commits of the unlocked worker\<close>

definition REPLAY_DOMAIN :: bytes where "REPLAY_DOMAIN = ascii ''taypeer/local-cipher-commit-replay/1''"

definition commit_intent :: "host \<Rightarrow> prepared_commit \<Rightarrow> sync_error + digest" where
  "commit_intent H q =
     bindR (ok_or (ho_intent H (pr_expected q, pr_control q, pr_controls q, map eo_descriptor (pr_objects q),
         pr_remove q, pr_checkpoint q, pr_baseline q, pr_journal q)) (TrustErr Invalid)) (\<lambda>body.
     Ok (sha256 (ho_crypto H) (REPLAY_DOMAIN @ le_bytes 8 (length body) @ body)))"

definition insert_object :: "archive_candidate \<Rightarrow> encrypted_object \<Rightarrow> store_error + archive_candidate" where
  "insert_object candidate object = bindR (candidate_insert candidate object) (\<lambda>(_, candidate). Ok candidate)"

text \<open>The new generation a request describes, over the snapshot it was prepared against.\<close>

definition request_generation ::
  "host \<Rightarrow> archive_snapshot \<Rightarrow> prepared_commit \<Rightarrow> sync_error + archive_candidate \<times> archive_metadata" where
  "request_generation H snapshot q =
     bindR (trustS (head_hash (ho_crypto H) (as_chain snapshot))) (\<lambda>h.
     if as_fingerprint snapshot \<noteq> pr_expected q \<or> h \<noteq> pr_control q then Err (StorageErr Changed)
     else bindR (trustS (chain_root (ho_crypto H) (as_chain snapshot))) (\<lambda>pinned.
     bindR (trustS (validate (ho_crypto H) (pr_controls q) pinned)) (\<lambda>ch.
     bindR (trustS (reconcile (ho_crypto H) (as_chain snapshot) ch)) (\<lambda>longer.
     if longer \<noteq> ch then Err (TrustErr Stale)
     else bindR (storageS (foldR insert_object (snapshot_candidate snapshot) (pr_objects q))) (\<lambda>candidate.
     let candidate = fold (\<lambda>key c. candidate_remove c key) (sorted_list_of_fset (pr_remove q)) candidate in
     bindR (trustS (head_hash (ho_crypto H) ch)) (\<lambda>control.
     bindR (next_body snapshot) (\<lambda>body.
     bindR (storageS (candidate_metadata (ho_crypto H) (ho_codec H) candidate ch (ho_key H)
        (body\<lparr>mf_control := control, mf_checkpoint := pr_checkpoint q, mf_baseline := pr_baseline q\<rparr>)
        (pr_journal q))) (\<lambda>metadata.
     Ok (candidate, metadata)))))))))"

definition keep_receipt :: "digest \<Rightarrow> archive_metadata \<Rightarrow> bool \<Rightarrow> transaction \<Rightarrow> transaction" where
  "keep_receipt intent metadata uncertain t =
     t\<lparr>tx_copy := (tx_copy t)\<lparr>wc_commit := Some \<lparr>rc_intent = intent, rc_metadata = metadata, rc_uncertain = uncertain\<rparr>\<rparr>\<rparr>"

definition commit_fresh :: "host \<Rightarrow> database_id \<Rightarrow> prepared_commit \<Rightarrow> digest \<Rightarrow> archive_snapshot transacting" where
  "commit_fresh H database q intent t =
     (let snapshot = tx_snapshot t in
      case request_generation H snapshot q of
        Inl e \<Rightarrow> (Err e, t)
      | Inr (candidate, metadata) \<Rightarrow>
          (case on_store (store_commit (ho_crypto H) (ho_codec H) (pr_expected q) candidate metadata) t of
            (Inl e, t) \<Rightarrow> (Err e, if e = StorageErr CommitUncertain then keep_receipt intent metadata True t else t)
          | (Inr _, t) \<Rightarrow>
              let t = keep_receipt intent metadata False t; result = tx_snapshot t in
              bindS (send (Committed database)) (\<lambda>_.
              bindS (notify_control H database snapshot result) (\<lambda>_. pureS (Ok result))) t))"

definition receipt_settled :: "transaction \<Rightarrow> transaction" where
  "receipt_settled t =
     t\<lparr>tx_copy := (tx_copy t)\<lparr>wc_commit := map_option (\<lambda>r. r\<lparr>rc_uncertain := False\<rparr>) (wc_commit (tx_copy t))\<rparr>\<rparr>"

definition commit_copy :: "host \<Rightarrow> database_id \<Rightarrow> prepared_commit \<Rightarrow> archive_snapshot transacting" where
  "commit_copy H database q t =
     (if wc_frozen (tx_copy t) then (Err (TrustErr Fork), t)
      else case commit_intent H q of
        Inl e \<Rightarrow> (Err e, t)
      | Inr intent \<Rightarrow>
          (case wc_commit (tx_copy t) of
             None \<Rightarrow> commit_fresh H database q intent t
           | Some receipt \<Rightarrow>
               bindS (if rc_intent receipt = intent
                      then on_store (confirm_commit (ho_crypto H) (pr_expected q) (rc_metadata receipt))
                      else pureS (Ok False)) (\<lambda>replayed.
               if replayed then
                 (\<lambda>t. bindS (send (Committed database)) (\<lambda>_. pureS (Ok (tx_snapshot t))) (receipt_settled t))
               else if rc_uncertain receipt then pureS (Err (StorageErr CommitUncertain))
               else commit_fresh H database q intent) t))"

subsection \<open>Offers of peers\<close>

text \<open>Evidence of a contradiction: an offered chain, or a fork that an offer reports.\<close>

definition add_fork :: "signed_control list \<Rightarrow> archive_journal \<Rightarrow> archive_journal" where
  "add_fork records journal =
     (if records \<in> set (aj_forks journal) then journal else journal\<lparr>aj_forks := aj_forks journal @ [records]\<rparr>)"

definition report_fork ::
  "crypto \<Rightarrow> control_chain \<Rightarrow> archive_journal \<Rightarrow> signed_control list \<Rightarrow> sync_error + archive_journal" where
  "report_fork K common journal records =
     bindR (trustS (chain_root K common)) (\<lambda>pinned.
     bindR (trustS (validate K records pinned)) (\<lambda>evidence.
     Ok (if reconcile K common evidence = Err Fork then add_fork records journal else journal)))"

definition offered_forks :: "host \<Rightarrow> archive_metadata \<Rightarrow> control_chain \<Rightarrow> archive_snapshot \<Rightarrow> reply transacting" where
  "offered_forks H incoming incoming_chain snapshot =
     bindS freeze (\<lambda>_.
     bindS (send (Frozen (mf_database (sm_body (am_manifest incoming))))) (\<lambda>_.
     let journal = am_journal (as_metadata snapshot) in
     bindS (pureS (case reconcile (ho_crypto H) (as_chain snapshot) incoming_chain of
         Inr ch \<Rightarrow> Ok (ch, journal)
       | Inl e \<Rightarrow> if e = Fork then Ok (as_chain snapshot, add_fork (am_controls incoming) journal)
                  else Err (TrustErr e))) (\<lambda>(common, journal).
     bindS (pureS (foldR (report_fork (ho_crypto H) common) journal (aj_forks (am_journal incoming)))) (\<lambda>journal.
     bindS (advance H snapshot (snapshot_candidate snapshot) common journal) (\<lambda>_.
     pureS (Err (TrustErr Fork)))))))"

definition forked_offer :: "host \<Rightarrow> archive_metadata \<Rightarrow> archive_snapshot \<Rightarrow> reply transacting" where
  "forked_offer H incoming snapshot =
     bindS freeze (\<lambda>_.
     bindS (send (Frozen (mf_database (sm_body (am_manifest incoming))))) (\<lambda>_.
     bindS (advance H snapshot (snapshot_candidate snapshot) (as_chain snapshot)
              (add_fork (am_controls incoming) (am_journal (as_metadata snapshot)))) (\<lambda>_.
     pureS (Err (TrustErr Fork)))))"

definition needed_objects :: "archive_metadata \<Rightarrow> archive_snapshot \<Rightarrow> digest fset" where
  "needed_objects incoming snapshot =
     ffilter (\<lambda>key. \<not> bt_contains (am_objects (as_metadata snapshot)) key) (fmdom (am_objects incoming))"

definition accept_offer :: "host \<Rightarrow> archive_metadata \<Rightarrow> archive_snapshot \<Rightarrow> control_chain \<Rightarrow> reply transacting" where
  "accept_offer H incoming snapshot ch =
     (let need = needed_objects incoming snapshot in
      if need = {||} \<and> ch = as_chain snapshot \<and> aj_forks (am_journal incoming) = [] then pureS (Ok (Needed need))
      else let offer = metadata_offer incoming in
      bindS (pureS (trustS (manifest_id (ho_crypto H) (of_manifest offer)))) (\<lambda>key.
      let journal = am_journal (as_metadata snapshot);
          changed = fmlookup (aj_offers journal) key \<noteq> Some offer \<or> ch \<noteq> as_chain snapshot;
          journal = journal\<lparr>aj_offers := fmupd key offer (aj_offers journal)\<rparr>
      in if \<not> changed then pureS (Ok (Needed need))
      else bindS (advance H snapshot (snapshot_candidate snapshot) ch journal) (\<lambda>_ t.
           bindS (notify_control H (c_database (head (as_chain snapshot))) snapshot (tx_snapshot t)) (\<lambda>_.
           pureS (Ok (Needed need))) t)))"

definition offer_copy :: "host \<Rightarrow> public_key \<Rightarrow> archive_metadata \<Rightarrow> reply transacting" where
  "offer_copy H peer incoming =
     bindS (authorize_peer H peer) (\<lambda>_ t.
     (let snapshot = tx_snapshot t in
      bindS (pureS (trustS (chain_root (ho_crypto H) (as_chain snapshot)))) (\<lambda>pinned.
      bindS (pureS (storageS (metadata_verify (ho_crypto H) (ho_codec H) incoming pinned))) (\<lambda>incoming_chain.
      if aj_forks (am_journal incoming) \<noteq> [] then offered_forks H incoming incoming_chain snapshot
      else case reconcile (ho_crypto H) (as_chain snapshot) incoming_chain of
          Inr ch \<Rightarrow> accept_offer H incoming snapshot ch
        | Inl e \<Rightarrow> if e = Fork then forked_offer H incoming snapshot else pureS (Err (TrustErr e))))) t)"

subsection \<open>Admission of a new member\<close>

definition join_copy ::
  "host \<Rightarrow> nat option \<Rightarrow> public_key \<Rightarrow> invitation \<Rightarrow> invitation_secret \<Rightarrow> join_proof \<Rightarrow> digest transacting" where
  "join_copy H now peer invite secret proof t =
     (let snapshot = tx_snapshot t; hd_control = head (as_chain snapshot) in
      if wc_frozen (tx_copy t) then (Err (TrustErr Fork), t)
      else bindS (pureS (trustS (map_index (c_members hd_control) (c_manager hd_control)))) (\<lambda>manager.
      if id_transport (m_identity manager) \<noteq> transport_public (ho_crypto H) (ho_key H) then pureS (Err UnauthorizedErr)
      else bindS (pureS (trustS (invitation_id (ho_crypto H) invite))) (\<lambda>key.
      let journal = am_journal (as_metadata snapshot) in
      bindS (pureS (ok_or (fmlookup (aj_invitations journal) key) UnauthorizedErr)) (\<lambda>record.
      if ir_invitation record \<noteq> invite then pureS (Err UnauthorizedErr)
      else bindS (pureS (ok_or now StateErr)) (\<lambda>time.
      bindS (pureS (trustS (request (ho_crypto H) (ir_status record) invite secret proof peer (as_chain snapshot) time))) (\<lambda>status.
      let journal' = journal\<lparr>aj_invitations := fmupd key (record\<lparr>ir_status := status\<rparr>) (aj_invitations journal)\<rparr> in
      bindS (if journal' \<noteq> journal
             then advance H snapshot (snapshot_candidate snapshot) (as_chain snapshot) journal'
             else pureS (Ok ())) (\<lambda>_. pureS (Ok key))))))) t)"

definition join_status ::
  "host \<Rightarrow> nat option \<Rightarrow> public_key \<Rightarrow> digest \<Rightarrow> working_copy \<Rightarrow> sync_error + reply" where
  "join_status H now peer key copy =
     (let snapshot = ar_snapshot (wc_store copy) in
      if wc_frozen copy then Err (TrustErr Fork)
      else bindR (ok_or (fmlookup (aj_invitations (am_journal (as_metadata snapshot))) key) UnauthorizedErr) (\<lambda>record.
      case ir_status record of
        Requested proof \<Rightarrow>
          if id_transport (jp_recipient proof) = peer
          then bindR (ok_or now StateErr) (\<lambda>time.
               Ok (if is_ok (invitation_verify (ho_crypto H) (ir_invitation record) (as_chain snapshot) time)
                   then JoinPending key else JoinRejected))
          else Err UnauthorizedErr
      | Accepted recipient control \<Rightarrow>
          bindR (trustS (control_at (ho_crypto H) (as_chain snapshot) control)) (\<lambda>c.
          bindR (ok_or (fmlookup (c_members c) recipient) UnauthorizedErr) (\<lambda>admitted.
          if id_transport (m_identity admitted) \<noteq> peer then Err UnauthorizedErr
          else bindR (authorize (ho_crypto H) copy peer) (\<lambda>_. Ok (Joined (as_metadata snapshot)))))
      | Rejected \<Rightarrow> Ok JoinRejected
      | Cancelled \<Rightarrow> Ok JoinRejected
      | Available \<Rightarrow> Err UnauthorizedErr))"

subsection \<open>Objects\<close>

definition object_copy ::
  "host \<Rightarrow> public_key \<Rightarrow> digest \<Rightarrow> working_copy \<Rightarrow> sync_error + cipher_object \<times> object_reader" where
  "object_copy H peer key copy =
     bindR (authorize (ho_crypto H) copy peer) (\<lambda>_.
     let snapshot = ar_snapshot (wc_store copy) in
     bindR (ok_or (fmlookup (am_objects (as_metadata snapshot)) key) StateErr) (\<lambda>descriptor.
     bindR (storageS (snapshot_reader snapshot key)) (\<lambda>r. Ok (descriptor, r))))"

definition receive_copy ::
  "host \<Rightarrow> public_key \<Rightarrow> database_id \<Rightarrow> cipher_object \<Rightarrow> object_reader \<Rightarrow> digest transacting" where
  "receive_copy H peer database descriptor input =
     bindS (authorize_peer H peer) (\<lambda>_ t.
     (let snapshot = tx_snapshot t in
      if \<not> announced snapshot descriptor then pureS (Err UnauthorizedErr)
      else bindS (pureS (storageS (receive_in (ho_crypto H) (ac_envelope (ho_codec H)) object_read input descriptor (as_chain snapshot)))) (\<lambda>object.
      bindS (if bt_contains (am_objects (as_metadata snapshot)) (co_digest descriptor) then pureS (Ok ())
             else bindS (pureS (storageS (insert_object (snapshot_candidate snapshot) object))) (\<lambda>candidate.
                  advance H snapshot candidate (as_chain snapshot) (am_journal (as_metadata snapshot)))) (\<lambda>_.
      bindS (send (Received database (co_digest descriptor))) (\<lambda>_. pureS (Ok (co_digest descriptor)))))) t)"

subsection \<open>The coordinator\<close>

definition coordinator_new :: coordinator where
  "coordinator_new = \<lparr>cn_copies = fmempty, cn_routes = fmempty, cn_events = []\<rparr>"

definition register :: "archive_store \<Rightarrow> coordinator \<Rightarrow> (sync_error + unit) \<times> coordinator" where
  "register store s =
     (let key = c_database (head (as_chain (ar_snapshot store)));
          frozen = aj_forks (am_journal (as_metadata (ar_snapshot store))) \<noteq> []
      in if bt_contains (cn_copies s) key then (Err StateErr, s)
      else (Ok (), s\<lparr>cn_copies := fmupd key \<lparr>wc_store = store, wc_frozen = frozen, wc_commit = None\<rparr> (cn_copies s)\<rparr>))"

definition unregister :: "database_id \<Rightarrow> coordinator \<Rightarrow> (sync_error + unit) \<times> coordinator" where
  "unregister database s =
     (if bt_contains (cn_copies s) database then (Ok (), s\<lparr>cn_copies := fmdrop database (cn_copies s)\<rparr>)
      else (Err StateErr, s))"

definition copy_of :: "sync_error \<Rightarrow> database_id \<Rightarrow> coordinator \<Rightarrow> sync_error + working_copy" where
  "copy_of absent database s = ok_or (fmlookup (cn_copies s) database) absent"

definition coordinator_snapshot :: "database_id \<Rightarrow> coordinator \<Rightarrow> sync_error + archive_snapshot" where
  "coordinator_snapshot database s =
     bindR (copy_of StateErr database s) (\<lambda>copy. Ok (ar_snapshot (wc_store copy)))"

definition state_of :: "host \<Rightarrow> database_id \<Rightarrow> coordinator \<Rightarrow> sync_error + coordinator_state" where
  "state_of H database s =
     bindR (copy_of StateErr database s) (\<lambda>copy.
     let snapshot = ar_snapshot (wc_store copy) in
     bindR (trustS (head_hash (ho_crypto H) (as_chain snapshot))) (\<lambda>h.
     Ok \<lparr>ct_fingerprint = as_fingerprint snapshot, ct_control = h, ct_epoch = c_epoch (head (as_chain snapshot)),
         ct_admitted = is_ok (admit_transport (as_chain snapshot) (transport_public (ho_crypto H) (ho_key H))),
         ct_frozen = wc_frozen copy\<rparr>))"

definition remember_route :: "endpoint_addr \<Rightarrow> coordinator \<Rightarrow> coordinator" where
  "remember_route address s = s\<lparr>cn_routes := fmupd (ea_id address) address (cn_routes s)\<rparr>"

definition coordinator_commit ::
  "host \<Rightarrow> database_id \<Rightarrow> prepared_commit \<Rightarrow> coordinator \<Rightarrow> (sync_error + archive_snapshot) \<times> coordinator" where
  "coordinator_commit H database q = at_copy StateErr database (commit_copy H database q)"

definition inventory ::
  "host \<Rightarrow> public_key \<Rightarrow> database_id \<Rightarrow> endpoint_addr \<Rightarrow> coordinator \<Rightarrow> (sync_error + reply) \<times> coordinator" where
  "inventory H peer database address s =
     (if ea_id address \<noteq> peer then (Err UnauthorizedErr, s)
      else case bindR (copy_of UnauthorizedErr database s) (\<lambda>copy.
             bindR (authorize (ho_crypto H) copy peer) (\<lambda>_. Ok copy)) of
        Inl e \<Rightarrow> (Err e, s)
      | Inr copy \<Rightarrow> (Ok (Inventory (as_metadata (ar_snapshot (wc_store copy)))), remember_route address s))"

definition join ::
  "host \<Rightarrow> nat option \<Rightarrow> public_key \<Rightarrow> invitation \<Rightarrow> invitation_secret \<Rightarrow> join_proof \<Rightarrow> endpoint_addr
     \<Rightarrow> coordinator \<Rightarrow> (sync_error + reply) \<times> coordinator" where
  "join H now peer invite secret proof address s =
     (if ea_id address \<noteq> peer then (Err UnauthorizedErr, s)
      else bindS (at_copy UnauthorizedErr (inv_database invite) (join_copy H now peer invite secret proof)) (\<lambda>key s.
        (Ok (JoinPending key), (remember_route address s)\<lparr>cn_events := cn_events s @ [JoinRequested (inv_database invite) key]\<rparr>)) s)"

definition handle_command ::
  "host \<Rightarrow> nat option \<Rightarrow> public_key \<Rightarrow> command \<Rightarrow> coordinator \<Rightarrow> (sync_error + reply) \<times> coordinator" where
  "handle_command H now peer command s =
     (case command of
        InventoryCommand database address \<Rightarrow> inventory H peer database address s
      | OfferCommand metadata \<Rightarrow>
          at_copy UnauthorizedErr (mf_database (sm_body (am_manifest metadata))) (offer_copy H peer metadata) s
      | JoinCommand invite secret proof address \<Rightarrow> join H now peer invite secret proof address s
      | JoinStatusCommand database key \<Rightarrow>
          (bindR (copy_of UnauthorizedErr database s) (join_status H now peer key), s)
      | ManagementProposalCommand intent challenge address \<Rightarrow> (Err StateErr, s)
      | ManagementStatusCommand intent challenge \<Rightarrow> (Err StateErr, s))"

definition authorize_object ::
  "host \<Rightarrow> public_key \<Rightarrow> database_id \<Rightarrow> cipher_object \<Rightarrow> coordinator \<Rightarrow> sync_error + unit" where
  "authorize_object H peer database descriptor s =
     bindR (copy_of UnauthorizedErr database s) (\<lambda>copy.
     bindR (authorize (ho_crypto H) copy peer) (\<lambda>_.
     if announced (ar_snapshot (wc_store copy)) descriptor then Ok () else Err UnauthorizedErr))"

definition coordinator_object ::
  "host \<Rightarrow> public_key \<Rightarrow> database_id \<Rightarrow> digest \<Rightarrow> coordinator \<Rightarrow> sync_error + cipher_object \<times> object_reader" where
  "coordinator_object H peer database key s =
     bindR (copy_of UnauthorizedErr database s) (object_copy H peer key)"

definition receive ::
  "host \<Rightarrow> public_key \<Rightarrow> database_id \<Rightarrow> cipher_object \<Rightarrow> object_reader \<Rightarrow> coordinator
     \<Rightarrow> (sync_error + digest) \<times> coordinator" where
  "receive H peer database descriptor input =
     at_copy UnauthorizedErr database (receive_copy H peer database descriptor input)"

end
