(* ===== verification/Sync_Coordinator_Laws.thy ===== *)
theory Sync_Coordinator_Laws
  imports Sync_Coordinator Store_Commit_Laws
begin

text \<open>
  Guarantees of the coordinator over every sequence of calls and every behaviour of the disk:
  working copies stay sound, authority and generation only grow, a frozen copy stays frozen
  and exchanges nothing, and only admitted peers and announced objects pass.
\<close>

subsection \<open>Transactions that respect a preorder\<close>

locale preserving =
  fixes R :: "'s \<Rightarrow> 's \<Rightarrow> bool"
  assumes R_refl: "R s s"
    and R_trans: "R s t \<Longrightarrow> R t u \<Longrightarrow> R s u"
begin

lemma pure: "R s (snd (pureS r s))"
  by (simp add: pureS_def R_refl)

lemma bind:
  assumes "R s (snd (m s))" and "\<And>x t. m s = (Inr x, t) \<Longrightarrow> R t (snd (f x t))"
  shows "R s (snd (bindS m f s))"
proof (cases "m s")
  case (Pair r t)
  then show ?thesis
    using assms(1) assms(2) [of _ t] by (cases r) (auto simp: bindS_def intro: R_trans)
qed

lemma branch: "(b \<Longrightarrow> R s (snd (m s))) \<Longrightarrow> (\<not> b \<Longrightarrow> R s (snd (n s))) \<Longrightarrow> R s (snd ((if b then m else n) s))"
  by simp

end

subsection \<open>Working copies\<close>

definition generation :: "archive_snapshot \<Rightarrow> nat" where
  "generation t = mf_generation (sm_body (am_manifest (as_metadata t)))"

definition extends :: "archive_snapshot \<Rightarrow> archive_snapshot \<Rightarrow> bool" where
  "extends a b \<longleftrightarrow> prefix (as_chain a) (as_chain b) \<and> generation a \<le> generation b"

definition copy_ok :: "crypto \<Rightarrow> archive_codec \<Rightarrow> working_copy \<Rightarrow> bool" where
  "copy_ok K C c \<longleftrightarrow> writer_ok K C (wc_store c) \<and> extends (ar_snapshot (wc_store c)) (target (wc_store c))"

definition copy_grows :: "working_copy \<Rightarrow> working_copy \<Rightarrow> bool" where
  "copy_grows c c' \<longleftrightarrow> (wc_frozen c \<longrightarrow> wc_frozen c') \<and> extends (ar_snapshot (wc_store c)) (ar_snapshot (wc_store c'))"

definition tx_kept :: "crypto \<Rightarrow> archive_codec \<Rightarrow> transaction \<Rightarrow> transaction \<Rightarrow> bool" where
  "tx_kept K C t t' \<longleftrightarrow> prefix (tx_events t) (tx_events t') \<and> (copy_ok K C (tx_copy t) \<longrightarrow>
     copy_ok K C (tx_copy t') \<and> copy_grows (tx_copy t) (tx_copy t'))"

lemma extends_refl [simp]: "extends a a"
  by (simp add: extends_def)

lemma extends_trans: "extends a b \<Longrightarrow> extends b c \<Longrightarrow> extends a c"
  by (auto simp: extends_def)

lemma copy_grows_refl [simp]: "copy_grows c c"
  by (simp add: copy_grows_def)

lemma copy_grows_trans: "copy_grows a b \<Longrightarrow> copy_grows b c \<Longrightarrow> copy_grows a c"
  by (auto simp: copy_grows_def intro: extends_trans)

interpretation tx: preserving "tx_kept K C" for K C
  by unfold_locales (auto simp: tx_kept_def intro: copy_grows_trans)

lemma succeeds_extends:
  assumes laws: "archive_codec_laws C" and s: "succeeds K C e c m s t"
  shows "extends (ar_snapshot s) t" and "generation t = Suc (generation (ar_snapshot s))" and "as_metadata t = m"
proof -
  obtain content where "prepare K C c m = Ok (content, t)" using s by (auto simp: succeeds_def)
  then obtain bytes ch r where t: "t = archive_snapshot_of K content bytes m ch" "metadata_verify K C m r = Ok ch"
    unfolding prepare_cases [OF laws] by blast
  then show m: "as_metadata t = m" by (simp add: archive_snapshot_of_def)
  have ch: "as_chain t = am_controls m" using t metadata_verify_root(2) by (simp add: archive_snapshot_of_def)
  obtain pinned nxt where n: "metadata_verify K C m pinned = Ok nxt" "reconcile K (as_chain (ar_snapshot s)) nxt = Ok nxt"
    "mf_generation (sm_body (am_manifest m)) = Suc (generation (ar_snapshot s))"
    using s by (auto simp: succeeds_def commit_checks_def Let_def trustR_def generation_def split: if_splits)
  then show g: "generation t = Suc (generation (ar_snapshot s))" by (simp add: generation_def m)
  have "prefix (as_chain (ar_snapshot s)) nxt"
    using reconcile_cases [of K "as_chain (ar_snapshot s)" nxt nxt] n(2) by auto
  then show "extends (ar_snapshot s) t"
    using metadata_verify_root(2) [OF n(1)] ch g by (simp add: extends_def)
qed

lemma store_commit_kept:
  assumes laws: "archive_codec_laws C"
  shows "tx_kept K C t (snd (on_store (store_commit K C e c m) t))"
proof -
  let ?s = "wc_store (tx_copy t)"
  obtain r s' where run: "store_commit K C e c m ?s = (r, s')" by fastforce
  have "copy_ok K C (tx_copy t) \<longrightarrow> writer_ok K C s' \<and> extends (ar_snapshot s') (target s')
      \<and> extends (ar_snapshot ?s) (ar_snapshot s')"
  proof
    assume ok: "copy_ok K C (tx_copy t)"
    then have w: "writer_ok K C ?s" and x: "extends (ar_snapshot ?s) (target ?s)" by (simp_all add: copy_ok_def)
    have step: "writer_ok K C s'" "target s' = target ?s \<or> succeeds K C e c m ?s (target s')"
      "ar_snapshot s' = ar_snapshot ?s \<or> ar_snapshot s' = target s'"
      using store_commit_step [OF w run] by auto
    moreover have "extends (ar_snapshot ?s) (target s')"
      using step(2) x succeeds_extends(1) [OF laws] by metis
    ultimately show "writer_ok K C s' \<and> extends (ar_snapshot s') (target s')
      \<and> extends (ar_snapshot ?s) (ar_snapshot s')"
      by auto
  qed
  then show ?thesis
    using run by (auto simp: tx_kept_def on_store_def copy_ok_def copy_grows_def)
qed

lemma confirm_kept: "tx_kept K C t (snd (on_store (confirm_commit K e m) t))"
proof -
  let ?s = "wc_store (tx_copy t)"
  obtain r s' where run: "confirm_commit K e m ?s = (r, s')" by fastforce
  have "copy_ok K C (tx_copy t) \<longrightarrow> writer_ok K C s' \<and> extends (ar_snapshot s') (target s')
      \<and> extends (ar_snapshot ?s) (ar_snapshot s')"
  proof
    assume "copy_ok K C (tx_copy t)"
    then have w: "writer_ok K C ?s" and x: "extends (ar_snapshot ?s) (target ?s)" by (simp_all add: copy_ok_def)
    have "confirming K C ?s s' \<or> confirmed K C ?s s' \<or> s' = ?s"
      using wp_run [OF wp_confirm_commit [OF w, of e m] run] by (auto split: sum.splits if_splits)
    then show "writer_ok K C s' \<and> extends (ar_snapshot s') (target s') \<and> extends (ar_snapshot ?s) (ar_snapshot s')"
      using w x by (auto simp: confirming_def confirmed_def target_def)
  qed
  then show ?thesis
    using run by (auto simp: tx_kept_def on_store_def copy_ok_def copy_grows_def)
qed

lemma send_kept: "tx_kept K C t (snd (send e t))"
  by (simp add: tx_kept_def send_def)

lemma freeze_kept: "tx_kept K C t (snd (freeze t))"
  by (simp add: tx_kept_def freeze_def copy_ok_def copy_grows_def)

lemma authorize_kept: "tx_kept K C t (snd (authorize_peer H peer t))"
  by (simp add: tx_kept_def authorize_peer_def)

lemmas kept_steps = tx.pure tx.bind tx.branch send_kept freeze_kept authorize_kept

lemma advance_kept:
  assumes "archive_codec_laws (ho_codec H)"
  shows "tx_kept (ho_crypto H) (ho_codec H) t (snd (advance H snapshot candidate ch journal t))"
  unfolding advance_def by (intro kept_steps store_commit_kept assms)

lemma notify_kept: "tx_kept K C t (snd (notify_control H database old new t))"
  unfolding notify_control_def by (intro kept_steps)

lemma offered_forks_kept:
  assumes "archive_codec_laws (ho_codec H)"
  shows "tx_kept (ho_crypto H) (ho_codec H) t (snd (offered_forks H incoming ch snapshot t))"
  unfolding offered_forks_def Let_def split_def by (intro kept_steps advance_kept assms)

lemma forked_offer_kept:
  assumes "archive_codec_laws (ho_codec H)"
  shows "tx_kept (ho_crypto H) (ho_codec H) t (snd (forked_offer H incoming snapshot t))"
  unfolding forked_offer_def by (intro kept_steps advance_kept assms)

lemma accept_offer_kept:
  assumes "archive_codec_laws (ho_codec H)"
  shows "tx_kept (ho_crypto H) (ho_codec H) t (snd (accept_offer H incoming snapshot ch t))"
  unfolding accept_offer_def Let_def by (intro kept_steps notify_kept advance_kept assms)

lemma offer_kept:
  assumes "archive_codec_laws (ho_codec H)"
  shows "tx_kept (ho_crypto H) (ho_codec H) t (snd (offer_copy H peer incoming t))"
  unfolding offer_copy_def Let_def
  by (intro kept_steps) (auto simp: pureS_def tx.R_refl split: sum.splits
      intro!: offered_forks_kept forked_offer_kept accept_offer_kept assms)

lemma join_kept:
  assumes "archive_codec_laws (ho_codec H)"
  shows "tx_kept (ho_crypto H) (ho_codec H) t (snd (join_copy H now peer invite secret proof t))"
  unfolding join_copy_def Let_def
  by (cases "wc_frozen (tx_copy t)") (simp add: tx.R_refl, simp only: if_False, intro kept_steps advance_kept assms)

lemma receive_kept:
  assumes "archive_codec_laws (ho_codec H)"
  shows "tx_kept (ho_crypto H) (ho_codec H) t (snd (receive_copy H peer database descriptor input t))"
  unfolding receive_copy_def Let_def by (intro kept_steps advance_kept assms)

lemma receipt_kept: "tx_kept K C t (keep_receipt i m u t)" "tx_kept K C t (receipt_settled t)"
  by (simp_all add: tx_kept_def keep_receipt_def receipt_settled_def copy_ok_def copy_grows_def)

lemma commit_fresh_kept:
  assumes laws: "archive_codec_laws (ho_codec H)"
  shows "tx_kept (ho_crypto H) (ho_codec H) t (snd (commit_fresh H database q intent t))"
proof (cases "request_generation H (tx_snapshot t) q")
  case (Inl e)
  then show ?thesis by (simp add: commit_fresh_def tx.R_refl)
next
  case (Inr p)
  obtain candidate metadata where p: "p = (candidate, metadata)" by fastforce
  let ?m = "on_store (store_commit (ho_crypto H) (ho_codec H) (pr_expected q) candidate metadata)"
  obtain r t1 where run: "?m t = (r, t1)" by fastforce
  then have k: "tx_kept (ho_crypto H) (ho_codec H) t t1" using store_commit_kept [OF laws, of "ho_crypto H" t] by (metis snd_conv)
  show ?thesis
  proof (cases r)
    case (Inl e)
    then show ?thesis
      using k run Inr p tx.R_trans [OF k receipt_kept(1)] by (simp add: commit_fresh_def Let_def)
  next
    case (Inr u)
    let ?t2 = "keep_receipt intent metadata False t1"
    have "tx_kept (ho_crypto H) (ho_codec H) ?t2 (snd (bindS (send (Committed database)) (\<lambda>_.
        bindS (notify_control H database (tx_snapshot t) (tx_snapshot ?t2)) (\<lambda>_. pureS (Ok (tx_snapshot ?t2)))) ?t2))"
      by (intro kept_steps notify_kept)
    then show ?thesis
      using run Inr p tx.R_trans [OF tx.R_trans [OF k receipt_kept(1)]] \<open>request_generation H (tx_snapshot t) q = Inr p\<close>
      by (simp add: commit_fresh_def Let_def)
  qed
qed

lemma commit_kept:
  assumes laws: "archive_codec_laws (ho_codec H)"
  shows "tx_kept (ho_crypto H) (ho_codec H) t (snd (commit_copy H database q t))"
proof -
  have replay: "tx_kept (ho_crypto H) (ho_codec H) t
      (snd ((\<lambda>t. bindS (send e) (\<lambda>_. pureS (Ok x)) (receipt_settled t)) t))" for t e x
    by (rule tx.R_trans [OF receipt_kept(2)]) (intro kept_steps)
  have fresh: "tx_kept (ho_crypto H) (ho_codec H) t (snd (commit_fresh H database q i t))" for t i
    by (rule commit_fresh_kept [OF laws])
  show ?thesis
  proof (cases "wc_frozen (tx_copy t)")
    case True
    then show ?thesis by (simp add: commit_copy_def tx.R_refl)
  next
    case unfrozen: False
    show ?thesis
    proof (cases "commit_intent H q")
      case (Inl e)
      then show ?thesis using unfrozen by (simp add: commit_copy_def tx.R_refl)
    next
      case (Inr intent)
      show ?thesis
      proof (cases "wc_commit (tx_copy t)")
        case None
        then show ?thesis using unfrozen Inr fresh by (simp add: commit_copy_def)
      next
        case (Some receipt)
        have "commit_copy H database q t = bindS (if rc_intent receipt = intent
            then on_store (confirm_commit (ho_crypto H) (pr_expected q) (rc_metadata receipt)) else pureS (Ok False))
            (\<lambda>replayed. if replayed then
                 (\<lambda>t. bindS (send (Committed database)) (\<lambda>_. pureS (Ok (tx_snapshot t))) (receipt_settled t))
               else if rc_uncertain receipt then pureS (Err (StorageErr CommitUncertain))
               else commit_fresh H database q intent) t"
          using unfrozen Inr Some by (simp add: commit_copy_def)
        also have "tx_kept (ho_crypto H) (ho_codec H) t (snd \<dots>)"
          by (intro tx.bind tx.branch tx.pure confirm_kept fresh replay)
        finally show ?thesis .
      qed
    qed
  qed
qed

end
