(* ===== verification/Sync_Exchange.thy ===== *)
theory Sync_Exchange
  imports Sync_Coordinator_Laws
begin

text \<open>
  The coordinator as a whole: what every sequence of commits, peer commands and received
  objects keeps of its copies, what a frozen copy refuses, which peers are served, and what a
  received object, a repeated offer and a contradictory offer leave behind.
\<close>

subsection \<open>Steps of the coordinator\<close>

inductive coordinator_step :: "host \<Rightarrow> coordinator \<Rightarrow> coordinator \<Rightarrow> bool" for H where
  commit: "coordinator_step H s (snd (coordinator_commit H database q s))"
| command: "coordinator_step H s (snd (handle_command H now peer cmd s))"
| object: "coordinator_step H s (snd (receive H peer database descriptor input s))"
| route: "coordinator_step H s (remember_route address s)"
| register: "copy_ok (ho_crypto H) (ho_codec H) \<lparr>wc_store = store, wc_frozen = False, wc_commit = None\<rparr> \<Longrightarrow>
    coordinator_step H s (snd (register store s))"

definition coordinator_ok :: "host \<Rightarrow> coordinator \<Rightarrow> bool" where
  "coordinator_ok H s \<longleftrightarrow> (\<forall>c \<in> fmran' (cn_copies s). copy_ok (ho_crypto H) (ho_codec H) c)"

definition coordinator_grows :: "coordinator \<Rightarrow> coordinator \<Rightarrow> bool" where
  "coordinator_grows s s' \<longleftrightarrow> prefix (cn_events s) (cn_events s')
     \<and> (\<forall>d c. fmlookup (cn_copies s) d = Some c \<longrightarrow>
          (\<exists>c'. fmlookup (cn_copies s') d = Some c' \<and> copy_grows c c'))"

definition coordinator_kept :: "host \<Rightarrow> coordinator \<Rightarrow> coordinator \<Rightarrow> bool" where
  "coordinator_kept H s s' \<longleftrightarrow> (coordinator_ok H s \<longrightarrow> coordinator_ok H s' \<and> coordinator_grows s s')"

lemma coordinator_ok_iff: "coordinator_ok H s \<longleftrightarrow>
    (\<forall>d c. fmlookup (cn_copies s) d = Some c \<longrightarrow> copy_ok (ho_crypto H) (ho_codec H) c)"
  by (auto simp: coordinator_ok_def fmlookup_ran'_iff)

lemma coordinator_grows_trans: "coordinator_grows a b \<Longrightarrow> coordinator_grows b c \<Longrightarrow> coordinator_grows a c"
  unfolding coordinator_grows_def by (meson copy_grows_trans prefix_order.trans)

interpretation co: preserving "coordinator_kept H" for H
  by unfold_locales
    (auto simp: coordinator_kept_def intro: coordinator_grows_trans, auto simp: coordinator_grows_def)

lemma at_copy_kept:
  assumes "\<And>t. tx_kept (ho_crypto H) (ho_codec H) t (snd (m t))"
  shows "coordinator_kept H s (snd (at_copy e d m s))"
proof (cases "fmlookup (cn_copies s) d")
  case None
  then show ?thesis by (simp add: at_copy_def co.R_refl)
next
  case (Some c)
  obtain r t where "m \<lparr>tx_copy = c, tx_events = cn_events s\<rparr> = (r, t)" by fastforce
  moreover then have "tx_kept (ho_crypto H) (ho_codec H) \<lparr>tx_copy = c, tx_events = cn_events s\<rparr> t"
    using assms [of "\<lparr>tx_copy = c, tx_events = cn_events s\<rparr>"] by simp
  ultimately show ?thesis
    using Some by (auto simp: at_copy_def coordinator_kept_def coordinator_ok_iff coordinator_grows_def tx_kept_def)
qed

lemma route_kept: "coordinator_kept H s (remember_route address s)"
  by (auto simp: coordinator_kept_def coordinator_ok_iff coordinator_grows_def remember_route_def)

lemma event_kept: "coordinator_kept H s (s\<lparr>cn_events := cn_events s @ es\<rparr>)"
  by (auto simp: coordinator_kept_def coordinator_ok_iff coordinator_grows_def)

lemma command_kept:
  assumes laws: "archive_codec_laws (ho_codec H)"
  shows "coordinator_kept H s (snd (handle_command H now peer cmd s))"
proof (cases cmd)
  case (InventoryCommand database address)
  then show ?thesis
    by (auto simp: handle_command_def inventory_def co.R_refl route_kept split: sum.splits)
next
  case (JoinCommand invite secret shown address)
  have "coordinator_kept H t ((remember_route address t)\<lparr>cn_events := cn_events t @ es\<rparr>)" for t es
    using co.R_trans [OF route_kept event_kept, of H t address es] by (simp add: remember_route_def)
  then show ?thesis
    unfolding JoinCommand handle_command_def command.case join_def
    by (cases "ea_id address = peer") (auto simp: co.R_refl intro!: co.bind at_copy_kept join_kept laws)
qed (simp_all add: handle_command_def co.R_refl at_copy_kept offer_kept laws)

lemma step_kept:
  assumes laws: "archive_codec_laws (ho_codec H)" and "coordinator_step H s s'"
  shows "coordinator_kept H s s'"
  using assms(2)
proof cases
  case (register store)
  have "copy_ok K C (c\<lparr>wc_frozen := b\<rparr>) = copy_ok K C c" for K C c b by (simp add: copy_ok_def)
  then have "copy_ok (ho_crypto H) (ho_codec H) \<lparr>wc_store = store, wc_frozen = b, wc_commit = None\<rparr>" for b
    using register(2) by (simp add: copy_ok_def)
  then show ?thesis
    unfolding register(1)
    by (auto simp: register_def Let_def co.R_refl coordinator_kept_def coordinator_ok_iff coordinator_grows_def
        bt_contains_def fmlookup_dom_iff)
qed (simp_all add: coordinator_commit_def receive_def at_copy_kept commit_kept receive_kept command_kept route_kept laws)

lemma reachable_kept:
  assumes laws: "archive_codec_laws (ho_codec H)" and "(coordinator_step H)\<^sup>*\<^sup>* s s'"
  shows "coordinator_kept H s s'"
  using assms(2) by (induction rule: rtranclp_induct) (auto intro: co.R_refl co.R_trans step_kept laws)

lemma reachable_grows:
  assumes "archive_codec_laws (ho_codec H)" and "(coordinator_step H)\<^sup>*\<^sup>* s s'" and "coordinator_ok H s"
  shows "coordinator_ok H s' \<and> coordinator_grows s s'"
  using reachable_kept [OF assms(1,2)] assms(3) by (simp add: coordinator_kept_def)

subsection \<open>What a transaction leaves alone\<close>

text \<open>Errors before any change, and the parts of a copy that a successful step keeps.\<close>

lemma bindS_Ok: "bindS m f s = (Inr y, u) \<longleftrightarrow> (\<exists>x t. m s = (Inr x, t) \<and> f x t = (Inr y, u))"
  by (auto simp: bindS_def split: prod.splits sum.splits)

lemma bindS_cases: "bindS m f s = (r, u) \<longleftrightarrow>
    (\<exists>x t. m s = (Inr x, t) \<and> f x t = (r, u)) \<or> (\<exists>e. m s = (Inl e, u) \<and> r = Inl e)"
  by (auto simp: bindS_def split: prod.splits sum.splits)

lemma pureS_iff [simp]: "pureS r s = (r', t) \<longleftrightarrow> r = r' \<and> s = t"
  by (auto simp: pureS_def)

lemma on_store_frame:
  "on_store m t = (r, t') \<Longrightarrow> wc_frozen (tx_copy t') = wc_frozen (tx_copy t)
     \<and> wc_commit (tx_copy t') = wc_commit (tx_copy t) \<and> tx_events t' = tx_events t"
  by (auto simp: on_store_def split: prod.splits)

lemma opens_chain:
  assumes "opens K C content t"
  shows "as_chain t = am_controls (as_metadata t)"
    and "\<exists>r. metadata_verify K C (as_metadata t) r = Ok (as_chain t) \<and> chain_root K (as_chain t) = Ok r"
proof -
  obtain p where "from_source K C content p = Ok t" using assms by (auto simp: opens_def)
  from opens_sound [OF this] obtain bytes m ch r where m: "metadata_verify K C m r = Ok ch"
    "t = archive_snapshot_of K content bytes m ch"
    by blast
  then show "as_chain t = am_controls (as_metadata t)"
    using metadata_verify_root(2) by (simp add: archive_snapshot_of_def)
  obtain first rest where "am_controls m = first # rest" "sc_hash K first = Ok r"
    using metadata_verify_root(1) [OF m(1)] by blast
  then have "chain_root K ch = Ok r" using metadata_verify_root(2) [OF m(1)] by (simp add: chain_root_def)
  then show "\<exists>r. metadata_verify K C (as_metadata t) r = Ok (as_chain t) \<and> chain_root K (as_chain t) = Ok r"
    using m by (auto simp: archive_snapshot_of_def)
qed

text \<open>The snapshot in memory is an archive the writer once opened or published.\<close>

lemma copy_chain:
  assumes "copy_ok K C c" and "\<not> ar_uncertain (wc_store c)"
  shows "as_chain (ar_snapshot (wc_store c)) = am_controls (as_metadata (ar_snapshot (wc_store c)))"
    and "\<exists>r. metadata_verify K C (as_metadata (ar_snapshot (wc_store c))) r = Ok (as_chain (ar_snapshot (wc_store c)))
      \<and> chain_root K (as_chain (ar_snapshot (wc_store c))) = Ok r"
  using assms opens_chain by (auto simp: copy_ok_def writer_ok_def target_def)

lemma candidate_metadata_fields:
  assumes "candidate_metadata K C cand ch key body journal = Ok m"
  shows "am_controls m = ch" and "am_journal m = journal" and "am_objects m = descriptors cand"
    and "\<exists>r. chain_root K ch = Ok r \<and> metadata_verify K C m r = Ok ch"
    and "mf_checkpoint (sm_body (am_manifest m)) = mf_checkpoint body"
    and "mf_generation (sm_body (am_manifest m)) = mf_generation body"
proof -
  obtain control signer aux sm r ch' where *: "control_at K ch (mf_control body) = Ok control"
    "manifest_sign K (body\<lparr>mf_signer := signer, mf_objects := descriptors cand, mf_auxiliary := aux\<rparr>) ch key = Ok sm"
    "m = \<lparr>am_controls = ch, am_manifest = sm, am_journal = journal\<rparr>" "chain_root K ch = Ok r"
    "metadata_verify K C m r = Ok ch'"
    using assms by (auto simp: candidate_metadata_def Let_def trustR_def)
  then show "am_controls m = ch" "am_journal m = journal" by simp_all
  have "sm_body sm = body\<lparr>mf_signer := signer, mf_objects := descriptors cand, mf_auxiliary := aux\<rparr>"
    using *(2) by (auto simp: manifest_sign_def Let_def split: if_splits)
  then show "am_objects m = descriptors cand" "mf_checkpoint (sm_body (am_manifest m)) = mf_checkpoint body"
    "mf_generation (sm_body (am_manifest m)) = mf_generation body"
    using *(3) by simp_all
  show "\<exists>r. chain_root K ch = Ok r \<and> metadata_verify K C m r = Ok ch"
    using *(3,4,5) metadata_verify_root(2) [OF *(5)] by auto
qed

lemma advance_ok:
  assumes laws: "archive_codec_laws (ho_codec H)" and ok: "copy_ok (ho_crypto H) (ho_codec H) (tx_copy t)"
    and run: "advance H snapshot cand ch journal t = (Ok (), t')"
  shows "as_chain (tx_snapshot t') = ch" and "am_journal (as_metadata (tx_snapshot t')) = journal"
    and "am_objects (as_metadata (tx_snapshot t')) = descriptors cand"
    and "copy_ok (ho_crypto H) (ho_codec H) (tx_copy t')" and "\<not> ar_uncertain (wc_store (tx_copy t'))"
    and "wc_frozen (tx_copy t') = wc_frozen (tx_copy t)" and "tx_events t' = tx_events t"
    and "wc_commit (tx_copy t') = wc_commit (tx_copy t)"
proof -
  let ?K = "ho_crypto H" and ?C = "ho_codec H"
  obtain body m where m: "candidate_metadata ?K ?C cand ch (ho_key H) body journal = Ok m"
    and st: "on_store (store_commit ?K ?C (as_fingerprint snapshot) cand m) t = (Ok (), t')"
    using run unfolding advance_def bindS_Ok pureS_iff storageS_def map_errR_Inr by blast
  obtain s' where s': "store_commit ?K ?C (as_fingerprint snapshot) cand m (wc_store (tx_copy t)) = (Ok (), s')"
    "t' = t\<lparr>tx_copy := (tx_copy t)\<lparr>wc_store := s'\<rparr>\<rparr>"
    using st by (auto simp: on_store_def storageS_def split: prod.splits)
  have w: "writer_ok ?K ?C (wc_store (tx_copy t))" using ok by (simp add: copy_ok_def)
  have kept: "tx_kept ?K ?C t t'" using store_commit_kept [OF laws, of ?K t] st by (metis snd_conv)
  then show c: "copy_ok ?K ?C (tx_copy t')" using ok by (simp add: tx_kept_def)
  note step = store_commit_step [OF w s'(1)]
  then have u: "\<not> ar_uncertain s'" by simp
  then show "\<not> ar_uncertain (wc_store (tx_copy t'))" using s'(2) by simp
  have "as_metadata (target s') = m" using step succeeds_extends(3) [OF laws] by metis
  then have snap: "as_metadata (tx_snapshot t') = m" using u s'(2) by (simp add: target_def)
  show "as_chain (tx_snapshot t') = ch"
    using copy_chain(1) [OF c] u s'(2) snap candidate_metadata_fields(1) [OF m] by simp
  show "am_journal (as_metadata (tx_snapshot t')) = journal" "am_objects (as_metadata (tx_snapshot t')) = descriptors cand"
    using snap candidate_metadata_fields(2,3) [OF m] by simp_all
  show "wc_frozen (tx_copy t') = wc_frozen (tx_copy t)" "tx_events t' = tx_events t"
    "wc_commit (tx_copy t') = wc_commit (tx_copy t)"
    using on_store_frame [OF st] by blast+
qed

subsection \<open>Reachable coordinators\<close>

text \<open>
  C9: Whatever calls arrive, in whatever order, and however the disk behaves, a registered
  copy stays a writer whose file reopens after a power cut; its control chain is only ever
  extended, its generation never falls, a frozen copy stays frozen and no event is taken back.
\<close>

theorem coordinator_sound:
  assumes "archive_codec_laws (ho_codec H)" and "(coordinator_step H)\<^sup>*\<^sup>* s s'"
    and "coordinator_ok H s" and "fmlookup (cn_copies s) d = Some c"
  shows "prefix (cn_events s) (cn_events s') \<and> (\<exists>c'. fmlookup (cn_copies s') d = Some c'
    \<and> writer_ok (ho_crypto H) (ho_codec H) (wc_store c')
    \<and> prefix (as_chain (ar_snapshot (wc_store c))) (as_chain (ar_snapshot (wc_store c')))
    \<and> generation (ar_snapshot (wc_store c)) \<le> generation (ar_snapshot (wc_store c'))
    \<and> (wc_frozen c \<longrightarrow> wc_frozen c'))"
proof -
  have grows: "coordinator_ok H s'" "coordinator_grows s s'" using reachable_grows assms(1-3) by blast+
  then obtain c' where c': "fmlookup (cn_copies s') d = Some c'" "copy_grows c c'"
    using assms(4) by (auto simp: coordinator_grows_def)
  then have "copy_ok (ho_crypto H) (ho_codec H) c'" using grows(1) by (auto simp: coordinator_ok_iff)
  then show ?thesis
    using c' grows(2) by (auto simp: coordinator_grows_def copy_grows_def extends_def copy_ok_def)
qed

subsection \<open>Frozen copies\<close>

fun selects :: "command \<Rightarrow> database_id option" where
  "selects (InventoryCommand database _) = Some database"
| "selects (OfferCommand metadata) = Some (mf_database (sm_body (am_manifest metadata)))"
| "selects (JoinCommand invite _ _ _) = Some (inv_database invite)"
| "selects (JoinStatusCommand database _) = Some database"
| "selects _ = None"

lemma at_copy_refused:
  assumes "fmlookup (cn_copies s) d = Some c" and "\<And>es. m \<lparr>tx_copy = c, tx_events = es\<rparr> = (Err e, \<lparr>tx_copy = c, tx_events = es\<rparr>)"
  shows "at_copy absent d m s = (Err e, s)"
proof -
  have "fmupd d c (cn_copies s) = cn_copies s" using assms(1) by (intro fmap_ext) auto
  then show ?thesis using assms by (simp add: at_copy_def)
qed

lemma frozen_authorize: "wc_frozen c \<Longrightarrow> authorize K c peer = Err (TrustErr Fork)"
  by (simp add: authorize_def)

lemma authorized_bind_frozen:
  "wc_frozen c \<Longrightarrow> bindS (authorize_peer H peer) f \<lparr>tx_copy = c, tx_events = es\<rparr>
     = (Err (TrustErr Fork), \<lparr>tx_copy = c, tx_events = es\<rparr>)"
  by (simp add: bindS_def authorize_peer_def frozen_authorize)

text \<open>
  Once a contradiction froze a copy, no commit, no peer command about its database, no
  object request and no received object has any effect: each is refused (with the fork, or as
  unauthorized where the peer's address is not its own) and leaves the coordinator as it was.
  Reading the snapshot stays possible.
\<close>

theorem frozen_copy_refuses:
  assumes "fmlookup (cn_copies s) d = Some c" and "wc_frozen c"
  shows "coordinator_commit H d q s = (Err (TrustErr Fork), s)
    \<and> receive H peer d descriptor input s = (Err (TrustErr Fork), s)
    \<and> authorize_object H peer d descriptor s = Err (TrustErr Fork)
    \<and> coordinator_object H peer d key s = Err (TrustErr Fork)
    \<and> (selects cmd = Some d \<longrightarrow>
         (\<exists>e \<in> {TrustErr Fork, UnauthorizedErr}. handle_command H now peer cmd s = (Err e, s)))
    \<and> coordinator_snapshot d s = Ok (ar_snapshot (wc_store c))"
proof (intro conjI impI)
  show "coordinator_commit H d q s = (Err (TrustErr Fork), s)"
    unfolding coordinator_commit_def using assms by (auto intro!: at_copy_refused simp: commit_copy_def)
  show "receive H peer d descriptor input s = (Err (TrustErr Fork), s)"
    unfolding receive_def using assms by (auto intro!: at_copy_refused simp: receive_copy_def authorized_bind_frozen)
  show "authorize_object H peer d descriptor s = Err (TrustErr Fork)"
    "coordinator_object H peer d key s = Err (TrustErr Fork)"
    "coordinator_snapshot d s = Ok (ar_snapshot (wc_store c))"
    using assms by (simp_all add: authorize_object_def coordinator_object_def object_copy_def coordinator_snapshot_def
        copy_of_def frozen_authorize)
  have offer: "at_copy absent d (offer_copy H peer m) s = (Err (TrustErr Fork), s)" for absent m
    using assms by (auto intro!: at_copy_refused simp: offer_copy_def authorized_bind_frozen)
  have joined: "at_copy absent d (join_copy H now peer i x p) s = (Err (TrustErr Fork), s)" for absent i x p
    using assms by (auto intro!: at_copy_refused simp: join_copy_def)
  assume "selects cmd = Some d"
  then show "\<exists>e \<in> {TrustErr Fork, UnauthorizedErr}. handle_command H now peer cmd s = (Err e, s)"
    using assms by (cases cmd) (auto simp: handle_command_def inventory_def join_def join_status_def copy_of_def
        frozen_authorize offer joined bindS_def)
qed

subsection \<open>Who is served\<close>

definition served :: "host \<Rightarrow> public_key \<Rightarrow> database_id \<Rightarrow> coordinator \<Rightarrow> working_copy \<Rightarrow> bool" where
  "served H peer d s c \<longleftrightarrow> fmlookup (cn_copies s) d = Some c \<and> \<not> wc_frozen c
     \<and> (\<exists>m \<in> fmran' (c_members (head (as_chain (ar_snapshot (wc_store c))))). id_transport (m_identity m) = peer)"

lemma admitted_member:
  assumes "admit_transport ch peer = Ok dev"
  shows "\<exists>m \<in> fmran' (c_members (head ch)). id_transport (m_identity m) = peer"
proof -
  obtain m where "List.find (\<lambda>m. id_transport (m_identity m) = peer) (bt_values (c_members (head ch))) = Some m"
    using assms by (auto simp: admit_transport_def)
  then have "m \<in> set (bt_values (c_members (head ch)))" and p: "id_transport (m_identity m) = peer"
    by (auto simp: find_Some_iff)
  then have "m \<in> fmran' (c_members (head ch))" by (auto simp: bt_values_def fmlookup_ran'_iff)
  then show ?thesis using p by blast
qed

lemma authorized_served:
  "fmlookup (cn_copies s) d = Some c \<Longrightarrow> authorize K c peer = Ok u \<Longrightarrow> served H peer d s c"
  using admitted_member by (auto simp: served_def authorize_def trustS_def split: if_splits)

lemma at_copy_Ok:
  assumes "at_copy absent d m s = (Ok x, s')"
  obtains c t where "fmlookup (cn_copies s) d = Some c" and "m \<lparr>tx_copy = c, tx_events = cn_events s\<rparr> = (Ok x, t)"
    and "s' = s\<lparr>cn_copies := fmupd d (tx_copy t) (cn_copies s), cn_events := tx_events t\<rparr>"
  using assms by (auto simp: at_copy_def split: option.splits prod.splits)

lemma authorized_bind:
  "bindS (authorize_peer H peer) f t = (Ok x, t') \<Longrightarrow> authorize (ho_crypto H) (tx_copy t) peer = Ok () \<and> f () t = (Ok x, t')"
  by (auto simp: bindS_Ok authorize_peer_def)

lemma offer_reply:
  assumes "offer_copy H peer m t = (Ok r, t')"
  shows "authorize (ho_crypto H) (tx_copy t) peer = Ok ()" and "\<exists>need. r = Needed need"
proof -
  show "authorize (ho_crypto H) (tx_copy t) peer = Ok ()"
    using assms unfolding offer_copy_def by (auto dest: authorized_bind)
  have forks: "\<not> offered_forks H m ch sn t = (Ok r, t')" "\<not> forked_offer H m sn t = (Ok r, t')" for ch sn t t'
    by (auto simp: offered_forks_def forked_offer_def Let_def bindS_Ok split: prod.splits)
  have accept: "accept_offer H m sn ch t = (Ok r, t') \<Longrightarrow> r = Needed (needed_objects m sn)" for ch sn t t'
    by (auto simp: accept_offer_def Let_def bindS_Ok split: if_splits)
  show "\<exists>need. r = Needed need"
    using assms unfolding offer_copy_def Let_def
    by (auto simp: bindS_Ok forks dest: accept split: if_splits sum.splits)
qed

lemma join_status_reply:
  assumes "join_status H now peer key c = Ok r"
  shows "r = Joined (as_metadata (ar_snapshot (wc_store c))) \<and> authorize (ho_crypto H) c peer = Ok ()
       \<or> r = JoinPending key \<or> r = JoinRejected"
proof -
  obtain kept where "fmlookup (aj_invitations (am_journal (as_metadata (ar_snapshot (wc_store c))))) key = Some kept"
    using assms by (auto simp: join_status_def Let_def split: if_splits)
  then show ?thesis
    using assms by (cases "ir_status kept") (auto simp: join_status_def Let_def split: if_splits)
qed

lemma command_served:
  assumes "handle_command H now peer cmd s = (Ok r, s')"
  shows "case r of
       Inventory m \<Rightarrow> \<exists>d address c. cmd = InventoryCommand d address \<and> ea_id address = peer \<and> served H peer d s c
         \<and> m = as_metadata (ar_snapshot (wc_store c))
     | Needed _ \<Rightarrow> \<exists>m c. cmd = OfferCommand m \<and> served H peer (mf_database (sm_body (am_manifest m))) s c
     | Joined m \<Rightarrow> \<exists>d key c. cmd = JoinStatusCommand d key \<and> served H peer d s c \<and> m = as_metadata (ar_snapshot (wc_store c))
     | _ \<Rightarrow> True"
proof (cases cmd)
  case (InventoryCommand d address)
  obtain c where "ea_id address = peer" "fmlookup (cn_copies s) d = Some c" "authorize (ho_crypto H) c peer = Ok ()"
    "r = Inventory (as_metadata (ar_snapshot (wc_store c)))"
    using assms InventoryCommand
    by (auto simp: handle_command_def inventory_def copy_of_def split: if_splits sum.splits)
  then show ?thesis using InventoryCommand authorized_served [of s d c "ho_crypto H" peer "()" H] by auto
next
  case (OfferCommand m)
  then obtain c t where c: "fmlookup (cn_copies s) (mf_database (sm_body (am_manifest m))) = Some c"
    "offer_copy H peer m \<lparr>tx_copy = c, tx_events = cn_events s\<rparr> = (Ok r, t)"
    using assms by (auto simp: handle_command_def elim!: at_copy_Ok)
  then show ?thesis
    using OfferCommand offer_reply [OF c(2)] authorized_served [OF c(1), of "ho_crypto H" peer "()" H] by auto
next
  case (JoinCommand i x p address)
  then show ?thesis using assms by (auto simp: handle_command_def join_def bindS_Ok split: if_splits)
next
  case (JoinStatusCommand d key)
  then obtain c where c: "fmlookup (cn_copies s) d = Some c" "join_status H now peer key c = Ok r"
    using assms by (auto simp: handle_command_def copy_of_def)
  from join_status_reply [OF this(2)] show ?thesis
    using JoinStatusCommand authorized_served [OF c(1), of "ho_crypto H" peer "()" H] by auto
qed (use assms in \<open>simp_all add: handle_command_def\<close>)

text \<open>
  C22: Metadata leaves the coordinator only for an admitted peer of a copy that is not frozen:
  an inventory, the answer to an offer and the metadata of a completed join go to a peer whose
  transport key belongs to a current member, an object likewise, and what is sent is the
  current generation of that copy. A pending join reveals nothing but its request.
\<close>

theorem served_peers:
  "(handle_command H now peer cmd s = (Ok r, s') \<longrightarrow> (case r of
       Inventory m \<Rightarrow> \<exists>d address c. cmd = InventoryCommand d address \<and> ea_id address = peer \<and> served H peer d s c
         \<and> m = as_metadata (ar_snapshot (wc_store c))
     | Needed _ \<Rightarrow> \<exists>m c. cmd = OfferCommand m \<and> served H peer (mf_database (sm_body (am_manifest m))) s c
     | Joined m \<Rightarrow> \<exists>d key c. cmd = JoinStatusCommand d key \<and> served H peer d s c \<and> m = as_metadata (ar_snapshot (wc_store c))
     | _ \<Rightarrow> True))
   \<and> (coordinator_object H peer d key s = Ok (descriptor, input) \<longrightarrow> (\<exists>c. served H peer d s c
        \<and> fmlookup (am_objects (as_metadata (ar_snapshot (wc_store c)))) key = Some descriptor))
   \<and> (authorize_object H peer d descriptor s = Ok () \<longrightarrow> (\<exists>c. served H peer d s c \<and> announced (ar_snapshot (wc_store c)) descriptor))"
proof (intro conjI impI)
  show "case r of
       Inventory m \<Rightarrow> \<exists>d address c. cmd = InventoryCommand d address \<and> ea_id address = peer \<and> served H peer d s c
         \<and> m = as_metadata (ar_snapshot (wc_store c))
     | Needed _ \<Rightarrow> \<exists>m c. cmd = OfferCommand m \<and> served H peer (mf_database (sm_body (am_manifest m))) s c
     | Joined m \<Rightarrow> \<exists>d key c. cmd = JoinStatusCommand d key \<and> served H peer d s c \<and> m = as_metadata (ar_snapshot (wc_store c))
     | _ \<Rightarrow> True" if "handle_command H now peer cmd s = (Ok r, s')"
    using that by (rule command_served)
qed (auto simp: coordinator_object_def object_copy_def authorize_object_def copy_of_def Let_def
      dest: authorized_served split: if_splits)

subsection \<open>Received objects\<close>

lemma kept_descriptors [simp]: "descriptors (snapshot_candidate sn) = am_objects (as_metadata sn)"
  by (rule fmap_ext) (auto simp: descriptors_def snapshot_candidate_def fmlookup_dom_iff)

lemma inserted_descriptors:
  assumes "insert_object (snapshot_candidate sn) object = Ok cand"
    and "\<not> bt_contains (am_objects (as_metadata sn)) (co_digest (eo_descriptor object))"
  shows "descriptors cand = fmupd (co_digest (eo_descriptor object)) (eo_descriptor object) (am_objects (as_metadata sn))"
proof -
  let ?k = "co_digest (eo_descriptor object)"
  have "fmlookup (descriptors (snapshot_candidate sn)) ?k = None" using assms(2) by (simp add: bt_contains_def)
  then have "cand = (snapshot_candidate sn)\<lparr>cd_retained := finsert ?k (cd_retained (snapshot_candidate sn)),
      cd_staged := fmupd ?k object (cd_staged (snapshot_candidate sn))\<rparr>"
    using assms(1) by (auto simp: insert_object_def candidate_insert_def Let_def)
  then show ?thesis
    by (intro fmap_ext) (auto simp: descriptors_def snapshot_candidate_def fmlookup_dom_iff)
qed

lemma received_descriptor: "receive_in K J rd input d ch = Ok obj \<Longrightarrow> eo_descriptor obj = d"
  by (auto simp: receive_in_def Let_def split: if_splits)

lemma receive_ok:
  assumes laws: "archive_codec_laws (ho_codec H)" and ok: "copy_ok (ho_crypto H) (ho_codec H) (tx_copy t)"
    and run: "receive_copy H peer d descriptor input t = (Ok k, t')"
  shows "k = co_digest descriptor" and "authorize (ho_crypto H) (tx_copy t) peer = Ok ()"
    and "announced (tx_snapshot t) descriptor" and "tx_events t' = tx_events t @ [Received d k]"
    and "if bt_contains (am_objects (as_metadata (tx_snapshot t))) k then tx_copy t' = tx_copy t
      else am_objects (as_metadata (tx_snapshot t')) = fmupd k descriptor (am_objects (as_metadata (tx_snapshot t)))
        \<and> as_chain (tx_snapshot t') = as_chain (tx_snapshot t)
        \<and> am_journal (as_metadata (tx_snapshot t')) = am_journal (as_metadata (tx_snapshot t))
        \<and> copy_ok (ho_crypto H) (ho_codec H) (tx_copy t') \<and> \<not> ar_uncertain (wc_store (tx_copy t'))"
proof -
  let ?sn = "tx_snapshot t"
  note run' = authorized_bind [OF run [unfolded receive_copy_def]]
  show "authorize (ho_crypto H) (tx_copy t) peer = Ok ()" using run' by blast
  show a: "announced ?sn descriptor" using run' by (auto simp: Let_def split: if_splits)
  have "\<not> \<not> announced ?sn descriptor" using a by simp
  note body = run' [THEN conjunct2, unfolded Let_def if_not_P [OF this]]
  obtain object t1 where o: "receive_in (ho_crypto H) (ac_envelope (ho_codec H)) object_read input descriptor (as_chain ?sn) = Ok object"
    and step: "(if bt_contains (am_objects (as_metadata ?sn)) (co_digest descriptor) then pureS (Ok ())
        else bindS (pureS (storageS (insert_object (snapshot_candidate ?sn) object))) (\<lambda>candidate.
          advance H ?sn candidate (as_chain ?sn) (am_journal (as_metadata ?sn)))) t = (Ok (), t1)"
    and last: "k = co_digest descriptor" "t' = t1\<lparr>tx_events := tx_events t1 @ [Received d k]\<rparr>"
    using body unfolding bindS_Ok [of _ "\<lambda>object. bindS (_ object) _"] bindS_Ok [of "pureS _"] bindS_Ok [of "if _ then _ else _"]
      bindS_Ok [of "send _"] pureS_iff storageS_def map_errR_Inr send_def by (auto split del: if_split)
  show "k = co_digest descriptor" by (rule last(1))
  have "tx_events t1 = tx_events t \<and> (if bt_contains (am_objects (as_metadata (tx_snapshot t))) k then tx_copy t1 = tx_copy t
      else am_objects (as_metadata (tx_snapshot t1)) = fmupd k descriptor (am_objects (as_metadata (tx_snapshot t)))
        \<and> as_chain (tx_snapshot t1) = as_chain (tx_snapshot t)
        \<and> am_journal (as_metadata (tx_snapshot t1)) = am_journal (as_metadata (tx_snapshot t))
        \<and> copy_ok (ho_crypto H) (ho_codec H) (tx_copy t1) \<and> \<not> ar_uncertain (wc_store (tx_copy t1)))"
  proof (cases "bt_contains (am_objects (as_metadata ?sn)) (co_digest descriptor)")
    case True
    then show ?thesis using step last(1) by simp
  next
    case False
    then obtain cand where c: "insert_object (snapshot_candidate ?sn) object = Ok cand"
      "advance H ?sn cand (as_chain ?sn) (am_journal (as_metadata ?sn)) t = (Ok (), t1)"
      using step unfolding bindS_Ok if_not_P [OF False] pureS_iff storageS_def map_errR_Inr by blast
    note adv = advance_ok [OF laws ok c(2)]
    show ?thesis
      using False adv(1-5,7) inserted_descriptors [OF c(1)] received_descriptor [OF o] last(1) by simp
  qed
  then show "tx_events t' = tx_events t @ [Received d k]"
    "if bt_contains (am_objects (as_metadata (tx_snapshot t))) k then tx_copy t' = tx_copy t
      else am_objects (as_metadata (tx_snapshot t')) = fmupd k descriptor (am_objects (as_metadata (tx_snapshot t)))
        \<and> as_chain (tx_snapshot t') = as_chain (tx_snapshot t)
        \<and> am_journal (as_metadata (tx_snapshot t')) = am_journal (as_metadata (tx_snapshot t))
        \<and> copy_ok (ho_crypto H) (ho_codec H) (tx_copy t') \<and> \<not> ar_uncertain (wc_store (tx_copy t'))"
    using last(2) by simp_all
qed

lemma object_available:
  assumes "copy_ok K C c" and "\<not> ar_uncertain (wc_store c)"
    and d: "fmlookup (am_objects (as_metadata (ar_snapshot (wc_store c)))) key = Some d"
  shows "\<exists>obj. snapshot_object K C (ar_snapshot (wc_store c)) key = Ok obj \<and> sha256 K (eo_file obj) = key
    \<and> eo_descriptor obj = d"
proof -
  let ?s = "ar_snapshot (wc_store c)"
  obtain p where "from_source K C (as_file ?s) p = Ok ?s"
    using assms(1,2) by (auto simp: copy_ok_def writer_ok_def target_def opens_def)
  from opened_reader [OF this d] obtain sec r where r: "snapshot_reader ?s key = Ok r" "object_content r = (sec, None)"
    "section_ok K C (sm_body (am_manifest (as_metadata ?s))) (as_chain ?s) (key, d) sec"
    "length sec \<le> MAX_ARCHIVE" "key = co_digest d"
    by blast
  obtain obj where obj: "receive_in K (ac_envelope C) object_read r d (as_chain ?s) = Ok obj"
    "eo_file obj = sec" "eo_descriptor obj = d"
    using section_received [OF r(3,2,4,5)] by blast
  have "snapshot_object K C ?s key = Ok obj" using obj(1) r(1) d by (simp add: snapshot_object_def)
  moreover have "sha256 K (eo_file obj) = key" using r(3) obj(2) by (simp add: section_ok_def)
  ultimately show ?thesis using obj(3) by blast
qed

text \<open>
  C23: A transfer that succeeds came from an admitted peer of a copy that is not frozen and
  brought exactly an object that the copy's manifest or a recorded offer announced. If the
  copy did not hold it, the new generation holds it under its digest beside everything it held
  before, under the same chain and journal, on stable storage, and serves it back verified; if
  it did, nothing but the announcement is repeated.
\<close>

theorem received_object_kept:
  assumes "archive_codec_laws (ho_codec H)" and "coordinator_ok H s"
    and "receive H peer d descriptor input s = (Ok k, s')"
  shows "k = co_digest descriptor \<and> cn_events s' = cn_events s @ [Received d k] \<and> (\<exists>c c'. served H peer d s c
    \<and> announced (ar_snapshot (wc_store c)) descriptor \<and> cn_copies s' = fmupd d c' (cn_copies s)
    \<and> (if bt_contains (am_objects (as_metadata (ar_snapshot (wc_store c)))) k then c' = c
       else am_objects (as_metadata (ar_snapshot (wc_store c')))
              = fmupd k descriptor (am_objects (as_metadata (ar_snapshot (wc_store c))))
         \<and> as_chain (ar_snapshot (wc_store c')) = as_chain (ar_snapshot (wc_store c))
         \<and> am_journal (as_metadata (ar_snapshot (wc_store c'))) = am_journal (as_metadata (ar_snapshot (wc_store c)))
         \<and> \<not> ar_uncertain (wc_store c') \<and> writer_ok (ho_crypto H) (ho_codec H) (wc_store c')
         \<and> (\<exists>obj. snapshot_object (ho_crypto H) (ho_codec H) (ar_snapshot (wc_store c')) k = Ok obj
              \<and> sha256 (ho_crypto H) (eo_file obj) = k \<and> eo_descriptor obj = descriptor)))"
proof -
  obtain c t where c: "fmlookup (cn_copies s) d = Some c"
    and run: "receive_copy H peer d descriptor input \<lparr>tx_copy = c, tx_events = cn_events s\<rparr> = (Ok k, t)"
    and s': "s' = s\<lparr>cn_copies := fmupd d (tx_copy t) (cn_copies s), cn_events := tx_events t\<rparr>"
    using assms(3) unfolding receive_def by (rule at_copy_Ok)
  have ok: "copy_ok (ho_crypto H) (ho_codec H) c" using assms(2) c by (auto simp: coordinator_ok_iff)
  note r = receive_ok [OF assms(1) _ run, simplified, OF ok]
  have "served H peer d s c" using authorized_served [OF c, of "ho_crypto H"] r(2) by blast
  moreover have "\<not> bt_contains (am_objects (as_metadata (ar_snapshot (wc_store c)))) k \<Longrightarrow>
      writer_ok (ho_crypto H) (ho_codec H) (wc_store (tx_copy t))
      \<and> (\<exists>obj. snapshot_object (ho_crypto H) (ho_codec H) (ar_snapshot (wc_store (tx_copy t))) k = Ok obj
              \<and> sha256 (ho_crypto H) (eo_file obj) = k \<and> eo_descriptor obj = descriptor)"
    using r(5) object_available [of "ho_crypto H" "ho_codec H" "tx_copy t" k descriptor] by (simp add: copy_ok_def)
  ultimately show ?thesis
    using r(1,3,4,5) s' by (intro conjI exI [of _ c] exI [of _ "tx_copy t"]) (simp_all split: if_splits)
qed

subsection \<open>Repeated offers\<close>

lemma verified_root:
  assumes "metadata_verify K C m r = Ok inc"
  shows "chain_root K inc = Ok r"
  using metadata_verify_root(1,2) [OF assms] by (auto simp: chain_root_def)

lemma reconcile_again:
  assumes "chain_root K old = Ok r" and "chain_root K inc = Ok r" and "reconcile K old inc = Ok ch"
  shows "chain_root K ch = Ok r" and "reconcile K ch inc = Ok ch" and "prefix old ch" and "prefix inc ch"
proof -
  have p: "prefix old inc \<or> prefix inc old" and ch: "ch = (if length old < length inc then inc else old)"
    using assms(3) unfolding reconcile_same_root [OF assms(1,2)] by (auto split: if_splits)
  show r: "chain_root K ch = Ok r" using ch assms(1,2) by simp
  show "prefix old ch" "prefix inc ch" using p ch prefix_length_le by (auto dest: prefix_length_prefix [OF prefix_order.refl])
  then show "reconcile K ch inc = Ok ch" unfolding reconcile_same_root [OF r assms(2)] using prefix_length_le leD by metis
qed

lemma offer_copy_eq:
  assumes "authorize (ho_crypto H) (tx_copy t) peer = Ok ()" and "chain_root (ho_crypto H) (as_chain (tx_snapshot t)) = Ok r"
    and "metadata_verify (ho_crypto H) (ho_codec H) m r = Ok inc"
  shows "offer_copy H peer m t =
    (if aj_forks (am_journal m) \<noteq> [] then offered_forks H m inc (tx_snapshot t) t
     else case reconcile (ho_crypto H) (as_chain (tx_snapshot t)) inc of
         Inr ch \<Rightarrow> accept_offer H m (tx_snapshot t) ch t
       | Inl e \<Rightarrow> if e = Fork then forked_offer H m (tx_snapshot t) t else (Err (TrustErr e), t))"
  using assms
  by (simp add: offer_copy_def Let_def bindS_def authorize_peer_def pureS_def trustS_def storageS_def split: sum.split)

lemma offer_accepted:
  assumes "offer_copy H peer m t = (Ok reply, t')"
  obtains r inc ch where "authorize (ho_crypto H) (tx_copy t) peer = Ok ()"
    and "chain_root (ho_crypto H) (as_chain (tx_snapshot t)) = Ok r"
    and "metadata_verify (ho_crypto H) (ho_codec H) m r = Ok inc" and "aj_forks (am_journal m) = []"
    and "reconcile (ho_crypto H) (as_chain (tx_snapshot t)) inc = Ok ch"
    and "accept_offer H m (tx_snapshot t) ch t = (Ok reply, t')"
proof -
  have a: "authorize (ho_crypto H) (tx_copy t) peer = Ok ()" by (rule offer_reply(1) [OF assms])
  obtain r inc where r: "chain_root (ho_crypto H) (as_chain (tx_snapshot t)) = Ok r"
    "metadata_verify (ho_crypto H) (ho_codec H) m r = Ok inc"
    using authorized_bind [OF assms [unfolded offer_copy_def]] unfolding Let_def bindS_Ok pureS_iff trustS_def storageS_def map_errR_Inr
    by blast
  have "\<not> offered_forks H m inc (tx_snapshot t) t = (Ok reply, t')" "\<not> forked_offer H m (tx_snapshot t) t = (Ok reply, t')"
    by (auto simp: offered_forks_def forked_offer_def Let_def bindS_Ok split: prod.splits)
  then show thesis
    using that [OF a r] assms unfolding offer_copy_eq [OF a r] by (auto split: if_splits sum.splits)
qed

lemma notify_frame: "notify_control H d old new t = (r, t') \<Longrightarrow> tx_copy t' = tx_copy t"
  by (auto simp: notify_control_def bindS_cases send_def split: if_splits)

lemma accept_repeat:
  assumes laws: "archive_codec_laws (ho_codec H)" and ok: "copy_ok (ho_crypto H) (ho_codec H) (tx_copy t)"
    and run: "accept_offer H m (tx_snapshot t) ch t = (Ok reply, t')" and forks: "aj_forks (am_journal m) = []"
  shows "as_chain (tx_snapshot t') = ch" and "wc_frozen (tx_copy t') = wc_frozen (tx_copy t)"
    and "tx_snapshot t'' = tx_snapshot t' \<Longrightarrow> accept_offer H m (tx_snapshot t') ch t'' = (Ok reply, t'')"
proof -
  let ?sn = "tx_snapshot t"
  let ?need = "needed_objects m ?sn"
  have reply: "reply = Needed ?need" using run by (auto simp: accept_offer_def Let_def bindS_Ok split: if_splits)
  have "as_chain (tx_snapshot t') = ch \<and> wc_frozen (tx_copy t') = wc_frozen (tx_copy t)
    \<and> (tx_snapshot t'' = tx_snapshot t' \<longrightarrow> accept_offer H m (tx_snapshot t') ch t'' = (Ok reply, t''))"
  proof (cases "?need = {||} \<and> ch = as_chain ?sn")
    case True
    then show ?thesis using run forks reply by (auto simp: accept_offer_def Let_def)
  next
    case False
    obtain key where key: "manifest_id (ho_crypto H) (of_manifest (metadata_offer m)) = Ok key"
      using run False unfolding accept_offer_def Let_def by (auto simp: bindS_Ok trustS_def split: if_splits)
    let ?j = "am_journal (as_metadata ?sn)"
    let ?j' = "?j\<lparr>aj_offers := fmupd key (metadata_offer m) (aj_offers ?j)\<rparr>"
    have step: "accept_offer H m (tx_snapshot u) ch u =
      (if fmlookup (aj_offers (am_journal (as_metadata (tx_snapshot u)))) key = Some (metadata_offer m) \<and> ch = as_chain (tx_snapshot u)
       then (Ok (Needed (needed_objects m (tx_snapshot u))), u)
       else bindS (advance H (tx_snapshot u) (snapshot_candidate (tx_snapshot u)) ch
              ((am_journal (as_metadata (tx_snapshot u)))\<lparr>aj_offers := fmupd key (metadata_offer m)
                 (aj_offers (am_journal (as_metadata (tx_snapshot u))))\<rparr>)) (\<lambda>_ t.
         bindS (notify_control H (c_database (head (as_chain (tx_snapshot u)))) (tx_snapshot u) (tx_snapshot t)) (\<lambda>_.
         pureS (Ok (Needed (needed_objects m (tx_snapshot u))))) t) u)"
      if "\<not> (needed_objects m (tx_snapshot u) = {||} \<and> ch = as_chain (tx_snapshot u))" for u
      using that forks key by (auto simp: accept_offer_def Let_def bindS_def pureS_def trustS_def)
    show ?thesis
    proof (cases "fmlookup (aj_offers ?j) key = Some (metadata_offer m) \<and> ch = as_chain ?sn")
      case True
      then have t': "t' = t" using run step [OF False] by simp
      have "accept_offer H m (tx_snapshot t') ch t'' = (Ok reply, t'')" if same: "tx_snapshot t'' = tx_snapshot t'"
        using step [of t''] False True reply unfolding same t' by simp
      then show ?thesis using True t' by simp
    next
      case changed: False
      obtain u t1 where adv: "advance H ?sn (snapshot_candidate ?sn) ch ?j' t = (Ok (), t1)" and n: "tx_copy t' = tx_copy t1"
        using run changed unfolding step [OF False] by (auto simp: bindS_Ok split: if_splits dest!: notify_frame)
      note facts = advance_ok [OF laws ok adv]
      have new: "as_chain (tx_snapshot t') = ch" "am_journal (as_metadata (tx_snapshot t')) = ?j'"
        "am_objects (as_metadata (tx_snapshot t')) = am_objects (as_metadata ?sn)"
        using facts(1-3) n by simp_all
      then have need: "needed_objects m (tx_snapshot t') = ?need" by (simp add: needed_objects_def)
      have "accept_offer H m (tx_snapshot t') ch t'' = (Ok reply, t'')" if same: "tx_snapshot t'' = tx_snapshot t'"
      proof (cases "?need = {||}")
        case True
        then show ?thesis using forks new(1) need reply by (simp add: accept_offer_def Let_def)
      next
        case ne: False
        then show ?thesis using step [of t''] new need reply unfolding same by simp
      qed
      then show ?thesis using new(1) facts(6) n by simp
    qed
  qed
  then show "as_chain (tx_snapshot t') = ch" "wc_frozen (tx_copy t') = wc_frozen (tx_copy t)"
    "tx_snapshot t'' = tx_snapshot t' \<Longrightarrow> accept_offer H m (tx_snapshot t') ch t'' = (Ok reply, t'')"
    by blast+
qed

lemma authorize_cases:
  assumes "fmlookup (cn_copies s) d = Some c" and "\<not> wc_frozen c"
  shows "authorize K c peer = (if \<exists>c. served H peer d s c then Ok () else Err (TrustErr Unauthorized))"
proof (cases "admit_transport (as_chain (ar_snapshot (wc_store c))) peer")
  case (Inr dev)
  then show ?thesis using assms admitted_member by (auto simp: authorize_def served_def trustS_def)
next
  case (Inl e)
  then have "e = Unauthorized" by (auto simp: admit_transport_def ok_or_def split: option.splits)
  moreover have "id_transport (m_identity m) \<noteq> peer" if "m \<in> fmran' (c_members (head (as_chain (ar_snapshot (wc_store c)))))" for m
  proof
    assume "id_transport (m_identity m) = peer"
    moreover have "m \<in> set (bt_values (c_members (head (as_chain (ar_snapshot (wc_store c))))))"
      using that by (simp add: fmlookup_ran'_iff set_bt_values)
    ultimately show False using Inl by (auto simp: admit_transport_def ok_or_def find_None_iff split: option.splits)
  qed
  ultimately show ?thesis using Inl assms by (auto simp: authorize_def served_def trustS_def)
qed

text \<open>
  C20: Exchange of manifests ends. After an accepted offer the copy's chain extends the offered
  one, the answer names exactly the offered objects the copy lacks, and the same offer again,
  at any time, gets the same answer and changes nothing, where the peer is still a member
  under the chain it just taught the copy, and is refused without effect where it no longer is.
\<close>

theorem repeated_offer:
  assumes laws: "archive_codec_laws (ho_codec H)" and ok: "coordinator_ok H s"
    and run: "handle_command H now peer (OfferCommand m) s = (Ok r, s')"
  shows "handle_command H now' peer (OfferCommand m) s'
      = (if \<exists>c. served H peer (mf_database (sm_body (am_manifest m))) s' c then Ok r else Err (TrustErr Unauthorized), s')
    \<and> (\<exists>c'. fmlookup (cn_copies s') (mf_database (sm_body (am_manifest m))) = Some c'
         \<and> prefix (am_controls m) (as_chain (ar_snapshot (wc_store c')))
         \<and> r = Needed (ffilter (\<lambda>k. fmlookup (am_objects (as_metadata (ar_snapshot (wc_store c')))) k = None) (fmdom (am_objects m))))"
proof -
  let ?d = "mf_database (sm_body (am_manifest m))"
  obtain c t where c: "fmlookup (cn_copies s) ?d = Some c"
    and offer: "offer_copy H peer m \<lparr>tx_copy = c, tx_events = cn_events s\<rparr> = (Ok r, t)"
    and s': "s' = s\<lparr>cn_copies := fmupd ?d (tx_copy t) (cn_copies s), cn_events := tx_events t\<rparr>"
    using run unfolding handle_command_def command.case by (rule at_copy_Ok)
  let ?t = "\<lparr>tx_copy = c, tx_events = cn_events s\<rparr>"
  have k: "copy_ok (ho_crypto H) (ho_codec H) (tx_copy ?t)" using ok c by (auto simp: coordinator_ok_iff)
  obtain root inc ch where a: "authorize (ho_crypto H) (tx_copy ?t) peer = Ok ()"
    "chain_root (ho_crypto H) (as_chain (tx_snapshot ?t)) = Ok root"
    "metadata_verify (ho_crypto H) (ho_codec H) m root = Ok inc" "aj_forks (am_journal m) = []"
    "reconcile (ho_crypto H) (as_chain (tx_snapshot ?t)) inc = Ok ch"
    "accept_offer H m (tx_snapshot ?t) ch ?t = (Ok r, t)"
    using offer by (rule offer_accepted)
  note again = accept_repeat [OF laws k a(6,4)]
  note merged = reconcile_again [OF a(2) verified_root [OF a(3)] a(5)]
  have c': "fmlookup (cn_copies s') ?d = Some (tx_copy t)" "\<not> wc_frozen (tx_copy t)"
    using s' again(2) a(1) by (auto simp: authorize_def split: if_splits)
  have need: "r = Needed (needed_objects m (tx_snapshot t))"
  proof -
    have "accept_offer H m (tx_snapshot t) ch t = (Ok r, t)" by (rule again(3)) simp
    then show ?thesis by (auto simp: accept_offer_def Let_def bindS_Ok split: if_splits)
  qed
  have "handle_command H now' peer (OfferCommand m) s'
      = (if \<exists>c. served H peer ?d s' c then Ok r else Err (TrustErr Unauthorized), s')"
  proof (cases "\<exists>c. served H peer ?d s' c")
    case True
    then have auth: "authorize (ho_crypto H) (tx_copy t) peer = Ok ()" using authorize_cases [OF c', of "ho_crypto H" peer H] by simp
    have "offer_copy H peer m \<lparr>tx_copy = tx_copy t, tx_events = es\<rparr> = (Ok r, \<lparr>tx_copy = tx_copy t, tx_events = es\<rparr>)" for es
      using offer_copy_eq [of H "\<lparr>tx_copy = tx_copy t, tx_events = es\<rparr>" peer root m inc] auth a(3,4) merged(1,2) again(1)
        again(3) [of "\<lparr>tx_copy = tx_copy t, tx_events = es\<rparr>"]
      by simp
    moreover have "fmupd ?d (tx_copy t) (cn_copies s') = cn_copies s'" using c'(1) by (intro fmap_ext) auto
    ultimately show ?thesis using True c'(1) by (simp add: handle_command_def at_copy_def)
  next
    case False
    then have "authorize (ho_crypto H) (tx_copy t) peer = Err (TrustErr Unauthorized)"
      using authorize_cases [OF c', of "ho_crypto H" peer H] by simp
    then have "at_copy UnauthorizedErr ?d (offer_copy H peer m) s' = (Err (TrustErr Unauthorized), s')"
      using c'(1) by (intro at_copy_refused) (auto simp: offer_copy_def bindS_def authorize_peer_def)
    then show ?thesis using False by (simp add: handle_command_def)
  qed
  moreover have "prefix (am_controls m) (as_chain (tx_snapshot t))"
    using merged(4) again(1) metadata_verify_root(2) [OF a(3)] by simp
  ultimately show ?thesis using c'(1) need by (auto simp: needed_objects_def bt_contains_def)
qed

subsection \<open>Contradictions\<close>

lemma advance_frame:
  "advance H sn cand ch j t = (r, t') \<Longrightarrow> wc_frozen (tx_copy t') = wc_frozen (tx_copy t) \<and> tx_events t' = tx_events t"
  by (auto simp: advance_def bindS_cases dest: on_store_frame)

lemma storage_errors:
  "storageS x = Inl e \<Longrightarrow> \<exists>y. e = StorageErr y" "on_store w t = (Inl e, t') \<Longrightarrow> \<exists>y. e = StorageErr y"
  "next_body sn = Inl e \<Longrightarrow> e = StateErr"
  by (auto simp: storageS_def map_errR_def on_store_def next_body_def Let_def ok_or_def bindR_Inl
      split: sum.splits prod.splits option.splits)

lemma advance_error:
  assumes "advance H sn cand ch j t = (Err e, t')"
  shows "e \<noteq> TrustErr x"
  using assms by (auto simp: advance_def bindS_cases dest!: storage_errors dest: sym)

lemma report_fork_Ok:
  assumes "verify_fork K pinned inc records = Ok ()" and "chain_root K common = Ok pinned"
  shows "report_fork K common journal records = Ok (if reconcile K common records = Err Fork then add_fork records journal else journal)"
  using assms by (auto simp: report_fork_def verify_fork_def trustS_def trustR_def validate_Ok split: if_splits)

lemma add_fork_forks: "set (aj_forks (add_fork records journal)) = insert records (set (aj_forks journal))"
  by (auto simp: add_fork_def)

lemma report_forks:
  assumes "\<forall>f \<in> set fs. verify_fork K pinned inc f = Ok ()" and "chain_root K common = Ok pinned"
  shows "\<exists>j'. foldR (report_fork K common) j fs = Ok j' \<and> set (aj_forks j')
    = set (aj_forks j) \<union> {f \<in> set fs. reconcile K common f = Err Fork}"
  using assms(1)
proof (induction fs arbitrary: j)
  case (Cons f fs)
  then have rest: "\<exists>j'. foldR (report_fork K common) j fs = Ok j'
      \<and> set (aj_forks j') = set (aj_forks j) \<union> {f \<in> set fs. reconcile K common f = Err Fork}" for j
    by simp
  have step: "foldR (report_fork K common) j (f # fs)
      = foldR (report_fork K common) (if reconcile K common f = Err Fork then add_fork f j else j) fs"
    using report_fork_Ok [OF _ assms(2), of inc f j] Cons.prems by simp
  show ?case
  proof (cases "reconcile K common f = Err Fork")
    case True
    then show ?thesis unfolding step using rest [of "add_fork f j"] by (auto simp: add_fork_forks)
  next
    case False
    then have "{g \<in> set (f # fs). reconcile K common g = Err Fork} = {g \<in> set fs. reconcile K common g = Err Fork}" by auto
    then show ?thesis unfolding step using False rest [of j] by simp
  qed
qed simp

lemma fork_persists:
  assumes "chain_root K inc = Ok r" and "chain_root K ch = Ok r" and "prefix inc ch" and "reconcile K inc f = Err Fork"
  shows "reconcile K ch f = Err Fork"
proof -
  have f: "chain_root K f = Ok r"
    using assms(1,4) reconcile_other [of K inc f] by (cases "chain_root K f") (auto simp: reconcile_def split: if_splits)
  then show ?thesis
    using assms(3,4) prefix_same_cases [of inc ch f] prefix_order.trans [of inc ch f]
    unfolding reconcile_same_root [OF assms(1) f] reconcile_same_root [OF assms(2) f] by (auto split: if_splits)
qed

text \<open>What both ways of recording a contradiction leave behind.\<close>

definition recorded :: "host \<Rightarrow> database_id \<Rightarrow> signed_control list set \<Rightarrow> transaction \<Rightarrow> sync_error + reply \<Rightarrow> transaction \<Rightarrow> bool" where
  "recorded H d evidence t r t' \<longleftrightarrow> (\<exists>e. r = Err e \<and> wc_frozen (tx_copy t') \<and> tx_events t' = tx_events t @ [Frozen d]
     \<and> (e = TrustErr Fork \<longrightarrow> evidence \<subseteq> set (aj_forks (am_journal (as_metadata (tx_snapshot t'))))
          \<and> am_objects (as_metadata (tx_snapshot t')) = am_objects (as_metadata (tx_snapshot t))
          \<and> \<not> ar_uncertain (wc_store (tx_copy t'))))"

lemma recordedI:
  assumes laws: "archive_codec_laws (ho_codec H)" and ok: "copy_ok (ho_crypto H) (ho_codec H) (tx_copy t)"
    and j: "evidence \<subseteq> set (aj_forks j)"
    and run: "bindS freeze (\<lambda>_. bindS (send (Frozen d)) (\<lambda>_.
      bindS (advance H (tx_snapshot t) (snapshot_candidate (tx_snapshot t)) ch j) (\<lambda>_. pureS (Err (TrustErr Fork))))) t = (r, t')"
  shows "recorded H d evidence t r t'"
proof -
  let ?t = "t\<lparr>tx_copy := (tx_copy t)\<lparr>wc_frozen := True\<rparr>, tx_events := tx_events t @ [Frozen d]\<rparr>"
  obtain x t1 where adv: "advance H (tx_snapshot t) (snapshot_candidate (tx_snapshot t)) ch j ?t = (x, t1)" by fastforce
  have t': "t' = t1" "r = (case x of Inl e \<Rightarrow> Err e | Inr _ \<Rightarrow> Err (TrustErr Fork))"
    using run adv by (auto simp: bindS_def freeze_def send_def pureS_def split: sum.splits)
  have frame: "wc_frozen (tx_copy t1)" "tx_events t1 = tx_events t @ [Frozen d]" using advance_frame [OF adv] by simp_all
  have k: "copy_ok (ho_crypto H) (ho_codec H) (tx_copy ?t)" using ok by (simp add: copy_ok_def)
  show ?thesis
  proof (cases x)
    case (Inl e)
    then have "e \<noteq> TrustErr Fork" using advance_error adv by blast
    then show ?thesis using t' frame Inl by (simp add: recorded_def)
  next
    case (Inr u)
    then have "advance H (tx_snapshot t) (snapshot_candidate (tx_snapshot t)) ch j ?t = (Ok (), t1)" using adv by simp
    from advance_ok [OF laws k this] show ?thesis using t' frame Inr j by (auto simp: recorded_def)
  qed
qed

lemma contradiction_recorded:
  assumes laws: "archive_codec_laws (ho_codec H)" and ok: "copy_ok (ho_crypto H) (ho_codec H) (tx_copy t)"
    and a: "authorize (ho_crypto H) (tx_copy t) peer = Ok ()" "chain_root (ho_crypto H) (as_chain (tx_snapshot t)) = Ok pinned"
      "metadata_verify (ho_crypto H) (ho_codec H) m pinned = Ok inc"
    and contra: "aj_forks (am_journal m) \<noteq> [] \<or> reconcile (ho_crypto H) (as_chain (tx_snapshot t)) inc = Err Fork"
    and run: "offer_copy H peer m t = (r, t')"
  shows "recorded H (mf_database (sm_body (am_manifest m)))
    (if reconcile (ho_crypto H) (as_chain (tx_snapshot t)) inc = Err Fork then {am_controls m} else set (aj_forks (am_journal m))) t r t'"
proof (cases "aj_forks (am_journal m) = []")
  case True
  then have "forked_offer H m (tx_snapshot t) t = (r, t')" "reconcile (ho_crypto H) (as_chain (tx_snapshot t)) inc = Err Fork"
    using contra run unfolding offer_copy_eq [OF a] by simp_all
  then show ?thesis
    unfolding forked_offer_def by (intro recordedI [OF laws ok]) (auto simp: add_fork_forks)
next
  case False
  let ?K = "ho_crypto H" and ?sn = "tx_snapshot t"
  let ?j = "am_journal (as_metadata ?sn)"
  have run': "offered_forks H m inc ?sn t = (r, t')" using False run unfolding offer_copy_eq [OF a] by simp
  have forks: "\<forall>f \<in> set (aj_forks (am_journal m)). verify_fork ?K pinned inc f = Ok ()"
    using a(3) metadata_verify_root(2,3) [OF a(3)] by (auto simp: metadata_verify_def Let_def trustR_def split: if_splits)
  note inc = verified_root [OF a(3)]
  obtain common j where base: "(case reconcile ?K (as_chain ?sn) inc of
         Inr ch \<Rightarrow> Ok (ch, ?j)
       | Inl e \<Rightarrow> if e = Fork then Ok (as_chain ?sn, add_fork (am_controls m) ?j) else Err (TrustErr e)) = Ok (common, j)"
    and common: "chain_root ?K common = Ok pinned"
    and first: "reconcile ?K (as_chain ?sn) inc = Err Fork \<Longrightarrow> am_controls m \<in> set (aj_forks j)"
    and longer: "reconcile ?K (as_chain ?sn) inc \<noteq> Err Fork \<Longrightarrow> prefix inc common"
  proof (cases "reconcile ?K (as_chain ?sn) inc")
    case (Inl e)
    then have "e = Fork" unfolding reconcile_same_root [OF a(2) inc] by (simp split: if_splits)
    then show thesis using Inl a(2) that [of "as_chain ?sn" "add_fork (am_controls m) ?j"] by (simp add: add_fork_forks)
  next
    case (Inr ch)
    then show thesis using reconcile_again [OF a(2) inc Inr] that [of ch ?j] by simp
  qed
  obtain j' where j': "foldR (report_fork ?K common) j (aj_forks (am_journal m)) = Ok j'"
    "set (aj_forks j') = set (aj_forks j) \<union> {f \<in> set (aj_forks (am_journal m)). reconcile ?K common f = Err Fork}"
    using report_forks [OF forks common] by blast
  have "f \<in> set (aj_forks j')" if "f \<in> set (aj_forks (am_journal m))" "reconcile ?K (as_chain ?sn) inc \<noteq> Err Fork" for f
  proof -
    have "reconcile ?K inc f = Err Fork"
      using forks that(1) by (auto simp: verify_fork_def trustR_def validate_Ok split: if_splits)
    then have "reconcile ?K common f = Err Fork" using fork_persists [OF inc common longer [OF that(2)]] by blast
    then show ?thesis using j'(2) that(1) by blast
  qed
  moreover have "am_controls m \<in> set (aj_forks j')" if "reconcile ?K (as_chain ?sn) inc = Err Fork"
    using first [OF that] j'(2) by blast
  moreover have "bindS freeze (\<lambda>_. bindS (send (Frozen (mf_database (sm_body (am_manifest m))))) (\<lambda>_.
      bindS (advance H ?sn (snapshot_candidate ?sn) common j') (\<lambda>_. pureS (Err (TrustErr Fork))))) t = (r, t')"
    using run' j'(1) unfolding offered_forks_def Let_def base by (simp add: bindS_def pureS_def freeze_def send_def)
  ultimately show ?thesis by (intro recordedI [OF laws ok]) auto
qed

text \<open>
  C21: An offer of an admitted peer that is authentic and contradicts the copy (its chain forks
  the copy's, or it carries evidence of a fork) is always answered with an error, freezes the
  copy and announces it, whatever the disk does. Where the answer is the fork itself the
  evidence is part of the new generation, no object is lost, and a coordinator that registers
  the copy later finds it frozen.
\<close>

theorem contradiction_freezes:
  fixes m :: archive_metadata
  defines "d \<equiv> mf_database (sm_body (am_manifest m))"
  assumes "archive_codec_laws (ho_codec H)" and "coordinator_ok H s" and "fmlookup (cn_copies s) d = Some c"
    and "authorize (ho_crypto H) c peer = Ok ()" and "chain_root (ho_crypto H) (as_chain (ar_snapshot (wc_store c))) = Ok pinned"
    and "metadata_verify (ho_crypto H) (ho_codec H) m pinned = Ok inc"
    and "aj_forks (am_journal m) \<noteq> [] \<or> reconcile (ho_crypto H) (as_chain (ar_snapshot (wc_store c))) inc = Err Fork"
    and "handle_command H now peer (OfferCommand m) s = (r, s')"
  shows "\<exists>e c'. r = Err e \<and> cn_copies s' = fmupd d c' (cn_copies s) \<and> wc_frozen c'
    \<and> cn_events s' = cn_events s @ [Frozen d]
    \<and> (e = TrustErr Fork \<longrightarrow>
        (if reconcile (ho_crypto H) (as_chain (ar_snapshot (wc_store c))) inc = Err Fork
         then am_controls m \<in> set (aj_forks (am_journal (as_metadata (ar_snapshot (wc_store c')))))
         else set (aj_forks (am_journal m)) \<subseteq> set (aj_forks (am_journal (as_metadata (ar_snapshot (wc_store c'))))))
        \<and> am_objects (as_metadata (ar_snapshot (wc_store c'))) = am_objects (as_metadata (ar_snapshot (wc_store c)))
        \<and> (\<exists>key c2 s2. register (wc_store c') coordinator_new = (Ok (), s2) \<and> cn_copies s2 = fmupd key c2 fmempty \<and> wc_frozen c2))"
proof -
  obtain t' where run: "offer_copy H peer m \<lparr>tx_copy = c, tx_events = cn_events s\<rparr> = (r, t')"
    and s': "s' = s\<lparr>cn_copies := fmupd d (tx_copy t') (cn_copies s), cn_events := tx_events t'\<rparr>"
    using assms(4,9) unfolding d_def by (auto simp: handle_command_def at_copy_def split: prod.splits)
  have ok: "copy_ok (ho_crypto H) (ho_codec H) (tx_copy \<lparr>tx_copy = c, tx_events = cn_events s\<rparr>)"
    using assms(3,4) by (auto simp: coordinator_ok_iff)
  let ?t = "\<lparr>tx_copy = c, tx_events = cn_events s\<rparr>"
  have "recorded H d (if reconcile (ho_crypto H) (as_chain (tx_snapshot ?t)) inc = Err Fork then {am_controls m}
      else set (aj_forks (am_journal m))) ?t r t'"
    unfolding d_def by (rule contradiction_recorded [OF assms(2) ok _ _ assms(7) _ run]) (use assms in simp_all)
  then obtain e where e: "r = Err e" "wc_frozen (tx_copy t')" "tx_events t' = cn_events s @ [Frozen d]"
    and saved: "e = TrustErr Fork \<Longrightarrow>
      (if reconcile (ho_crypto H) (as_chain (ar_snapshot (wc_store c))) inc = Err Fork then {am_controls m}
       else set (aj_forks (am_journal m))) \<subseteq> set (aj_forks (am_journal (as_metadata (tx_snapshot t'))))
      \<and> am_objects (as_metadata (tx_snapshot t')) = am_objects (as_metadata (ar_snapshot (wc_store c)))"
    by (auto simp: recorded_def)
  have "aj_forks (am_journal (as_metadata (tx_snapshot t'))) \<noteq> []" if "e = TrustErr Fork"
    using saved [OF that] assms(8) by (cases "aj_forks (am_journal m)") (auto split: if_splits)
  then have "\<exists>key c2 s2. register (wc_store (tx_copy t')) coordinator_new = (Ok (), s2)
      \<and> cn_copies s2 = fmupd key c2 fmempty \<and> wc_frozen c2" if "e = TrustErr Fork"
    using that by (intro exI [of _ "c_database (head (as_chain (tx_snapshot t')))"]
        exI [of _ "\<lparr>wc_store = wc_store (tx_copy t'), wc_frozen = True, wc_commit = None\<rparr>"])
      (simp add: register_def coordinator_new_def Let_def bt_contains_def)
  then show ?thesis
    using e saved s' by (intro exI [of _ e] exI [of _ "tx_copy t'"]) (auto split: if_splits)
qed

subsection \<open>Repeated requests of the worker\<close>

definition calm_disks :: "coordinator \<Rightarrow> coordinator" where
  "calm_disks s = s\<lparr>cn_copies := fmmap (\<lambda>c. c\<lparr>wc_store := calm (wc_store c)\<rparr>) (cn_copies s)\<rparr>"

text \<open>The copy remembers the request and its store the generation it made of it.\<close>

definition remembers :: "host \<Rightarrow> prepared_commit \<Rightarrow> digest \<Rightarrow> working_copy \<Rightarrow> bool" where
  "remembers H q intent c \<longleftrightarrow> (\<exists>receipt. wc_commit c = Some receipt \<and> rc_intent receipt = intent
     \<and> ar_last_commit (wc_store c) = Some (pr_expected q, target (wc_store c))
     \<and> as_metadata (target (wc_store c)) = rc_metadata receipt
     \<and> (ar_anchor (wc_store c) \<longrightarrow> dk_marker (ar_disk (wc_store c))
          \<in> {Some (prepared_marker (pr_expected q) (target (wc_store c))), Some (accepted_marker (target (wc_store c)))}))"

lemma store_commit_remembers:
  assumes laws: "archive_codec_laws C" and ok: "writer_ok K C s" and u: "\<not> ar_uncertain s"
    and run: "store_commit K C e c m s = (r, s')" and r: "r = Ok () \<or> ar_uncertain s'"
  shows "ar_last_commit s' = Some (e, target s')" and "as_metadata (target s') = m"
    and "ar_anchor s' \<longrightarrow> dk_marker (ar_disk s') \<in> {Some (prepared_marker e (target s')), Some (accepted_marker (target s'))}"
    and "generation (target s') \<le> Suc (generation (ar_snapshot s))"
    and "r = Ok () \<Longrightarrow> \<not> ar_uncertain s'"
    and "ar_uncertain s' \<Longrightarrow> r = Err CommitUncertain"
proof -
  have prep: "as_metadata t = m \<and> generation t = Suc (generation (ar_snapshot s))"
    if "prepare K C c m = Ok (content, t)" "commit_checks K C e c m s = Ok ()" for content t
    using succeeds_extends(2,3) [OF laws, of K e c m s t] that by (auto simp: succeeds_def)
  have "r = Ok () \<and> confirmed K C s s' \<and> ar_last_commit s = Some (e, target s) \<and> as_metadata (target s) = m
    \<or> (\<exists>content t. prepare K C c m = Ok (content, t) \<and> commit_checks K C e c m s = Ok ()
        \<and> (r = Ok () \<and> committed K C e content t s s' \<or> r = Err CommitUncertain \<and> in_doubt K C e content t s s'))"
    using wp_run [OF wp_store_commit [OF ok] run] r u
    by (cases r) (auto simp: commit_failed_def confirming_def announcing_def)
  then have "ar_last_commit s' = Some (e, target s') \<and> as_metadata (target s') = m
    \<and> (ar_anchor s' \<longrightarrow> dk_marker (ar_disk s') \<in> {Some (prepared_marker e (target s')), Some (accepted_marker (target s'))})
    \<and> generation (target s') \<le> Suc (generation (ar_snapshot s)) \<and> (r = Ok () \<longrightarrow> \<not> ar_uncertain s')
    \<and> (ar_uncertain s' \<longrightarrow> r = Err CommitUncertain)"
  proof (elim disjE exE conjE)
    assume "confirmed K C s s'" "ar_last_commit s = Some (e, target s)" "as_metadata (target s) = m"
    then show ?thesis using u by (simp add: confirmed_def target_def)
  next
    fix content t
    assume p: "prepare K C c m = Ok (content, t)" "commit_checks K C e c m s = Ok ()"
    show ?thesis if "committed K C e content t s s'"
      using that prep [OF p] by (simp add: committed_def target_def)
    show ?thesis if "in_doubt K C e content t s s'" "r = Err CommitUncertain"
      using that prep [OF p] by (auto simp: in_doubt_def writer_ok_def)
  qed
  then show "ar_last_commit s' = Some (e, target s')" "as_metadata (target s') = m"
    "ar_anchor s' \<longrightarrow> dk_marker (ar_disk s') \<in> {Some (prepared_marker e (target s')), Some (accepted_marker (target s'))}"
    "generation (target s') \<le> Suc (generation (ar_snapshot s))"
    "r = Ok () \<Longrightarrow> \<not> ar_uncertain s'" "ar_uncertain s' \<Longrightarrow> r = Err CommitUncertain"
    by blast+
qed

definition applied :: "host \<Rightarrow> prepared_commit \<Rightarrow> digest \<Rightarrow> transaction \<Rightarrow> sync_error + archive_snapshot \<Rightarrow> transaction \<Rightarrow> bool" where
  "applied H q intent t r t' \<longleftrightarrow> \<not> wc_frozen (tx_copy t') \<and> remembers H q intent (tx_copy t')
     \<and> generation (target (wc_store (tx_copy t'))) \<le> Suc (generation (tx_snapshot t))
     \<and> (\<forall>sn. r = Ok sn \<longrightarrow> sn = target (wc_store (tx_copy t')))"

lemma fresh_applied:
  assumes laws: "archive_codec_laws (ho_codec H)" and ok: "copy_ok (ho_crypto H) (ho_codec H) (tx_copy t)"
    and u: "\<not> ar_uncertain (wc_store (tx_copy t))" and fr: "\<not> wc_frozen (tx_copy t)"
    and run: "commit_fresh H d q intent t = (r, t')" and r: "(\<exists>sn. r = Ok sn) \<or> ar_uncertain (wc_store (tx_copy t'))"
  shows "applied H q intent t r t'"
proof -
  let ?K = "ho_crypto H" and ?C = "ho_codec H" and ?s = "wc_store (tx_copy t)"
  obtain cand m where g: "request_generation H (tx_snapshot t) q = Ok (cand, m)"
    using run r u by (cases "request_generation H (tx_snapshot t) q") (auto simp: commit_fresh_def)
  obtain x s1 where st: "store_commit ?K ?C (pr_expected q) cand m ?s = (x, s1)" by fastforce
  let ?t1 = "t\<lparr>tx_copy := (tx_copy t)\<lparr>wc_store := s1\<rparr>\<rparr>"
  have w: "writer_ok ?K ?C ?s" using ok by (simp add: copy_ok_def)
  have kept: "applied H q intent t r t'"
    if x: "x = Ok () \<or> ar_uncertain s1" and t': "tx_copy t' = tx_copy (keep_receipt intent m b ?t1)"
      and sn: "\<And>sn. r = Ok sn \<Longrightarrow> sn = ar_snapshot s1 \<and> \<not> ar_uncertain s1" for b
    using store_commit_remembers [OF laws w u st x] fr sn t'
    by (auto simp: applied_def remembers_def keep_receipt_def target_def)
  show ?thesis
  proof (cases x)
    case (Inl e)
    have t': "r = Err (StorageErr e)" "t' = (if e = CommitUncertain then keep_receipt intent m True ?t1 else ?t1)"
      using run g st Inl by (auto simp: commit_fresh_def Let_def on_store_def storageS_def)
    then have "ar_uncertain s1" using r by (auto simp: keep_receipt_def split: if_splits)
    then have "e = CommitUncertain" using store_commit_remembers(6) [OF laws w u st] Inl by simp
    then show ?thesis using kept [of True] t' \<open>ar_uncertain s1\<close> by simp
  next
    case (Inr v)
    then have x: "x = Ok ()" by simp
    have "tx_copy t' = tx_copy (keep_receipt intent m False ?t1)" "r = Ok sn \<Longrightarrow> sn = ar_snapshot s1" for sn
      using run g st Inr
      by (auto simp: commit_fresh_def Let_def on_store_def storageS_def bindS_cases send_def keep_receipt_def dest!: notify_frame)
    then show ?thesis using kept [of False] x store_commit_remembers(5) [OF laws w u st _ x] by blast
  qed
qed

lemma commit_applied:
  assumes laws: "archive_codec_laws (ho_codec H)" and ok: "copy_ok (ho_crypto H) (ho_codec H) (tx_copy t)"
    and u: "\<not> ar_uncertain (wc_store (tx_copy t))"
    and run: "commit_copy H d q t = (r, t')" and r: "(\<exists>sn. r = Ok sn) \<or> ar_uncertain (wc_store (tx_copy t'))"
  shows "\<exists>intent. commit_intent H q = Ok intent \<and> applied H q intent t r t'"
proof -
  have fr: "\<not> wc_frozen (tx_copy t)" using run r u by (auto simp: commit_copy_def)
  obtain intent where i: "commit_intent H q = Ok intent"
    using run r u fr by (cases "commit_intent H q") (auto simp: commit_copy_def)
  have "applied H q intent t r t'"
  proof (cases "wc_commit (tx_copy t)")
    case None
    then show ?thesis using fresh_applied [OF laws ok u fr _ r] run fr i by (simp add: commit_copy_def)
  next
    case (Some receipt)
    let ?c = "confirm_commit (ho_crypto H) (pr_expected q) (rc_metadata receipt)"
    have w: "writer_ok (ho_crypto H) (ho_codec H) (wc_store (tx_copy t))" using ok by (simp add: copy_ok_def)
    obtain x s1 where c: "?c (wc_store (tx_copy t)) = (x, s1)" by fastforce
    note wp = wp_run [OF wp_confirm_commit [OF w] c]
    show ?thesis
    proof (cases "rc_intent receipt = intent \<and> x \<noteq> Ok False")
      case True
      show ?thesis
      proof (cases x)
        case (Inl e)
        then have "t' = t\<lparr>tx_copy := (tx_copy t)\<lparr>wc_store := s1\<rparr>\<rparr>" "r = Err (StorageErr e)"
          using run fr i Some True c by (auto simp: commit_copy_def bindS_def on_store_def storageS_def)
        moreover have "ar_uncertain s1 = ar_uncertain (wc_store (tx_copy t))" using wp Inl by (auto simp: confirming_def)
        ultimately show ?thesis using r u by simp
      next
        case (Inr b)
        then have b: "x = Ok True" using True by (cases b) auto
        have conf: "confirmed (ho_crypto H) (ho_codec H) (wc_store (tx_copy t)) s1"
          "ar_last_commit (wc_store (tx_copy t)) = Some (pr_expected q, target (wc_store (tx_copy t)))"
          "as_metadata (target (wc_store (tx_copy t))) = rc_metadata receipt"
          using wp b by auto
        have "tx_copy t' = (tx_copy t)\<lparr>wc_store := s1, wc_commit := Some (receipt\<lparr>rc_uncertain := False\<rparr>)\<rparr>" "r = Ok (ar_snapshot s1)"
          using run fr i Some True c b
          by (auto simp: commit_copy_def bindS_def on_store_def storageS_def send_def pureS_def receipt_settled_def)
        then show ?thesis
          using conf fr u True by (simp add: applied_def remembers_def confirmed_def target_def)
      qed
    next
      case False
      have "rc_intent receipt = intent \<Longrightarrow> x = Ok False \<and> s1 = wc_store (tx_copy t)"
        using False wp by (auto split: if_splits)
      then have "(if rc_intent receipt = intent then on_store ?c else pureS (Ok False)) t = (Ok False, t)"
        using c by (auto simp: on_store_def storageS_def pureS_def)
      then have "(if rc_uncertain receipt then pureS (Err (StorageErr CommitUncertain)) else commit_fresh H d q intent) t = (r, t')"
        using run fr i Some by (simp add: commit_copy_def bindS_def)
      then show ?thesis
        using r u fresh_applied [OF laws ok u fr _ r] by (auto split: if_splits)
    qed
  qed
  then show ?thesis using i by blast
qed

text \<open>
  C24: A worker may repeat a request whose answer it lost. Where the first commit succeeded, or
  left the store in doubt, the same request on disks that work again is answered with the same
  generation, at most one past the one it was prepared for; nothing new is written, the store
  is no longer in doubt, and the commit is announced again.
\<close>

theorem commit_applied_once:
  assumes "archive_codec_laws (ho_codec H)" and "coordinator_ok H s" and "fmlookup (cn_copies s) d = Some c"
    and "\<not> ar_uncertain (wc_store c)" and "coordinator_commit H d q s = (r, s')" and "fmlookup (cn_copies s') d = Some c'"
    and "(\<exists>sn. r = Ok sn) \<or> ar_uncertain (wc_store c')"
  shows "\<exists>sn s'' c''. coordinator_commit H d q (calm_disks s') = (Ok sn, s'') \<and> (\<forall>sn'. r = Ok sn' \<longrightarrow> sn' = sn)
    \<and> fmlookup (cn_copies s'') d = Some c'' \<and> ar_snapshot (wc_store c'') = sn \<and> \<not> ar_uncertain (wc_store c'')
    \<and> dk_file (ar_disk (wc_store c'')) = dk_file (ar_disk (wc_store c'))
    \<and> generation sn \<le> Suc (generation (ar_snapshot (wc_store c))) \<and> cn_events s'' = cn_events s' @ [Committed d]"
proof -
  let ?K = "ho_crypto H" and ?C = "ho_codec H"
  obtain t where t: "commit_copy H d q \<lparr>tx_copy = c, tx_events = cn_events s\<rparr> = (r, t)"
    and s': "s' = s\<lparr>cn_copies := fmupd d (tx_copy t) (cn_copies s), cn_events := tx_events t\<rparr>"
    using assms(3,5) by (auto simp: coordinator_commit_def at_copy_def split: prod.splits)
  have c': "tx_copy t = c'" using assms(6) s' by simp
  have ok: "copy_ok ?K ?C c" "copy_ok ?K ?C c'"
    using reachable_grows [OF assms(1) r_into_rtranclp [of "coordinator_step H", OF coordinator_step.commit] assms(2), of d q]
      assms(2,3,5,6) by (auto simp: coordinator_ok_iff)
  obtain intent where i: "commit_intent H q = Ok intent" "applied H q intent \<lparr>tx_copy = c, tx_events = cn_events s\<rparr> r t"
    using commit_applied [OF assms(1) _ _ t] ok(1) assms(4,7) c' by auto
  let ?s = "calm (wc_store c')"
  obtain receipt where rc: "wc_commit c' = Some receipt" "rc_intent receipt = intent" "\<not> wc_frozen c'"
    "ar_last_commit ?s = Some (pr_expected q, target ?s)" "as_metadata (target ?s) = rc_metadata receipt"
    "ar_anchor ?s \<longrightarrow> dk_marker (ar_disk ?s) \<in> {Some (prepared_marker (pr_expected q) (target ?s)), Some (accepted_marker (target ?s))}"
    using i(2) c' by (auto simp: applied_def remembers_def)
  have "writer_ok ?K ?C ?s" using ok(2) by (simp add: copy_ok_def)
  from confirm_commit_works [OF this _ rc(4,5,6)] obtain s2 where s2:
    "confirm_commit ?K (pr_expected q) (rc_metadata receipt) ?s = (Ok True, s2)" "confirmed ?K ?C ?s s2"
    by auto
  let ?c = "c'\<lparr>wc_store := s2, wc_commit := Some (receipt\<lparr>rc_uncertain := False\<rparr>)\<rparr>"
  let ?new = "(calm_disks s')\<lparr>cn_copies := fmupd d ?c (cn_copies (calm_disks s')),
      cn_events := cn_events s' @ [Committed d]\<rparr>"
  have "commit_copy H d q \<lparr>tx_copy = c'\<lparr>wc_store := ?s\<rparr>, tx_events = cn_events s'\<rparr>
      = (Ok (ar_snapshot s2), \<lparr>tx_copy = ?c, tx_events = cn_events s' @ [Committed d]\<rparr>)"
    using rc i(1) s2(1)
    by (simp add: commit_copy_def bindS_def on_store_def storageS_def send_def pureS_def receipt_settled_def)
  then have "coordinator_commit H d q (calm_disks s') = (Ok (ar_snapshot s2), ?new)"
    using assms(6) by (simp add: coordinator_commit_def at_copy_def calm_disks_def)
  moreover have "\<forall>sn'. r = Ok sn' \<longrightarrow> sn' = ar_snapshot s2" "generation (ar_snapshot s2) \<le> Suc (generation (ar_snapshot (wc_store c)))"
    "\<not> ar_uncertain s2" "dk_file (ar_disk s2) = dk_file (ar_disk (wc_store c'))"
    using i(2) s2(2) c' by (simp_all add: applied_def confirmed_def)
  ultimately show ?thesis by (intro exI [of _ "ar_snapshot s2"] exI [of _ ?new] exI [of _ ?c]) simp
qed

text \<open>
  C26: A commit that arrives while another write of the copy is in doubt is refused without
  touching the disk, yet it leaves a receipt of a generation that was never written. When the
  other write is settled afterwards, this receipt still answers for every commit: each is
  refused as uncertain, until the copy is registered anew.
\<close>

theorem stray_receipt_blocks:
  assumes "coordinator_ok H s" and "fmlookup (cn_copies s) d = Some c" and "\<not> wc_frozen c" and "wc_commit c = None"
    and "ar_uncertain (wc_store c)" and "commit_intent H q = Ok intent"
    and "request_generation H (ar_snapshot (wc_store c)) q = Ok (cand, m)" and "m \<noteq> as_metadata (target (wc_store c))"
    and "confirmed (ho_crypto H) (ho_codec H) (wc_store c) settled"
  shows "\<exists>c'. coordinator_commit H d q s = (Err (StorageErr CommitUncertain), s\<lparr>cn_copies := fmupd d c' (cn_copies s)\<rparr>)
    \<and> wc_store c' = wc_store c \<and> (\<forall>q' i e. commit_intent H q' = Ok i \<longrightarrow>
        coordinator_commit H d q' (s\<lparr>cn_copies := fmupd d (c'\<lparr>wc_store := settled\<rparr>) (cn_copies s)\<rparr>)
          = (Err (StorageErr CommitUncertain), s\<lparr>cn_copies := fmupd d (c'\<lparr>wc_store := settled\<rparr>) (cn_copies s)\<rparr>))
    \<and> \<not> ar_uncertain settled"
proof -
  let ?K = "ho_crypto H" and ?C = "ho_codec H"
  let ?c = "c\<lparr>wc_commit := Some \<lparr>rc_intent = intent, rc_metadata = m, rc_uncertain = True\<rparr>\<rparr>"
  have w: "writer_ok ?K ?C (wc_store c)" using assms(1,2) by (auto simp: coordinator_ok_iff copy_ok_def)
  obtain e where last: "ar_last_commit (wc_store c) = Some (e, target (wc_store c))"
    using w assms(5) by (auto simp: writer_ok_def)
  have skip: "confirm_commit ?K h m st = (Ok False, st)" if "ar_last_commit st = Some (e, target (wc_store c))" for h st
    using that assms(8) by (auto simp: confirm_commit_def)
  have "store_commit ?K ?C (pr_expected q) cand m (wc_store c) = (Err CommitUncertain, wc_store c)"
    using skip [OF last] assms(5) by (simp add: store_commit_def bindS_def commit_checks_def Let_def)
  then have "coordinator_commit H d q s = (Err (StorageErr CommitUncertain), s\<lparr>cn_copies := fmupd d ?c (cn_copies s)\<rparr>)"
    using assms(2-7) by (simp add: coordinator_commit_def at_copy_def commit_copy_def commit_fresh_def Let_def on_store_def
        storageS_def keep_receipt_def)
  moreover have "coordinator_commit H d q' (s\<lparr>cn_copies := fmupd d (?c\<lparr>wc_store := settled\<rparr>) (cn_copies s)\<rparr>)
      = (Err (StorageErr CommitUncertain), s\<lparr>cn_copies := fmupd d (?c\<lparr>wc_store := settled\<rparr>) (cn_copies s)\<rparr>)"
    if "commit_intent H q' = Ok i" for q' i
  proof -
    have "ar_last_commit settled = Some (e, target (wc_store c))" using assms(9) last by (simp add: confirmed_def)
    then show ?thesis
      using assms(3) that skip [of settled]
      by (simp add: coordinator_commit_def at_copy_def commit_copy_def on_store_def storageS_def bindS_def pureS_def)
  qed
  moreover have "\<not> ar_uncertain settled" using assms(9) by (simp add: confirmed_def)
  ultimately show ?thesis by (intro exI [of _ ?c]) simp
qed

subsection \<open>Witnesses\<close>

definition toy_host :: host where
  "toy_host = \<lparr>ho_crypto = toy_crypto, ho_codec = toy_codec0, ho_intent = \<lambda>_. Some [], ho_key = toy_transport\<rparr>"

definition toy_copy :: "bool \<Rightarrow> outcome list \<Rightarrow> working_copy" where
  "toy_copy frozen os = \<lparr>wc_store = toy_store os, wc_frozen = frozen, wc_commit = None\<rparr>"

definition toy_coordinator :: "working_copy \<Rightarrow> coordinator" where
  "toy_coordinator c = \<lparr>cn_copies = fmupd ''db'' c fmempty, cn_routes = fmempty, cn_events = []\<rparr>"

definition toy_peer :: public_key where "toy_peer = [1, 8]"

definition toy_request :: "encrypted_object list \<Rightarrow> prepared_commit" where
  "toy_request objects = \<lparr>pr_expected = toy_archive, pr_control = toy_root, pr_controls = toy_chain, pr_objects = objects,
     pr_remove = {||}, pr_checkpoint = toy_section 1 5, pr_baseline = toy_section 2 6, pr_journal = toy_journal\<rparr>"

definition doubtful :: "outcome list" where
  "doubtful = [Works, Works, Works, Works, Works, Works, Works, Refused Io]"

lemma toy_host_simps [simp]:
  "ho_crypto toy_host = toy_crypto" "ho_codec toy_host = toy_codec0" "ho_key toy_host = toy_transport"
  by (simp_all add: toy_host_def)

lemma toy_host_laws: "archive_codec_laws (ho_codec toy_host)"
  using toy_codecs_laws by simp

lemma toy_copy_simps [simp]: "ar_snapshot (toy_store os) = toy_snapshot" "wc_frozen (toy_copy f os) = f"
  "wc_commit (toy_copy f os) = None" "wc_store (toy_copy f os) = toy_store os" "\<not> ar_uncertain (toy_store os)"
  by (simp_all add: toy_copy_def toy_store_def)

lemma toy_coordinator_simps [simp]: "cn_copies (toy_coordinator c) = fmupd ''db'' c fmempty" "cn_events (toy_coordinator c) = []"
  by (simp_all add: toy_coordinator_def)

lemma toy_copy_ok: "copy_ok toy_crypto toy_codec0 (toy_copy f os)"
  using toy_store_ok [of os] by (simp add: copy_ok_def target_def toy_copy_def)

lemma toy_coordinator_ok: "coordinator_ok toy_host (toy_coordinator c) \<longleftrightarrow> copy_ok toy_crypto toy_codec0 c"
  by (auto simp: coordinator_ok_iff)

lemma toy_admitted: "\<exists>dev. admit_transport toy_chain toy_peer = Ok dev"
proof -
  have "\<lparr>m_identity = toy_identity, admitted_at = 0\<rparr> \<in> set (bt_values (c_members (head toy_chain)))"
    using toy_head(2) unfolding set_bt_values by blast
  moreover have "id_transport toy_identity = toy_peer" by (simp add: toy_identity_def toy_peer_def)
  ultimately show ?thesis
    by (fastforce simp: admit_transport_def ok_or_def find_None_iff split: option.splits)
qed

lemma toy_authorized: "authorize toy_crypto (toy_copy False os) toy_peer = Ok ()"
  using toy_admitted by (auto simp: authorize_def toy_snapshot_fields trustS_def)

theorem coordinator_sound_witness:
  "\<exists>s' c'. coordinator_step toy_host (toy_coordinator (toy_copy False doubtful)) s' \<and> fmlookup (cn_copies s') ''db'' = Some c'
    \<and> writer_ok toy_crypto toy_codec0 (wc_store c')"
proof -
  let ?s = "toy_coordinator (toy_copy False doubtful)"
  let ?s' = "snd (coordinator_commit toy_host ''db'' (toy_request []) ?s)"
  have step: "coordinator_step toy_host ?s ?s'" by (rule coordinator_step.commit)
  have "coordinator_ok toy_host ?s" using toy_copy_ok toy_coordinator_ok by simp
  moreover have "fmlookup (cn_copies ?s) ''db'' = Some (toy_copy False doubtful)" by simp
  ultimately show ?thesis
    using step coordinator_sound [OF toy_host_laws r_into_rtranclp [of "coordinator_step toy_host", OF step]]
    unfolding toy_host_simps by blast
qed

theorem frozen_copy_refuses_witness:
  "coordinator_commit toy_host ''db'' (toy_request []) (toy_coordinator (toy_copy True []))
     = (Err (TrustErr Fork), toy_coordinator (toy_copy True []))
   \<and> fst (handle_command toy_host (Some 5) toy_peer (JoinStatusCommand ''db'' [1]) (toy_coordinator (toy_copy True [])))
     \<in> {Err (TrustErr Fork), Err UnauthorizedErr}"
  using frozen_copy_refuses [of "toy_coordinator (toy_copy True [])" "''db''" "toy_copy True []" toy_host "toy_request []"
      toy_peer undefined undefined undefined "JoinStatusCommand ''db'' [1]" "Some 5"]
  by auto

theorem served_peers_witness:
  "\<exists>s' c. handle_command toy_host None toy_peer (InventoryCommand ''db'' \<lparr>ea_id = toy_peer, ea_routes = []\<rparr>)
      (toy_coordinator (toy_copy False [])) = (Ok (Inventory (toy_metadata 0 toy_objects)), s')
    \<and> served toy_host toy_peer ''db'' (toy_coordinator (toy_copy False [])) c"
proof -
  let ?s = "toy_coordinator (toy_copy False [])"
  have run: "handle_command toy_host None toy_peer (InventoryCommand ''db'' \<lparr>ea_id = toy_peer, ea_routes = []\<rparr>) ?s
      = (Ok (Inventory (toy_metadata 0 toy_objects)), remember_route \<lparr>ea_id = toy_peer, ea_routes = []\<rparr> ?s)"
    using toy_authorized by (simp add: handle_command_def inventory_def copy_of_def toy_snapshot_fields)
  then show ?thesis
    using served_peers [of toy_host None toy_peer _ ?s, THEN conjunct1, rule_format, OF run] by auto
qed

lemma toy_receive:
  "\<exists>s'. receive toy_host toy_peer ''db'' (toy_entry Checkpoint 1 5) (object_reader_of (toy_object Checkpoint 1 5))
      (toy_coordinator (toy_copy False [])) = (Ok (toy_section 1 5), s')"
proof -
  have fields: "am_objects (as_metadata toy_snapshot) = toy_objects" "as_chain toy_snapshot = toy_chain"
    "co_digest (toy_entry Checkpoint 1 5) = toy_section 1 5"
    using toy_metadata_verified(2) [OF toy_objects_valid(1), of 0] by (simp_all add: toy_snapshot_fields toy_entry_def)
  have held: "fmlookup toy_objects (toy_section 1 5) = Some (toy_entry Checkpoint 1 5)"
    by (simp add: toy_objects_lookup toy_section_simps)
  have "section_ok toy_crypto toy_codec0 (toy_manifest_body 0 toy_objects) toy_chain
      (toy_section 1 5, toy_entry Checkpoint 1 5) (toy_section 1 5)"
    by (rule toy_section_ok) simp
  moreover have "length (toy_section 1 5) \<le> MAX_ARCHIVE" unfolding toy_section_simps by (simp add: MAX_ARCHIVE_def)
  ultimately obtain obj where obj:
    "receive_in toy_crypto (ac_envelope toy_codec0) object_read (object_reader_of (toy_object Checkpoint 1 5))
       (toy_entry Checkpoint 1 5) toy_chain = Ok obj"
    using section_received [OF _ toy_object_content] fields(3) by metis
  let ?t = "\<lparr>tx_copy = toy_copy False [], tx_events = []\<rparr>"
  have "announced toy_snapshot (toy_entry Checkpoint 1 5)" using held fields by (simp add: announced_def)
  then have "receive_copy toy_host toy_peer ''db'' (toy_entry Checkpoint 1 5) (object_reader_of (toy_object Checkpoint 1 5)) ?t
      = (Ok (toy_section 1 5), ?t\<lparr>tx_events := [Received ''db'' (toy_section 1 5)]\<rparr>)"
    using obj held fields toy_authorized [of "[]"]
    by (simp add: receive_copy_def bindS_def authorize_peer_def pureS_def storageS_def send_def bt_contains_def del: One_nat_def)
  then show ?thesis by (simp add: receive_def at_copy_def)
qed

theorem received_object_kept_witness:
  "\<exists>s' c. receive toy_host toy_peer ''db'' (toy_entry Checkpoint 1 5) (object_reader_of (toy_object Checkpoint 1 5))
      (toy_coordinator (toy_copy False [])) = (Ok (toy_section 1 5), s')
    \<and> served toy_host toy_peer ''db'' (toy_coordinator (toy_copy False [])) c \<and> cn_events s' = [Received ''db'' (toy_section 1 5)]"
  using toy_receive received_object_kept [OF toy_host_laws, of "toy_coordinator (toy_copy False [])"] toy_coordinator_ok toy_copy_ok
  by fastforce

lemma toy_offer:
  "handle_command toy_host None toy_peer (OfferCommand (toy_metadata 0 toy_objects)) (toy_coordinator (toy_copy False []))
      = (Ok (Needed {||}), toy_coordinator (toy_copy False []))"
proof -
  note m = toy_metadata_verified [OF toy_objects_valid(1), where g = 0]
  have root: "chain_root toy_crypto toy_chain = Ok toy_root" by (simp add: chain_root_def toy_hash)
  have "reconcile toy_crypto toy_chain toy_chain = Ok toy_chain" using root by (simp add: reconcile_def)
  moreover have "needed_objects (toy_metadata 0 toy_objects) toy_snapshot = {||}"
    using m(2) by (auto simp: needed_objects_def toy_snapshot_fields bt_contains_def fmlookup_dom_iff)
  moreover have "aj_forks (am_journal (toy_metadata 0 toy_objects)) = []" by (simp add: toy_metadata_def toy_journal_def)
  ultimately have "offer_copy toy_host toy_peer (toy_metadata 0 toy_objects) \<lparr>tx_copy = toy_copy False [], tx_events = []\<rparr>
      = (Ok (Needed {||}), \<lparr>tx_copy = toy_copy False [], tx_events = []\<rparr>)"
    using offer_copy_eq [of toy_host "\<lparr>tx_copy = toy_copy False [], tx_events = []\<rparr>" toy_peer toy_root
        "toy_metadata 0 toy_objects" toy_chain] toy_authorized root m(1)
    by (simp add: toy_snapshot_fields accept_offer_def Let_def)
  moreover have "mf_database (sm_body (am_manifest (toy_metadata 0 toy_objects))) = ''db''"
    using m(3) by (simp add: toy_manifest_body_def)
  ultimately show ?thesis by (simp add: handle_command_def at_copy_def toy_coordinator_def)
qed

theorem repeated_offer_witness:
  "\<exists>s' c. handle_command toy_host None toy_peer (OfferCommand (toy_metadata 0 toy_objects)) (toy_coordinator (toy_copy False []))
      = (Ok (Needed {||}), s') \<and> fmlookup (cn_copies s') ''db'' = Some c
    \<and> fst (handle_command toy_host None toy_peer (OfferCommand (toy_metadata 0 toy_objects)) s')
        \<in> {Ok (Needed {||}), Err (TrustErr Unauthorized)}"
  using repeated_offer [OF toy_host_laws _ toy_offer, of None] toy_coordinator_ok toy_copy_ok toy_offer
  by (auto simp: split: if_splits)

definition toy_retaining :: "digest fset \<Rightarrow> prepared_commit" where
  "toy_retaining R = (toy_request [])\<lparr>pr_journal := toy_journal\<lparr>aj_retained := R\<rparr>\<rparr>"

definition toy_retained :: "digest fset \<Rightarrow> archive_metadata" where
  "toy_retained R = (toy_metadata 1 toy_objects)\<lparr>am_journal := toy_journal\<lparr>aj_retained := R\<rparr>\<rparr>"

lemma toy_retained_verified:
  assumes "R |\<subseteq>| fmdom toy_objects"
  shows "metadata_verify toy_crypto toy_codec0 (toy_retained R) toy_root = Ok toy_chain"
proof -
  note m = toy_metadata_verified [OF toy_objects_valid(1), where g = 1]
  have "manifest_verify toy_crypto (am_manifest (toy_metadata 1 toy_objects)) toy_chain = Ok ()"
    using metadata_verify_root(4) [OF m(1)] by simp
  moreover have "auxiliary toy_crypto toy_codec0 toy_chain (toy_journal\<lparr>aj_retained := R\<rparr>)
      = Ok (mf_auxiliary (toy_manifest_body 1 toy_objects))"
    by (simp add: auxiliary_def toy_codecs_def toy_manifest_body_def toy_crypto_def)
  moreover have "am_controls (toy_metadata 1 toy_objects) = toy_chain" by (simp add: toy_metadata_def)
  ultimately show ?thesis
    using assms toy_valid m(2,3)
    by (simp add: toy_retained_def metadata_verify_def trustR_def toy_journal_def bt_iter_def bt_keys_def
        List.map_filter_def bt_len_def Let_def fcard.rep_eq)
qed

lemma toy_signer: "\<exists>member. List.find (\<lambda>(_, member). id_transport (m_identity member) = transport_public toy_crypto toy_transport)
    (bt_iter (c_members (head toy_chain))) = Some (id_device toy_identity, member)"
proof -
  have m: "c_members (head toy_chain) = fmupd (id_device toy_identity) \<lparr>m_identity = toy_identity, admitted_at = 0\<rparr> fmempty"
    by (simp add: toy_head(1) genesis_body_def)
  have "bt_iter (c_members (head toy_chain)) = [(id_device toy_identity, \<lparr>m_identity = toy_identity, admitted_at = 0\<rparr>)]"
    unfolding m by (simp add: bt_iter_def bt_keys_def List.map_filter_def sorted_list_of_fset.rep_eq)
  then show ?thesis by (simp add: toy_key_simps(4))
qed

lemma toy_signable: "\<exists>sm. manifest_sign toy_crypto (toy_manifest_body 1 toy_objects) toy_chain toy_transport = Ok sm"
proof -
  obtain sig where "transport_sign toy_crypto toy_transport MANIFEST_DOMAIN (PManifest (toy_manifest_body 1 toy_objects)) = Ok sig"
    using transport_sign_verify [OF toy_crypto_laws] by (auto simp: transport_sign_def canonical_def toy_crypto_def)
  then show ?thesis
    using toy_objects_valid(1) [of 1] toy_head toy_key_simps(4) by (auto simp: manifest_sign_def toy_manifest_body_def)
qed

lemma toy_generation:
  assumes R: "R |\<subseteq>| fmdom toy_objects"
  shows "request_generation toy_host toy_snapshot (toy_retaining R) = Ok (toy_next, toy_retained R)"
proof -
  have root: "chain_root toy_crypto toy_chain = Ok toy_root" by (simp add: chain_root_def toy_hash)
  have rec: "reconcile toy_crypto toy_chain toy_chain = Ok toy_chain" using root by (simp add: reconcile_def)
  note m0 = toy_metadata_verified [OF toy_objects_valid(1), where g = 0]
  have body: "next_body toy_snapshot = Ok (toy_manifest_body 1 toy_objects)"
    using m0(3) by (simp add: next_body_def Let_def toy_snapshot_fields toy_manifest_body_def checked_add_def U64_MAX_def)
  have same: "(toy_manifest_body 1 toy_objects)\<lparr>mf_control := toy_root, mf_checkpoint := toy_section 1 5, mf_baseline := toy_section 2 6\<rparr>
      = toy_manifest_body 1 toy_objects"
    by (simp add: toy_manifest_body_def)
  have desc: "descriptors toy_next = toy_objects"
    using m0(2) by (simp add: toy_next_def toy_snapshot_fields)
  obtain member where find: "List.find (\<lambda>(_, member). id_transport (m_identity member) = transport_public toy_crypto toy_transport)
      (bt_iter (c_members (head toy_chain))) = Some (id_device toy_identity, member)"
    using toy_signer by blast
  have aux: "auxiliary toy_crypto toy_codec0 toy_chain (toy_journal\<lparr>aj_retained := R\<rparr>)
      = Ok (AUXILIARY_DOMAIN @ le_bytes 8 0)"
    by (simp add: auxiliary_def toy_codecs_def toy_crypto_def)
  have signed: "(toy_manifest_body 1 toy_objects)\<lparr>mf_signer := id_device toy_identity, mf_objects := toy_objects,
      mf_auxiliary := AUXILIARY_DOMAIN @ le_bytes 8 0\<rparr> = toy_manifest_body 1 toy_objects"
    by (simp add: toy_manifest_body_def)
  obtain sm where sm: "manifest_sign toy_crypto (toy_manifest_body 1 toy_objects) toy_chain toy_transport = Ok sm"
    using toy_signable by blast
  have meta: "candidate_metadata toy_crypto toy_codec0 toy_next toy_chain toy_transport (toy_manifest_body 1 toy_objects)
      (toy_journal\<lparr>aj_retained := R\<rparr>) = Ok (toy_retained R)"
  proof -
    have "toy_retained R = \<lparr>am_controls = toy_chain, am_manifest = sm, am_journal = toy_journal\<lparr>aj_retained := R\<rparr>\<rparr>"
      using sm by (simp add: toy_retained_def toy_metadata_def)
    moreover have "mf_control (toy_manifest_body 1 toy_objects) = toy_root" by (simp add: toy_manifest_body_def)
    ultimately show ?thesis
      using toy_retained_verified [OF R] sm find aux desc signed root toy_head(5)
      by (simp add: candidate_metadata_def trustR_def Let_def)
  qed
  show ?thesis
    using root rec body same meta toy_valid toy_head(4)
    by (simp add: request_generation_def toy_retaining_def toy_request_def toy_snapshot_fields trustS_def storageS_def
        toy_next_def Let_def sorted_list_of_fset.rep_eq)
qed

text \<open>A commit whose directory barrier fails, and the state it leaves.\<close>

lemma toy_doubtful:
  assumes "cn = toy_coordinator (toy_copy False doubtful)"
  shows "\<exists>s' c'. coordinator_commit toy_host ''db'' (toy_retaining {||}) cn = (Err (StorageErr CommitUncertain), s')
    \<and> fmlookup (cn_copies s') ''db'' = Some c' \<and> ar_uncertain (wc_store c')"
proof -
  have m: "toy_retained {||} = toy_metadata 1 toy_objects"
    by (simp add: toy_retained_def toy_metadata_def toy_journal_def)
  obtain s' where s': "store_commit toy_crypto toy_codec0 toy_archive toy_next (toy_metadata 1 toy_objects) (toy_store doubtful)
      = (Err CommitUncertain, s')" "ar_uncertain s'"
    using toy_doubt unfolding doubtful_def by blast
  obtain i where i: "commit_intent toy_host (toy_retaining {||}) = Ok i"
    by (simp add: commit_intent_def toy_host_def)
  have e: "pr_expected (toy_retaining {||}) = toy_archive" by (simp add: toy_retaining_def toy_request_def)
  have w: "wc_store (toy_copy False doubtful) = toy_store doubtful" by (simp add: toy_copy_def)
  have g: "request_generation toy_host toy_snapshot (toy_retaining {||}) = Ok (toy_next, toy_metadata 1 toy_objects)"
    using toy_generation [of "{||}"] m by simp
  have fresh: "commit_fresh toy_host ''db'' (toy_retaining {||}) i \<lparr>tx_copy = toy_copy False doubtful, tx_events = []\<rparr>
      = (Err (StorageErr CommitUncertain), keep_receipt i (toy_metadata 1 toy_objects) True
          \<lparr>tx_copy = (toy_copy False doubtful)\<lparr>wc_store := s'\<rparr>, tx_events = []\<rparr>)"
    using g s'(1) e w by (simp add: commit_fresh_def on_store_def storageS_def Let_def del: One_nat_def)
  then show ?thesis
    using assms i s'(2)
    by (simp add: coordinator_commit_def at_copy_def commit_copy_def keep_receipt_def)
qed

theorem commit_applied_once_witness:
  "\<exists>s' sn s''. coordinator_commit toy_host ''db'' (toy_retaining {||}) (toy_coordinator (toy_copy False doubtful))
      = (Err (StorageErr CommitUncertain), s')
    \<and> coordinator_commit toy_host ''db'' (toy_retaining {||}) (calm_disks s') = (Ok sn, s'')
    \<and> generation sn \<le> Suc (generation toy_snapshot)"
proof -
  obtain s' c' where s': "coordinator_commit toy_host ''db'' (toy_retaining {||}) (toy_coordinator (toy_copy False doubtful))
      = (Err (StorageErr CommitUncertain), s')" "fmlookup (cn_copies s') ''db'' = Some c'" "ar_uncertain (wc_store c')"
    using toy_doubtful by blast
  have ok: "coordinator_ok toy_host (toy_coordinator (toy_copy False doubtful))" using toy_copy_ok toy_coordinator_ok by simp
  have c: "fmlookup (cn_copies (toy_coordinator (toy_copy False doubtful))) ''db'' = Some (toy_copy False doubtful)" by simp
  have w: "wc_store (toy_copy False doubtful) = toy_store doubtful" by (simp add: toy_copy_def)
  then have u: "\<not> ar_uncertain (wc_store (toy_copy False doubtful))" by simp
  show ?thesis
    using commit_applied_once [OF toy_host_laws ok c u s'(1,2)] s'(1,3) w by auto
qed

text \<open>A write left in doubt (by an exchange with a peer, so without a receipt).\<close>

theorem stray_receipt_blocks_witness:
  "\<exists>c c' settled. ar_uncertain (wc_store c) \<and> \<not> ar_uncertain settled
    \<and> coordinator_commit toy_host ''db'' (toy_retaining {|toy_section 1 5|}) (toy_coordinator c)
        = (Err (StorageErr CommitUncertain), toy_coordinator c')
    \<and> fst (coordinator_commit toy_host ''db'' (toy_retaining {||}) (toy_coordinator (c'\<lparr>wc_store := settled\<rparr>)))
        = Err (StorageErr CommitUncertain)"
proof -
  obtain s' where s': "store_commit toy_crypto toy_codec0 toy_archive toy_next (toy_metadata 1 toy_objects) (toy_store doubtful)
      = (Err CommitUncertain, s')" "ar_uncertain s'" "ar_snapshot s' = toy_snapshot"
    using toy_doubt unfolding doubtful_def by blast
  have u: "\<not> ar_uncertain (toy_store doubtful)" by simp
  note rem = store_commit_remembers [OF toy_codecs_laws toy_store_ok u s'(1), simplified s'(2)]
  let ?s = "calm s'"
  have w: "writer_ok toy_crypto toy_codec0 ?s"
    using store_commit_step [OF toy_store_ok s'(1)] by simp
  have l: "ar_last_commit ?s = Some (toy_archive, target ?s)" "as_metadata (target ?s) = toy_metadata 1 toy_objects"
    "ar_anchor ?s \<longrightarrow> dk_marker (ar_disk ?s) \<in> {Some (prepared_marker toy_archive (target ?s)), Some (accepted_marker (target ?s))}"
    using rem(1-3) by simp_all
  obtain settled where settled: "confirmed toy_crypto toy_codec0 ?s settled"
    using confirm_commit_works [OF w _ l] by auto
  let ?c = "\<lparr>wc_store = ?s, wc_frozen = False, wc_commit = None\<rparr>"
  have "generation toy_snapshot \<le> generation (target ?s) \<and> prefix (as_chain toy_snapshot) (as_chain (target ?s))"
    using store_commit_kept [where C = toy_codec0, OF toy_codecs_laws, where K = toy_crypto and c = toy_next and e = toy_archive
        and m = "toy_metadata 1 toy_objects" and t = "\<lparr>tx_copy = toy_copy False doubtful, tx_events = []\<rparr>"]
      s' toy_copy_ok [of False doubtful]
    by (simp add: tx_kept_def on_store_def copy_ok_def extends_def toy_copy_def del: One_nat_def)
  then have "copy_ok toy_crypto toy_codec0 ?c" using w s'(3) by (simp add: copy_ok_def extends_def)
  then have ok: "coordinator_ok toy_host (toy_coordinator ?c)" by (simp only: toy_coordinator_ok)
  obtain i where i: "commit_intent toy_host q = Ok i" for q
    by (simp add: commit_intent_def toy_host_def)
  have g: "request_generation toy_host toy_snapshot (toy_retaining {|toy_section 1 5|}) = Ok (toy_next, toy_retained {|toy_section 1 5|})"
    by (rule toy_generation) (simp add: toy_objects_lookup fmlookup_dom_iff)
  have "toy_retained {|toy_section 1 5|} \<noteq> toy_metadata 1 toy_objects"
    by (auto simp: toy_retained_def toy_metadata_def toy_journal_def)
  with stray_receipt_blocks [OF ok, of "''db''" ?c "toy_retaining {|toy_section 1 5|}" i toy_next "toy_retained {|toy_section 1 5|}" settled]
  obtain c' where c': "coordinator_commit toy_host ''db'' (toy_retaining {|toy_section 1 5|}) (toy_coordinator ?c)
      = (Err (StorageErr CommitUncertain), (toy_coordinator ?c)\<lparr>cn_copies := fmupd ''db'' c' (cn_copies (toy_coordinator ?c))\<rparr>)"
    "fst (coordinator_commit toy_host ''db'' (toy_retaining {||})
       ((toy_coordinator ?c)\<lparr>cn_copies := fmupd ''db'' (c'\<lparr>wc_store := settled\<rparr>) (cn_copies (toy_coordinator ?c))\<rparr>))
      = Err (StorageErr CommitUncertain)" "\<not> ar_uncertain settled"
    using i g s'(2,3) l(2) settled by fastforce
  have "(toy_coordinator ?c)\<lparr>cn_copies := fmupd ''db'' x (cn_copies (toy_coordinator ?c))\<rparr> = toy_coordinator x" for x
    by (simp add: toy_coordinator_def fmap_ext)
  then show ?thesis using c' s'(2) by (intro exI [of _ ?c] exI [of _ c'] exI [of _ settled]) simp
qed

text \<open>Two successors of the same control, and an offer that carries both.\<close>

lemma toy_successor:
  assumes "p = [4] \<or> p = [6]"
  shows "\<exists>s. c_policy (sc_body s) = p \<and> validate toy_crypto (toy_chain @ [s]) toy_root = Ok (toy_chain @ [s])"
proof -
  have "\<exists>ch'. transition toy_crypto toy_chain toy_key [5] (PolicyChange p) = Ok ch'"
    unfolding transition_Ok_iff [OF toy_crypto_laws toy_valid toy_fresh toy_manager toy_key_matches]
    using assms by (auto simp: lawful_def MAX_CONTROLS_def)
  then obtain b i q s r ch' where s: "apply_intent toy_crypto toy_chain [5] (PolicyChange p)
      (successor_base (head toy_chain) q (Suc (c_sequence (head toy_chain))) [5] i) = Ok b"
    "sc_signed toy_crypto b toy_key = Ok s" "chain_root toy_crypto toy_chain = Ok r" "validate toy_crypto (toy_chain @ [s]) r = Ok ch'"
    unfolding transition_fresh [OF toy_fresh] by blast
  have "sc_body s = b" using s(2) by (auto simp: sc_signed_def)
  moreover have "c_policy b = p" using s(1) by (auto simp: apply_intent_def split: if_splits)
  moreover have "r = toy_root" using s(3) by (simp add: chain_root_def toy_hash)
  ultimately show ?thesis using s(4) by (auto simp: validate_Ok)
qed

definition toy_evidence :: "signed_control list \<Rightarrow> signed_control list \<Rightarrow> archive_metadata" where
  "toy_evidence controls fork = \<lparr>am_controls = controls, am_manifest = am_manifest (toy_metadata 0 toy_objects),
     am_journal = toy_journal\<lparr>aj_forks := [fork]\<rparr>\<rparr>"

lemma toy_evidence_verified:
  "\<exists>controls fork. metadata_verify toy_crypto toy_codec0 (toy_evidence controls fork) toy_root = Ok controls"
proof -
  obtain s1 s2 where s: "c_policy (sc_body s1) = [4]" "validate toy_crypto (toy_chain @ [s1]) toy_root = Ok (toy_chain @ [s1])"
    "c_policy (sc_body s2) = [6]" "validate toy_crypto (toy_chain @ [s2]) toy_root = Ok (toy_chain @ [s2])"
    using toy_successor by blast
  let ?a = "toy_chain @ [s1]" and ?b = "toy_chain @ [s2]"
  have "s1 \<noteq> s2" using s(1,3) by auto
  moreover have "chain_root toy_crypto ?a = Ok toy_root" "chain_root toy_crypto ?b = Ok toy_root"
    by (simp_all add: chain_root_def toy_hash)
  ultimately have f: "reconcile toy_crypto ?a ?b = Err Fork" by (simp add: reconcile_def)
  note m = toy_metadata_verified [OF toy_objects_valid(1), where g = 0]
  have "manifest_verify toy_crypto (am_manifest (toy_metadata 0 toy_objects)) toy_chain = Ok ()"
    using metadata_verify_root(4) [OF m(1)] by simp
  moreover have "grows toy_crypto toy_chain ?a" using s(2) by (auto simp: grows_def)
  ultimately have v: "manifest_verify toy_crypto (am_manifest (toy_metadata 0 toy_objects)) ?a = Ok ()"
    using manifest_origin.check_grows by blast
  have "auxiliary toy_crypto toy_codec0 ?a (toy_journal\<lparr>aj_forks := [?b]\<rparr>) = Ok (mf_auxiliary (toy_manifest_body 0 toy_objects))"
    by (simp add: auxiliary_def toy_codecs_def toy_manifest_body_def toy_crypto_def)
  then have "metadata_verify toy_crypto toy_codec0 (toy_evidence ?a ?b) toy_root = Ok ?a"
    using v s(2,4) f m(2,3)
    by (simp add: toy_evidence_def metadata_verify_def trustR_def toy_journal_def bt_iter_def bt_keys_def
        List.map_filter_def bt_len_def Let_def fcard.rep_eq verify_fork_def)
  then show ?thesis by blast
qed

theorem contradiction_freezes_witness:
  "\<exists>m e c' s'. handle_command toy_host None toy_peer (OfferCommand m) (toy_coordinator (toy_copy False [])) = (Err e, s')
    \<and> fmlookup (cn_copies s') ''db'' = Some c' \<and> wc_frozen c' \<and> cn_events s' = [Frozen ''db'']"
proof -
  obtain controls fork where v: "metadata_verify toy_crypto toy_codec0 (toy_evidence controls fork) toy_root = Ok controls"
    using toy_evidence_verified by blast
  let ?s = "toy_coordinator (toy_copy False [])" and ?m = "toy_evidence controls fork"
  obtain r s' where run: "handle_command toy_host None toy_peer (OfferCommand ?m) ?s = (r, s')" by fastforce
  have d: "mf_database (sm_body (am_manifest ?m)) = ''db''"
    using toy_metadata_verified(3) [OF toy_objects_valid(1), of 0] by (simp add: toy_evidence_def toy_manifest_body_def)
  have root: "chain_root toy_crypto (as_chain (ar_snapshot (wc_store (toy_copy False [])))) = Ok toy_root"
    by (simp add: toy_copy_def toy_snapshot_fields chain_root_def toy_hash)
  have ok: "coordinator_ok toy_host ?s" using toy_copy_ok toy_coordinator_ok by simp
  have forks: "aj_forks (am_journal ?m) \<noteq> []" by (simp add: toy_evidence_def)
  have c: "fmlookup (cn_copies ?s) ''db'' = Some (toy_copy False [])" by simp
  obtain e c' where "r = Err e" "cn_copies s' = fmupd ''db'' c' (cn_copies ?s)" "wc_frozen c'" "cn_events s' = cn_events ?s @ [Frozen ''db'']"
    using contradiction_freezes [of toy_host ?s ?m "toy_copy False []" toy_peer toy_root controls None r s']
      toy_host_laws ok c toy_authorized [of "[]"] root v forks run
    unfolding d toy_host_simps by blast
  then show ?thesis using run by (intro exI [of _ ?m] exI [of _ e] exI [of _ c'] exI [of _ s']) simp
qed

end
