(* ===== verification/Sync_Observation.thy ===== *)
theory Sync_Observation
  imports Sync_Management
begin

text \<open>
  \<open>crates/taypeer-sync/src/observation.rs\<close>: what an endpoint shows of its peers while it
  lives. Every attempt to reach a peer for a database has a generation; it reports its phase,
  and after authorization holds a connection. Attempts and connections end in any order, also
  after the database was closed and opened again, and must then change nothing.

  The shared state under the mutex is \<open>observations\<close>; an \<open>Attempt\<close>, a
  \<open>ConnectionObservation\<close> and an \<open>InboundObservation\<close> are values that their owner passes on,
  and their \<open>Drop\<close> implementations are the operations \<open>attempt_drop\<close>, \<open>connection_drop\<close> and
  \<open>inbound_drop\<close>. The mutex is never poisoned, since no operation panics while it is held.
\<close>

datatype peer_availability = PeerUnknown | PeerConnected

datatype exchange_phase = Waiting | Connecting | Transferring | ExchangeCompleted | ExchangeFailed | ExchangeCancelled

record peer_observation =
  po_availability :: peer_availability
  po_phase :: exchange_phase

type_synonym observed_key = "database_id \<times> public_key"

record observed_entry =
  oe_since :: nat
  oe_generation :: nat
  oe_phase :: exchange_phase
  oe_connections :: "nat fset"

record observations =
  ob_next :: nat
  ob_closed :: bool
  ob_peers :: "(observed_key, observed_entry) fmap"

record attempt =
  at_key :: observed_key
  at_generation :: nat
  at_finished :: bool

record connection_observation =
  cx_key :: observed_key
  cx_generation :: nat

definition observations_new :: observations where
  "observations_new = \<lparr>ob_next = 0, ob_closed = False, ob_peers = fmempty\<rparr>"

definition observations_begin ::
  "database_id \<Rightarrow> public_key \<Rightarrow> observations \<Rightarrow> (sync_error + attempt) \<times> observations" where
  "observations_begin database peer s =
     (if ob_closed s then (Err StateErr, s)
      else case checked_add (ob_next s) 1 of
        None \<Rightarrow> (Err StateErr, s)
      | Some generation \<Rightarrow>
          let key = (database, peer);
              entry = (case fmlookup (ob_peers s) key of
                  Some e \<Rightarrow> e
                | None \<Rightarrow> \<lparr>oe_since = generation, oe_generation = 0, oe_phase = Waiting, oe_connections = {||}\<rparr>);
              entry = entry\<lparr>oe_generation := generation, oe_phase := Waiting\<rparr>
          in (Ok \<lparr>at_key = key, at_generation = generation, at_finished = False\<rparr>,
              s\<lparr>ob_next := generation, ob_peers := fmupd key entry (ob_peers s)\<rparr>))"

definition availability :: "observed_entry \<Rightarrow> peer_availability" where
  "availability e = (if oe_connections e = {||} then PeerUnknown else PeerConnected)"

definition observations_snapshot :: "observations \<Rightarrow> (observed_key, peer_observation) fmap" where
  "observations_snapshot s = fmmap (\<lambda>e. \<lparr>po_availability = availability e, po_phase = oe_phase e\<rparr>) (ob_peers s)"

definition observations_forget :: "database_id \<Rightarrow> observations \<Rightarrow> observations" where
  "observations_forget database s = s\<lparr>ob_peers := fmfilter (\<lambda>(db, _). db \<noteq> database) (ob_peers s)\<rparr>"

definition observations_close :: "observations \<Rightarrow> observations" where
  "observations_close s = s\<lparr>ob_closed := True, ob_peers := fmempty\<rparr>"

definition attempt_phase :: "exchange_phase \<Rightarrow> attempt \<Rightarrow> observations \<Rightarrow> observations" where
  "attempt_phase phase a s =
     (case fmlookup (ob_peers s) (at_key a) of
        None \<Rightarrow> s
      | Some e \<Rightarrow> if oe_generation e = at_generation a
                  then s\<lparr>ob_peers := fmupd (at_key a) (e\<lparr>oe_phase := phase\<rparr>) (ob_peers s)\<rparr> else s)"

definition attempt_authorized :: "attempt \<Rightarrow> observations \<Rightarrow> connection_observation \<times> observations" where
  "attempt_authorized a s =
     (let s = (case fmlookup (ob_peers s) (at_key a) of
          None \<Rightarrow> s
        | Some e \<Rightarrow> if oe_since e \<le> at_generation a
                    then s\<lparr>ob_peers := fmupd (at_key a)
                        (e\<lparr>oe_connections := finsert (at_generation a) (oe_connections e)\<rparr>) (ob_peers s)\<rparr> else s)
      in (\<lparr>cx_key = at_key a, cx_generation = at_generation a\<rparr>, attempt_phase Transferring a s))"

definition attempt_drop :: "attempt \<Rightarrow> observations \<Rightarrow> observations" where
  "attempt_drop a s = (if at_finished a then s else attempt_phase ExchangeCancelled a s)"

definition attempt_finish :: "bool \<Rightarrow> attempt \<Rightarrow> observations \<Rightarrow> observations" where
  "attempt_finish success a s =
     attempt_drop (a\<lparr>at_finished := True\<rparr>) (attempt_phase (if success then ExchangeCompleted else ExchangeFailed) a s)"

definition connection_drop :: "connection_observation \<Rightarrow> observations \<Rightarrow> observations" where
  "connection_drop c s =
     (case fmlookup (ob_peers s) (cx_key c) of
        None \<Rightarrow> s
      | Some e \<Rightarrow> s\<lparr>ob_peers := fmupd (cx_key c)
          (e\<lparr>oe_connections := oe_connections e |-| {|cx_generation c|}\<rparr>) (ob_peers s)\<rparr>)"

subsection \<open>One inbound connection, authorized for several databases\<close>

record inbound_observation =
  in_peer :: public_key
  in_databases :: "(database_id, attempt \<times> connection_observation) fmap"
  in_failed :: "database_id fset"

definition inbound_new :: "public_key \<Rightarrow> inbound_observation" where
  "inbound_new peer = \<lparr>in_peer = peer, in_databases = fmempty, in_failed = {||}\<rparr>"

definition inbound_authorized ::
  "database_id \<Rightarrow> inbound_observation \<Rightarrow> observations \<Rightarrow> (sync_error + unit) \<times> inbound_observation \<times> observations" where
  "inbound_authorized database i s =
     (if bt_contains (in_databases i) database then (Ok (), i, s)
      else case observations_begin database (in_peer i) s of
        (Inl e, s) \<Rightarrow> (Err e, i, s)
      | (Inr a, s) \<Rightarrow> (case attempt_authorized a s of
          (c, s) \<Rightarrow> (Ok (), i\<lparr>in_databases := fmupd database (a, c) (in_databases i)\<rparr>, s)))"

definition inbound_failed :: "database_id \<Rightarrow> inbound_observation \<Rightarrow> inbound_observation" where
  "inbound_failed database i =
     (if bt_contains (in_databases i) database then i\<lparr>in_failed := finsert database (in_failed i)\<rparr> else i)"

definition inbound_finish :: "bool \<Rightarrow> inbound_observation \<Rightarrow> observations \<Rightarrow> observations" where
  "inbound_finish success i s =
     fold (\<lambda>(database, a, c) s. connection_drop c (attempt_finish (success \<and> database |\<notin>| in_failed i) a s))
       (bt_iter (in_databases i)) s"

definition inbound_drop :: "inbound_observation \<Rightarrow> observations \<Rightarrow> observations" where
  "inbound_drop i s = fold (\<lambda>(database, a, c) s. connection_drop c (attempt_drop a s)) (bt_iter (in_databases i)) s"

subsection \<open>The endpoint with everything its tasks own\<close>

text \<open>
  What happens at an endpoint: operations on the shared state, with the attempts and
  connections that are still owned somewhere. A task authorizes an attempt at most once.
\<close>

datatype observation_event =
    Begun attempt
  | Phase exchange_phase attempt
  | Authorized attempt
  | Finished bool attempt
  | Dropped attempt
  | Disconnected connection_observation
  | Forgotten database_id
  | EndpointClosed

record endpoint =
  ep_shared :: observations
  ep_attempts :: "attempt set"
  ep_connections :: "connection_observation set"
  ep_used :: "nat set"

definition endpoint_new :: endpoint where
  "endpoint_new = \<lparr>ep_shared = observations_new, ep_attempts = {}, ep_connections = {}, ep_used = {}\<rparr>"

inductive endpoint_step :: "endpoint \<Rightarrow> observation_event \<Rightarrow> endpoint \<Rightarrow> bool" where
  begins: "observations_begin database peer (ep_shared p) = (Ok a, s)
    \<Longrightarrow> endpoint_step p (Begun a) (p\<lparr>ep_shared := s, ep_attempts := insert a (ep_attempts p)\<rparr>)"
| reports: "a \<in> ep_attempts p
    \<Longrightarrow> endpoint_step p (Phase phase a) (p\<lparr>ep_shared := attempt_phase phase a (ep_shared p)\<rparr>)"
| authorizes: "a \<in> ep_attempts p \<Longrightarrow> at_generation a \<notin> ep_used p \<Longrightarrow> attempt_authorized a (ep_shared p) = (c, s)
    \<Longrightarrow> endpoint_step p (Authorized a) (p\<lparr>ep_shared := s, ep_connections := insert c (ep_connections p),
          ep_used := insert (at_generation a) (ep_used p)\<rparr>)"
| finishes: "a \<in> ep_attempts p \<Longrightarrow> endpoint_step p (Finished success a)
    (p\<lparr>ep_shared := attempt_finish success a (ep_shared p), ep_attempts := ep_attempts p - {a}\<rparr>)"
| drops: "a \<in> ep_attempts p \<Longrightarrow> endpoint_step p (Dropped a)
    (p\<lparr>ep_shared := attempt_drop a (ep_shared p), ep_attempts := ep_attempts p - {a}\<rparr>)"
| disconnects: "c \<in> ep_connections p \<Longrightarrow> endpoint_step p (Disconnected c)
    (p\<lparr>ep_shared := connection_drop c (ep_shared p), ep_connections := ep_connections p - {c}\<rparr>)"
| forgets: "endpoint_step p (Forgotten database) (p\<lparr>ep_shared := observations_forget database (ep_shared p)\<rparr>)"
| closes: "endpoint_step p EndpointClosed (p\<lparr>ep_shared := observations_close (ep_shared p)\<rparr>)"

inductive endpoint_run :: "observation_event list \<Rightarrow> endpoint \<Rightarrow> bool" where
  start: "endpoint_run [] endpoint_new"
| more: "endpoint_run es p \<Longrightarrow> endpoint_step p e p' \<Longrightarrow> endpoint_run (es @ [e]) p'"

inductive_cases endpoint_stepE: "endpoint_step p e p'"

subsection \<open>What should be shown\<close>

text \<open>
  The specification forgets by history instead of comparing numbers: an attempt counts while
  neither its database was forgotten nor the endpoint closed since it began. Shown are the
  phase of the latest attempt that counts, and a connection while some attempt that counted
  when it was authorized has not yet disconnected.
\<close>

record presence =
  pr_counts :: "attempt set"
  pr_latest :: "observed_key \<Rightarrow> (nat \<times> exchange_phase) option"
  pr_present :: "(observed_key \<times> nat) set"

definition presence_new :: presence where
  "presence_new = \<lparr>pr_counts = {}, pr_latest = (\<lambda>_. None), pr_present = {}\<rparr>"

definition report_phase :: "exchange_phase \<Rightarrow> attempt \<Rightarrow> presence \<Rightarrow> presence" where
  "report_phase phase a w =
     (case pr_latest w (at_key a) of
        Some (g, _) \<Rightarrow> if g = at_generation a
          then w\<lparr>pr_latest := (pr_latest w)(at_key a \<mapsto> (g, phase))\<rparr> else w
      | None \<Rightarrow> w)"

fun presence_step :: "observation_event \<Rightarrow> presence \<Rightarrow> presence" where
  "presence_step (Begun a) w =
     w\<lparr>pr_counts := insert a (pr_counts w), pr_latest := (pr_latest w)(at_key a \<mapsto> (at_generation a, Waiting))\<rparr>"
| "presence_step (Phase phase a) w = report_phase phase a w"
| "presence_step (Authorized a) w =
     report_phase Transferring a (if a \<in> pr_counts w
       then w\<lparr>pr_present := insert (at_key a, at_generation a) (pr_present w)\<rparr> else w)"
| "presence_step (Finished success a) w = report_phase (if success then ExchangeCompleted else ExchangeFailed) a w"
| "presence_step (Dropped a) w = report_phase ExchangeCancelled a w"
| "presence_step (Disconnected c) w = w\<lparr>pr_present := pr_present w - {(cx_key c, cx_generation c)}\<rparr>"
| "presence_step (Forgotten database) w =
     \<lparr>pr_counts = {a \<in> pr_counts w. fst (at_key a) \<noteq> database},
      pr_latest = (\<lambda>key. if fst key = database then None else pr_latest w key),
      pr_present = {(key, g) \<in> pr_present w. fst key \<noteq> database}\<rparr>"
| "presence_step EndpointClosed w = presence_new"

definition shown :: "presence \<Rightarrow> observed_key \<Rightarrow> peer_observation option" where
  "shown w key = map_option (\<lambda>(_, phase).
     \<lparr>po_availability = (if \<exists>g. (key, g) \<in> pr_present w then PeerConnected else PeerUnknown), po_phase = phase\<rparr>)
     (pr_latest w key)"

end
