(* ===== verification/Sync_Observation_Laws.thy ===== *)
theory Sync_Observation_Laws
  imports Sync_Observation
begin

text \<open>
  The numbers of \<open>observation.rs\<close> implement the specification \<open>presence\<close>: \<open>linked\<close> relates
  the shared state with the history, every event keeps it, and the snapshot is read from it.
\<close>

definition key_linked :: "endpoint \<Rightarrow> presence \<Rightarrow> observed_key \<Rightarrow> bool" where
  "key_linked p w key \<longleftrightarrow> (case fmlookup (ob_peers (ep_shared p)) key of
     None \<Rightarrow> pr_latest w key = None \<and> (\<forall>g. (key, g) \<notin> pr_present w)
       \<and> (\<forall>a \<in> ep_attempts p. at_key a = key \<longrightarrow> a \<notin> pr_counts w)
   | Some e \<Rightarrow> pr_latest w key = Some (oe_generation e, oe_phase e)
       \<and> (\<forall>g. (key, g) \<in> pr_present w \<longleftrightarrow> g |\<in>| oe_connections e)
       \<and> (\<forall>a \<in> ep_attempts p. at_key a = key \<longrightarrow> (a \<in> pr_counts w \<longleftrightarrow> oe_since e \<le> at_generation a)))"

definition linked :: "endpoint \<Rightarrow> presence \<Rightarrow> bool" where
  "linked p w \<longleftrightarrow> (\<forall>key. key_linked p w key)"

definition entry_ok :: "endpoint \<Rightarrow> observed_key \<Rightarrow> observed_entry \<Rightarrow> bool" where
  "entry_ok p key e \<longleftrightarrow> oe_since e \<le> oe_generation e \<and> oe_generation e \<le> ob_next (ep_shared p)
     \<and> (\<forall>g. g |\<in>| oe_connections e \<longrightarrow> oe_since e \<le> g \<and> g \<in> ep_used p
          \<and> \<lparr>cx_key = key, cx_generation = g\<rparr> \<in> ep_connections p)"

definition endpoint_ok :: "endpoint \<Rightarrow> bool" where
  "endpoint_ok p \<longleftrightarrow>
     ob_next (ep_shared p) \<le> U64_MAX
     \<and> (ob_closed (ep_shared p) \<longrightarrow> ob_peers (ep_shared p) = fmempty)
     \<and> (\<forall>a \<in> ep_attempts p. at_generation a \<le> ob_next (ep_shared p) \<and> \<not> at_finished a)
     \<and> (\<forall>g \<in> ep_used p. g \<le> ob_next (ep_shared p))
     \<and> (\<forall>key e. fmlookup (ob_peers (ep_shared p)) key = Some e \<longrightarrow> entry_ok p key e)"

declare split_paired_All [simp del] split_paired_Ex [simp del]

lemma lookup_phase [simp]:
  "fmlookup (ob_peers (attempt_phase phase a s)) key =
     (if key = at_key a then map_option (\<lambda>e. if oe_generation e = at_generation a then e\<lparr>oe_phase := phase\<rparr> else e)
        (fmlookup (ob_peers s) key) else fmlookup (ob_peers s) key)"
  by (auto simp: attempt_phase_def split: option.splits)

lemma phase_frame [simp]:
  "ob_next (attempt_phase phase a s) = ob_next s" "ob_closed (attempt_phase phase a s) = ob_closed s"
  "ob_peers s = fmempty \<Longrightarrow> attempt_phase phase a s = s"
  by (auto simp: attempt_phase_def split: option.splits)

lemma finish_is_phase [simp]:
  "attempt_finish success a s = attempt_phase (if success then ExchangeCompleted else ExchangeFailed) a s"
  by (simp add: attempt_finish_def attempt_drop_def)

lemma drop_is_phase: "\<not> at_finished a \<Longrightarrow> attempt_drop a s = attempt_phase ExchangeCancelled a s"
  by (simp add: attempt_drop_def)

lemma lookup_disconnect [simp]:
  "fmlookup (ob_peers (connection_drop c s)) key =
     (if key = cx_key c then map_option (\<lambda>e. e\<lparr>oe_connections := oe_connections e |-| {|cx_generation c|}\<rparr>)
        (fmlookup (ob_peers s) key) else fmlookup (ob_peers s) key)"
  by (auto simp: connection_drop_def split: option.splits)

lemma disconnect_frame [simp]:
  "ob_next (connection_drop c s) = ob_next s" "ob_closed (connection_drop c s) = ob_closed s"
  "ob_peers s = fmempty \<Longrightarrow> connection_drop c s = s"
  by (auto simp: connection_drop_def split: option.splits)

lemma lookup_forget [simp]:
  "fmlookup (ob_peers (observations_forget d s)) key = (if fst key = d then None else fmlookup (ob_peers s) key)"
  by (cases key) (auto simp: observations_forget_def)

lemma begin_cases:
  assumes "observations_begin d peer s = (Ok a, s')"
  shows "\<not> ob_closed s" "ob_next s < U64_MAX" "ob_next s' = Suc (ob_next s)" "ob_closed s' = ob_closed s"
    "a = \<lparr>at_key = (d, peer), at_generation = Suc (ob_next s), at_finished = False\<rparr>"
    "fmlookup (ob_peers s') key = (if key = (d, peer) then Some (case fmlookup (ob_peers s) key of
         Some e \<Rightarrow> e\<lparr>oe_generation := Suc (ob_next s), oe_phase := Waiting\<rparr>
       | None \<Rightarrow> \<lparr>oe_since = Suc (ob_next s), oe_generation = Suc (ob_next s), oe_phase = Waiting, oe_connections = {||}\<rparr>)
       else fmlookup (ob_peers s) key)"
  using assms by (auto simp: observations_begin_def checked_add_def Let_def split: if_splits option.splits)

lemma authorized_cases:
  assumes "attempt_authorized a s = (c, s')"
  shows "c = \<lparr>cx_key = at_key a, cx_generation = at_generation a\<rparr>" "ob_next s' = ob_next s" "ob_closed s' = ob_closed s"
    "fmlookup (ob_peers s') key = (if key = at_key a then map_option (\<lambda>e.
        let e = (if oe_since e \<le> at_generation a
                 then e\<lparr>oe_connections := finsert (at_generation a) (oe_connections e)\<rparr> else e)
        in if oe_generation e = at_generation a then e\<lparr>oe_phase := Transferring\<rparr> else e) (fmlookup (ob_peers s) key)
      else fmlookup (ob_peers s) key)"
  using assms by (auto simp: attempt_authorized_def Let_def split: if_splits option.splits)

lemma report_phase_frame [simp]:
  "pr_counts (report_phase phase a w) = pr_counts w" "pr_present (report_phase phase a w) = pr_present w"
  by (simp_all add: report_phase_def split: option.splits prod.splits)

lemma report_phase_latest [simp]:
  "pr_latest (report_phase phase a w) key = (if key = at_key a then map_option (\<lambda>(g, old).
      (g, if g = at_generation a then phase else old)) (pr_latest w key) else pr_latest w key)"
  by (simp add: report_phase_def split: option.splits prod.splits)

lemma forget_frame [simp]:
  "ob_next (observations_forget d s) = ob_next s" "ob_closed (observations_forget d s) = ob_closed s"
  by (simp_all add: observations_forget_def)

lemma lookup_empty: "m = fmempty \<longleftrightarrow> (\<forall>key. fmlookup m key = None)"
  by (metis fmap_ext fmempty_lookup)

lemma entry_okD: "endpoint_ok p \<Longrightarrow> fmlookup (ob_peers (ep_shared p)) key = Some e \<Longrightarrow> entry_ok p key e"
  by (simp add: endpoint_ok_def)

subsection \<open>Every event keeps the relation\<close>

lemma phase_ok: "endpoint_ok p \<Longrightarrow> endpoint_ok (p\<lparr>ep_shared := attempt_phase phase a (ep_shared p)\<rparr>)"
proof -
  let ?p = "p\<lparr>ep_shared := attempt_phase phase a (ep_shared p)\<rparr>"
  assume ok: "endpoint_ok p"
  have "entry_ok ?p key x" if "fmlookup (ob_peers (ep_shared ?p)) key = Some x" for key x
    using that entry_okD [OF ok, of key] by (auto simp: entry_ok_def split: if_splits)
  then show ?thesis using ok by (simp add: endpoint_ok_def)
qed

lemma phase_linked:
  "linked p w \<Longrightarrow> linked (p\<lparr>ep_shared := attempt_phase phase a (ep_shared p)\<rparr>) (report_phase phase a w)"
proof (unfold linked_def, rule allI)
  fix key
  assume "\<forall>key. key_linked p w key"
  then have "key_linked p w key" ..
  then show "key_linked (p\<lparr>ep_shared := attempt_phase phase a (ep_shared p)\<rparr>) (report_phase phase a w) key"
    by (cases "key = at_key a"; cases "fmlookup (ob_peers (ep_shared p)) key") (simp_all add: key_linked_def)
qed

lemma fewer_attempts:
  "endpoint_ok p \<Longrightarrow> endpoint_ok (p\<lparr>ep_attempts := A\<rparr>)" if "A \<subseteq> ep_attempts p"
  using that by (auto simp: endpoint_ok_def entry_ok_def)

lemma fewer_key_linked: "A \<subseteq> ep_attempts p \<Longrightarrow> key_linked p w key \<Longrightarrow> key_linked (p\<lparr>ep_attempts := A\<rparr>) w key"
  by (cases "fmlookup (ob_peers (ep_shared p)) key") (auto simp: key_linked_def)

lemma fewer_linked: "A \<subseteq> ep_attempts p \<Longrightarrow> linked p w \<Longrightarrow> linked (p\<lparr>ep_attempts := A\<rparr>) w"
  by (simp add: linked_def fewer_key_linked)

lemma step_ok:
  assumes ok: "endpoint_ok p" and step: "endpoint_step p e p'"
  shows "endpoint_ok p'"
  using step
proof cases
  case (begins d peer a s)
  note b = begin_cases [OF begins(3)]
  have "entry_ok p' key x" if "fmlookup (ob_peers s) key = Some x" for key x
  proof -
    have frame: "ep_used p' = ep_used p" "ep_connections p' = ep_connections p" "ob_next (ep_shared p') = Suc (ob_next (ep_shared p))"
      using begins(2) b(3) by simp_all
    show ?thesis
      using that b(6) [of key] entry_okD [OF ok, of key] frame
      by (cases "key = (d, peer)"; cases "fmlookup (ob_peers (ep_shared p)) key") (force simp: entry_ok_def)+
  qed
  then show ?thesis
    using ok b(1-5) begins(2) by (auto simp: endpoint_ok_def lookup_empty)
next
  case (reports a phase)
  then show ?thesis using phase_ok [OF ok] by simp
next
  case (authorizes a c s)
  note b = authorized_cases [OF authorizes(5)]
  have g: "at_generation a \<le> ob_next (ep_shared p)" using ok authorizes(3) by (simp add: endpoint_ok_def)
  have "entry_ok p' key x" if "fmlookup (ob_peers s) key = Some x" for key x
  proof -
    have frame: "ep_used p' = insert (at_generation a) (ep_used p)" "ep_connections p' = insert c (ep_connections p)"
      "ob_next (ep_shared p') = ob_next (ep_shared p)"
      using authorizes(2) b(2) by simp_all
    show ?thesis
      using that b(4) [of key] entry_okD [OF ok, of key] frame b(1)
      by (cases "key = at_key a"; cases "fmlookup (ob_peers (ep_shared p)) key")
        (force simp: entry_ok_def Let_def split: if_splits)+
  qed
  moreover have "ob_closed s \<longrightarrow> ob_peers s = fmempty"
    using ok b(3,4) by (simp add: endpoint_ok_def lookup_empty)
  ultimately show ?thesis
    using ok b(2) g authorizes(2) by (simp add: endpoint_ok_def)
next
  case (finishes a success)
  then show ?thesis
    using fewer_attempts [OF _ phase_ok [OF ok], of "ep_attempts p - {a}"] by (simp add: Diff_subset)
next
  case (drops a)
  have "\<not> at_finished a" using ok drops(3) by (simp add: endpoint_ok_def)
  then show ?thesis
    using drops fewer_attempts [OF _ phase_ok [OF ok], of "ep_attempts p - {a}"] by (simp add: Diff_subset drop_is_phase)
next
  case (disconnects c)
  have eq: "\<lparr>cx_key = k, cx_generation = g\<rparr> = c \<longleftrightarrow> k = cx_key c \<and> g = cx_generation c" for k g
    by (cases c) auto
  have "entry_ok p' key x" if "fmlookup (ob_peers (connection_drop c (ep_shared p))) key = Some x" for key x
    using that entry_okD [OF ok, of key] disconnects(2)
    by (auto simp: entry_ok_def eq split: if_splits)
  then show ?thesis
    using ok disconnects(2) by (simp add: endpoint_ok_def)
next
  case (forgets d)
  then show ?thesis
    using ok by (simp add: endpoint_ok_def entry_ok_def lookup_empty)
next
  case closes
  then show ?thesis
    using ok by (simp add: endpoint_ok_def observations_close_def)
qed

lemma linkedD: "linked p w \<Longrightarrow> key_linked p w key"
  by (simp add: linked_def)

lemma step_linked:
  assumes ok: "endpoint_ok p" and step: "endpoint_step p e p'" and l: "linked p w"
  shows "linked p' (presence_step e w)"
  using step
proof cases
  case (begins d peer a s)
  note b = begin_cases [OF begins(3)]
  have old: "\<not> at_generation a \<le> n" if "n \<le> ob_next (ep_shared p)" for n using b(5) that by simp
  have new: "x \<noteq> a" if "x \<in> ep_attempts p" for x
    using that ok old [of "at_generation x"] by (auto simp: endpoint_ok_def)
  have late: "\<not> Suc (ob_next (ep_shared p)) \<le> at_generation x" if "x \<in> ep_attempts p" for x
    using that ok by (auto simp: endpoint_ok_def not_less_eq_eq [symmetric])
  show ?thesis unfolding linked_def
  proof
    fix key
    show "key_linked p' (presence_step e w) key"
      using linkedD [OF l, of key] b(5) b(6) [of key] begins(1,2) new late entry_okD [OF ok, of key]
      by (cases "key = (d, peer)"; cases "fmlookup (ob_peers (ep_shared p)) key")
        (auto simp: key_linked_def entry_ok_def)
  qed
next
  case (reports a phase)
  then show ?thesis using phase_linked [OF l] by simp
next
  case (authorizes a c s)
  note b = authorized_cases [OF authorizes(5)]
  show ?thesis unfolding linked_def
  proof
    fix key
    show "key_linked p' (presence_step e w) key"
      using linkedD [OF l, of key] b(4) [of key] authorizes(1-3)
      by (cases "key = at_key a"; cases "fmlookup (ob_peers (ep_shared p)) key")
        (auto simp: key_linked_def Let_def)
  qed
next
  case (finishes a success)
  then show ?thesis
    using fewer_linked [OF _ phase_linked [OF l], of "ep_attempts p - {a}"] by (simp add: Diff_subset)
next
  case (drops a)
  have "\<not> at_finished a" using ok drops(3) by (simp add: endpoint_ok_def)
  then show ?thesis
    using drops fewer_linked [OF _ phase_linked [OF l], of "ep_attempts p - {a}"] by (simp add: Diff_subset drop_is_phase)
next
  case (disconnects c)
  show ?thesis unfolding linked_def
  proof
    fix key
    show "key_linked p' (presence_step e w) key"
      using linkedD [OF l, of key] disconnects(1,2)
      by (cases "key = cx_key c"; cases "fmlookup (ob_peers (ep_shared p)) key")
        (auto simp: key_linked_def)
  qed
next
  case (forgets d)
  show ?thesis unfolding linked_def
  proof
    fix key
    show "key_linked p' (presence_step e w) key"
      using linkedD [OF l, of key] forgets
      by (cases "fst key = d"; cases "fmlookup (ob_peers (ep_shared p)) key")
        (auto simp: key_linked_def)
  qed
next
  case closes
  then show ?thesis
    by (simp add: linked_def key_linked_def observations_close_def presence_new_def)
qed

lemma run_linked: "endpoint_run es p \<Longrightarrow> endpoint_ok p \<and> linked p (fold presence_step es presence_new)"
proof (induction rule: endpoint_run.induct)
  case start
  show ?case
    by (simp add: endpoint_ok_def linked_def key_linked_def endpoint_new_def observations_new_def presence_new_def)
next
  case (more es p e p')
  then show ?case using step_ok [of p e p'] step_linked [of p e p'] by simp
qed


subsection \<open>The promises\<close>

text \<open>
  C12: The numbers that the code compares implement the specification by history: after every
  sequence of events of its attempts and connections, in any order, the snapshot shows
  exactly the phase of the latest attempt that still counts and the connections that were
  authorized while they counted.
\<close>

theorem snapshot_refines_history:
  assumes "endpoint_run es p"
  shows "fmlookup (observations_snapshot (ep_shared p)) key = shown (fold presence_step es presence_new) key"
proof -
  have "key_linked p (fold presence_step es presence_new) key"
    using run_linked [OF assms] by (simp add: linked_def)
  then show ?thesis
    by (cases "fmlookup (ob_peers (ep_shared p)) key")
      (auto simp: observations_snapshot_def shown_def key_linked_def availability_def)
qed

text \<open>
  C13: The shared state is well formed at all times: counters fit their 64 bits and are
  ordered, a closed endpoint shows nothing, and every connection shown belongs to an
  authorized attempt and is still owned by some task.
\<close>

theorem observations_well_formed:
  assumes "endpoint_run es p"
  shows "ob_next (ep_shared p) \<le> U64_MAX
    \<and> (ob_closed (ep_shared p) \<longrightarrow> observations_snapshot (ep_shared p) = fmempty)
    \<and> (fmlookup (ob_peers (ep_shared p)) key = Some e \<longrightarrow>
        oe_since e \<le> oe_generation e \<and> oe_generation e \<le> ob_next (ep_shared p)
        \<and> (\<forall>g. g |\<in>| oe_connections e \<longrightarrow> oe_since e \<le> g \<and> g \<le> ob_next (ep_shared p)
             \<and> \<lparr>cx_key = key, cx_generation = g\<rparr> \<in> ep_connections p))"
proof -
  have ok: "endpoint_ok p" using run_linked [OF assms] by simp
  then have "ob_closed (ep_shared p) \<longrightarrow> observations_snapshot (ep_shared p) = fmempty"
    by (auto simp: endpoint_ok_def observations_snapshot_def)
  moreover have "fmlookup (ob_peers (ep_shared p)) key = Some e \<Longrightarrow> entry_ok p key e" by (rule entry_okD [OF ok])
  ultimately show ?thesis using ok by (auto simp: endpoint_ok_def entry_ok_def)
qed

subsection \<open>Independence of the past\<close>

text \<open>The events of one attempt, and the attempts that a history began.\<close>

fun subject :: "observation_event \<Rightarrow> (observed_key \<times> nat) option" where
  "subject (Begun a) = Some (at_key a, at_generation a)"
| "subject (Phase phase a) = Some (at_key a, at_generation a)"
| "subject (Authorized a) = Some (at_key a, at_generation a)"
| "subject (Finished success a) = Some (at_key a, at_generation a)"
| "subject (Dropped a) = Some (at_key a, at_generation a)"
| "subject (Disconnected c) = Some (cx_key c, cx_generation c)"
| "subject (Forgotten database) = None"
| "subject EndpointClosed = None"

definition begun :: "observation_event list \<Rightarrow> (observed_key \<times> nat) set" where
  "begun es = {k. \<exists>a. Begun a \<in> set es \<and> k = (at_key a, at_generation a)}"

definition current_events :: "observation_event list \<Rightarrow> observation_event list" where
  "current_events es = [e \<leftarrow> es. \<forall>k. subject e = Some k \<longrightarrow> k \<in> begun es]"

lemma begun_simps [simp]: "begun [] = {}" "begun (es @ es') = begun es \<union> begun es'"
  "begun [Begun a] = {(at_key a, at_generation a)}" "begun [Phase phase a] = {}" "begun [Authorized a] = {}"
  "begun [Finished success a] = {}" "begun [Dropped a] = {}" "begun [Disconnected c] = {}"
  "begun [Forgotten d] = {}" "begun [EndpointClosed] = {}"
  by (auto simp: begun_def)

text \<open>Every attempt and connection was begun, and generations only rise.\<close>

lemma run_begun:
  "endpoint_run es p \<Longrightarrow>
     (\<forall>a \<in> ep_attempts p. (at_key a, at_generation a) \<in> begun es)
     \<and> (\<forall>c \<in> ep_connections p. (cx_key c, cx_generation c) \<in> begun es)
     \<and> (\<forall>k \<in> begun es. snd k \<le> ob_next (ep_shared p))"
proof (induction rule: endpoint_run.induct)
  case start
  show ?case by (simp add: endpoint_new_def)
next
  case (more es p e p')
  from more.hyps(2) show ?case
  proof cases
    case (begins d peer a s)
    then show ?thesis
      using more.IH begin_cases(3,5) [OF begins(3)] by (auto simp: begun_def)
  next
    case (authorizes a c s)
    then show ?thesis
      using more.IH authorized_cases(1,2) [OF authorizes(5)] by auto
  next
    case (drops a)
    then show ?thesis using more.IH by (auto simp: attempt_drop_def)
  qed (use more.IH in \<open>auto simp: observations_forget_def observations_close_def\<close>)
qed

lemma run_snoc: "endpoint_run (es @ [e]) p' \<longleftrightarrow> (\<exists>p. endpoint_run es p \<and> endpoint_step p e p')"
  by (auto elim: endpoint_run.cases intro: endpoint_run.more)

lemma begun_later: "endpoint_run (es @ es') p \<Longrightarrow> k \<in> begun es \<Longrightarrow> k' \<in> begun es' \<Longrightarrow> snd k < snd k'"
proof (induction es' arbitrary: p k' rule: rev_induct)
  case (snoc e es')
  then obtain q where run: "endpoint_run (es @ es') q" and step: "endpoint_step q e p"
    by (auto simp: run_snoc simp flip: append_assoc)
  show ?case
  proof (cases "k' \<in> begun es'")
    case True
    then show ?thesis using snoc.IH [OF run snoc.prems(2)] by simp
  next
    case False
    then obtain a where a: "e = Begun a" "k' = (at_key a, at_generation a)"
      using snoc.prems(3) by (auto simp: begun_def)
    have "snd k \<le> ob_next (ep_shared q)" using run_begun [OF run] snoc.prems(2) by auto
    moreover from step have "at_generation a = Suc (ob_next (ep_shared q))"
      by (cases rule: endpoint_step.cases) (use a begin_cases(5) in force)+
    ultimately show ?thesis using a by simp
  qed
qed simp

text \<open>Two histories look the same for a key, and mention only known attempts there.\<close>

definition same_view :: "(observed_key \<times> nat) set \<Rightarrow> observed_key \<Rightarrow> presence \<Rightarrow> presence \<Rightarrow> bool" where
  "same_view B key w w' \<longleftrightarrow>
     pr_latest w key = pr_latest w' key
     \<and> (\<forall>g. (key, g) \<in> pr_present w \<longleftrightarrow> (key, g) \<in> pr_present w')
     \<and> (\<forall>a. at_key a = key \<longrightarrow> (a \<in> pr_counts w \<longleftrightarrow> a \<in> pr_counts w'))
     \<and> (\<forall>g phase. pr_latest w key = Some (g, phase) \<longrightarrow> (key, g) \<in> B)
     \<and> (\<forall>g. (key, g) \<in> pr_present w \<longrightarrow> (key, g) \<in> B)
     \<and> (\<forall>a \<in> pr_counts w. at_key a = key \<longrightarrow> (key, at_generation a) \<in> B)"

lemma same_view_step:
  assumes "same_view B key w w'" and "\<And>a. e = Begun a \<Longrightarrow> (at_key a, at_generation a) \<in> B"
  shows "same_view B key (presence_step e w)
    (if \<forall>k. subject e = Some k \<longrightarrow> k \<in> B then presence_step e w' else w')"
  using assms
  by (cases e; cases "pr_latest w key"; cases "pr_latest w' key")
    (auto simp: same_view_def presence_new_def split: if_splits)

lemma same_view_run:
  assumes "same_view B key w w'" and "begun es \<subseteq> B"
  shows "same_view B key (fold presence_step es w)
    (fold presence_step [e \<leftarrow> es. \<forall>k. subject e = Some k \<longrightarrow> k \<in> B] w')"
  using assms
proof (induction es rule: rev_induct)
  case (snoc e es)
  let ?known = "\<lambda>e. \<forall>k. subject e = Some k \<longrightarrow> k \<in> B"
  have "same_view B key (fold presence_step es w) (fold presence_step (filter ?known es) w')"
    using snoc by simp
  then have "same_view B key (presence_step e (fold presence_step es w))
      (if ?known e then presence_step e (fold presence_step (filter ?known es) w') else fold presence_step (filter ?known es) w')"
    by (rule same_view_step) (use snoc.prems(2) in simp)
  then show ?case by (cases "?known e") auto
qed simp

text \<open>
  C14: Closing a working copy forgets its peers for good. What is shown of the database
  afterwards depends only on attempts begun since, which are different ones; whatever the old
  attempts and connections still report in between has no effect.
\<close>

theorem late_events_ignored:
  assumes "endpoint_run (es @ Forgotten database # es') p" and "fst key = database"
  shows "begun es \<inter> begun es' = {}
    \<and> fmlookup (observations_snapshot (ep_shared p)) key
        = shown (fold presence_step (current_events es') presence_new) key"
proof
  let ?w = "presence_step (Forgotten database) (fold presence_step es presence_new)"
  show "begun es \<inter> begun es' = {}"
    using begun_later [of "es @ [Forgotten database]" es' p] assms(1) by force
  have "same_view (begun es') key ?w presence_new"
    using assms(2) by (auto simp: same_view_def presence_new_def)
  then have "same_view (begun es') key (fold presence_step es' ?w)
      (fold presence_step (current_events es') presence_new)"
    unfolding current_events_def by (rule same_view_run) simp
  then have "shown (fold presence_step es' ?w) key = shown (fold presence_step (current_events es') presence_new) key"
    by (simp add: same_view_def shown_def)
  moreover have "key_linked p (fold presence_step es' ?w) key"
    using run_linked [OF assms(1)] by (simp add: linked_def)
  then have "fmlookup (observations_snapshot (ep_shared p)) key = shown (fold presence_step es' ?w) key"
    by (cases "fmlookup (ob_peers (ep_shared p)) key")
      (auto simp: observations_snapshot_def shown_def key_linked_def availability_def)
  ultimately show "fmlookup (observations_snapshot (ep_shared p)) key
      = shown (fold presence_step (current_events es') presence_new) key"
    by simp
qed

subsection \<open>Inbound connections\<close>

definition opened_for :: "public_key \<Rightarrow> database_id \<Rightarrow> attempt \<times> connection_observation \<Rightarrow> bool" where
  "opened_for peer database x \<longleftrightarrow> at_key (fst x) = (database, peer) \<and> \<not> at_finished (fst x)
     \<and> snd x = \<lparr>cx_key = at_key (fst x), cx_generation = at_generation (fst x)\<rparr>"

definition inbound_ok :: "inbound_observation \<Rightarrow> bool" where
  "inbound_ok i \<longleftrightarrow> (\<forall>database x. fmlookup (in_databases i) database = Some x \<longrightarrow> opened_for (in_peer i) database x)"

lemma inbound_okI:
  assumes "inbound_ok i" and "opened_for (in_peer i) database x"
  shows "inbound_ok (i\<lparr>in_databases := fmupd database x (in_databases i)\<rparr>)"
  using assms by (simp add: inbound_ok_def)

lemma inbound_authorized_ok:
  assumes ok: "inbound_ok i" and run: "inbound_authorized database i s = (r, i', s')"
  shows "inbound_ok i'"
proof (cases "\<exists>a t. \<not> bt_contains (in_databases i) database \<and> observations_begin database (in_peer i) s = (Inr a, t)")
  case True
  then obtain a t where a: "\<not> bt_contains (in_databases i) database" "observations_begin database (in_peer i) s = (Inr a, t)"
    by blast
  obtain c u where c: "attempt_authorized a t = (c, u)" by fastforce
  have "i' = i\<lparr>in_databases := fmupd database (a, c) (in_databases i)\<rparr>"
    using run a c by (simp add: inbound_authorized_def)
  then show ?thesis
    using inbound_okI [OF ok] begin_cases(5) [OF a(2)] authorized_cases(1) [OF c] by (simp add: opened_for_def)
next
  case False
  then have "i' = i" using run by (auto simp: inbound_authorized_def split: if_splits sum.splits prod.splits)
  then show ?thesis using ok by simp
qed

lemma inbound_kept_ok: "inbound_ok (inbound_new peer)" "inbound_ok i \<Longrightarrow> inbound_ok (inbound_failed database i)"
  by (simp_all add: inbound_ok_def inbound_new_def inbound_failed_def)

definition settled :: "(database_id \<Rightarrow> exchange_phase) \<Rightarrow> database_id \<Rightarrow> attempt \<Rightarrow> observed_entry \<Rightarrow> observed_entry" where
  "settled outcome database a e =
     e\<lparr>oe_phase := (if oe_generation e = at_generation a then outcome database else oe_phase e),
       oe_connections := oe_connections e |-| {|at_generation a|}\<rparr>"

lemma inbound_fold:
  fixes outcome :: "database_id \<Rightarrow> exchange_phase"
  assumes "\<forall>x \<in> set xs. opened_for peer (fst x) (snd x)" and "distinct (map fst xs)"
  shows "fmlookup (ob_peers (fold (\<lambda>(d, a, c) s. connection_drop c (attempt_phase (outcome d) a s)) xs s)) key =
    (case map_of xs (fst key) of
       Some x \<Rightarrow> if snd key = peer then map_option (settled outcome (fst key) (fst x)) (fmlookup (ob_peers s) key)
                 else fmlookup (ob_peers s) key
     | None \<Rightarrow> fmlookup (ob_peers s) key)"
  using assms
proof (induction xs arbitrary: s)
  case (Cons x xs)
  obtain d a c where x: "x = (d, a, c)" by (cases x)
  have xa: "at_key a = (d, peer)" "cx_key c = (d, peer)" "cx_generation c = at_generation a"
    using Cons.prems x by (simp_all add: opened_for_def)
  have none: "map_of xs d = None" using Cons.prems(2) x by (simp add: map_of_eq_None_iff)
  let ?s = "connection_drop c (attempt_phase (outcome d) a s)"
  have IH: "fmlookup (ob_peers (fold (\<lambda>(d, a, c) s. connection_drop c (attempt_phase (outcome d) a s)) xs ?s)) key =
    (case map_of xs (fst key) of
       Some x \<Rightarrow> if snd key = peer then map_option (settled outcome (fst key) (fst x)) (fmlookup (ob_peers ?s) key)
                 else fmlookup (ob_peers ?s) key
     | None \<Rightarrow> fmlookup (ob_peers ?s) key)"
    using Cons.prems by (intro Cons.IH) simp_all
  show ?case
  proof (cases "key = (d, peer)")
    case True
    then have "fmlookup (ob_peers ?s) key = map_option (settled outcome d a) (fmlookup (ob_peers s) key)"
      using xa by (cases "fmlookup (ob_peers s) key") (simp_all add: settled_def)
    then show ?thesis using IH x none True by simp
  next
    case False
    then have eq: "fmlookup (ob_peers ?s) key = fmlookup (ob_peers s) key" using xa by simp
    have "fst key = d \<Longrightarrow> snd key \<noteq> peer" using False by (cases key) auto
    then show ?thesis
      using IH [unfolded eq] x none by (cases "fst key = d") simp_all
  qed
qed simp

lemma map_of_bt_iter [simp]: "map_of (bt_iter m) k = fmlookup m k"
  by (cases "fmlookup m k") (auto simp: map_of_eq_None_iff fmlookup_dom_iff intro: map_of_is_SomeI)

text \<open>
  C15: When an inbound connection ends, each database it was authorized for gets its own
  outcome, completed only if the connection ended well and none of its requests for that
  database failed, unless a later attempt reports already; its presence ends, and no other
  database or peer is touched.
\<close>

theorem inbound_outcomes_separate:
  assumes "inbound_ok i"
  shows "fmlookup (ob_peers (inbound_finish success i s)) key =
    (case fmlookup (in_databases i) (fst key) of
       Some (a, c) \<Rightarrow> if snd key = in_peer i
         then map_option (\<lambda>e. e\<lparr>
             oe_phase := (if oe_generation e \<noteq> at_generation a then oe_phase e
                else if success \<and> fst key |\<notin>| in_failed i then ExchangeCompleted else ExchangeFailed),
             oe_connections := oe_connections e |-| {|at_generation a|}\<rparr>) (fmlookup (ob_peers s) key)
         else fmlookup (ob_peers s) key
     | None \<Rightarrow> fmlookup (ob_peers s) key)"
proof -
  let ?outcome = "\<lambda>d. if success \<and> d |\<notin>| in_failed i then ExchangeCompleted else ExchangeFailed"
  have "\<forall>x \<in> set (bt_iter (in_databases i)). opened_for (in_peer i) (fst x) (snd x)"
    using assms by (simp add: inbound_ok_def)
  note fold = inbound_fold [OF this, where outcome = ?outcome and s = s and key = key]
  show ?thesis
    using fold by (cases "fmlookup (in_databases i) (fst key)"; cases "fmlookup (ob_peers s) key")
      (auto simp: inbound_finish_def settled_def)
qed

subsection \<open>An endpoint at work\<close>

text \<open>A connection outlives its database: it was authorized, then the copy was closed and opened again.\<close>

definition demo_attempt :: "nat \<Rightarrow> attempt" where
  "demo_attempt g = \<lparr>at_key = (''db'', [1]), at_generation = g, at_finished = False\<rparr>"

definition demo_events :: "observation_event list" where
  "demo_events = [Begun (demo_attempt 2), Phase Connecting (demo_attempt 2), Finished True (demo_attempt 1),
     Disconnected \<lparr>cx_key = (''db'', [1]), cx_generation = 1\<rparr>]"

lemma demo_begin:
  "\<not> ob_closed s \<Longrightarrow> ob_next s = n \<Longrightarrow> n < 5 \<Longrightarrow> \<exists>t. observations_begin ''db'' [1] s = (Ok (demo_attempt (Suc n)), t)"
  by (simp add: observations_begin_def checked_add_def U64_MAX_def demo_attempt_def Let_def)

lemma demo_run: "\<exists>p. endpoint_run ([Begun (demo_attempt 1), Authorized (demo_attempt 1)] @ Forgotten ''db'' # demo_events) p"
proof -
  let ?a = "demo_attempt 1" and ?b = "demo_attempt 2" and ?c = "\<lparr>cx_key = (''db'', [1 :: byte]), cx_generation = 1\<rparr>"
  obtain s1 where b1: "observations_begin ''db'' [1] observations_new = (Ok ?a, s1)"
    using demo_begin [of observations_new 0] by (auto simp: observations_new_def)
  obtain s2 where b2: "attempt_authorized ?a s1 = (?c, s2)"
    using authorized_cases(1) [of ?a s1] by (cases "attempt_authorized ?a s1") (auto simp: demo_attempt_def)
  let ?s3 = "observations_forget ''db'' s2"
  have n: "ob_next ?s3 = 1" "\<not> ob_closed ?s3"
    using begin_cases(3,4) [OF b1] authorized_cases(2,3) [OF b2] by (simp_all add: observations_new_def)
  obtain s4 where b4: "observations_begin ''db'' [1] ?s3 = (Ok ?b, s4)"
    using demo_begin [OF n(2,1)] by (auto simp: numeral_2_eq_2)
  have "endpoint_run [Begun ?a] \<lparr>ep_shared = s1, ep_attempts = {?a}, ep_connections = {}, ep_used = {}\<rparr>" (is "endpoint_run _ ?p1")
    using endpoint_run.more [OF endpoint_run.start endpoint_step.begins, of "''db''" "[1]" ?a s1] b1
    by (simp add: endpoint_new_def)
  then have "endpoint_run ([Begun ?a] @ [Authorized ?a])
      (?p1\<lparr>ep_shared := s2, ep_connections := insert ?c (ep_connections ?p1), ep_used := insert (at_generation ?a) (ep_used ?p1)\<rparr>)"
    (is "endpoint_run _ ?p2")
    by (rule endpoint_run.more [OF _ endpoint_step.authorizes]) (simp_all add: b2 [unfolded One_nat_def])
  then have "endpoint_run (([Begun ?a] @ [Authorized ?a]) @ [Forgotten ''db''])
      (?p2\<lparr>ep_shared := observations_forget ''db'' (ep_shared ?p2)\<rparr>)" (is "endpoint_run _ ?p3")
    by (rule endpoint_run.more [OF _ endpoint_step.forgets])
  then have "endpoint_run ((([Begun ?a] @ [Authorized ?a]) @ [Forgotten ''db'']) @ [Begun ?b])
      (?p3\<lparr>ep_shared := s4, ep_attempts := insert ?b (ep_attempts ?p3)\<rparr>)" (is "endpoint_run _ ?p4")
    by (rule endpoint_run.more [OF _ endpoint_step.begins [where database = "''db''" and peer = "[1]"]]) (simp add: b4)
  then have "endpoint_run (((([Begun ?a] @ [Authorized ?a]) @ [Forgotten ''db'']) @ [Begun ?b]) @ [Phase Connecting ?b])
      (?p4\<lparr>ep_shared := attempt_phase Connecting ?b (ep_shared ?p4)\<rparr>)" (is "endpoint_run _ ?p5")
    by (rule endpoint_run.more [OF _ endpoint_step.reports]) simp
  then have "endpoint_run ((((([Begun ?a] @ [Authorized ?a]) @ [Forgotten ''db'']) @ [Begun ?b]) @ [Phase Connecting ?b])
        @ [Finished True ?a])
      (?p5\<lparr>ep_shared := attempt_finish True ?a (ep_shared ?p5), ep_attempts := ep_attempts ?p5 - {?a}\<rparr>)" (is "endpoint_run _ ?p6")
    by (rule endpoint_run.more [OF _ endpoint_step.finishes]) simp
  then have "endpoint_run (((((([Begun ?a] @ [Authorized ?a]) @ [Forgotten ''db'']) @ [Begun ?b]) @ [Phase Connecting ?b])
        @ [Finished True ?a]) @ [Disconnected ?c])
      (?p6\<lparr>ep_shared := connection_drop ?c (ep_shared ?p6), ep_connections := ep_connections ?p6 - {?c}\<rparr>)"
    by (rule endpoint_run.more [OF _ endpoint_step.disconnects]) simp
  then show ?thesis by (auto simp: demo_events_def)
qed

theorem snapshot_refines_history_witness:
  "\<exists>p :: endpoint. fmlookup (observations_snapshot (ep_shared p)) (''db'', [1]) = Some \<lparr>po_availability = PeerUnknown, po_phase = Connecting\<rparr>"
proof -
  obtain p where "endpoint_run ([Begun (demo_attempt 1), Authorized (demo_attempt 1)] @ Forgotten ''db'' # demo_events) p"
    using demo_run by blast
  from snapshot_refines_history [OF this, of "(''db'', [1])"] show ?thesis
    by (intro exI [of _ p])
      (simp add: demo_events_def shown_def presence_new_def report_phase_def demo_attempt_def)
qed

theorem observations_well_formed_witness:
  "\<exists>p. endpoint_run ([Begun (demo_attempt 1), Authorized (demo_attempt 1)] @ Forgotten ''db'' # demo_events) p
     \<and> ob_next (ep_shared p) \<le> U64_MAX"
proof -
  obtain p where "endpoint_run ([Begun (demo_attempt 1), Authorized (demo_attempt 1)] @ Forgotten ''db'' # demo_events) p"
    using demo_run by blast
  with observations_well_formed [OF this] show ?thesis by blast
qed

theorem late_events_ignored_witness:
  "\<exists>p :: endpoint. fmlookup (observations_snapshot (ep_shared p)) (''db'', [1])
    = shown (fold presence_step [Begun (demo_attempt 2), Phase Connecting (demo_attempt 2)] presence_new) (''db'', [1])"
proof -
  obtain p where "endpoint_run ([Begun (demo_attempt 1), Authorized (demo_attempt 1)] @ Forgotten ''db'' # demo_events) p"
    using demo_run by blast
  moreover have "current_events demo_events = [Begun (demo_attempt 2), Phase Connecting (demo_attempt 2)]"
    by (auto simp: current_events_def demo_events_def begun_def demo_attempt_def)
  ultimately show ?thesis
    using late_events_ignored [of "[Begun (demo_attempt 1), Authorized (demo_attempt 1)]" "''db''" demo_events p "(''db'', [1])"]
    by (intro exI [of _ p]) simp
qed

theorem inbound_outcomes_separate_witness:
  "let (r, i, s) = inbound_authorized ''db'' (inbound_new [1]) observations_new
   in fmlookup (observations_snapshot (inbound_finish True (inbound_failed ''db'' i) s)) (''db'', [1])
        = Some \<lparr>po_availability = PeerUnknown, po_phase = ExchangeFailed\<rparr>"
proof -
  let ?a = "demo_attempt 1" and ?c = "\<lparr>cx_key = (''db'', [1 :: byte]), cx_generation = 1\<rparr>"
  obtain s1 where b1: "observations_begin ''db'' [1] observations_new = (Ok ?a, s1)"
    using demo_begin [of observations_new 0] by (auto simp: observations_new_def)
  obtain s2 where b2: "attempt_authorized ?a s1 = (?c, s2)"
    using authorized_cases(1) [of ?a s1] by (cases "attempt_authorized ?a s1") (auto simp: demo_attempt_def)
  define i where "i = (inbound_new [1])\<lparr>in_databases := fmupd ''db'' (?a, ?c) fmempty\<rparr>"
  have i: "inbound_authorized ''db'' (inbound_new [1]) observations_new = (Ok (), i, s2)"
    "in_databases i = fmupd ''db'' (?a, ?c) fmempty" "in_failed i = {||}" "in_peer i = [1]"
    using b1 b2 by (simp_all add: inbound_authorized_def inbound_new_def i_def)
  have ok: "inbound_ok (inbound_failed ''db'' i)"
    using inbound_authorized_ok [OF inbound_kept_ok(1) i(1)] by (rule inbound_kept_ok(2))
  have "fmlookup (ob_peers s2) (''db'', [1])
      = Some \<lparr>oe_since = 1, oe_generation = 1, oe_phase = Transferring, oe_connections = {|1|}\<rparr>"
    using authorized_cases(4) [OF b2, of "(''db'', [1])"] begin_cases(6) [OF b1, of "(''db'', [1])"]
    by (simp add: observations_new_def demo_attempt_def)
  then show ?thesis
    using inbound_outcomes_separate [OF ok, of True s2 "(''db'', [1])"] i
    by (simp add: inbound_failed_def observations_snapshot_def availability_def demo_attempt_def)
qed

declare split_paired_All [simp] split_paired_Ex [simp]

end
