(* ===== verification/Sync_Wire.thy ===== *)
theory Sync_Wire
  imports Sync_Coordinator
begin

text \<open>
  Frames and bodies on one QUIC stream: \<open>crates/taypeer-sync/src/wire.rs\<close> and the body
  functions of \<open>node.rs\<close>. The transport delivers the sent bytes in order, cut into pieces as it
  likes; it may stall beyond the deadline or break, and the peer may end its stream anywhere. So
  a receiving stream is the list of what arrives, the end of the list is the end of the stream,
  and a read takes at most one piece. \<open>serde_json\<close> is a codec parameter.
\<close>

datatype arrival = Data bytes | Stalled | Broken

definition MAX_FRAME :: nat where "MAX_FRAME = 16 * 1024 * 1024"
definition MAX_OBJECT :: nat where "MAX_OBJECT = 16 * 1024 * 1024 * 1024"
definition WIRE_CHUNK :: nat where "WIRE_CHUNK = 1024 * 1024"

text \<open>\<open>RecvStream::read\<close> and \<open>read_exact\<close>, under the idle deadline.\<close>

fun recv_read :: "nat \<Rightarrow> arrival list \<Rightarrow> (sync_error + bytes option) \<times> arrival list" where
  "recv_read n [] = (Ok None, [])"
| "recv_read n (Data bs # s) =
     (if bs = [] then recv_read n s
      else if length bs \<le> n then (Ok (Some bs), s)
      else (Ok (Some (take n bs)), Data (drop n bs) # s))"
| "recv_read n (Stalled # s) = (Err TimeoutErr, Stalled # s)"
| "recv_read n (Broken # s) = (Err TransportErr, Broken # s)"

fun recv_exact :: "nat \<Rightarrow> arrival list \<Rightarrow> (sync_error + bytes) \<times> arrival list" where
  "recv_exact 0 s = (Ok [], s)"
| "recv_exact (Suc k) [] = (Err TransportErr, [])"
| "recv_exact (Suc k) (Data bs # s) =
     (if length bs \<le> Suc k
      then case recv_exact (Suc k - length bs) s of
          (Inl e, s') \<Rightarrow> (Err e, s')
        | (Inr later, s') \<Rightarrow> (Ok (bs @ later), s')
      else (Ok (take (Suc k) bs), Data (drop (Suc k) bs) # s))"
| "recv_exact (Suc k) (Stalled # s) = (Err TimeoutErr, Stalled # s)"
| "recv_exact (Suc k) (Broken # s) = (Err TransportErr, Broken # s)"

record 'a wire_codec =
  wi_encode :: "'a \<Rightarrow> bytes option"
  wi_decode :: "bytes \<Rightarrow> 'a option"

definition wire_codec_laws :: "'a wire_codec \<Rightarrow> bool" where
  "wire_codec_laws C \<longleftrightarrow> (\<forall>v b. wi_encode C v = Some b \<longrightarrow> wi_decode C b = Some v)"

text \<open>The bytes that writing puts on the stream; whether they arrive is the transport's part.\<close>

definition wire_write :: "'a wire_codec \<Rightarrow> 'a \<Rightarrow> sync_error + bytes" where
  "wire_write C v =
     bindR (ok_or (wi_encode C v) ProtocolErr) (\<lambda>b.
     if length b > MAX_FRAME then Err ProtocolErr else Ok (le_bytes 4 (length b) @ b))"

definition wire_read :: "'a wire_codec \<Rightarrow> arrival list \<Rightarrow> (sync_error + 'a) \<times> arrival list" where
  "wire_read C =
     bindS (recv_exact 4) (\<lambda>header.
     let len = le_value header in
     if len > MAX_FRAME then pureS (Err ProtocolErr)
     else bindS (recv_exact len) (\<lambda>b. pureS (ok_or (wi_decode C b) ProtocolErr)))"

definition wire_eof :: "arrival list \<Rightarrow> (sync_error + unit) \<times> arrival list" where
  "wire_eof = bindS (recv_read 1) (\<lambda>extra. pureS (if extra \<noteq> None then Err ProtocolErr else Ok ()))"

text \<open>
  A body: the sender's chunks and how its reading ended, and the receiver's loop. Both pass the
  chunks through a bounded channel to the task that owns the file, which keeps their order;
  staging into the temporary file is taken to succeed.
\<close>

function send_body :: "object_reader \<Rightarrow> arrival list \<times> (sync_error + unit)" where
  "send_body r = (case object_read r WIRE_CHUNK of
     Inl _ \<Rightarrow> ([], Err (StorageErr Io))
   | Inr (chunk, r') \<Rightarrow>
       if chunk = [] then ([], Ok ()) else (case send_body r' of (sent, res) \<Rightarrow> (Data chunk # sent, res)))"
  by pat_completeness auto
termination
  by (relation "measure or_remaining") (auto simp: object_read_def Let_def WIRE_CHUNK_def split: if_splits)

lemma recv_read_some: "0 < n \<Longrightarrow> recv_read n s = (Inr (Some bs), s') \<Longrightarrow> bs \<noteq> [] \<and> length bs \<le> n"
  by (induction n s rule: recv_read.induct) (auto split: if_splits)

function receive_chunks :: "nat \<Rightarrow> arrival list \<Rightarrow> (sync_error + bytes) \<times> arrival list" where
  "receive_chunks left s =
     (if left = 0 then bindS wire_eof (\<lambda>_. pureS (Ok [])) s
      else case recv_read (min left WIRE_CHUNK) s of
          (Inl e, s') \<Rightarrow> (Err e, s')
        | (Inr None, s') \<Rightarrow> (Err ProtocolErr, s')
        | (Inr (Some buffer), s') \<Rightarrow>
            if buffer = [] then (Err ProtocolErr, s')
            else bindS (receive_chunks (left - length buffer)) (\<lambda>later. pureS (Ok (buffer @ later))) s')"
  by pat_completeness auto
termination
  by (relation "measure fst") (auto simp: WIRE_CHUNK_def)

declare send_body.simps [simp del] receive_chunks.simps [simp del]

definition receive_body :: "nat \<Rightarrow> arrival list \<Rightarrow> (sync_error + bytes) \<times> arrival list" where
  "receive_body len s =
     (if len = 0 \<or> len > MAX_OBJECT then (Err ProtocolErr, s) else receive_chunks len s)"

subsection \<open>What a stream carries\<close>

fun clean :: "arrival list \<Rightarrow> bool" where
  "clean [] = True"
| "clean (Data bs # s) = clean s"
| "clean (Stalled # s) = False"
| "clean (Broken # s) = False"

fun carried :: "arrival list \<Rightarrow> bytes" where
  "carried [] = []"
| "carried (Data bs # s) = bs @ carried s"
| "carried (Stalled # s) = []"
| "carried (Broken # s) = []"

lemma recv_exact_full:
  "n \<le> length (carried s) \<Longrightarrow> \<exists>s'. recv_exact n s = (Inr (take n (carried s)), s')
     \<and> carried s' = drop n (carried s) \<and> clean s' = clean s"
proof (induction n s rule: recv_exact.induct)
  case (3 k bs s)
  show ?case
  proof (cases "length bs \<le> Suc k")
    case True
    then show ?thesis using 3 by fastforce
  next
    case False
    then show ?thesis by simp
  qed
qed auto

lemma recv_exact_short: "length (carried s) < n \<Longrightarrow> \<exists>e s'. recv_exact n s = (Inl e, s')"
  by (induction n s rule: recv_exact.induct) (fastforce split: prod.splits sum.splits)+

lemma recv_exact_Ok:
  assumes "recv_exact n s = (Inr bs, s')"
  shows "carried s = bs @ carried s'" and "length bs = n" and "clean s' = clean s"
proof -
  have n: "n \<le> length (carried s)" using assms recv_exact_short [of s n] by (cases "n \<le> length (carried s)") auto
  from recv_exact_full [OF n] assms show "carried s = bs @ carried s'" "length bs = n" "clean s' = clean s"
    using n by auto
qed

text \<open>
  C16: A frame survives any cutting of the stream: what was written is what is read, and the
  reader stands exactly behind it.
\<close>

theorem frame_roundtrip:
  assumes "wire_codec_laws C" and "wire_write C v = Ok frame" and "carried s = frame @ rest"
  shows "\<exists>s'. wire_read C s = (Ok v, s') \<and> carried s' = rest \<and> clean s' = clean s"
proof -
  obtain b where b: "wi_encode C v = Some b" "length b \<le> MAX_FRAME" "frame = le_bytes 4 (length b) @ b"
    using assms(2) by (auto simp: wire_write_def not_less)
  have d: "wi_decode C b = Some v" using assms(1) b(1) by (simp add: wire_codec_laws_def)
  have size: "le_value (le_bytes 4 (length b)) = length b"
    using b(2) by (intro le_value_le_bytes) (simp add: MAX_FRAME_def)
  obtain t where t: "recv_exact 4 s = (Ok (le_bytes 4 (length b)), t)" "carried t = b @ rest" "clean t = clean s"
    using recv_exact_full [of 4 s] assms(3) b(3) by (auto simp: length_le_bytes)
  obtain u where "recv_exact (length b) t = (Ok b, u)" "carried u = rest" "clean u = clean t"
    using recv_exact_full [of "length b" t] t(2) by auto
  then show ?thesis using t d b(2) size by (simp add: wire_read_def bindS_def pureS_def Let_def)
qed

text \<open>A parsed frame was there in full, and within its bound.\<close>

lemma frame_read:
  assumes "wire_read C s = (Ok v, s')"
  shows "\<exists>header b. length header = 4 \<and> le_value header = length b \<and> length b \<le> MAX_FRAME
    \<and> wi_decode C b = Some v \<and> carried s = header @ b @ carried s' \<and> clean s' = clean s"
proof -
  obtain header t b where h: "recv_exact 4 s = (Ok header, t)" "le_value header \<le> MAX_FRAME"
    "recv_exact (le_value header) t = (Ok b, s')" "wi_decode C b = Some v"
    using assms by (auto simp: wire_read_def bindS_def pureS_def Let_def split: prod.splits sum.splits if_splits)
  then show ?thesis
    using recv_exact_Ok [OF h(1)] recv_exact_Ok [OF h(3)] by (intro exI [of _ header] exI [of _ b]) simp
qed

lemma recv_read_content:
  assumes "0 < n" and "recv_read n s = (r, s')"
  shows "case r of Inl _ \<Rightarrow> \<not> clean s \<and> carried s = [] | Inr None \<Rightarrow> clean s \<and> carried s = [] \<and> s' = []
    | Inr (Some bs) \<Rightarrow> bs \<noteq> [] \<and> carried s = bs @ carried s' \<and> clean s' = clean s"
  using assms by (induction n s rule: recv_read.induct) (auto split: if_splits sum.splits option.splits)

lemma wire_eof_Ok: "wire_eof s = (Ok u, s') \<longleftrightarrow> clean s \<and> carried s = [] \<and> s' = []"
proof -
  obtain r t where run: "recv_read 1 s = (r, t)" by fastforce
  then show ?thesis
    using recv_read_content [of 1 s r t]
    by (auto simp: wire_eof_def bindS_def pureS_def split: sum.splits option.splits)
qed

lemma receive_chunks_Ok:
  "receive_chunks left s = (Ok bs, s') \<longleftrightarrow> clean s \<and> carried s = bs \<and> length bs = left \<and> s' = []"
proof (induction left s arbitrary: bs rule: receive_chunks.induct)
  case (1 left s)
  show ?case
  proof (cases "left = 0")
    case True
    then show ?thesis
      using wire_eof_Ok [of s "()" s']
      by (cases "wire_eof s"; cases "fst (wire_eof s)") (auto simp: receive_chunks.simps [of 0] bindS_def pureS_def)
  next
    case False
    then have n: "0 < min left WIRE_CHUNK" by (simp add: WIRE_CHUNK_def)
    obtain r t where run: "recv_read (min left WIRE_CHUNK) s = (r, t)" by fastforce
    note c = recv_read_content [OF n run]
    show ?thesis
    proof (cases "\<exists>buffer. r = Inr (Some buffer)")
      case True
      then obtain buffer where r: "r = Inr (Some buffer)" by blast
      then have b: "buffer \<noteq> []" "carried s = buffer @ carried t" "clean t = clean s" "length buffer \<le> left"
        using c recv_read_some [OF n, of s buffer t] run by auto
      have IH: "receive_chunks (left - length buffer) t = (Ok later, s') \<longleftrightarrow>
          clean t \<and> carried t = later \<and> length later = left - length buffer \<and> s' = []" for later
        using 1 [OF False run [symmetric] r refl b(1)] by simp
      have "receive_chunks left s = bindS (receive_chunks (left - length buffer)) (\<lambda>later. pureS (Ok (buffer @ later))) t"
        using False run r b(1) by (simp add: receive_chunks.simps [of left])
      then have "receive_chunks left s = (Ok bs, s') \<longleftrightarrow>
          (\<exists>later. receive_chunks (left - length buffer) t = (Ok later, s') \<and> bs = buffer @ later)"
        by (auto simp: bindS_def pureS_def split: prod.splits sum.splits)
      then show ?thesis unfolding IH using b by auto
    next
      case none: False
      then have "\<exists>e. receive_chunks left s = (Err e, t)"
        using False run by (auto simp: receive_chunks.simps [of left] split: sum.splits option.splits)
      then show ?thesis using none c False by (auto split: sum.splits option.splits)
    qed
  qed
qed

text \<open>
  C17: The receiver takes a body exactly when the stream carries the announced number of bytes,
  within the limits, and then ends; a byte too few or too many, a stall or a break is an error.
\<close>

theorem receive_body_iff:
  "receive_body len s = (Ok bs, s') \<longleftrightarrow>
     0 < len \<and> len \<le> MAX_OBJECT \<and> clean s \<and> carried s = bs \<and> length bs = len \<and> s' = []"
  by (auto simp: receive_body_def receive_chunks_Ok)

lemma send_body_content:
  "send_body r = (sent, res) \<Longrightarrow> clean sent \<and> carried sent = fst (object_content r)
     \<and> res = (case snd (object_content r) of None \<Rightarrow> Ok () | Some _ \<Rightarrow> Err (StorageErr Io))"
proof (induction r arbitrary: sent res rule: send_body.induct)
  case (1 r)
  have n: "0 < WIRE_CHUNK" by (simp add: WIRE_CHUNK_def)
  show ?case
  proof (cases "object_read r WIRE_CHUNK")
    case (Inl e)
    then show ?thesis
      using 1(2) object_source.read_fails [OF n Inl] by (auto simp: send_body.simps [of r])
  next
    case (Inr p)
    obtain chunk r' where p: "p = (chunk, r')" by fastforce
    obtain later res' where l: "send_body r' = (later, res')" by fastforce
    show ?thesis
    proof (cases "chunk = []")
      case True
      then show ?thesis
        using 1(2) Inr p object_source.read_end [OF n, of r r'] by (auto simp: send_body.simps [of r])
    next
      case False
      have "clean later \<and> carried later = fst (object_content r')
         \<and> res' = (case snd (object_content r') of None \<Rightarrow> Ok () | Some _ \<Rightarrow> Err (StorageErr Io))"
        using 1(1) [OF Inr p [symmetric] False l] by simp
      then show ?thesis
        using 1(2) Inr p l False object_source.read_bytes [OF n, of r chunk r'] by (auto simp: send_body.simps [of r])
    qed
  qed
qed

subsection \<open>A frame on the wire\<close>

definition bytes_codec :: "bytes wire_codec" where
  "bytes_codec = \<lparr>wi_encode = Some, wi_decode = Some\<rparr>"

theorem frame_roundtrip_witness:
  "\<exists>s'. wire_read bytes_codec [Data [2, 0], Data [], Data [0, 0, 7], Data [8, 9]] = (Ok [7, 8], s') \<and> carried s' = [9]"
proof -
  have "wire_codec_laws bytes_codec" by (simp add: wire_codec_laws_def bytes_codec_def)
  moreover have "le_bytes 4 (Suc (Suc 0)) = [2, 0, 0, 0]" by code_simp
  then have "wire_write bytes_codec [7, 8] = Ok [2, 0, 0, 0, 7, 8]"
    by (simp add: wire_write_def bytes_codec_def MAX_FRAME_def)
  ultimately show ?thesis
    using frame_roundtrip [of bytes_codec "[7, 8]" "[2, 0, 0, 0, 7, 8]"
        "[Data [2, 0], Data [], Data [0, 0, 7], Data [8, 9]]" "[9]"]
    by fastforce
qed

end
