(* ===== verification/Sync_Node.thy ===== *)
theory Sync_Node
  imports Sync_Exchange Sync_Observation_Laws Sync_Wire
begin

text \<open>
  \<open>crates/taypeer-sync/src/node.rs\<close>: one exchange between two endpoints, from the call of
  \<open>Node::exchange\<close> to the closed connection. The local node drives it; the remote node serves
  each stream in \<open>serve_connection\<close>. The state is both coordinators, what both sides observe,
  and the fate of the requests to come.

  The connection is authenticated by the transport, so each side knows the other's transport
  key. A request and its answer travel on a stream of their own: by \<open>frame_roundtrip\<close> and
  \<open>receive_body_iff\<close> a frame or body arrives as it was sent or counts as lost. So a request is
  delivered, lost before it is served, broken inside its body, or served while the answer is lost.
\<close>

record exchange_report =
  xr_sent :: nat
  xr_received :: nat

datatype request =
    CommandRequest command
  | FetchRequest database_id digest
  | PutRequest database_id cipher_object "arrival list"

datatype response =
    CommandResponse "sync_error + reply"
  | FetchResponse "sync_error + cipher_object \<times> arrival list"
  | PutResponse "sync_error + digest"

text \<open>The flags say whether the remote loop ended in an error.\<close>

datatype fate = Delivered | RequestLost sync_error bool | BodyBroken sync_error nat | AnswerLost sync_error bool

text \<open>What is fixed: both hosts, the clock of the remote one, and the addresses used.\<close>

record link =
  lk_local :: host
  lk_remote :: host
  lk_time :: "nat option"
  lk_from :: endpoint_addr
  lk_to :: endpoint_addr

definition transport_key_of :: "host \<Rightarrow> public_key" where
  "transport_key_of H = transport_public (ho_crypto H) (ho_key H)"

record serving =
  sv_coordinator :: coordinator
  sv_inbound :: inbound_observation
  sv_observed :: observations

record network =
  nw_local :: coordinator
  nw_observed :: observations
  nw_remote :: serving
  nw_hung :: bool
  nw_fates :: "fate list"

type_synonym 'a networking = "network \<Rightarrow> (sync_error + 'a) \<times> network"

fun command_database :: "command \<Rightarrow> database_id option" where
  "command_database (InventoryCommand database _) = Some database"
| "command_database (OfferCommand metadata) = Some (mf_database (sm_body (am_manifest metadata)))"
| "command_database (ManagementProposalCommand intent _ _) = Some (mi_database intent)"
| "command_database (ManagementStatusCommand intent _) = Some (mi_database intent)"
| "command_database (JoinCommand _ _ _ _) = None"
| "command_database (JoinStatusCommand _ _) = None"

subsection \<open>Serving one stream\<close>

text \<open>\<open>None\<close> is an error of \<open>serve_connection\<close>, which closes the connection without an answer.\<close>

text \<open>An object body as it leaves: a reader that fails breaks the stream off.\<close>

definition body_of :: "object_reader \<Rightarrow> arrival list" where
  "body_of reader = (case send_body reader of (sent, res) \<Rightarrow> sent @ (if is_ok res then [] else [Broken]))"

definition observe :: "database_id \<Rightarrow> serving \<Rightarrow> (sync_error + unit) \<times> serving" where
  "observe database s = (case inbound_authorized database (sv_inbound s) (sv_observed s) of
     (r, i, o') \<Rightarrow> (r, s\<lparr>sv_inbound := i, sv_observed := o'\<rparr>))"

definition observe_failure :: "database_id \<Rightarrow> serving \<Rightarrow> serving" where
  "observe_failure database s = s\<lparr>sv_inbound := inbound_failed database (sv_inbound s)\<rparr>"

definition serve_command :: "host \<Rightarrow> nat option \<Rightarrow> public_key \<Rightarrow> command \<Rightarrow> serving \<Rightarrow> response option \<times> serving" where
  "serve_command H now peer cmd s =
     (case handle_command H now peer cmd (sv_coordinator s) of
        (result, c) \<Rightarrow>
          let s = s\<lparr>sv_coordinator := c\<rparr> in
          (case command_database cmd of
             None \<Rightarrow> (Some (CommandResponse result), s)
           | Some database \<Rightarrow>
               if is_ok result
               then (case observe database s of
                   (Inl _, s) \<Rightarrow> (None, s)
                 | (Inr _, s) \<Rightarrow> (Some (CommandResponse result), s))
               else (Some (CommandResponse result), observe_failure database s)))"

definition serve_fetch :: "host \<Rightarrow> public_key \<Rightarrow> database_id \<Rightarrow> digest \<Rightarrow> serving \<Rightarrow> response option \<times> serving" where
  "serve_fetch H peer database key s =
     (case coordinator_object H peer database key (sv_coordinator s) of
        Inl e \<Rightarrow> (Some (FetchResponse (Err e)), observe_failure database s)
      | Inr (descriptor, reader) \<Rightarrow>
          (case observe database s of
             (Inl _, s) \<Rightarrow> (None, s)
           | (Inr _, s) \<Rightarrow> (Some (FetchResponse (Ok (descriptor, body_of reader))), s)))"

definition serve_put ::
  "host \<Rightarrow> public_key \<Rightarrow> database_id \<Rightarrow> cipher_object \<Rightarrow> arrival list \<Rightarrow> serving \<Rightarrow> response option \<times> serving" where
  "serve_put H peer database descriptor body s =
     (case authorize_object H peer database descriptor (sv_coordinator s) of
        Inl _ \<Rightarrow> (None, s)
      | Inr _ \<Rightarrow>
          (case observe database s of
             (Inl _, s) \<Rightarrow> (None, s)
           | (Inr _, s) \<Rightarrow>
               (case fst (receive_body (co_length descriptor) body) of
                  Inl _ \<Rightarrow> (None, s)
                | Inr bytes \<Rightarrow>
                    (case receive H peer database descriptor
                        \<lparr>or_file = bytes, or_offset = 0, or_remaining = length bytes\<rparr> (sv_coordinator s) of
                       (result, c) \<Rightarrow>
                         let s = s\<lparr>sv_coordinator := c\<rparr> in
                         (Some (PutResponse result), if is_ok result then s else observe_failure database s)))))"

fun serve :: "host \<Rightarrow> nat option \<Rightarrow> public_key \<Rightarrow> request \<Rightarrow> serving \<Rightarrow> response option \<times> serving" where
  "serve H now peer (CommandRequest cmd) s = serve_command H now peer cmd s"
| "serve H now peer (FetchRequest database key) s = serve_fetch H peer database key s"
| "serve H now peer (PutRequest database descriptor body) s = serve_put H peer database descriptor body s"

subsection \<open>The calling side\<close>

definition ended_badly :: "response option \<Rightarrow> bool" where
  "ended_badly answer = (case answer of
     None \<Rightarrow> True
   | Some (FetchResponse (Inr (_, body))) \<Rightarrow> \<not> clean body
   | Some _ \<Rightarrow> False)"

definition served_by_remote :: "link \<Rightarrow> request \<Rightarrow> network \<Rightarrow> response option \<times> network" where
  "served_by_remote lk q n =
     (case serve (lk_remote lk) (lk_time lk) (transport_key_of (lk_local lk)) q (nw_remote n) of
        (answer, s) \<Rightarrow> (answer, n\<lparr>nw_remote := s, nw_hung := nw_hung n \<or> ended_badly answer\<rparr>))"

definition transmit :: "link \<Rightarrow> request \<Rightarrow> response networking" where
  "transmit lk q n =
     (let n' = n\<lparr>nw_fates := tl (nw_fates n)\<rparr> in
      case (if nw_fates n = [] then Delivered else hd (nw_fates n)) of
        RequestLost e failed \<Rightarrow> (Err e, n'\<lparr>nw_hung := failed\<rparr>)
      | BodyBroken e k \<Rightarrow>
          (case q of
             PutRequest database descriptor body \<Rightarrow>
               (Err e, snd (served_by_remote lk (PutRequest database descriptor (take k body @ [Broken])) n'))
           | _ \<Rightarrow> (Err e, n'\<lparr>nw_hung := True\<rparr>))
      | AnswerLost e failed \<Rightarrow> (Err e, (snd (served_by_remote lk q n'))\<lparr>nw_hung := failed\<rparr>)
      | Delivered \<Rightarrow> (case served_by_remote lk q n' of
            (Some answer, n') \<Rightarrow> (Ok answer, n')
          | (None, n') \<Rightarrow> (Err TransportErr, n')))"

definition rpc :: "link \<Rightarrow> command \<Rightarrow> reply networking" where
  "rpc lk cmd = bindS (transmit lk (CommandRequest cmd)) (\<lambda>answer.
     pureS (case answer of CommandResponse r \<Rightarrow> r | _ \<Rightarrow> Err ProtocolErr))"

definition put :: "link \<Rightarrow> database_id \<Rightarrow> cipher_object \<Rightarrow> object_reader \<Rightarrow> unit networking" where
  "put lk database descriptor reader =
     bindS (\<lambda>n. case transmit lk (PutRequest database descriptor (body_of reader)) n of
        (answer, n) \<Rightarrow> (case snd (send_body reader) of Inl e \<Rightarrow> Err e | Inr _ \<Rightarrow> answer, n)) (\<lambda>answer.
     pureS (bindR (case answer of PutResponse r \<Rightarrow> r | _ \<Rightarrow> Err ProtocolErr) (\<lambda>receipt.
       if receipt \<noteq> co_digest descriptor then Err ProtocolErr else Ok ())))"

definition fetch :: "link \<Rightarrow> database_id \<Rightarrow> cipher_object \<Rightarrow> bytes networking" where
  "fetch lk database descriptor =
     bindS (transmit lk (FetchRequest database (co_digest descriptor))) (\<lambda>answer.
     pureS (bindR (case answer of FetchResponse r \<Rightarrow> r | _ \<Rightarrow> Err ProtocolErr) (\<lambda>(actual, body).
       if actual \<noteq> descriptor then Err ProtocolErr
       else fst (receive_body (co_length descriptor) body))))"

definition locally :: "(coordinator \<Rightarrow> (sync_error + 'a) \<times> coordinator) \<Rightarrow> 'a networking" where
  "locally f n = (case f (nw_local n) of (r, c) \<Rightarrow> (r, n\<lparr>nw_local := c\<rparr>))"

fun foldS :: "('b \<Rightarrow> 'a \<Rightarrow> 's \<Rightarrow> ('e + 'b) \<times> 's) \<Rightarrow> 'b \<Rightarrow> 'a list \<Rightarrow> 's \<Rightarrow> ('e + 'b) \<times> 's" where
  "foldS f b [] = pureS (Ok b)"
| "foldS f b (x # xs) = bindS (f b x) (\<lambda>b'. foldS f b' xs)"

definition send_object :: "link \<Rightarrow> database_id \<Rightarrow> exchange_report \<Rightarrow> digest \<Rightarrow> exchange_report networking" where
  "send_object lk database report key =
     bindS (locally (\<lambda>c. (coordinator_object (lk_local lk) (transport_key_of (lk_remote lk)) database key c, c)))
       (\<lambda>(descriptor, reader).
     bindS (put lk database descriptor reader) (\<lambda>_.
     pureS (Ok (report\<lparr>xr_sent := xr_sent report + 1\<rparr>))))"

definition fetch_object ::
  "link \<Rightarrow> database_id \<Rightarrow> (digest, cipher_object) fmap \<Rightarrow> exchange_report \<Rightarrow> digest \<Rightarrow> exchange_report networking" where
  "fetch_object lk database listed report key =
     bindS (pureS (ok_or (fmlookup listed key) ProtocolErr)) (\<lambda>descriptor.
     bindS (locally (\<lambda>c. (authorize_object (lk_local lk) (transport_key_of (lk_remote lk)) database descriptor c, c))) (\<lambda>_.
     bindS (fetch lk database descriptor) (\<lambda>bytes.
     bindS (locally (receive (lk_local lk) (transport_key_of (lk_remote lk)) database descriptor
        \<lparr>or_file = bytes, or_offset = 0, or_remaining = length bytes\<rparr>)) (\<lambda>receipt.
     pureS (if receipt \<noteq> key then Err ProtocolErr
            else Ok (report\<lparr>xr_received := xr_received report + 1\<rparr>))))))"

definition expect_inventory :: "reply \<Rightarrow> sync_error + archive_metadata" where
  "expect_inventory r = (case r of Inventory m \<Rightarrow> Ok m | _ \<Rightarrow> Err ProtocolErr)"

definition expect_needed :: "reply \<Rightarrow> sync_error + digest fset" where
  "expect_needed r = (case r of Needed ids \<Rightarrow> Ok ids | _ \<Rightarrow> Err ProtocolErr)"

text \<open>After the local inventory the attempt counts as authorized until the function returns.\<close>

definition exchange_authorized ::
  "link \<Rightarrow> database_id \<Rightarrow> archive_metadata \<Rightarrow> exchange_report networking" where
  "exchange_authorized lk database own =
     bindS (rpc lk (OfferCommand own)) (\<lambda>r. bindS (pureS (expect_needed r)) (\<lambda>needed.
     bindS (foldS (send_object lk database) \<lparr>xr_sent = 0, xr_received = 0\<rparr> (sorted_list_of_fset needed)) (\<lambda>report.
     bindS (rpc lk (InventoryCommand database (lk_from lk))) (\<lambda>r. bindS (pureS (expect_inventory r)) (\<lambda>remote.
     bindS (locally (handle_command (lk_local lk) None (transport_key_of (lk_remote lk)) (OfferCommand remote)))
       (\<lambda>r. bindS (pureS (expect_needed r)) (\<lambda>needed.
     foldS (fetch_object lk database (am_objects remote)) report (sorted_list_of_fset needed))))))))"

definition exchange_connected :: "link \<Rightarrow> database_id \<Rightarrow> attempt \<Rightarrow> exchange_report networking" where
  "exchange_connected lk database a =
     bindS (locally (handle_command (lk_local lk) None (transport_key_of (lk_remote lk))
        (InventoryCommand database (lk_to lk)))) (\<lambda>r.
     bindS (pureS (expect_inventory r)) (\<lambda>own n.
     (case attempt_authorized a (nw_observed n) of
        (connection, o') \<Rightarrow>
          (case exchange_authorized lk database own (n\<lparr>nw_observed := o'\<rparr>) of
             (r, n) \<Rightarrow> (r, n\<lparr>nw_observed := connection_drop connection (nw_observed n)\<rparr>)))))"

text \<open>Closing the connection ends the remote loop, which reports how it went.\<close>

definition close_connection :: "network \<Rightarrow> network" where
  "close_connection n = n\<lparr>nw_remote := (nw_remote n)\<lparr>
     sv_observed := inbound_finish (\<not> nw_hung n) (sv_inbound (nw_remote n)) (sv_observed (nw_remote n))\<rparr>\<rparr>"

definition with_connection :: "link \<Rightarrow> 'a networking \<Rightarrow> 'a networking" where
  "with_connection lk f n =
     (let n = n\<lparr>nw_hung := False, nw_remote := (nw_remote n)\<lparr>sv_inbound := inbound_new (transport_key_of (lk_local lk))\<rparr>\<rparr> in
      case f n of (r, n) \<Rightarrow> (r, close_connection n))"

text \<open>
  The frame of \<open>exchange\<close>, \<open>request\<close> and \<open>download_object\<close>: an attempt is begun, connects
  (\<open>unreachable\<close> is the error of connecting, if it fails), works, and is settled by the result.
\<close>

definition attempting ::
  "link \<Rightarrow> sync_error option \<Rightarrow> database_id \<Rightarrow> (attempt \<Rightarrow> 'a networking) \<Rightarrow> 'a networking" where
  "attempting lk unreachable database f n =
     (case observations_begin database (ea_id (lk_to lk)) (nw_observed n) of
        (Inl e, o') \<Rightarrow> (Err e, n\<lparr>nw_observed := o'\<rparr>)
      | (Inr a, o') \<Rightarrow>
          (case (case unreachable of
              Some e \<Rightarrow> (Err e, n\<lparr>nw_observed := attempt_phase Connecting a o'\<rparr>)
            | None \<Rightarrow> with_connection lk (f a) (n\<lparr>nw_observed := attempt_phase Connecting a o'\<rparr>)) of
             (r, n) \<Rightarrow> (r, n\<lparr>nw_observed := attempt_finish (is_ok r) a (nw_observed n)\<rparr>)))"

text \<open>\<open>Node::exchange\<close>; the gate for each peer makes concurrent calls wait for each other.\<close>

definition exchange :: "link \<Rightarrow> sync_error option \<Rightarrow> database_id \<Rightarrow> exchange_report networking" where
  "exchange lk unreachable database = attempting lk unreachable database (exchange_connected lk database)"

text \<open>\<open>Node::request\<close>: a reply for a selected database confirms the authorization.\<close>

definition request_connected :: "link \<Rightarrow> command \<Rightarrow> attempt \<Rightarrow> reply networking" where
  "request_connected lk cmd a n =
     (case rpc lk cmd n of
        (Inl e, n) \<Rightarrow> (Err e, n)
      | (Inr r, n) \<Rightarrow> (case attempt_authorized a (nw_observed n) of
          (connection, o') \<Rightarrow> (Ok r, n\<lparr>nw_observed := connection_drop connection o'\<rparr>)))"

definition node_request :: "link \<Rightarrow> sync_error option \<Rightarrow> command \<Rightarrow> reply networking" where
  "node_request lk unreachable cmd n =
     (case command_database cmd of
        Some database \<Rightarrow> attempting lk unreachable database (request_connected lk cmd) n
      | None \<Rightarrow> (case unreachable of Some e \<Rightarrow> (Err e, n) | None \<Rightarrow> with_connection lk (rpc lk cmd) n))"

text \<open>\<open>Node::download_object\<close>, whose fetch authorizes the attempt before the body.\<close>

definition fetch_authorized :: "link \<Rightarrow> database_id \<Rightarrow> cipher_object \<Rightarrow> attempt \<Rightarrow> bytes networking" where
  "fetch_authorized lk database descriptor a =
     bindS (transmit lk (FetchRequest database (co_digest descriptor))) (\<lambda>answer.
     bindS (pureS (case answer of FetchResponse r \<Rightarrow> r | _ \<Rightarrow> Err ProtocolErr)) (\<lambda>(actual, body) n.
       if actual \<noteq> descriptor then (Err ProtocolErr, n)
       else case attempt_authorized a (nw_observed n) of
         (connection, o') \<Rightarrow>
           (fst (receive_body (co_length descriptor) body), n\<lparr>nw_observed := connection_drop connection o'\<rparr>)))"

definition download_object :: "link \<Rightarrow> sync_error option \<Rightarrow> database_id \<Rightarrow> cipher_object \<Rightarrow> bytes networking" where
  "download_object lk unreachable database descriptor =
     attempting lk unreachable database (fetch_authorized lk database descriptor)"

subsection \<open>The in-process adapter\<close>

text \<open>
  \<open>crates/taypeer-sync/src/persistence.rs\<close>: the unlocked service of the same process uses the
  coordinator as its persistence; errors are mapped to those of storage.
\<close>

fun persistence_error :: "sync_error \<Rightarrow> store_error" where
  "persistence_error (StorageErr e) = e"
| "persistence_error (TrustErr e) = Trust e"
| "persistence_error StateErr = Changed"
| "persistence_error TransportErr = Io"
| "persistence_error TimeoutErr = Io"
| "persistence_error ProtocolErr = Io"
| "persistence_error UnauthorizedErr = Io"

definition persistence_snapshot :: "database_id \<Rightarrow> coordinator \<Rightarrow> store_error + archive_snapshot" where
  "persistence_snapshot database s = map_errR persistence_error (coordinator_snapshot database s)"

definition persistence_commit ::
  "host \<Rightarrow> database_id \<Rightarrow> prepared_commit \<Rightarrow> coordinator \<Rightarrow> (store_error + archive_snapshot) \<times> coordinator" where
  "persistence_commit H database q s = (case coordinator_commit H database q s of
     (r, s') \<Rightarrow> (map_errR persistence_error r, s'))"

end
