(* ===== verification/Sync_Node_Laws.thy ===== *)
theory Sync_Node_Laws
  imports Sync_Node
begin

text \<open>
  What an exchange does to both ends: whatever the transport does, only steps of their
  coordinators; and when it reports success, both hold the same chain and the same objects.
\<close>

subsection \<open>One coordinator\<close>

text \<open>What a coordinator holds of a database: the chain and the identities of the objects.\<close>

definition holds :: "coordinator \<Rightarrow> database_id \<Rightarrow> control_chain \<Rightarrow> digest fset \<Rightarrow> bool" where
  "holds s d ch ks \<longleftrightarrow> (\<exists>c. fmlookup (cn_copies s) d = Some c
     \<and> as_chain (ar_snapshot (wc_store c)) = ch \<and> am_controls (as_metadata (ar_snapshot (wc_store c))) = ch
     \<and> c_database (head ch) = d \<and> mf_database (sm_body (am_manifest (as_metadata (ar_snapshot (wc_store c))))) = d
     \<and> fmdom (am_objects (as_metadata (ar_snapshot (wc_store c)))) = ks)"

lemma holds_copies: "cn_copies s' = cn_copies s \<Longrightarrow> holds s' d ch ks \<longleftrightarrow> holds s d ch ks"
  by (simp add: holds_def)

lemma verified_database:
  assumes "metadata_verify K C m r = Ok ch"
  shows "mf_database (sm_body (am_manifest m)) = c_database (head ch)"
    and "fmlookup (am_objects m) k = Some x \<Longrightarrow> co_digest x = k"
proof -
  have "manifest_validate K (sm_body (am_manifest m)) ch = Ok ()"
    using metadata_verify_root(4) [OF assms] by (auto simp: manifest_verify_def Let_def split: if_splits)
  then show "mf_database (sm_body (am_manifest m)) = c_database (head ch)"
    and "fmlookup (am_objects m) k = Some x \<Longrightarrow> co_digest x = k"
    using composition_accepted [of K "sm_body (am_manifest m)" ch] by (auto simp: manifest_validate_def split: if_splits)
qed

lemma inventory_holds:
  assumes "handle_command H now peer (InventoryCommand d address) s = (Ok r, s')" and "holds s d ch ks"
  obtains m where "r = Inventory m" and "holds s' d ch ks" and "am_controls m = ch" and "fmdom (am_objects m) = ks"
    and "mf_database (sm_body (am_manifest m)) = d"
    and "\<exists>c. fmlookup (cn_copies s) d = Some c \<and> m = as_metadata (ar_snapshot (wc_store c))"
    and "cn_copies s' = cn_copies s"
proof -
  obtain c where c: "fmlookup (cn_copies s) d = Some c" "r = Inventory (as_metadata (ar_snapshot (wc_store c)))"
    "s' = remember_route address s"
    using assms(1) by (auto simp: handle_command_def inventory_def copy_of_def split: if_splits sum.splits)
  moreover have "cn_copies s' = cn_copies s" using c(3) by (simp add: remember_route_def)
  ultimately show thesis
    using that [OF c(2)] assms(2) holds_copies [of s' s d ch ks] by (auto simp: holds_def)
qed

lemma after_advance:
  assumes laws: "archive_codec_laws (ho_codec H)" and ok: "copy_ok (ho_crypto H) (ho_codec H) (tx_copy t)"
    and run: "advance H snapshot cand ch journal t = (Ok (), t')"
  shows "am_controls (as_metadata (tx_snapshot t')) = ch"
    and "mf_database (sm_body (am_manifest (as_metadata (tx_snapshot t')))) = c_database (head ch)"
proof -
  note a = advance_ok [OF laws ok run]
  show "am_controls (as_metadata (tx_snapshot t')) = ch" using copy_chain(1) [OF a(4,5)] a(1) by simp
  obtain r where "metadata_verify (ho_crypto H) (ho_codec H) (as_metadata (tx_snapshot t')) r = Ok (as_chain (tx_snapshot t'))"
    using copy_chain(2) [OF a(4,5)] by blast
  then show "mf_database (sm_body (am_manifest (as_metadata (tx_snapshot t')))) = c_database (head ch)"
    using verified_database(1) a(1) by metis
qed

lemma bind_pure: "bindS (pureS (Inr x)) f = f x"
  by (rule ext) (simp add: bindS_def pureS_def)

lemma accept_effect:
  assumes laws: "archive_codec_laws (ho_codec H)" and ok: "copy_ok (ho_crypto H) (ho_codec H) (tx_copy t)"
    and run: "accept_offer H m (tx_snapshot t) ch t = (Ok reply, t')"
  shows "reply = Needed (needed_objects m (tx_snapshot t))
    \<and> (tx_copy t' = tx_copy t \<and> ch = as_chain (tx_snapshot t)
       \<or> as_chain (tx_snapshot t') = ch \<and> am_controls (as_metadata (tx_snapshot t')) = ch
         \<and> am_objects (as_metadata (tx_snapshot t')) = am_objects (as_metadata (tx_snapshot t))
         \<and> mf_database (sm_body (am_manifest (as_metadata (tx_snapshot t')))) = c_database (head ch))"
proof -
  let ?sn = "tx_snapshot t"
  have reply: "reply = Needed (needed_objects m ?sn)" using run by (auto simp: accept_offer_def Let_def bindS_Ok split: if_splits)
  show ?thesis
  proof (cases "tx_copy t' = tx_copy t \<and> ch = as_chain ?sn")
    case False
    then have first: "\<not> (needed_objects m ?sn = {||} \<and> ch = as_chain ?sn \<and> aj_forks (am_journal m) = [])"
      using run by (auto simp: accept_offer_def Let_def)
    obtain key where key: "manifest_id (ho_crypto H) (of_manifest (metadata_offer m)) = Ok key"
      using run first unfolding accept_offer_def Let_def by (auto simp: bindS_Ok trustS_def split: if_splits)
    let ?j = "am_journal (as_metadata ?sn)"
    let ?j' = "?j\<lparr>aj_offers := fmupd key (metadata_offer m) (aj_offers ?j)\<rparr>"
    have eq: "accept_offer H m ?sn ch t =
      (if fmlookup (aj_offers ?j) key = Some (metadata_offer m) \<and> ch = as_chain ?sn then (Ok (Needed (needed_objects m ?sn)), t)
       else bindS (advance H ?sn (snapshot_candidate ?sn) ch ?j') (\<lambda>_ t.
         bindS (notify_control H (c_database (head (as_chain ?sn))) ?sn (tx_snapshot t)) (\<lambda>_.
         pureS (Ok (Needed (needed_objects m ?sn)))) t) t)"
      using first by (simp only: accept_offer_def Let_def if_not_P [OF first] key trustS_def map_errR_simps bind_pure
          de_Morgan_disj not_not) (simp only: if_distrib [where f = "\<lambda>f. f t"] pureS_def simp_thms if_cancel split: if_split)
    have "bindS (advance H ?sn (snapshot_candidate ?sn) ch ?j') (\<lambda>_ t.
         bindS (notify_control H (c_database (head (as_chain ?sn))) ?sn (tx_snapshot t)) (\<lambda>_.
         pureS (Ok (Needed (needed_objects m ?sn)))) t) t = (Ok reply, t')"
    proof (cases "fmlookup (aj_offers ?j) key = Some (metadata_offer m) \<and> ch = as_chain ?sn")
      case True
      then show ?thesis using run False unfolding eq by simp
    next
      case changed: False
      show ?thesis using run unfolding eq if_not_P [OF changed] .
    qed
    then obtain t1 n where adv: "advance H ?sn (snapshot_candidate ?sn) ch ?j' t = (Ok (), t1)"
        "notify_control H (c_database (head (as_chain ?sn))) ?sn (tx_snapshot t1) t1 = (Ok n, t')"
      unfolding bindS_Ok pureS_iff by auto
    have "tx_copy t' = tx_copy t1" by (rule notify_frame [OF adv(2)])
    then show ?thesis using reply advance_ok(1,3) [OF laws ok adv(1)] after_advance [OF laws ok adv(1)] by simp
  qed (use reply in simp)
qed

lemma offer_holds:
  assumes laws: "archive_codec_laws (ho_codec H)" and ok: "coordinator_ok H s"
    and run: "handle_command H now peer (OfferCommand m) s = (Ok r, s')" and h: "holds s d ch ks"
    and d: "mf_database (sm_body (am_manifest m)) = d"
  obtains ch' where "r = Needed (fmdom (am_objects m) |-| ks)" and "holds s' d ch' ks" and "prefix ch ch'"
    and "prefix (am_controls m) ch'" and "ch' = ch \<or> ch' = am_controls m"
    and "\<forall>k x. fmlookup (am_objects m) k = Some x \<longrightarrow> co_digest x = k"
proof -
  obtain c t where c: "fmlookup (cn_copies s) d = Some c"
    and offer: "offer_copy H peer m \<lparr>tx_copy = c, tx_events = cn_events s\<rparr> = (Ok r, t)"
    and s': "s' = s\<lparr>cn_copies := fmupd d (tx_copy t) (cn_copies s), cn_events := tx_events t\<rparr>"
    using run unfolding handle_command_def command.case d by (rule at_copy_Ok)
  let ?t = "\<lparr>tx_copy = c, tx_events = cn_events s\<rparr>"
  have k: "copy_ok (ho_crypto H) (ho_codec H) (tx_copy ?t)" using ok c by (auto simp: coordinator_ok_iff)
  obtain root inc ch' where a: "chain_root (ho_crypto H) (as_chain (tx_snapshot ?t)) = Ok root"
    "metadata_verify (ho_crypto H) (ho_codec H) m root = Ok inc"
    "reconcile (ho_crypto H) (as_chain (tx_snapshot ?t)) inc = Ok ch'"
    "accept_offer H m (tx_snapshot ?t) ch' ?t = (Ok r, t)"
    using offer by (rule offer_accepted)
  note merged = reconcile_again [OF a(1) verified_root [OF a(2)] a(3)]
  have old: "as_chain (tx_snapshot ?t) = ch" "am_controls (as_metadata (tx_snapshot ?t)) = ch" "c_database (head ch) = d"
    "mf_database (sm_body (am_manifest (as_metadata (tx_snapshot ?t)))) = d" "fmdom (am_objects (as_metadata (tx_snapshot ?t))) = ks"
    using h c by (auto simp: holds_def)
  have inc: "inc = am_controls m" by (rule metadata_verify_root(2) [OF a(2)])
  have one: "ch' = ch \<or> ch' = am_controls m"
    using a(3) [unfolded reconcile_same_root [OF a(1) verified_root [OF a(2)]]] old(1) inc by (auto split: if_splits)
  have db: "c_database (head ch') = d" using one old(3) verified_database(1) [OF a(2)] inc d by auto
  note e = accept_effect [OF laws k a(4)]
  have "holds s' d ch' ks"
    using e old db s' by (auto simp: holds_def)
  moreover have "needed_objects m (tx_snapshot ?t) = fmdom (am_objects m) |-| ks"
    using old(5) by (auto simp: needed_objects_def bt_contains_dom)
  ultimately show thesis
    using that e one merged(3,4) old(1) inc verified_database(2) [OF a(2)] by simp
qed

lemma receive_holds:
  assumes laws: "archive_codec_laws (ho_codec H)" and ok: "coordinator_ok H s"
    and run: "receive H peer d descriptor input s = (Ok k, s')" and h: "holds s d ch ks"
  shows "k = co_digest descriptor" and "holds s' d ch (finsert k ks)"
proof -
  obtain c t where c: "fmlookup (cn_copies s) d = Some c"
    and run': "receive_copy H peer d descriptor input \<lparr>tx_copy = c, tx_events = cn_events s\<rparr> = (Ok k, t)"
    and s': "s' = s\<lparr>cn_copies := fmupd d (tx_copy t) (cn_copies s), cn_events := tx_events t\<rparr>"
    using run unfolding receive_def by (rule at_copy_Ok)
  have k: "copy_ok (ho_crypto H) (ho_codec H) (tx_copy \<lparr>tx_copy = c, tx_events = cn_events s\<rparr>)"
    using ok c by (auto simp: coordinator_ok_iff)
  note r = receive_ok [OF laws k run']
  show "k = co_digest descriptor" by (rule r(1))
  show "holds s' d ch (finsert k ks)"
  proof (cases "bt_contains (am_objects (as_metadata (ar_snapshot (wc_store c)))) k")
    case True
    then have "tx_copy t = c" using r(5) by simp
    moreover have "k |\<in>| ks" using True h c by (auto simp: holds_def bt_contains_dom)
    ultimately show ?thesis using h c s' by (auto simp: holds_def finsert_absorb)
  next
    case False
    then have new: "am_objects (as_metadata (tx_snapshot t)) = fmupd k descriptor (am_objects (as_metadata (ar_snapshot (wc_store c))))"
      "as_chain (tx_snapshot t) = as_chain (ar_snapshot (wc_store c))"
      "copy_ok (ho_crypto H) (ho_codec H) (tx_copy t)" "\<not> ar_uncertain (wc_store (tx_copy t))"
      using r(5) by simp_all
    obtain root where v: "metadata_verify (ho_crypto H) (ho_codec H) (as_metadata (tx_snapshot t)) root = Ok (as_chain (tx_snapshot t))"
      using copy_chain(2) [OF new(3,4)] by blast
    then show ?thesis
      using h c s' new(1,2) copy_chain(1) [OF new(3,4)] verified_database(1) [OF v] by (auto simp: holds_def)
  qed
qed

subsection \<open>Only steps of the coordinators\<close>

definition stepped :: "link \<Rightarrow> network \<Rightarrow> network \<Rightarrow> bool" where
  "stepped lk n n' \<longleftrightarrow> (coordinator_step (lk_local lk))\<^sup>*\<^sup>* (nw_local n) (nw_local n')
     \<and> (coordinator_step (lk_remote lk))\<^sup>*\<^sup>* (sv_coordinator (nw_remote n)) (sv_coordinator (nw_remote n'))
     \<and> nw_observed n' = nw_observed n"

interpretation nw: preserving "stepped lk" for lk
  by unfold_locales (auto simp: stepped_def)

lemma observe_frame: "observe d s = (r, s') \<Longrightarrow> sv_coordinator s' = sv_coordinator s"
  by (auto simp: observe_def split: prod.splits)

lemma observe_failure_frame [simp]: "sv_coordinator (observe_failure d s) = sv_coordinator s"
  by (simp add: observe_failure_def)

lemma serve_command_coordinator:
  "sv_coordinator (snd (serve_command H now peer cmd s)) = snd (handle_command H now peer cmd (sv_coordinator s))"
  "serve_command H now peer cmd s = (Some answer, s') \<Longrightarrow>
     answer = CommandResponse (fst (handle_command H now peer cmd (sv_coordinator s)))"
  by (auto simp: serve_command_def Let_def dest: observe_frame split: prod.splits option.splits sum.splits if_splits)

lemma serve_fetch_coordinator: "sv_coordinator (snd (serve_fetch H peer d key s)) = sv_coordinator s"
  by (auto simp: serve_fetch_def dest: observe_frame split: prod.splits sum.splits)

lemma serve_put_coordinator:
  "sv_coordinator (snd (serve_put H peer d descriptor body s)) = sv_coordinator s
     \<or> (\<exists>input. sv_coordinator (snd (serve_put H peer d descriptor body s))
          = snd (receive H peer d descriptor input (sv_coordinator s)))"
  "serve_put H peer d descriptor body s = (Some answer, s') \<Longrightarrow>
     \<exists>input r. receive H peer d descriptor input (sv_coordinator s) = (r, sv_coordinator s') \<and> answer = PutResponse r"
  by (auto simp: serve_put_def Let_def dest: observe_frame split: prod.splits sum.splits if_splits) (metis snd_conv observe_frame)+

lemma serve_steps:
  "(coordinator_step H)\<^sup>*\<^sup>* (sv_coordinator s) (sv_coordinator (snd (serve H now peer q s)))"
proof (cases q)
  case (CommandRequest cmd)
  then show ?thesis by (auto simp: serve_command_coordinator(1) intro: r_into_rtranclp [where r = "coordinator_step H", OF coordinator_step.command])
next
  case (FetchRequest d key)
  then show ?thesis by (simp add: serve_fetch_coordinator)
next
  case (PutRequest d descriptor body)
  then show ?thesis
    using serve_put_coordinator(1) [of H peer d descriptor body s] by (auto intro: r_into_rtranclp [where r = "coordinator_step H", OF coordinator_step.object])
qed

lemma served_stepped: "stepped lk n (snd (served_by_remote lk q n))"
  using serve_steps by (auto simp: stepped_def served_by_remote_def split: prod.splits) (metis snd_conv)

lemma fate_stepped: "stepped lk (n\<lparr>nw_fates := fs\<rparr>) m \<Longrightarrow> stepped lk n m"
  "stepped lk n m \<Longrightarrow> stepped lk n (m\<lparr>nw_hung := b\<rparr>)" "stepped lk n (n\<lparr>nw_fates := fs\<rparr>)"
  by (simp_all add: stepped_def)

lemma transmit_stepped: "stepped lk n (snd (transmit lk q n))"
proof -
  let ?n = "n\<lparr>nw_fates := tl (nw_fates n)\<rparr>"
  have served: "stepped lk n (snd (served_by_remote lk q' ?n))" for q'
    by (rule fate_stepped(1) [OF served_stepped])
  show ?thesis
  proof (cases "if nw_fates n = [] then Delivered else hd (nw_fates n)")
    case Delivered
    then show ?thesis
      using served [of q] by (auto simp: transmit_def Let_def split: prod.splits option.splits)
  next
    case (RequestLost e b)
    then show ?thesis by (simp add: transmit_def Let_def fate_stepped)
  next
    case (BodyBroken e k)
    then show ?thesis using served by (cases q) (simp_all add: transmit_def Let_def fate_stepped)
  next
    case (AnswerLost e b)
    then show ?thesis using served [of q] by (simp add: transmit_def Let_def fate_stepped)
  qed
qed

lemma locally_stepped:
  assumes "(coordinator_step (lk_local lk))\<^sup>*\<^sup>* (nw_local n) (snd (f (nw_local n)))"
  shows "stepped lk n (snd (locally f n))"
  using assms by (auto simp: stepped_def locally_def split: prod.splits)

lemma foldS_stepped:
  assumes "\<And>b x n. stepped lk n (snd (f b x n))"
  shows "stepped lk n (snd (foldS f b xs n))"
proof (induction xs arbitrary: b n)
  case (Cons x xs)
  then show ?case by (auto intro: nw.bind assms)
qed (simp add: nw.pure)

lemma local_steps:
  "stepped lk n (snd (locally (\<lambda>c. (f c, c)) n))"
  "stepped lk n (snd (locally (handle_command (lk_local lk) now peer cmd) n))"
  "stepped lk n (snd (locally (receive (lk_local lk) peer d descriptor input) n))"
  by (rule locally_stepped; auto intro: coordinator_step.intros)+

lemma rpc_stepped: "stepped lk n (snd (rpc lk cmd n))"
  unfolding rpc_def by (intro nw.bind nw.pure transmit_stepped)

lemma put_stepped: "stepped lk n (snd (put lk d descriptor reader n))"
  unfolding put_def
proof (intro nw.bind nw.pure)
  show "stepped lk n (snd (case transmit lk (PutRequest d descriptor (body_of reader)) n of
      (answer, n) \<Rightarrow> (case snd (send_body reader) of Inl e \<Rightarrow> Inl e | Inr _ \<Rightarrow> answer, n)))"
    using transmit_stepped [of lk n "PutRequest d descriptor (body_of reader)"] by (simp add: split_def)
qed

lemma fetch_stepped: "stepped lk n (snd (fetch lk d descriptor n))"
  unfolding fetch_def by (intro nw.bind nw.pure transmit_stepped)

lemma send_object_stepped: "stepped lk n (snd (send_object lk d report key n))"
  unfolding send_object_def split_def by (intro nw.bind nw.pure put_stepped local_steps)

lemma fetch_object_stepped: "stepped lk n (snd (fetch_object lk d listed report key n))"
  unfolding fetch_object_def by (intro nw.bind nw.pure fetch_stepped local_steps)

lemma exchange_authorized_stepped: "stepped lk n (snd (exchange_authorized lk d own n))"
  unfolding exchange_authorized_def
  by (intro nw.bind nw.pure rpc_stepped foldS_stepped send_object_stepped fetch_object_stepped local_steps)

text \<open>The whole call, apart from what the local side observes.\<close>

definition advanced :: "link \<Rightarrow> network \<Rightarrow> network \<Rightarrow> bool" where
  "advanced lk n n' \<longleftrightarrow> (coordinator_step (lk_local lk))\<^sup>*\<^sup>* (nw_local n) (nw_local n')
     \<and> (coordinator_step (lk_remote lk))\<^sup>*\<^sup>* (sv_coordinator (nw_remote n)) (sv_coordinator (nw_remote n'))"

definition observed_by :: "attempt \<Rightarrow> observations \<Rightarrow> observations \<Rightarrow> bool" where
  "observed_by a s s' \<longleftrightarrow> s' = s \<or> (\<exists>c t. attempt_authorized a s = (c, t) \<and> s' = connection_drop c t)"

lemma connected_effect:
  assumes "exchange_connected lk d a n = (r, n')"
  shows "advanced lk n n' \<and> observed_by a (nw_observed n) (nw_observed n')"
proof -
  let ?first = "bindS (locally (handle_command (lk_local lk) None (transport_key_of (lk_remote lk))
        (InventoryCommand d (lk_to lk)))) (\<lambda>r. pureS (expect_inventory r))"
  obtain q m where first: "?first n = (q, m)" by fastforce
  have "stepped lk n (snd (?first n))" by (intro nw.bind nw.pure local_steps)
  then have st: "stepped lk n m" using first by simp
  have eq: "exchange_connected lk d a n = (case q of Inl e \<Rightarrow> (Inl e, m) | Inr own \<Rightarrow>
     (case attempt_authorized a (nw_observed m) of (connection, o') \<Rightarrow>
          (case exchange_authorized lk d own (m\<lparr>nw_observed := o'\<rparr>) of
             (r, n) \<Rightarrow> (r, n\<lparr>nw_observed := connection_drop connection (nw_observed n)\<rparr>))))"
    using first unfolding exchange_connected_def
    by (auto simp: bindS_def pureS_def split: prod.splits sum.splits)
  show ?thesis
  proof (cases q)
    case (Inl e)
    then show ?thesis using assms eq st by (auto simp: stepped_def advanced_def observed_by_def)
  next
    case (Inr own)
    obtain c t where c: "attempt_authorized a (nw_observed m) = (c, t)" by fastforce
    obtain r2 k where k: "exchange_authorized lk d own (m\<lparr>nw_observed := t\<rparr>) = (r2, k)" by fastforce
    have "stepped lk (m\<lparr>nw_observed := t\<rparr>) k" using exchange_authorized_stepped [of lk _ d own] k by (metis snd_conv)
    then show ?thesis
      using assms eq st Inr c k by (auto simp: stepped_def advanced_def observed_by_def)
  qed
qed

definition works :: "link \<Rightarrow> (attempt \<Rightarrow> 'a networking) \<Rightarrow> bool" where
  "works lk f \<longleftrightarrow> (\<forall>a n r n'. f a n = (r, n') \<longrightarrow> advanced lk n n' \<and> observed_by a (nw_observed n) (nw_observed n'))"

lemma exchange_works: "works lk (exchange_connected lk d)"
  using connected_effect by (auto simp: works_def)

lemma request_works: "works lk (request_connected lk cmd)"
proof (unfold works_def, intro allI impI)
  fix a n r n'
  assume run: "request_connected lk cmd a n = (r, n')"
  obtain q m where q: "rpc lk cmd n = (q, m)" by fastforce
  then have "stepped lk n m" using rpc_stepped [of lk n cmd] by simp
  then show "advanced lk n n' \<and> observed_by a (nw_observed n) (nw_observed n')"
    using run q by (auto simp: request_connected_def stepped_def advanced_def observed_by_def split: sum.splits prod.splits)
qed

lemma download_works: "works lk (fetch_authorized lk d descriptor)"
proof (unfold works_def, intro allI impI)
  fix a n r n'
  assume run: "fetch_authorized lk d descriptor a n = (r, n')"
  obtain q m where q: "transmit lk (FetchRequest d (co_digest descriptor)) n = (q, m)" by fastforce
  then have "stepped lk n m" using transmit_stepped [of lk n "FetchRequest d (co_digest descriptor)"] by simp
  then show "advanced lk n n' \<and> observed_by a (nw_observed n) (nw_observed n')"
    using run q
    by (auto simp: fetch_authorized_def bindS_def pureS_def stepped_def advanced_def observed_by_def
        split: sum.splits prod.splits if_splits)
qed

lemma with_connection_effect:
  assumes "works lk f" and "with_connection lk (f a) n = (r, n')"
  shows "advanced lk n n' \<and> observed_by a (nw_observed n) (nw_observed n')"
proof -
  let ?n = "n\<lparr>nw_hung := False, nw_remote := (nw_remote n)\<lparr>sv_inbound := inbound_new (transport_key_of (lk_local lk))\<rparr>\<rparr>"
  obtain m where m: "f a ?n = (r, m)" "n' = close_connection m"
    using assms(2) by (auto simp: with_connection_def Let_def split: prod.splits)
  have "advanced lk ?n m \<and> observed_by a (nw_observed ?n) (nw_observed m)"
    using assms(1) m(1) unfolding works_def by blast
  then show ?thesis using m(2) by (simp add: advanced_def close_connection_def)
qed

lemma observed_entry:
  assumes "observed_by a s s'" and "fmlookup (ob_peers s) (at_key a) = Some e" and "oe_generation e = at_generation a"
    and "at_generation a |\<notin>| oe_connections e"
  shows "\<exists>e'. fmlookup (ob_peers s') (at_key a) = Some e' \<and> oe_generation e' = at_generation a
    \<and> at_generation a |\<notin>| oe_connections e'"
proof (cases "s' = s")
  case False
  then obtain c t where c: "attempt_authorized a s = (c, t)" "s' = connection_drop c t"
    using assms(1) by (auto simp: observed_by_def)
  show ?thesis
    using authorized_cases(1) [OF c(1)] authorized_cases(4) [OF c(1), of "at_key a"] assms(2,3) c(2) by (auto simp: Let_def)
qed (use assms in auto)

lemma attempt_settled:
  assumes f: "works lk f"
    and old: "\<forall>e. fmlookup (ob_peers (nw_observed n)) (d, ea_id (lk_to lk)) = Some e
        \<longrightarrow> (\<forall>g. g |\<in>| oe_connections e \<longrightarrow> g \<le> ob_next (nw_observed n))"
    and run: "attempting lk unreachable d f n = (r, n')"
  shows "advanced lk n n' \<and> (if ob_closed (nw_observed n) \<or> U64_MAX \<le> ob_next (nw_observed n)
       then r = Err StateErr \<and> n' = n
       else \<exists>e. fmlookup (ob_peers (nw_observed n')) (d, ea_id (lk_to lk)) = Some e
         \<and> oe_phase e = (if is_ok r then ExchangeCompleted else ExchangeFailed)
         \<and> oe_generation e = Suc (ob_next (nw_observed n)) \<and> oe_generation e |\<notin>| oe_connections e)"
proof (cases "ob_closed (nw_observed n) \<or> U64_MAX \<le> ob_next (nw_observed n)")
  case True
  then have "observations_begin d (ea_id (lk_to lk)) (nw_observed n) = (Err StateErr, nw_observed n)"
    by (auto simp: observations_begin_def checked_add_def split: option.splits)
  then have "r = Err StateErr \<and> n' = n" using run by (simp add: attempting_def)
  moreover have "advanced lk n n" by (simp add: advanced_def)
  ultimately show ?thesis using True by simp
next
  case False
  let ?key = "(d, ea_id (lk_to lk))"
  obtain a s where b: "observations_begin d (ea_id (lk_to lk)) (nw_observed n) = (Ok a, s)"
    using False by (auto simp: observations_begin_def checked_add_def Let_def not_le)
  note begun = begin_cases [OF b]
  let ?s = "attempt_phase Connecting a s"
  obtain q m where m: "(case unreachable of Some e \<Rightarrow> (Err e, n\<lparr>nw_observed := ?s\<rparr>)
      | None \<Rightarrow> with_connection lk (f a) (n\<lparr>nw_observed := ?s\<rparr>)) = (q, m)"
    by fastforce
  have "r = q \<and> n' = m\<lparr>nw_observed := attempt_finish (is_ok q) a (nw_observed m)\<rparr>"
    using run b m by (auto simp: attempting_def)
  moreover have eff: "advanced lk n m \<and> observed_by a ?s (nw_observed m)"
    using m with_connection_effect [OF f, of a "n\<lparr>nw_observed := ?s\<rparr>" q m]
    by (auto simp: advanced_def observed_by_def split: option.splits)
  moreover have "\<exists>e. fmlookup (ob_peers ?s) (at_key a) = Some e \<and> oe_generation e = at_generation a
      \<and> at_generation a |\<notin>| oe_connections e"
    using begun(5) begun(6) [of ?key] old by (auto split: option.splits)
  then obtain e where "fmlookup (ob_peers (nw_observed m)) (at_key a) = Some e" "oe_generation e = at_generation a"
    "at_generation a |\<notin>| oe_connections e"
    using observed_entry [of a ?s "nw_observed m"] eff by blast
  ultimately show ?thesis
    using False begun(5) by (auto simp: advanced_def)
qed

text \<open>
  C11: Whatever the transport does to an exchange, a request or a download, both coordinators only
  make steps of theirs: their copies stay sound and only grow. The call always settles its
  attempt, as completed exactly when it reports success, and leaves no connection of it behind.
\<close>

theorem calls_sound:
  assumes laws: "archive_codec_laws (ho_codec (lk_local lk))" "archive_codec_laws (ho_codec (lk_remote lk))"
    and ok: "coordinator_ok (lk_local lk) (nw_local n)" "coordinator_ok (lk_remote lk) (sv_coordinator (nw_remote n))"
    and old: "\<forall>e. fmlookup (ob_peers (nw_observed n)) (d, ea_id (lk_to lk)) = Some e
        \<longrightarrow> (\<forall>g. g |\<in>| oe_connections e \<longrightarrow> g \<le> ob_next (nw_observed n))"
    and run: "exchange lk unreachable d n = (x, n') \<and> r = map_sum id (\<lambda>_. ()) x
      \<or> node_request lk unreachable cmd n = (y, n') \<and> command_database cmd = Some d \<and> r = map_sum id (\<lambda>_. ()) y
      \<or> download_object lk unreachable d descriptor n = (z, n') \<and> r = map_sum id (\<lambda>_. ()) z"
  shows "coordinator_ok (lk_local lk) (nw_local n') \<and> coordinator_grows (nw_local n) (nw_local n')
    \<and> coordinator_ok (lk_remote lk) (sv_coordinator (nw_remote n'))
    \<and> coordinator_grows (sv_coordinator (nw_remote n)) (sv_coordinator (nw_remote n'))
    \<and> (if ob_closed (nw_observed n) \<or> U64_MAX \<le> ob_next (nw_observed n)
       then r = Err StateErr \<and> n' = n
       else \<exists>e. fmlookup (ob_peers (nw_observed n')) (d, ea_id (lk_to lk)) = Some e
         \<and> oe_phase e = (if is_ok r then ExchangeCompleted else ExchangeFailed)
         \<and> oe_generation e = Suc (ob_next (nw_observed n)) \<and> oe_generation e |\<notin>| oe_connections e)"
proof -
  have grows: "advanced lk n n' \<Longrightarrow> coordinator_ok (lk_local lk) (nw_local n') \<and> coordinator_grows (nw_local n) (nw_local n')
    \<and> coordinator_ok (lk_remote lk) (sv_coordinator (nw_remote n'))
    \<and> coordinator_grows (sv_coordinator (nw_remote n)) (sv_coordinator (nw_remote n'))"
    using reachable_grows laws ok unfolding advanced_def by blast
  have result: "is_ok (map_sum id (\<lambda>_. ()) v) = is_ok v" "map_sum id (\<lambda>_. ()) v = Err e \<longleftrightarrow> v = Err e"
    for v :: "sync_error + 'v" and e
    by (cases v; simp)+
  consider (exchange) "attempting lk unreachable d (exchange_connected lk d) n = (x, n')" "r = map_sum id (\<lambda>_. ()) x"
    | (request) "attempting lk unreachable d (request_connected lk cmd) n = (y, n')" "r = map_sum id (\<lambda>_. ()) y"
    | (download) "attempting lk unreachable d (fetch_authorized lk d descriptor) n = (z, n')" "r = map_sum id (\<lambda>_. ()) z"
    using run by (auto simp: exchange_def node_request_def download_object_def)
  then show ?thesis
  proof cases
    case exchange
    then show ?thesis using attempt_settled [OF exchange_works old exchange(1)] grows result by (auto split: if_splits)
  next
    case request
    then show ?thesis using attempt_settled [OF request_works old request(1)] grows result by (auto split: if_splits)
  next
    case download
    then show ?thesis using attempt_settled [OF download_works old download(1)] grows result by (auto split: if_splits)
  qed
qed

subsection \<open>A successful exchange\<close>

abbreviation remote_coordinator :: "network \<Rightarrow> coordinator" where
  "remote_coordinator n \<equiv> sv_coordinator (nw_remote n)"

lemma transmit_Ok:
  assumes "transmit lk q n = (Ok answer, n')"
  shows "nw_local n' = nw_local n \<and> (\<exists>s. nw_remote n' = s \<and>
    serve (lk_remote lk) (lk_time lk) (transport_key_of (lk_local lk)) q (nw_remote n) = (Some answer, s))"
  using assms
  by (auto simp: transmit_def Let_def served_by_remote_def split: fate.splits prod.splits option.splits request.splits if_splits)

lemma transmit_local: "nw_local (snd (transmit lk q n)) = nw_local n"
  by (auto simp: transmit_def Let_def served_by_remote_def split: fate.splits prod.splits option.splits request.splits)

lemma rpc_Ok:
  assumes "rpc lk cmd n = (Ok r, n')"
  shows "nw_local n' = nw_local n"
    and "handle_command (lk_remote lk) (lk_time lk) (transport_key_of (lk_local lk)) cmd (remote_coordinator n)
      = (Ok r, remote_coordinator n')"
proof -
  obtain answer where t: "transmit lk (CommandRequest cmd) n = (Ok answer, n')"
    "(case answer of CommandResponse r \<Rightarrow> r | _ \<Rightarrow> Err ProtocolErr) = Ok r"
    using assms unfolding rpc_def bindS_Ok pureS_iff by blast
  have s: "serve_command (lk_remote lk) (lk_time lk) (transport_key_of (lk_local lk)) cmd (nw_remote n) = (Some answer, nw_remote n')"
    using transmit_Ok [OF t(1)] by simp
  show "nw_local n' = nw_local n" using transmit_Ok [OF t(1)] by simp
  let ?run = "handle_command (lk_remote lk) (lk_time lk) (transport_key_of (lk_local lk)) cmd (remote_coordinator n)"
  have "fst ?run = Ok r" using t(2) unfolding serve_command_coordinator(2) [OF s] by simp
  moreover have "snd ?run = remote_coordinator n'"
    by (rule serve_command_coordinator(1) [of "lk_remote lk" "lk_time lk" "transport_key_of (lk_local lk)" cmd "nw_remote n",
          unfolded s snd_conv, symmetric])
  ultimately show "?run = (Ok r, remote_coordinator n')" by (metis prod.collapse)
qed

lemma put_Ok:
  assumes "put lk d descriptor reader n = (Ok u, n')"
  shows "nw_local n' = nw_local n"
    and "\<exists>input. receive (lk_remote lk) (transport_key_of (lk_local lk)) d descriptor input (remote_coordinator n)
      = (Ok (co_digest descriptor), remote_coordinator n')"
proof -
  obtain answer receipt where t: "transmit lk (PutRequest d descriptor (body_of reader)) n = (Ok answer, n')"
    "(case answer of PutResponse r \<Rightarrow> r | _ \<Rightarrow> Err ProtocolErr) = Ok receipt" "receipt = co_digest descriptor"
    using assms unfolding put_def bindS_Ok pureS_iff by (auto split: prod.splits sum.splits if_splits)
  show "nw_local n' = nw_local n" using transmit_Ok [OF t(1)] by simp
  have s: "serve_put (lk_remote lk) (transport_key_of (lk_local lk)) d descriptor (body_of reader) (nw_remote n)
      = (Some answer, nw_remote n')"
    using transmit_Ok [OF t(1)] by simp
  show "\<exists>input. receive (lk_remote lk) (transport_key_of (lk_local lk)) d descriptor input (remote_coordinator n)
      = (Ok (co_digest descriptor), remote_coordinator n')"
    using serve_put_coordinator(2) [OF s] t(2,3) by auto
qed

lemma fetch_Ok:
  assumes "fetch lk d descriptor n = (Ok bytes, n')"
  shows "nw_local n' = nw_local n \<and> remote_coordinator n' = remote_coordinator n"
proof -
  obtain answer where t: "transmit lk (FetchRequest d (co_digest descriptor)) n = (Ok answer, n')"
    using assms unfolding fetch_def bindS_Ok pureS_iff by blast
  then show ?thesis
    using transmit_Ok [OF t] serve_fetch_coordinator [of "lk_remote lk" "transport_key_of (lk_local lk)" d "co_digest descriptor" "nw_remote n"]
    by auto
qed

lemma locally_Ok: "locally f n = (r, n') \<longleftrightarrow> (\<exists>c. f (nw_local n) = (r, c) \<and> n' = n\<lparr>nw_local := c\<rparr>)"
  by (auto simp: locally_def split: prod.splits)

lemma stepped_ok:
  assumes "archive_codec_laws (ho_codec (lk_local lk))" "archive_codec_laws (ho_codec (lk_remote lk))"
    and "coordinator_ok (lk_local lk) (nw_local n)" "coordinator_ok (lk_remote lk) (remote_coordinator n)" and "stepped lk n n'"
  shows "coordinator_ok (lk_local lk) (nw_local n') \<and> coordinator_ok (lk_remote lk) (remote_coordinator n')"
  using reachable_grows assms unfolding stepped_def by blast

lemma send_object_Ok:
  assumes "send_object lk d report key n = (Ok r, n')"
  obtains descriptor reader u where
    "coordinator_object (lk_local lk) (transport_key_of (lk_remote lk)) d key (nw_local n) = Ok (descriptor, reader)"
    and "put lk d descriptor reader n = (Ok u, n')" and "r = report\<lparr>xr_sent := xr_sent report + 1\<rparr>"
proof -
  obtain p n0 where p: "locally (\<lambda>c. (coordinator_object (lk_local lk) (transport_key_of (lk_remote lk)) d key c, c)) n = (Ok p, n0)"
    "(case p of (descriptor, reader) \<Rightarrow> bindS (put lk d descriptor reader) (\<lambda>_.
      pureS (Ok (report\<lparr>xr_sent := xr_sent report + 1\<rparr>)))) n0 = (Ok r, n')"
    using assms unfolding send_object_def bindS_Ok [of "locally _"] by blast
  obtain descriptor reader where pq: "p = (descriptor, reader)" by fastforce
  have "n0 = n" and o: "coordinator_object (lk_local lk) (transport_key_of (lk_remote lk)) d key (nw_local n) = Ok p"
    using p(1) by (auto simp: locally_Ok)
  then obtain u where "put lk d descriptor reader n = (Ok u, n')" "r = report\<lparr>xr_sent := xr_sent report + 1\<rparr>"
    using p(2) unfolding pq prod.case bindS_Ok pureS_iff by blast
  then show thesis using that o pq by blast
qed

lemma fetch_object_Ok:
  assumes "fetch_object lk d listed report key n = (Ok r, n')"
  obtains descriptor bytes m c where "fetch lk d descriptor n = (Ok bytes, m)"
    and "receive (lk_local lk) (transport_key_of (lk_remote lk)) d descriptor
        \<lparr>or_file = bytes, or_offset = 0, or_remaining = length bytes\<rparr> (nw_local m) = (Ok key, c)"
    and "n' = m\<lparr>nw_local := c\<rparr>" and "r = report\<lparr>xr_received := xr_received report + 1\<rparr>"
proof -
  obtain descriptor u n1 bytes m receipt n2 where
    "locally (\<lambda>c. (authorize_object (lk_local lk) (transport_key_of (lk_remote lk)) d descriptor c, c)) n = (Ok u, n1)"
    and f: "fetch lk d descriptor n1 = (Ok bytes, m)"
    and rc: "locally (receive (lk_local lk) (transport_key_of (lk_remote lk)) d descriptor
        \<lparr>or_file = bytes, or_offset = 0, or_remaining = length bytes\<rparr>) m = (Ok receipt, n2)"
    and r: "(if receipt \<noteq> key then Err ProtocolErr else Ok (report\<lparr>xr_received := xr_received report + 1\<rparr>)) = Ok r" "n2 = n'"
    using assms unfolding fetch_object_def bindS_Ok pureS_iff by blast
  moreover from this(1) have "n1 = n" by (auto simp: locally_Ok)
  ultimately show thesis using that [of descriptor bytes m] by (auto simp: locally_Ok split: if_splits)
qed

text \<open>Sending what the remote side needs.\<close>

lemma sends:
  assumes laws: "archive_codec_laws (ho_codec (lk_local lk))" "archive_codec_laws (ho_codec (lk_remote lk))"
    and listed: "\<And>c x k. fmlookup (cn_copies (nw_local n)) d = Some c
      \<Longrightarrow> fmlookup (am_objects (as_metadata (ar_snapshot (wc_store c)))) k = Some x \<Longrightarrow> co_digest x = k"
    and run: "foldS (send_object lk d) report keys n = (Ok report', n')"
    and ok: "coordinator_ok (lk_local lk) (nw_local n)" "coordinator_ok (lk_remote lk) (remote_coordinator n)"
    and h: "holds (remote_coordinator n) d ch ks"
  shows "nw_local n' = nw_local n \<and> holds (remote_coordinator n') d ch (ks |\<union>| fset_of_list keys)
    \<and> report' = report\<lparr>xr_sent := xr_sent report + length keys\<rparr>
    \<and> coordinator_ok (lk_remote lk) (remote_coordinator n')"
  using run ok h listed
proof (induction keys arbitrary: n report ks)
  case (Cons key keys)
  obtain r1 n1 where one: "send_object lk d report key n = (Ok r1, n1)" and rest: "foldS (send_object lk d) r1 keys n1 = (Ok report', n')"
    using Cons.prems(1) unfolding foldS.simps bindS_Ok by blast
  obtain descriptor reader u where o: "coordinator_object (lk_local lk) (transport_key_of (lk_remote lk)) d key (nw_local n)
      = Ok (descriptor, reader)"
    and p: "put lk d descriptor reader n = (Ok u, n1)" and r1: "r1 = report\<lparr>xr_sent := xr_sent report + 1\<rparr>"
    using one by (rule send_object_Ok)
  obtain c where "fmlookup (cn_copies (nw_local n)) d = Some c"
    "fmlookup (am_objects (as_metadata (ar_snapshot (wc_store c)))) key = Some descriptor"
    using o by (auto simp: coordinator_object_def copy_of_def object_copy_def Let_def)
  then have key: "co_digest descriptor = key" by (rule Cons.prems(5))
  obtain input where rc: "receive (lk_remote lk) (transport_key_of (lk_local lk)) d descriptor input (remote_coordinator n)
      = (Ok key, remote_coordinator n1)"
    using put_Ok(2) [OF p] key by blast
  have local: "nw_local n1 = nw_local n" by (rule put_Ok(1) [OF p])
  have h1: "holds (remote_coordinator n1) d ch (finsert key ks)" by (rule receive_holds(2) [OF laws(2) Cons.prems(3) rc Cons.prems(4)])
  have "stepped lk n n1" using put_stepped [of lk n d descriptor reader] p by simp
  then have ok1: "coordinator_ok (lk_local lk) (nw_local n1)" "coordinator_ok (lk_remote lk) (remote_coordinator n1)"
    using stepped_ok [OF laws Cons.prems(2,3)] by blast+
  have "nw_local n' = nw_local n1 \<and> holds (remote_coordinator n') d ch (finsert key ks |\<union>| fset_of_list keys)
    \<and> report' = r1\<lparr>xr_sent := xr_sent r1 + length keys\<rparr> \<and> coordinator_ok (lk_remote lk) (remote_coordinator n')"
    by (rule Cons.IH [OF rest ok1 h1]) (use Cons.prems(5) local in simp)
  then show ?case using local r1 by (simp add: funion_commute)
qed simp

text \<open>Fetching what the local side needs.\<close>

lemma fetches:
  assumes laws: "archive_codec_laws (ho_codec (lk_local lk))" "archive_codec_laws (ho_codec (lk_remote lk))"
    and run: "foldS (fetch_object lk d listed) report keys n = (Ok report', n')"
    and ok: "coordinator_ok (lk_local lk) (nw_local n)" "coordinator_ok (lk_remote lk) (remote_coordinator n)"
    and h: "holds (nw_local n) d ch ks"
  shows "remote_coordinator n' = remote_coordinator n \<and> holds (nw_local n') d ch (ks |\<union>| fset_of_list keys)
    \<and> report' = report\<lparr>xr_received := xr_received report + length keys\<rparr>"
  using run ok h
proof (induction keys arbitrary: n report ks)
  case (Cons key keys)
  obtain r1 n1 where one: "fetch_object lk d listed report key n = (Ok r1, n1)"
    and rest: "foldS (fetch_object lk d listed) r1 keys n1 = (Ok report', n')"
    using Cons.prems(1) unfolding foldS.simps bindS_Ok by blast
  obtain descriptor bytes m c where f: "fetch lk d descriptor n = (Ok bytes, m)"
    and rc: "receive (lk_local lk) (transport_key_of (lk_remote lk)) d descriptor
        \<lparr>or_file = bytes, or_offset = 0, or_remaining = length bytes\<rparr> (nw_local m) = (Ok key, c)"
    and r1: "n1 = m\<lparr>nw_local := c\<rparr>" "r1 = report\<lparr>xr_received := xr_received report + 1\<rparr>"
    using one by (rule fetch_object_Ok)
  have m: "nw_local m = nw_local n" "remote_coordinator m = remote_coordinator n" using fetch_Ok [OF f] by auto
  have h1: "holds (nw_local n1) d ch (finsert key ks)"
    using receive_holds(2) [OF laws(1) _ rc, of ch ks] Cons.prems(2,4) m r1 by simp
  have "stepped lk n n1" using fetch_object_stepped [of lk n d listed report key] one by simp
  then have ok1: "coordinator_ok (lk_local lk) (nw_local n1)" "coordinator_ok (lk_remote lk) (remote_coordinator n1)"
    using stepped_ok [OF laws Cons.prems(2,3)] by blast+
  have "remote_coordinator n' = remote_coordinator n1 \<and> holds (nw_local n') d ch (finsert key ks |\<union>| fset_of_list keys)
    \<and> report' = r1\<lparr>xr_received := xr_received r1 + length keys\<rparr>"
    by (rule Cons.IH [OF rest ok1 h1])
  then show ?case using m r1 by (simp add: funion_commute)
qed simp

lemma sorted_fset [simp]: "fset_of_list (sorted_list_of_fset S) = S" "length (sorted_list_of_fset S) = fcard S"
  by (auto simp: fset_of_list_elem sorted_list_of_fset.rep_eq fcard.rep_eq)

lemma exchange_authorized_Ok:
  assumes "exchange_authorized lk d own n = (Ok report, n')"
  obtains need n1 report1 n2 remote n3 need' n4 where
    "rpc lk (OfferCommand own) n = (Ok (Needed need), n1)"
    and "foldS (send_object lk d) \<lparr>xr_sent = 0, xr_received = 0\<rparr> (sorted_list_of_fset need) n1 = (Ok report1, n2)"
    and "rpc lk (InventoryCommand d (lk_from lk)) n2 = (Ok (Inventory remote), n3)"
    and "locally (handle_command (lk_local lk) None (transport_key_of (lk_remote lk)) (OfferCommand remote)) n3
      = (Ok (Needed need'), n4)"
    and "foldS (fetch_object lk d (am_objects remote)) report1 (sorted_list_of_fset need') n4 = (Ok report, n')"
proof -
  have needed: "expect_needed r = Inr x \<longleftrightarrow> r = Needed x" and inventory: "expect_inventory r = Inr m \<longleftrightarrow> r = Inventory m" for r x m
    by (auto simp: expect_needed_def expect_inventory_def split: reply.splits)
  show thesis
    using assms that unfolding exchange_authorized_def bindS_Ok pureS_iff needed inventory by blast
qed

lemma authorized_converges:
  assumes laws: "archive_codec_laws (ho_codec (lk_local lk))" "archive_codec_laws (ho_codec (lk_remote lk))"
    and ok: "coordinator_ok (lk_local lk) (nw_local n)" "coordinator_ok (lk_remote lk) (remote_coordinator n)"
    and h: "holds (nw_local n) d chL ksL" "holds (remote_coordinator n) d chR ksR"
    and own: "am_controls own = chL" "fmdom (am_objects own) = ksL" "mf_database (sm_body (am_manifest own)) = d"
      "\<exists>c. fmlookup (cn_copies (nw_local n)) d = Some c \<and> own = as_metadata (ar_snapshot (wc_store c))"
    and run: "exchange_authorized lk d own n = (Ok report, n')"
  shows "\<exists>ch. holds (nw_local n') d ch (ksL |\<union>| ksR) \<and> holds (remote_coordinator n') d ch (ksL |\<union>| ksR)
    \<and> prefix chL ch \<and> prefix chR ch \<and> (ch = chL \<or> ch = chR)
    \<and> report = \<lparr>xr_sent = fcard (ksL |-| ksR), xr_received = fcard (ksR |-| ksL)\<rparr>"
proof -
  obtain need n1 report1 n2 remote n3 need' n4 where steps:
    "rpc lk (OfferCommand own) n = (Ok (Needed need), n1)"
    "foldS (send_object lk d) \<lparr>xr_sent = 0, xr_received = 0\<rparr> (sorted_list_of_fset need) n1 = (Ok report1, n2)"
    "rpc lk (InventoryCommand d (lk_from lk)) n2 = (Ok (Inventory remote), n3)"
    "locally (handle_command (lk_local lk) None (transport_key_of (lk_remote lk)) (OfferCommand remote)) n3
      = (Ok (Needed need'), n4)"
    "foldS (fetch_object lk d (am_objects remote)) report1 (sorted_list_of_fset need') n4 = (Ok report, n')"
    using run by (rule exchange_authorized_Ok)
  have ok1: "coordinator_ok (lk_local lk) (nw_local n1)" "coordinator_ok (lk_remote lk) (remote_coordinator n1)"
    using stepped_ok [OF laws ok] rpc_stepped [of lk n "OfferCommand own"] steps(1) by auto
  have l1: "nw_local n1 = nw_local n" by (rule rpc_Ok(1) [OF steps(1)])
  obtain ch where offer: "Needed need = Needed (fmdom (am_objects own) |-| ksR)" "holds (remote_coordinator n1) d ch ksR"
    "prefix chR ch" "prefix (am_controls own) ch" "ch = chR \<or> ch = am_controls own"
    "\<forall>k x. fmlookup (am_objects own) k = Some x \<longrightarrow> co_digest x = k"
    by (rule offer_holds [OF laws(2) ok(2) rpc_Ok(2) [OF steps(1)] h(2) own(3)])
  have listed: "co_digest x = k" if "fmlookup (cn_copies (nw_local n1)) d = Some c"
    "fmlookup (am_objects (as_metadata (ar_snapshot (wc_store c)))) k = Some x" for c x k
    using that own(4) offer(6) l1 by auto
  have sent: "nw_local n2 = nw_local n1 \<and> holds (remote_coordinator n2) d ch (ksR |\<union>| fset_of_list (sorted_list_of_fset need))
    \<and> report1 = \<lparr>xr_sent = 0 + length (sorted_list_of_fset need), xr_received = 0\<rparr>
    \<and> coordinator_ok (lk_remote lk) (remote_coordinator n2)"
    using sends [OF laws _ steps(2) ok1 offer(2)] listed by simp
  have l2: "nw_local n2 = nw_local n" using sent l1 by simp
  let ?all = "ksR |\<union>| need"
  have r2: "holds (remote_coordinator n2) d ch ?all" "coordinator_ok (lk_remote lk) (remote_coordinator n2)"
    "report1 = \<lparr>xr_sent = fcard need, xr_received = 0\<rparr>"
    using sent by simp_all
  have all: "?all = ksL |\<union>| ksR" using offer(1) own(2) by auto
  obtain m where inv: "Inventory remote = Inventory m" "holds (remote_coordinator n3) d ch ?all" "am_controls m = ch"
    "fmdom (am_objects m) = ?all" "mf_database (sm_body (am_manifest m)) = d" "cn_copies (remote_coordinator n3) = cn_copies (remote_coordinator n2)"
    by (rule inventory_holds [OF rpc_Ok(2) [OF steps(3)] r2(1)])
  have l3: "nw_local n3 = nw_local n" using rpc_Ok(1) [OF steps(3)] l2 by simp
  have ok3: "coordinator_ok (lk_remote lk) (remote_coordinator n3)" using r2(2) inv(6) by (simp add: coordinator_ok_def)
  obtain c4 where c4: "handle_command (lk_local lk) None (transport_key_of (lk_remote lk)) (OfferCommand remote) (nw_local n3)
      = (Ok (Needed need'), c4)" "n4 = n3\<lparr>nw_local := c4\<rparr>"
    using steps(4) by (auto simp: locally_Ok)
  have eqm: "remote = m" using inv(1) by simp
  obtain ch' where ret: "Needed need' = Needed (fmdom (am_objects m) |-| ksL)" "holds c4 d ch' ksL" "prefix chL ch'"
    "prefix (am_controls m) ch'" "ch' = chL \<or> ch' = am_controls m"
    using offer_holds [OF laws(1) _ c4(1) _ inv(5) [folded eqm]] ok(1) h(1) l3 eqm by metis
  have ch: "ch' = ch" using ret(3-5) offer(4) own(1) inv(3) prefix_order.antisym by auto
  have ok4: "coordinator_ok (lk_local lk) (nw_local n4)" "coordinator_ok (lk_remote lk) (remote_coordinator n4)"
    using reachable_grows [OF laws(1)] command_kept [OF laws(1)] ok(1) l3 ok3 c4 by (auto simp: coordinator_kept_def, metis snd_conv)
  have h4: "holds (nw_local n4) d ch ksL" using ret(2) c4(2) ch by simp
  note got = fetches [OF laws steps(5) ok4 h4]
  have "ksL |\<union>| need' = ksL |\<union>| ksR" "fcard need' = fcard (ksR |-| ksL)" "fcard need = fcard (ksL |-| ksR)"
    using ret(1) inv(4) all offer(1) own(2) by (auto intro!: arg_cong [where f = fcard])
  then show ?thesis
    using got inv(2) all c4(2) offer(3-5) own(1) r2(3)
    by (intro exI [of _ ch]) auto
qed

text \<open>
  C10: An exchange that reports success has brought both sides together: both hold the longer
  of the two chains and exactly the objects either of them held before, and the report counts
  the objects that were missing on each side, so a further exchange transfers nothing.
\<close>

theorem exchange_converges:
  assumes laws: "archive_codec_laws (ho_codec (lk_local lk))" "archive_codec_laws (ho_codec (lk_remote lk))"
    and ok: "coordinator_ok (lk_local lk) (nw_local n)" "coordinator_ok (lk_remote lk) (remote_coordinator n)"
    and h: "holds (nw_local n) d chL ksL" "holds (remote_coordinator n) d chR ksR"
    and run: "exchange lk unreachable d n = (Ok report, n')"
  shows "\<exists>ch. holds (nw_local n') d ch (ksL |\<union>| ksR) \<and> holds (remote_coordinator n') d ch (ksL |\<union>| ksR)
    \<and> prefix chL ch \<and> prefix chR ch \<and> (ch = chL \<or> ch = chR)
    \<and> report = \<lparr>xr_sent = fcard (ksL |-| ksR), xr_received = fcard (ksR |-| ksL)\<rparr>"
proof -
  obtain a s m where m: "with_connection lk (exchange_connected lk d a) (n\<lparr>nw_observed := attempt_phase Connecting a s\<rparr>) = (Ok report, m)"
    and n': "nw_local n' = nw_local m" "remote_coordinator n' = remote_coordinator m"
    using run by (auto simp: exchange_def attempting_def split: sum.splits prod.splits option.splits)
  let ?n = "n\<lparr>nw_observed := attempt_phase Connecting a s, nw_hung := False,
      nw_remote := (nw_remote n)\<lparr>sv_inbound := inbound_new (transport_key_of (lk_local lk))\<rparr>\<rparr>"
  obtain k where k: "exchange_connected lk d a ?n = (Ok report, k)" "m = close_connection k"
    using m by (auto simp: with_connection_def Let_def split: prod.splits)
  obtain own n1 c q t where own: "locally (handle_command (lk_local lk) None (transport_key_of (lk_remote lk))
        (InventoryCommand d (lk_to lk))) ?n = (Ok (Inventory own), n1)"
    and c: "attempt_authorized a (nw_observed n1) = (c, t)"
    and q: "exchange_authorized lk d own (n1\<lparr>nw_observed := t\<rparr>) = (Ok report, q)"
    and kq: "k = q\<lparr>nw_observed := connection_drop c (nw_observed q)\<rparr>"
  proof -
    have inventory: "expect_inventory r = Inr m \<longleftrightarrow> r = Inventory m" for r m
      by (auto simp: expect_inventory_def split: reply.splits)
    obtain own n1 where own: "locally (handle_command (lk_local lk) None (transport_key_of (lk_remote lk))
        (InventoryCommand d (lk_to lk))) ?n = (Ok (Inventory own), n1)"
      and later: "(case attempt_authorized a (nw_observed n1) of (connection, o') \<Rightarrow>
          (case exchange_authorized lk d own (n1\<lparr>nw_observed := o'\<rparr>) of
             (r, n) \<Rightarrow> (r, n\<lparr>nw_observed := connection_drop connection (nw_observed n)\<rparr>))) = (Ok report, k)"
      using k(1) unfolding exchange_connected_def bindS_Ok pureS_iff inventory by blast
    obtain c t where c: "attempt_authorized a (nw_observed n1) = (c, t)" by fastforce
    obtain r q where q: "exchange_authorized lk d own (n1\<lparr>nw_observed := t\<rparr>) = (r, q)" by fastforce
    show thesis using that [OF own c] q later unfolding c prod.case q by simp
  qed
  obtain c1 where c1: "handle_command (lk_local lk) None (transport_key_of (lk_remote lk)) (InventoryCommand d (lk_to lk)) (nw_local n)
      = (Ok (Inventory own), c1)" "n1 = ?n\<lparr>nw_local := c1\<rparr>"
    using own by (auto simp: locally_Ok)
  obtain m0 where inv: "Inventory own = Inventory m0" "holds c1 d chL ksL" "am_controls m0 = chL" "fmdom (am_objects m0) = ksL"
    "mf_database (sm_body (am_manifest m0)) = d"
    "\<exists>c. fmlookup (cn_copies (nw_local n)) d = Some c \<and> m0 = as_metadata (ar_snapshot (wc_store c))"
    "cn_copies c1 = cn_copies (nw_local n)"
    by (rule inventory_holds [OF c1(1) h(1)])
  have "coordinator_ok (lk_local lk) c1" using ok(1) inv(7) by (simp add: coordinator_ok_def)
  then have "\<exists>ch. holds (nw_local q) d ch (ksL |\<union>| ksR) \<and> holds (remote_coordinator q) d ch (ksL |\<union>| ksR)
    \<and> prefix chL ch \<and> prefix chR ch \<and> (ch = chL \<or> ch = chR)
    \<and> report = \<lparr>xr_sent = fcard (ksL |-| ksR), xr_received = fcard (ksR |-| ksL)\<rparr>"
    using ok(2) h(2) inv c1(2) by (intro authorized_converges [OF laws _ _ _ _ _ _ _ _ q]) simp_all
  then show ?thesis using n' k(2) kq by (simp add: close_connection_def)
qed

subsection \<open>Two toy endpoints\<close>

definition toy_link :: link where
  "toy_link = \<lparr>lk_local = toy_host, lk_remote = toy_host, lk_time = None,
     lk_from = \<lparr>ea_id = toy_peer, ea_routes = []\<rparr>, lk_to = \<lparr>ea_id = toy_peer, ea_routes = []\<rparr>\<rparr>"

definition toy_network :: network where
  "toy_network = \<lparr>nw_local = toy_coordinator (toy_copy False []), nw_observed = observations_new,
     nw_remote = \<lparr>sv_coordinator = toy_coordinator (toy_copy False []), sv_inbound = inbound_new toy_peer,
       sv_observed = observations_new\<rparr>,
     nw_hung = False, nw_fates = []\<rparr>"

lemma toy_key: "transport_key_of toy_host = toy_peer"
  by (simp add: transport_key_of_def transport_public_def toy_peer_def toy_transport_def toy_crypto_def)

definition toy_holding :: "coordinator \<Rightarrow> bool" where
  "toy_holding c \<longleftrightarrow> cn_copies c = fmupd ''db'' (toy_copy False []) fmempty \<and> cn_events c = []"

lemma toy_inventory:
  assumes "toy_holding c"
  shows "\<exists>c'. handle_command toy_host now toy_peer (InventoryCommand ''db'' \<lparr>ea_id = toy_peer, ea_routes = []\<rparr>) c
    = (Ok (Inventory (toy_metadata 0 toy_objects)), c') \<and> toy_holding c'"
  using assms toy_authorized
  by (simp add: handle_command_def inventory_def copy_of_def toy_snapshot_fields toy_holding_def remember_route_def)

lemma toy_offered:
  assumes "toy_holding c"
  shows "\<exists>c'. handle_command toy_host None toy_peer (OfferCommand (toy_metadata 0 toy_objects)) c
    = (Ok (Needed {||}), c') \<and> toy_holding c'"
proof -
  have db: "mf_database (sm_body (am_manifest (toy_metadata 0 toy_objects))) = ''db''"
    using toy_metadata_verified(3) [OF toy_objects_valid(1), where g = 0] by (simp add: toy_manifest_body_def)
  have "at_copy UnauthorizedErr ''db'' (offer_copy toy_host toy_peer (toy_metadata 0 toy_objects)) (toy_coordinator (toy_copy False []))
      = (Ok (Needed {||}), toy_coordinator (toy_copy False []))"
    using toy_offer by (simp add: handle_command_def db)
  then obtain t where "offer_copy toy_host toy_peer (toy_metadata 0 toy_objects) \<lparr>tx_copy = toy_copy False [], tx_events = []\<rparr>
      = (Ok (Needed {||}), t)"
    and same: "toy_coordinator (toy_copy False []) = (toy_coordinator (toy_copy False []))
        \<lparr>cn_copies := fmupd ''db'' (tx_copy t) (cn_copies (toy_coordinator (toy_copy False []))), cn_events := tx_events t\<rparr>"
    by (rule at_copy_Ok) (auto simp: toy_coordinator_def)
  moreover have "tx_copy t = toy_copy False []" "tx_events t = []"
    using arg_cong [OF same, of "\<lambda>x. fmlookup (cn_copies x) ''db''"] arg_cong [OF same, of cn_events] by simp_all
  ultimately show ?thesis
    using assms by (simp add: handle_command_def at_copy_def toy_holding_def db)
qed

text \<open>The remote side before and after it has observed its caller.\<close>

definition toy_serving :: "serving \<Rightarrow> bool" where
  "toy_serving s \<longleftrightarrow> toy_holding (sv_coordinator s)
     \<and> (bt_contains (in_databases (sv_inbound s)) ''db'' \<or> \<not> ob_closed (sv_observed s) \<and> ob_next (sv_observed s) = 0)"

lemma toy_observe: "toy_serving s \<Longrightarrow> \<exists>s'. observe ''db'' s = (Ok (), s') \<and> toy_serving s'"
proof (cases "bt_contains (in_databases (sv_inbound s)) ''db''")
  case True
  then show "toy_serving s \<Longrightarrow> ?thesis" by (simp add: observe_def inbound_authorized_def toy_serving_def)
next
  case False
  assume s: "toy_serving s"
  then have "\<exists>a t. observations_begin ''db'' (in_peer (sv_inbound s)) (sv_observed s) = (Ok a, t)"
    using False by (simp add: toy_serving_def observations_begin_def checked_add_def U64_MAX_def Let_def)
  then obtain a t where a: "observations_begin ''db'' (in_peer (sv_inbound s)) (sv_observed s) = (Ok a, t)" by blast
  obtain c u where "attempt_authorized a t = (c, u)" by fastforce
  then show ?thesis using False a s by (simp add: observe_def inbound_authorized_def toy_serving_def)
qed

lemma toy_rpc:
  assumes s: "toy_serving (nw_remote n)" and f: "nw_fates n = []" and db: "command_database cmd = Some ''db''"
    and run: "\<And>c. toy_holding c \<Longrightarrow> \<exists>c'. handle_command toy_host None toy_peer cmd c = (Ok r, c') \<and> toy_holding c'"
  shows "\<exists>s'. rpc toy_link cmd n = (Ok r, n\<lparr>nw_remote := s'\<rparr>) \<and> toy_serving s'"
proof -
  obtain c where c: "handle_command toy_host None toy_peer cmd (sv_coordinator (nw_remote n)) = (Ok r, c)" "toy_holding c"
    using run s by (auto simp: toy_serving_def)
  have "toy_serving ((nw_remote n)\<lparr>sv_coordinator := c\<rparr>)" using s c(2) by (simp add: toy_serving_def)
  from toy_observe [OF this] obtain s' where
    o: "observe ''db'' ((nw_remote n)\<lparr>sv_coordinator := c\<rparr>) = (Ok (), s')" "toy_serving s'"
    by blast
  have "serve_command toy_host None toy_peer cmd (nw_remote n) = (Some (CommandResponse (Ok r)), s')"
    using c o db by (simp add: serve_command_def)
  moreover have "n\<lparr>nw_fates := [], nw_remote := s'\<rparr> = n\<lparr>nw_remote := s'\<rparr>" using f by (cases n) simp
  ultimately have "rpc toy_link cmd n = (Ok r, n\<lparr>nw_remote := s'\<rparr>)"
    using f toy_key by (simp add: rpc_def bindS_def transmit_def served_by_remote_def toy_link_def ended_badly_def pureS_def)
  then show ?thesis using o(2) by blast
qed

text \<open>Both hold the same archive, so the exchange runs through without a transfer.\<close>

lemma toy_exchange:
  "\<exists>n'. exchange toy_link None ''db'' toy_network = (Ok \<lparr>xr_sent = 0, xr_received = 0\<rparr>, n')"
proof -
  let ?in = "InventoryCommand ''db'' \<lparr>ea_id = toy_peer, ea_routes = []\<rparr>" and ?own = "toy_metadata 0 toy_objects"
  have db: "command_database (OfferCommand ?own) = Some ''db''"
    using toy_metadata_verified(3) [OF toy_objects_valid(1), where g = 0] by (simp add: toy_manifest_body_def)
  have new: "toy_holding (toy_coordinator (toy_copy False []))" by (simp add: toy_holding_def)
  have authorized: "\<exists>n'. exchange_authorized toy_link ''db'' ?own n = (Ok \<lparr>xr_sent = 0, xr_received = 0\<rparr>, n')"
    if n: "toy_holding (nw_local n)" "toy_serving (nw_remote n)" "nw_fates n = []" for n
  proof -
    obtain s1 where s1: "rpc toy_link (OfferCommand ?own) n = (Ok (Needed {||}), n\<lparr>nw_remote := s1\<rparr>)" "toy_serving s1"
      using toy_rpc [OF n(2,3) db toy_offered] by blast
    obtain s2 where s2: "rpc toy_link ?in (n\<lparr>nw_remote := s1\<rparr>) = (Ok (Inventory ?own), n\<lparr>nw_remote := s2\<rparr>)"
      using toy_rpc [of "n\<lparr>nw_remote := s1\<rparr>" ?in "Inventory ?own"] toy_inventory s1(2) n(3) by auto
    obtain c where c: "handle_command toy_host None toy_peer (OfferCommand ?own) (nw_local n) = (Ok (Needed {||}), c)"
      using toy_offered [OF n(1)] by blast
    show ?thesis
      using s1(1) s2 c toy_key
      by (simp add: exchange_authorized_def bindS_def pureS_def expect_needed_def expect_inventory_def locally_def toy_link_def
          sorted_list_of_fset.rep_eq)
  qed
  obtain a o1 where a: "observations_begin ''db'' toy_peer observations_new = (Ok a, o1)"
    by (auto simp: observations_begin_def observations_new_def checked_add_def U64_MAX_def Let_def)
  let ?n = "toy_network\<lparr>nw_observed := attempt_phase Connecting a o1, nw_hung := False,
      nw_remote := (nw_remote toy_network)\<lparr>sv_inbound := inbound_new toy_peer\<rparr>\<rparr>"
  obtain c1 where c1: "handle_command toy_host None toy_peer ?in (toy_coordinator (toy_copy False [])) = (Ok (Inventory ?own), c1)"
    "toy_holding c1"
    using toy_inventory [OF new] by blast
  obtain cx o2 where cx: "attempt_authorized a (attempt_phase Connecting a o1) = (cx, o2)" by fastforce
  have "toy_serving (nw_remote ?n)" using new by (simp add: toy_serving_def toy_network_def observations_new_def)
  then obtain m where m: "exchange_authorized toy_link ''db'' ?own (?n\<lparr>nw_local := c1, nw_observed := o2\<rparr>)
      = (Ok \<lparr>xr_sent = 0, xr_received = 0\<rparr>, m)"
    using authorized [of "?n\<lparr>nw_local := c1, nw_observed := o2\<rparr>"] c1(2) by (auto simp: toy_network_def)
  have "\<exists>k. exchange_connected toy_link ''db'' a ?n = (Ok \<lparr>xr_sent = 0, xr_received = 0\<rparr>, k)"
    using c1(1) cx m toy_key
    by (simp add: exchange_connected_def bindS_def pureS_def locally_def expect_inventory_def toy_link_def toy_network_def)
  then have "\<exists>k. with_connection toy_link (exchange_connected toy_link ''db'' a) (toy_network\<lparr>nw_observed := attempt_phase Connecting a o1\<rparr>)
      = (Ok \<lparr>xr_sent = 0, xr_received = 0\<rparr>, k)"
    using toy_key by (auto simp: with_connection_def Let_def toy_link_def toy_network_def)
  then show ?thesis
    using a by (auto simp: exchange_def attempting_def toy_link_def toy_network_def)
qed

lemma toy_link_holds: "holds (toy_coordinator (toy_copy False [])) ''db'' toy_chain (fmdom toy_objects)"
  using toy_metadata_verified [OF toy_objects_valid(1), where g = 0]
  by (simp add: holds_def toy_snapshot_fields toy_manifest_body_def toy_metadata_def toy_head(1) genesis_body_def)

theorem exchange_converges_witness:
  "\<exists>n' ch. exchange toy_link None ''db'' toy_network = (Ok \<lparr>xr_sent = 0, xr_received = 0\<rparr>, n')
     \<and> holds (nw_local n') ''db'' ch (fmdom toy_objects) \<and> holds (remote_coordinator n') ''db'' ch (fmdom toy_objects)"
proof -
  obtain n' where run: "exchange toy_link None ''db'' toy_network = (Ok \<lparr>xr_sent = 0, xr_received = 0\<rparr>, n')"
    using toy_exchange by blast
  have hosts: "lk_local toy_link = toy_host" "lk_remote toy_link = toy_host" by (simp_all add: toy_link_def)
  have ends: "nw_local toy_network = toy_coordinator (toy_copy False [])"
    "remote_coordinator toy_network = toy_coordinator (toy_copy False [])"
    by (simp_all add: toy_network_def)
  have ok: "coordinator_ok toy_host (toy_coordinator (toy_copy False []))"
    using toy_coordinator_ok toy_copy_ok by simp
  show ?thesis
    using exchange_converges [OF _ _ _ _ _ _ run, unfolded hosts ends, OF toy_host_laws toy_host_laws ok ok toy_link_holds toy_link_holds] run
    by auto
qed

theorem calls_sound_witness:
  "\<exists>n' e. exchange toy_link (Some TimeoutErr) ''db'' toy_network = (Err TimeoutErr, n')
     \<and> fmlookup (ob_peers (nw_observed n')) (''db'', toy_peer) = Some e \<and> oe_phase e = ExchangeFailed"
proof -
  obtain n' where run: "exchange toy_link (Some TimeoutErr) ''db'' toy_network = (Err TimeoutErr, n')"
    by (auto simp: exchange_def attempting_def toy_link_def toy_network_def observations_begin_def observations_new_def checked_add_def
        U64_MAX_def Let_def)
  have hosts: "lk_local toy_link = toy_host" "lk_remote toy_link = toy_host" "ea_id (lk_to toy_link) = toy_peer"
    by (simp_all add: toy_link_def)
  have ends: "nw_local toy_network = toy_coordinator (toy_copy False [])"
    "remote_coordinator toy_network = toy_coordinator (toy_copy False [])" "nw_observed toy_network = observations_new"
    by (simp_all add: toy_network_def)
  have ok: "coordinator_ok toy_host (toy_coordinator (toy_copy False []))"
    using toy_coordinator_ok toy_copy_ok by simp
  show ?thesis
    using calls_sound [where lk = toy_link and n = toy_network and unreachable = "Some TimeoutErr" and d = "''db''" and x = "Err TimeoutErr"
        and n' = n' and r = "Err TimeoutErr", unfolded hosts ends, OF toy_host_laws toy_host_laws ok ok] run
    by (auto simp: observations_new_def U64_MAX_def)
qed

end
