(* ===== verification/Svc_Values.thy ===== *)
theory Svc_Values
  imports Core_Schema Doc_Groups Store_Read
begin

text \<open>
  The values the service boundary of \<open>crates/taypeer-services/src\<close> takes and returns: errors and
  session tokens (\<open>lib.rs\<close>), read-only views and forms (\<open>views.rs\<close>), addressed patches of a form
  (\<open>patch.rs\<close>) and masked conflicts (\<open>operations.rs\<close>). Views carry no secret: what they show of an
  entry depends on its password and its protected attributes only through their presence.
  Unicode lower-casing is the parameter \<open>lower\<close>.
\<close>

subsection \<open>Errors and sessions (\<open>lib.rs\<close>)\<close>

datatype service_error =
    SvNotFound | SvOperationConflict | SvLocked | SvExpiredSession | SvIncorrectDemoPassword
  | SvInvalidInput | SvEditorAlreadyOpen | SvNoDraft | SvDraftNeedsRestore | SvConflict
  | SvInvalidContext | SvSessionExhausted | SvInvalidDocument | SvAttachmentLimit | SvReadOnly
  | SvReadCompatibility | SvWriteCompatibility | SvUnauthorized | SvCredentials | SvAwaitingData
  | SvTrust trust_error | SvIcon | SvStorage store_error
  | SvPanicked \<comment> \<open>not a variant of the source: an expected document is missing\<close>

record session_token =
  st_database :: database_id
  st_generation :: nat

record 'a session_value =
  sv_session :: session_token
  sv_value :: 'a

definition stamped :: "session_token \<Rightarrow> 'a \<Rightarrow> 'a session_value" where
  "stamped session v = \<lparr>sv_session = session, sv_value = v\<rparr>"

definition of_document :: "doc_error \<Rightarrow> service_error" where
  "of_document e = (case e of
     Doc_Reader.Validation _ \<Rightarrow> SvInvalidInput
   | Doc_Reader.NotFound \<Rightarrow> SvNotFound
   | Doc_Reader.Conflict \<Rightarrow> SvConflict
   | Doc_Reader.InvalidContext \<Rightarrow> SvInvalidContext
   | Doc_Reader.DuplicateId \<Rightarrow> SvInvalidInput
   | Doc_Reader.InvalidDocument \<Rightarrow> SvInvalidDocument
   | Doc_Reader.UnsupportedSchema \<Rightarrow> SvReadCompatibility
   | Doc_Reader.DocRandom \<Rightarrow> SvStorage Random)"

definition candidate_input_error :: "doc_error \<Rightarrow> service_error" where
  "candidate_input_error e =
     (if e = Doc_Reader.NotFound \<or> e = Doc_Reader.InvalidContext then SvInvalidInput else of_document e)"

definition receipt_error :: "doc_error \<Rightarrow> service_error" where
  "receipt_error e = (if e = Doc_Reader.DuplicateId then SvOperationConflict else of_document e)"

abbreviation docR :: "doc_error + 'a \<Rightarrow> service_error + 'a" where
  "docR \<equiv> map_errR of_document"

abbreviation storeR :: "store_error + 'a \<Rightarrow> service_error + 'a" where
  "storeR \<equiv> map_errR SvStorage"

definition require_read :: "compatibility_report \<Rightarrow> service_error + unit" where
  "require_read r = requireR (is_supported (rep_read r)) SvReadCompatibility"

definition require_write :: "compatibility_report \<Rightarrow> service_error + unit" where
  "require_write r = bindR (require_read r) (\<lambda>_. requireR (is_supported (rep_write r)) SvWriteCompatibility)"

subsection \<open>Forms (\<open>views.rs\<close>) and their addressed patches (\<open>patch.rs\<close>)\<close>

record editable_attribute =
  ea_id :: "attribute_id option"
  ea_name :: string
  ea_value :: string
  ea_protected :: bool

record editable_entry =
  ee_title :: string
  ee_username :: "string option"
  ee_password :: "string option"
  ee_url :: "string option"
  ee_notes :: "string option"
  ee_tags :: "string list"
  ee_expires_at :: "timestamp option"
  ee_attributes :: "editable_attribute list"

record entry_patch =
  ep_title :: "string field_update"
  ep_username :: "string field_update"
  ep_password :: "string field_update"
  ep_url :: "string field_update"
  ep_notes :: "string field_update"
  ep_tags :: "string list field_update"
  ep_expires_at :: "timestamp field_update"
  ep_attributes :: "editable_attribute list field_update"

definition patch_optional :: "'a option \<Rightarrow> 'a field_update \<Rightarrow> 'a option" where
  "patch_optional old u = (case u of Keep \<Rightarrow> old | Set v \<Rightarrow> Some v | Clear \<Rightarrow> None)"

definition patch_collection :: "'a list \<Rightarrow> 'a list field_update \<Rightarrow> 'a list" where
  "patch_collection old u = (case u of Keep \<Rightarrow> old | Set v \<Rightarrow> v | Clear \<Rightarrow> [])"

definition patch_apply :: "entry_patch \<Rightarrow> editable_entry \<Rightarrow> service_error + editable_entry" where
  "patch_apply p f =
     bindR (case ep_title p of Keep \<Rightarrow> Ok (ee_title f) | Set t \<Rightarrow> Ok t | Clear \<Rightarrow> Err SvInvalidInput) (\<lambda>title.
     Ok \<lparr>ee_title = title,
         ee_username = patch_optional (ee_username f) (ep_username p),
         ee_password = patch_optional (ee_password f) (ep_password p),
         ee_url = patch_optional (ee_url f) (ep_url p),
         ee_notes = patch_optional (ee_notes f) (ep_notes p),
         ee_tags = patch_collection (ee_tags f) (ep_tags p),
         ee_expires_at = patch_optional (ee_expires_at f) (ep_expires_at p),
         ee_attributes = patch_collection (ee_attributes f) (ep_attributes p)\<rparr>)"

definition editable :: "entry_fields \<Rightarrow> editable_entry" where
  "editable f = \<lparr>ee_title = ef_title f, ee_username = ef_username f, ee_password = ef_password f,
     ee_url = ef_url f, ee_notes = ef_notes f, ee_tags = sorted_list_of_fset (ef_tags f),
     ee_expires_at = ef_expires_at f,
     ee_attributes = map (\<lambda>a. \<lparr>ea_id = Some (attr_id a), ea_name = attr_name a,
        ea_value = av_value (attr_value a), ea_protected = av_protected (attr_value a)\<rparr>)
        (bt_values (ef_attributes f))\<rparr>"

subsection \<open>Read-only views (\<open>views.rs\<close>)\<close>

record group_summary =
  gsm_id :: group_id
  gsm_name :: string
  gsm_parent :: "group_id option"
  gsm_icon :: icon_ref

record entry_summary =
  esm_id :: entry_id
  esm_group_id :: group_id
  esm_title :: string
  esm_username :: "string option"
  esm_url :: "string option"
  esm_has_conflicts :: bool
  esm_notes :: "string option"
  esm_modified_at :: timestamp
  esm_appearance :: appearance

record attribute_view =
  atv_has_value :: bool
  atv_id :: attribute_id
  atv_name :: string
  atv_value :: "string option"
  atv_protected :: bool

record entry_view =
  ev_id :: entry_id
  ev_group_id :: group_id
  ev_title :: string
  ev_username :: "string option"
  ev_url :: "string option"
  ev_notes :: "string option"
  ev_tags :: "string list"
  ev_expires_at :: "timestamp option"
  ev_attributes :: "attribute_view list"
  ev_attachments :: "attachment list"
  ev_appearance :: appearance
  ev_has_password :: bool
  ev_has_conflicts :: bool
  ev_created_at :: timestamp
  ev_modified_at :: timestamp

definition group_summary_of :: "'f group \<Rightarrow> group_summary" where
  "group_summary_of g = \<lparr>gsm_id = g_id g, gsm_name = g_name g, gsm_parent = g_parent g, gsm_icon = g_icon g\<rparr>"

definition shown_fields :: "entry_snapshot \<Rightarrow> entry_fields" where
  "shown_fields s = (case es_fields s of None \<Rightarrow> entry_fields_default | Some f \<Rightarrow> f)"

definition entry_summary_of :: "entry_snapshot \<Rightarrow> entry_summary" where
  "entry_summary_of s = (let f = shown_fields s in
     \<lparr>esm_id = es_id s, esm_group_id = es_group_id s, esm_title = ef_title f, esm_username = ef_username f,
      esm_url = ef_url f, esm_has_conflicts = has_conflicts s, esm_notes = ef_notes f,
      esm_modified_at = es_modified_at s, esm_appearance = ef_appearance f\<rparr>)"

definition attribute_view_of :: "attribute \<Rightarrow> attribute_view" where
  "attribute_view_of a =
     \<lparr>atv_has_value = (av_value (attr_value a) \<noteq> []), atv_id = attr_id a, atv_name = attr_name a,
      atv_value = (if av_protected (attr_value a) then None else Some (av_value (attr_value a))),
      atv_protected = av_protected (attr_value a)\<rparr>"

definition entry_view_of :: "entry_snapshot \<Rightarrow> entry_view" where
  "entry_view_of s = (let f = shown_fields s in
     \<lparr>ev_id = es_id s, ev_group_id = es_group_id s, ev_title = ef_title f, ev_username = ef_username f,
      ev_url = ef_url f, ev_notes = ef_notes f, ev_tags = sorted_list_of_fset (ef_tags f),
      ev_expires_at = ef_expires_at f,
      ev_attributes = map attribute_view_of (bt_values (ef_attributes f)),
      ev_attachments = bt_values (ef_attachments f), ev_appearance = ef_appearance f,
      ev_has_password = (ef_password f \<noteq> None), ev_has_conflicts = has_conflicts s,
      ev_created_at = es_created_at s, ev_modified_at = es_modified_at s\<rparr>)"

definition infix_of :: "string \<Rightarrow> string \<Rightarrow> bool" where
  "infix_of q s \<longleftrightarrow> list_ex (\<lambda>i. take (length q) (drop i s) = q) [0..<Suc (length s)]"

definition matches_query :: "(string \<Rightarrow> string) \<Rightarrow> entry_snapshot \<Rightarrow> string \<Rightarrow> bool" where
  "matches_query lower s q =
     (if q = [] then True
      else case es_fields s of
        None \<Rightarrow> False
      | Some f \<Rightarrow> (let contains = (\<lambda>v. infix_of q (lower v));
                        some = (\<lambda>v. case v of None \<Rightarrow> False | Some x \<Rightarrow> contains x) in
          contains (ef_title f) \<or> some (ef_username f) \<or> some (ef_url f) \<or> some (ef_notes f)
          \<or> list_ex contains (sorted_list_of_fset (ef_tags f))
          \<or> list_ex (\<lambda>a. \<not> av_protected (attr_value a) \<and> contains (av_value (attr_value a)))
              (bt_values (ef_attributes f))))"

definition password :: "entry_snapshot \<Rightarrow> service_error + string" where
  "password s = bindR (ok_or (es_fields s) SvConflict) (\<lambda>f. ok_or (ef_password f) SvNotFound)"

definition attribute_secret :: "entry_snapshot \<Rightarrow> attribute_id \<Rightarrow> service_error + string" where
  "attribute_secret s a = bindR (ok_or (es_fields s) SvConflict) (\<lambda>f.
     bindR (ok_or (fmlookup (ef_attributes f) a) SvNotFound) (\<lambda>attribute. Ok (av_value (attr_value attribute))))"

subsection \<open>Masked conflicts (\<open>operations.rs\<close>)\<close>

record conflict_variant_view =
  cv_origins :: "string list"
  cv_value :: "field_value option"

record conflict_field_view =
  cf_field :: entry_field
  cf_protected :: bool
  cf_variants :: "conflict_variant_view list"

definition concealed :: "field_state \<Rightarrow> bool" where
  "concealed s \<longleftrightarrow> fs_field s = FPassword
     \<or> list_ex (\<lambda>v. case vv_value v of VAttribute a \<Rightarrow> av_protected a | _ \<Rightarrow> False) (fs_variants s)"

definition mask_fields :: "field_state list \<Rightarrow> conflict_field_view list" where
  "mask_fields states = map (\<lambda>s. \<lparr>cf_field = fs_field s, cf_protected = concealed s,
     cf_variants = map (\<lambda>v. \<lparr>cv_origins = vv_origins v,
       cv_value = (if concealed s then None else Some (vv_value v))\<rparr>) (fs_variants s)\<rparr>) states"

definition reveal_variant :: "field_state list \<Rightarrow> entry_field \<Rightarrow> string list \<Rightarrow> service_error + field_value" where
  "reveal_variant states field origins =
     ok_or (case List.find (\<lambda>s. fs_field s = field) states of None \<Rightarrow> None
            | Some s \<Rightarrow> map_option vv_value (List.find (\<lambda>v. vv_origins v = origins) (fs_variants s)))
       SvNotFound"

subsection \<open>What two entries have in common for someone who sees no secret\<close>

definition same_attribute :: "attribute \<Rightarrow> attribute \<Rightarrow> bool" where
  "same_attribute a b \<longleftrightarrow> attr_id a = attr_id b \<and> attr_name a = attr_name b
     \<and> av_protected (attr_value a) = av_protected (attr_value b)
     \<and> (if av_protected (attr_value a)
        then av_value (attr_value a) = [] \<longleftrightarrow> av_value (attr_value b) = []
        else av_value (attr_value a) = av_value (attr_value b))"

definition same_fields :: "entry_fields \<Rightarrow> entry_fields \<Rightarrow> bool" where
  "same_fields f g \<longleftrightarrow> (ef_password f = None \<longleftrightarrow> ef_password g = None)
     \<and> fmrel same_attribute (ef_attributes f) (ef_attributes g)
     \<and> f\<lparr>ef_password := ef_password g, ef_attributes := ef_attributes g\<rparr> = g"

definition same_state :: "field_state \<Rightarrow> field_state \<Rightarrow> bool" where
  "same_state s t \<longleftrightarrow> fs_field s = fs_field t \<and> concealed s = concealed t
     \<and> list_all2 (\<lambda>v w. vv_origins v = vv_origins w \<and> (concealed s \<or> vv_value v = vv_value w))
         (fs_variants s) (fs_variants t)"

definition publicly_equal :: "entry_snapshot \<Rightarrow> entry_snapshot \<Rightarrow> bool" where
  "publicly_equal s t \<longleftrightarrow> rel_option same_fields (es_fields s) (es_fields t)
     \<and> list_all2 same_state (es_conflicts s) (es_conflicts t)
     \<and> list_all2 same_state (es_values s) (es_values t)
     \<and> s\<lparr>es_fields := es_fields t, es_conflicts := es_conflicts t, es_values := es_values t\<rparr> = t"

subsection \<open>Lemmas\<close>

lemma fmrel_keys: "fmrel R m n \<Longrightarrow> bt_keys m = bt_keys n"
  by (simp add: bt_keys_def fmrel_fmdom_eq)

lemma fmrel_values: "fmrel R m n \<Longrightarrow> list_all2 R (bt_values m) (bt_values n)"
proof -
  assume r: "fmrel R m n"
  have "list_all2 R (map snd (List.map_filter (\<lambda>k. map_option (Pair k) (fmlookup m k)) ks))
      (map snd (List.map_filter (\<lambda>k. map_option (Pair k) (fmlookup n k)) ks))" for ks
  proof (induction ks)
    case (Cons k ks)
    have "rel_option R (fmlookup m k) (fmlookup n k)" using r by (auto simp: fmrel_iff)
    with Cons show ?case
      by (cases "fmlookup m k"; cases "fmlookup n k") (auto simp: List.map_filter_def)
  qed (simp add: List.map_filter_def)
  then show ?thesis unfolding bt_values_def bt_iter_def using fmrel_keys [OF r] by simp
qed

lemma same_attribute_view: "same_attribute a b \<Longrightarrow> attribute_view_of a = attribute_view_of b"
  by (auto simp: same_attribute_def attribute_view_of_def split: if_splits)

lemma list_all2_map_eq: "list_all2 R xs ys \<Longrightarrow> (\<And>x y. R x y \<Longrightarrow> f x = g y) \<Longrightarrow> map f xs = map g ys"
  by (induction rule: list_all2_induct) auto

lemma list_all2_ex_eq: "list_all2 R xs ys \<Longrightarrow> (\<And>x y. R x y \<Longrightarrow> P x = Q y) \<Longrightarrow> list_ex P xs = list_ex Q ys"
  by (induction rule: list_all2_induct) auto

lemma same_state_mask: "list_all2 same_state ss ts \<Longrightarrow> mask_fields ss = mask_fields ts"
  unfolding mask_fields_def
proof (erule list_all2_map_eq)
  fix s t
  assume r: "same_state s t"
  then have "map (\<lambda>v. \<lparr>cv_origins = vv_origins v, cv_value = if concealed s then None else Some (vv_value v)\<rparr>) (fs_variants s)
     = map (\<lambda>v. \<lparr>cv_origins = vv_origins v, cv_value = if concealed t then None else Some (vv_value v)\<rparr>) (fs_variants t)"
    by (intro list_all2_map_eq [where R = "\<lambda>v w. vv_origins v = vv_origins w \<and> (concealed s \<or> vv_value v = vv_value w)"])
      (auto simp: same_state_def)
  with r show "\<lparr>cf_field = fs_field s, cf_protected = concealed s, cf_variants =
      map (\<lambda>v. \<lparr>cv_origins = vv_origins v, cv_value = if concealed s then None else Some (vv_value v)\<rparr>) (fs_variants s)\<rparr>
    = \<lparr>cf_field = fs_field t, cf_protected = concealed t, cf_variants =
      map (\<lambda>v. \<lparr>cv_origins = vv_origins v, cv_value = if concealed t then None else Some (vv_value v)\<rparr>) (fs_variants t)\<rparr>"
    by (simp add: same_state_def)
qed

lemma same_fieldsD:
  assumes "same_fields f g"
  shows "ef_title f = ef_title g" "ef_username f = ef_username g" "ef_url f = ef_url g"
    "ef_notes f = ef_notes g" "ef_tags f = ef_tags g" "ef_expires_at f = ef_expires_at g"
    "ef_attachments f = ef_attachments g" "ef_appearance f = ef_appearance g"
    "ef_password f = None \<longleftrightarrow> ef_password g = None"
    "list_all2 same_attribute (bt_values (ef_attributes f)) (bt_values (ef_attributes g))"
  using assms fmrel_values by (cases f; cases g; auto simp: same_fields_def)+

lemma publicly_equalD:
  assumes "publicly_equal s t"
  shows "es_id s = es_id t" "es_group_id s = es_group_id t" "es_created_at s = es_created_at t"
    "es_modified_at s = es_modified_at t" "has_conflicts s = has_conflicts t"
    "rel_option same_fields (es_fields s) (es_fields t)"
  using assms
  by (cases s; cases t; auto simp: publicly_equal_def has_conflicts_def)+

lemma same_fields_default: "same_fields entry_fields_default entry_fields_default"
  by (simp add: same_fields_def entry_fields_default_def)

lemma publicly_equal_shown: "publicly_equal s t \<Longrightarrow> same_fields (shown_fields s) (shown_fields t)"
  using publicly_equalD(6) [of s t] same_fields_default
  by (auto simp: shown_fields_def split: option.splits)

subsection \<open>Properties\<close>

lemma same_contains:
  "list_all2 same_attribute as bs \<Longrightarrow>
   list_ex (\<lambda>a. \<not> av_protected (attr_value a) \<and> P (av_value (attr_value a))) as
     = list_ex (\<lambda>a. \<not> av_protected (attr_value a) \<and> P (av_value (attr_value a))) bs"
  by (erule list_all2_ex_eq) (auto simp: same_attribute_def split: if_splits)

lemma same_matches:
  assumes "publicly_equal s t"
  shows "matches_query lower s q = matches_query lower t q"
proof (cases "es_fields s")
  case None
  then show ?thesis using publicly_equalD(6) [OF assms] by (simp add: matches_query_def)
next
  case (Some f)
  then obtain g where g: "es_fields t = Some g" and fg: "same_fields f g"
    using publicly_equalD(6) [OF assms] by (auto simp: option_rel_Some1)
  show ?thesis
    unfolding matches_query_def Let_def Some g option.case same_fieldsD(1-8) [OF fg]
      same_contains [OF same_fieldsD(10) [OF fg], where P = "\<lambda>v. infix_of q (lower v)"] ..
qed

text \<open>
  C18: Nothing an unrevealed entry shows depends on its secrets. Two entries that differ only in
  the password (present in both or in neither), in protected attribute values (empty in both or
  in neither) and in the alternatives of concealed conflicts have the same table row, the same
  read-only view and the same masked conflicts, and every search finds both or neither.
\<close>

theorem masked_views_noninterference:
  assumes "publicly_equal s t"
  shows "entry_view_of s = entry_view_of t \<and> entry_summary_of s = entry_summary_of t
    \<and> mask_fields (es_conflicts s) = mask_fields (es_conflicts t)
    \<and> mask_fields (es_values s) = mask_fields (es_values t)
    \<and> matches_query lower s q = matches_query lower t q"
proof (intro conjI)
  note shown = same_fieldsD [OF publicly_equal_shown [OF assms]]
  note same = publicly_equalD [OF assms]
  have views: "map attribute_view_of (bt_values (ef_attributes (shown_fields s)))
      = map attribute_view_of (bt_values (ef_attributes (shown_fields t)))"
    using shown(10) by (rule list_all2_map_eq) (rule same_attribute_view)
  show "entry_view_of s = entry_view_of t"
    using same shown(1-8) shown(9) views by (simp add: entry_view_of_def Let_def del: not_None_eq)
  show "entry_summary_of s = entry_summary_of t"
    using same shown by (simp add: entry_summary_of_def Let_def)
  show "mask_fields (es_conflicts s) = mask_fields (es_conflicts t)"
    and "mask_fields (es_values s) = mask_fields (es_values t)"
    using assms by (auto simp: publicly_equal_def intro: same_state_mask)
  show "matches_query lower s q = matches_query lower t q"
    by (rule same_matches [OF assms])
qed

definition toy_secret :: "string \<Rightarrow> string \<Rightarrow> entry_snapshot" where
  "toy_secret pw pin = \<lparr>es_id = ''e'', es_group_id = ''g'', es_generation = ''n'', es_placements = [],
     es_placement = GroupRef ''g'' ''n'', es_placement_alternatives = [],
     es_fields = Some (entry_fields_default\<lparr>ef_title := ''Bank'', ef_password := Some pw,
       ef_attributes := fmap_of_list [(''a'', \<lparr>attr_id = ''a'', attr_name = ''PIN'',
         attr_value = \<lparr>av_value = pin, av_protected = True\<rparr>\<rparr>)]\<rparr>),
     es_conflicts = [\<lparr>fs_field = FPassword, fs_variants = [\<lparr>vv_value = VText (Some pw), vv_origins = [''o'']\<rparr>]\<rparr>],
     es_values = [], es_created_at = 1, es_modified_at = 2\<rparr>"

lemma toy_secret_equal: "publicly_equal (toy_secret pw (c # cs)) (toy_secret pw' (d # ds))"
proof -
  let ?pin = "\<lambda>v. \<lparr>attr_id = ''a'', attr_name = ''PIN'', attr_value = \<lparr>av_value = v, av_protected = True\<rparr>\<rparr>"
  have "fmrel same_attribute (fmap_of_list [(''a'', ?pin (c # cs))]) (fmap_of_list [(''a'', ?pin (d # ds))])"
    by (rule fmrelI) (simp add: fmlookup_of_list same_attribute_def)
  then show ?thesis
    by (simp add: toy_secret_def publicly_equal_def same_fields_def same_state_def concealed_def)
qed

lemma masked_views_noninterference_witness:
  "entry_view_of (toy_secret ''hunter2'' ''1234'') = entry_view_of (toy_secret ''swordfish'' ''9'')
   \<and> password (toy_secret ''hunter2'' ''1234'') = Ok ''hunter2''
   \<and> matches_query id (toy_secret ''hunter2'' ''1234'') ''1234''
      = matches_query id (toy_secret ''swordfish'' ''9'') ''1234''"
proof -
  have "publicly_equal (toy_secret ''hunter2'' ''1234'') (toy_secret ''swordfish'' ''9'')"
    by (rule toy_secret_equal)
  from masked_views_noninterference [OF this, where lower = id and q = "''1234''"]
  show ?thesis by (simp add: password_def toy_secret_def)
qed

end
