(* ===== verification/Svc_Generator.thy ===== *)
theory Svc_Generator
  imports Prelude
begin

text \<open>
  \<open>crates/taypeer-services/src/generator.rs\<close>: passwords and passphrases. The random source of the
  operating system is the list of its answers, each four bytes as one \<open>32 word\<close> or a failure; a
  computation that asks for more answers than the list holds is \<open>None\<close>, still waiting. The
  bundled word list is given by its lines and the allocator by \<open>reserve\<close>; the entropy estimate,
  a floating-point number beside the secret, is not modelled. Rejection sampling makes every
  secret equally likely, which the properties state by counting the answers that yield it.
\<close>

type_synonym draw = "32 word option"

datatype generator_error =
    GenLength | GenEmptyAlphabet | GenRandom | GenCapacity
  | GenPanicked \<comment> \<open>not a variant of the source: a line of the word list without a tab\<close>

definition SIMILAR :: string where "SIMILAR = ''Il1O0o''"

record password_options =
  po_length :: nat
  po_uppercase :: bool
  po_lowercase :: bool
  po_digits :: bool
  po_punctuation :: bool
  po_exclude_similar :: bool
  po_exclude :: string

definition password_options_default :: password_options where
  "password_options_default = \<lparr>po_length = 30, po_uppercase = True, po_lowercase = True, po_digits = True,
     po_punctuation = True, po_exclude_similar = False, po_exclude = ''''\<rparr>"

definition enabled :: "password_options \<Rightarrow> nat \<Rightarrow> bool" where
  "enabled opts b =
     (if 65 \<le> b \<and> b \<le> 90 then po_uppercase opts
      else if 97 \<le> b \<and> b \<le> 122 then po_lowercase opts
      else if 48 \<le> b \<and> b \<le> 57 then po_digits opts
      else po_punctuation opts)"

definition alphabet :: "password_options \<Rightarrow> string" where
  "alphabet opts = filter (\<lambda>c. enabled opts (of_char c) \<and> c \<notin> set (po_exclude opts)
       \<and> (\<not> po_exclude_similar opts \<or> c \<notin> set SIMILAR)) (map char_of [33..<127 :: nat])"

definition sample_threshold :: "32 word \<Rightarrow> 32 word" where
  "sample_threshold bound = (- bound) mod bound"

fun sample :: "32 word \<Rightarrow> draw list \<Rightarrow> ((generator_error + nat) \<times> draw list) option" where
  "sample bound [] = None"
| "sample bound (None # ds) = Some (Err GenRandom, ds)"
| "sample bound (Some v # ds) =
     (if v \<ge> sample_threshold bound then Some (Ok (unat (v mod bound)), ds) else sample bound ds)"

fun choose_items :: "'a list \<Rightarrow> nat \<Rightarrow> draw list \<Rightarrow> ((generator_error + 'a list) \<times> draw list) option" where
  "choose_items items 0 ds = Some (Ok [], ds)"
| "choose_items items (Suc n) ds =
     (case sample (of_nat (length items)) ds of
        None \<Rightarrow> None
      | Some (Inl e, ds) \<Rightarrow> Some (Err e, ds)
      | Some (Inr i, ds) \<Rightarrow>
          (case choose_items items n ds of
             None \<Rightarrow> None
           | Some (Inl e, ds) \<Rightarrow> Some (Err e, ds)
           | Some (Inr xs, ds) \<Rightarrow> Some (Ok (items ! i # xs), ds)))"

definition password_with :: "password_options \<Rightarrow> draw list \<Rightarrow> ((generator_error + string) \<times> draw list) option" where
  "password_with opts ds =
     (if \<not> (1 \<le> po_length opts \<and> po_length opts \<le> 256) then Some (Err GenLength, ds)
      else if alphabet opts = [] then Some (Err GenEmptyAlphabet, ds)
      else choose_items (alphabet opts) (po_length opts) ds)"

text \<open>A line of the word list is a number, a tab and the word.\<close>

definition word_of_line :: "string \<Rightarrow> generator_error + string" where
  "word_of_line line = (case dropWhile (\<lambda>c. c \<noteq> CHR 0x09) line of [] \<Rightarrow> Err GenPanicked | _ # w \<Rightarrow> Ok w)"

definition separated :: "string \<Rightarrow> string list \<Rightarrow> string" where
  "separated separator words = concat (case words of [] \<Rightarrow> [] | w # ws \<Rightarrow> w # map (\<lambda>x. separator @ x) ws)"

definition passphrase_with ::
  "string list \<Rightarrow> (nat \<Rightarrow> bool) \<Rightarrow> nat \<Rightarrow> string \<Rightarrow> draw list \<Rightarrow> ((generator_error + string) \<times> draw list) option" where
  "passphrase_with wordlist reserve n separator ds =
     (if \<not> (3 \<le> n \<and> n \<le> 20) then Some (Err GenLength, ds)
      else case mapR word_of_line wordlist of
        Inl e \<Rightarrow> Some (Err e, ds)
      | Inr words \<Rightarrow>
        if length separator * (n - 1) > U64_MAX then Some (Err GenCapacity, ds)
        else case checked_add (length separator * (n - 1)) (n * 32) of
          None \<Rightarrow> Some (Err GenCapacity, ds)
        | Some capacity \<Rightarrow>
            if \<not> reserve capacity then Some (Err GenCapacity, ds)
            else case choose_items words n ds of
              None \<Rightarrow> None
            | Some (Inl e, ds) \<Rightarrow> Some (Err e, ds)
            | Some (Inr ws, ds) \<Rightarrow> Some (Ok (separated separator ws), ds))"

subsection \<open>Which answers are accepted, and how often each residue is\<close>

definition accepted :: "nat \<Rightarrow> 32 word \<Rightarrow> bool" where
  "accepted n v \<longleftrightarrow> v \<ge> sample_threshold (of_nat n)"

definition index_of :: "nat \<Rightarrow> 32 word \<Rightarrow> nat" where
  "index_of n v = unat (v mod of_nat n)"

lemma residue_in_block:
  assumes b: "0 < b" "r < (b :: nat)"
  shows "card {n. m \<le> n \<and> n < m + b \<and> n mod b = r} = 1"
proof -
  define k where "k = m + (r + b - m mod b) mod b"
  have "k mod b = r"
  proof -
    have "k mod b = (m mod b + (r + b - m mod b)) mod b"
      by (simp add: k_def mod_simps)
    also have "m mod b + (r + b - m mod b) = r + b"
      using mod_less_divisor [OF b(1), of m] by simp
    finally show ?thesis using b by simp
  qed
  moreover have "m \<le> k" "k < m + b"
    using mod_less_divisor [OF b(1), of "r + b - m mod b"] by (simp_all add: k_def)
  moreover have "n = k" if "m \<le> n" "n < m + b" "n mod b = r" for n
  proof -
    have close: "x = y" if "y \<le> x" "x - y < b" "x mod b = y mod b" for x y :: nat
      using that mod_eq_dvd_iff_nat [OF that(1)] nat_dvd_not_less [of "x - y" b] by fastforce
    have le: "n - k < b" "k - n < b" using that \<open>m \<le> k\<close> \<open>k < m + b\<close> by linarith+
    have eq: "n mod b = k mod b" using that \<open>k mod b = r\<close> by simp
    show ?thesis
    proof (cases "n \<le> k")
      case True
      from close [OF this le(2) eq [symmetric]] show ?thesis by (rule sym)
    next
      case False
      then have "k \<le> n" by simp
      from close [OF this le(1) eq] show ?thesis .
    qed
  qed
  ultimately have "{n. m \<le> n \<and> n < m + b \<and> n mod b = r} = {k}" by blast
  then show ?thesis by simp
qed

lemma residue_in_blocks:
  assumes "0 < b" and "r < (b :: nat)"
  shows "card {n. m \<le> n \<and> n < m + q * b \<and> n mod b = r} = q"
proof (induction q)
  case 0
  have "{n. m \<le> n \<and> n < m \<and> n mod b = r} = {}" by auto
  then show ?case by simp
next
  case (Suc q)
  let ?A = "{n. m \<le> n \<and> n < m + q * b \<and> n mod b = r}"
  let ?B = "{n. m + q * b \<le> n \<and> n < m + q * b + b \<and> n mod b = r}"
  have "{n. m \<le> n \<and> n < m + Suc q * b \<and> n mod b = r} = ?A \<union> ?B" by auto
  moreover have "card (?A \<union> ?B) = card ?A + card ?B"
    by (intro card_Un_disjoint) auto
  moreover have "card ?B = 1" by (rule residue_in_block [OF assms])
  ultimately show ?case using Suc by simp
qed

lemma card_word: "card {w :: 32 word. P (unat w)} = card {n. n < 2 ^ 32 \<and> P n}"
proof -
  have "bij_betw unat {w :: 32 word. P (unat w)} {n. n < 2 ^ 32 \<and> P n}"
  proof (rule bij_betw_byWitness [where f' = of_nat])
    show "unat ` {w :: 32 word. P (unat w)} \<subseteq> {n. n < 2 ^ 32 \<and> P n}"
      using unsigned_less [where 'b = 32 and 'a = nat] by auto
    show "of_nat ` {n. n < 2 ^ 32 \<and> P n} \<subseteq> {w :: 32 word. P (unat w)}"
      by (auto simp: unat_of_nat)
  qed (auto simp: unat_of_nat)
  then show ?thesis by (rule bij_betw_same_card)
qed

lemma unat_threshold:
  assumes "0 < n" and "n < 2 ^ 32"
  shows "unat (sample_threshold (of_nat n)) = 2 ^ 32 mod n"
proof -
  have u: "unat (of_nat n :: 32 word) = n" using assms by (simp add: unat_of_nat)
  have "- of_nat n = (of_nat (2 ^ 32 - n) :: 32 word)"
  proof -
    have "of_nat (2 ^ 32 - n) + of_nat n = (of_nat (2 ^ 32) :: 32 word)"
      using assms by (simp only: of_nat_add [symmetric]) simp
    also have "\<dots> = 0" by simp
    finally show ?thesis unfolding add_eq_0_iff2 by (rule sym)
  qed
  then have "unat (- of_nat n :: 32 word) = 2 ^ 32 - n"
    using assms by (simp add: unat_of_nat del: of_nat_diff)
  then show ?thesis
    using assms u by (simp add: sample_threshold_def unat_mod_distrib le_mod_geq)
qed

lemma sample_uniform:
  assumes "0 < n" and "n < 2 ^ 32" and "i < n"
  shows "card {v. accepted n v \<and> index_of n v = i} = 2 ^ 32 div n"
proof -
  have u: "unat (of_nat n :: 32 word) = n" using assms by (simp add: unat_of_nat)
  let ?t = "2 ^ 32 mod n"
  have "{v. accepted n v \<and> index_of n v = i} = {v. ?t \<le> unat v \<and> unat v mod n = i}"
    by (simp add: accepted_def index_of_def word_le_nat_alt unat_threshold [OF assms(1,2)]
        unat_mod_distrib u)
  then have "card {v. accepted n v \<and> index_of n v = i} = card {m. m < 2 ^ 32 \<and> ?t \<le> m \<and> m mod n = i}"
    using card_word [of "\<lambda>m. ?t \<le> m \<and> m mod n = i"] by simp
  also have "{m. m < 2 ^ 32 \<and> ?t \<le> m \<and> m mod n = i} = {m. ?t \<le> m \<and> m < ?t + 2 ^ 32 div n * n \<and> m mod n = i}"
    by auto
  also have "card \<dots> = 2 ^ 32 div n"
    by (rule residue_in_blocks) (use assms in auto)
  finally show ?thesis .
qed

subsection \<open>Choosing items with the accepted answers\<close>

definition spelled :: "'a list \<Rightarrow> 32 word list \<Rightarrow> 'a list" where
  "spelled items vs = map (\<lambda>v. items ! index_of (length items) v) vs"

definition answers_for :: "'a list \<Rightarrow> 'a list \<Rightarrow> 32 word list set" where
  "answers_for items xs = {vs. list_all (accepted (length items)) vs \<and> spelled items vs = xs}"

lemma sample_answers:
  "sample (of_nat n) (map Some ws) =
     (case dropWhile (\<lambda>v. \<not> accepted n v) ws of
        [] \<Rightarrow> None | v # vs \<Rightarrow> Some (Ok (index_of n v), map Some vs))"
  by (induction ws) (auto simp: accepted_def index_of_def)

lemma filter_dropWhile: "filter P ws = (case dropWhile (\<lambda>v. \<not> P v) ws of [] \<Rightarrow> [] | v # vs \<Rightarrow> v # filter P vs)"
  by (induction ws) auto

lemma choose_answers:
  "map_option fst (choose_items items k (map Some ws)) =
     (let kept = filter (accepted (length items)) ws in
      if length kept < k then None else Some (Ok (spelled items (take k kept))))"
proof (induction k arbitrary: ws)
  case 0
  then show ?case by (simp add: spelled_def)
next
  case (Suc k)
  let ?a = "accepted (length items)"
  show ?case
  proof (cases "dropWhile (\<lambda>v. \<not> ?a v) ws")
    case Nil
    have "filter ?a ws = []" unfolding filter_dropWhile [of ?a ws] Nil by simp
    moreover have "sample (of_nat (length items)) (map Some ws) = None"
      unfolding sample_answers Nil by simp
    ultimately show ?thesis by simp
  next
    case (Cons v vs)
    have kept: "filter ?a ws = v # filter ?a vs" unfolding filter_dropWhile [of ?a ws] Cons by simp
    have drawn: "sample (of_nat (length items)) (map Some ws)
        = Some (Ok (index_of (length items) v), map Some vs)"
      unfolding sample_answers Cons by simp
    show ?thesis
    proof (cases "choose_items items k (map Some vs)")
      case None
      then show ?thesis using Suc [of vs] by (simp add: drawn kept Let_def split: if_splits)
    next
      case (Some r)
      then show ?thesis
        using Suc [of vs] by (cases r; cases "fst r") (auto simp: drawn kept Let_def spelled_def split: if_splits)
    qed
  qed
qed

lemma index_of_less: "0 < n \<Longrightarrow> n < 2 ^ 32 \<Longrightarrow> index_of n v < n"
  by (simp add: index_of_def unat_mod_distrib unat_of_nat)

lemma spelled_items:
  assumes "items \<noteq> []" and "length items < 2 ^ 32"
  shows "set (spelled items vs) \<subseteq> set items"
  using index_of_less [of "length items"] assms by (auto simp: spelled_def)

lemma answers_for_Cons:
  "answers_for items (x # xs)
     = (\<lambda>(v, vs). v # vs) ` ({v. accepted (length items) v \<and> items ! index_of (length items) v = x} \<times> answers_for items xs)"
  by (auto simp: answers_for_def spelled_def image_def map_eq_Cons_conv)

lemma answers_uniform:
  assumes "distinct items" and "length items < 2 ^ 32" and "set xs \<subseteq> set items"
  shows "card (answers_for items xs) = (2 ^ 32 div length items) ^ length xs"
  using assms(3)
proof (induction xs)
  case Nil
  have "answers_for items [] = {[]}" by (auto simp: answers_for_def spelled_def)
  then show ?case by simp
next
  case (Cons x xs)
  then obtain i where i: "i < length items" "items ! i = x" by (auto simp: in_set_conv_nth)
  let ?n = "length items"
  have "{v. accepted ?n v \<and> items ! index_of ?n v = x} = {v. accepted ?n v \<and> index_of ?n v = i}"
    using i index_of_less [of ?n] assms(1,2) nth_eq_iff_index_eq [OF assms(1)] by fastforce
  then have one: "card {v. accepted ?n v \<and> items ! index_of ?n v = x} = 2 ^ 32 div ?n"
    using sample_uniform [of ?n i] i(1) assms(2) by (cases items) auto
  have "inj_on (\<lambda>(v, vs). v # vs) ({v. accepted ?n v \<and> items ! index_of ?n v = x} \<times> answers_for items xs)"
    by (auto simp: inj_on_def)
  then show ?case
    using Cons one by (simp add: answers_for_Cons card_image card_cartesian_product)
qed

lemma rejected_few:
  assumes "0 < n" and "n < 2 ^ 32"
  shows "card {v. \<not> accepted n v} = 2 ^ 32 mod n"
proof -
  have "{v. \<not> accepted n v} = {v. unat v < 2 ^ 32 mod n}"
    by (simp add: accepted_def word_le_nat_alt unat_threshold [OF assms] not_le)
  moreover have "card {v :: 32 word. unat v < 2 ^ 32 mod n} = card {m. m < 2 ^ 32 \<and> m < 2 ^ 32 mod n}"
    by (rule card_word)
  moreover have "{m. m < 2 ^ 32 \<and> m < 2 ^ 32 mod n} = {..<(2 ^ 32 mod n :: nat)}"
    using mod_less_divisor [OF assms(1), of "2 ^ 32"] assms(2) by auto
  ultimately show ?thesis by simp
qed

lemma alphabet_distinct: "distinct (alphabet opts)"
proof -
  have "inj_on (char_of :: nat \<Rightarrow> char) (set [33..<127])"
  proof (rule inj_onI)
    fix x y :: nat
    assume "x \<in> set [33..<127]" "y \<in> set [33..<127]" and same: "(char_of x :: char) = char_of y"
    then have "x < 127" "y < 127" unfolding set_upt by (simp_all only: atLeastLessThan_iff)
    moreover have "of_char (char_of x :: char) = (of_char (char_of y :: char) :: nat)" using same by simp
    ultimately show "x = y" by simp
  qed
  then have "distinct (map (char_of :: nat \<Rightarrow> char) [33..<127])" by (simp only: distinct_map distinct_upt simp_thms)
  then show ?thesis unfolding alphabet_def by (rule distinct_filter)
qed

lemma alphabet_short: "length (alphabet opts) < 2 ^ 32"
proof -
  have "length (alphabet opts) \<le> length (map (char_of :: nat \<Rightarrow> char) [33..<127])"
    unfolding alphabet_def by (rule length_filter_le)
  then show ?thesis by simp
qed

subsection \<open>Properties\<close>

text \<open>
  C19: Every password of the chosen alphabet is equally likely. For admissible options the
  generator reads exactly as many answers of the random source as it needs to find \<open>length\<close>
  accepted ones and spells the password with these; each of the passwords over the alphabet is
  spelled by the same number of accepted answers, nothing outside the alphabet is ever produced,
  and fewer answers are rejected than the alphabet has characters, so the loop ends.
\<close>

theorem password_uniform:
  assumes "1 \<le> po_length opts" and "po_length opts \<le> 256" and "alphabet opts \<noteq> []"
  shows "map_option fst (password_with opts (map Some ws)) =
      (let kept = filter (accepted (length (alphabet opts))) ws in
       if length kept < po_length opts then None
       else Some (Ok (spelled (alphabet opts) (take (po_length opts) kept))))
    \<and> (length p = po_length opts \<and> set p \<subseteq> set (alphabet opts)
        \<longrightarrow> card (answers_for (alphabet opts) p) = (2 ^ 32 div length (alphabet opts)) ^ po_length opts)
    \<and> set (spelled (alphabet opts) vs) \<subseteq> set (alphabet opts)
    \<and> card {v. \<not> accepted (length (alphabet opts)) v} < length (alphabet opts)"
proof (intro conjI impI)
  show "map_option fst (password_with opts (map Some ws)) =
      (let kept = filter (accepted (length (alphabet opts))) ws in
       if length kept < po_length opts then None
       else Some (Ok (spelled (alphabet opts) (take (po_length opts) kept))))"
    using assms choose_answers [of "alphabet opts" "po_length opts" ws]
    by (simp add: password_with_def)
  show "card (answers_for (alphabet opts) p) = (2 ^ 32 div length (alphabet opts)) ^ po_length opts"
    if "length p = po_length opts \<and> set p \<subseteq> set (alphabet opts)"
    using answers_uniform [OF alphabet_distinct alphabet_short] that by auto
  show "set (spelled (alphabet opts) vs) \<subseteq> set (alphabet opts)"
    by (rule spelled_items [OF assms(3) alphabet_short])
  show "card {v. \<not> accepted (length (alphabet opts)) v} < length (alphabet opts)"
    using rejected_few [of "length (alphabet opts)"] alphabet_short [of opts] assms(3) by simp
qed

definition pin_options :: password_options where
  "pin_options = \<lparr>po_length = 2, po_uppercase = False, po_lowercase = False, po_digits = True,
     po_punctuation = False, po_exclude_similar = False, po_exclude = []\<rparr>"

lemma pin_alphabet: "alphabet pin_options = ''0123456789''"
  by code_simp

lemma pin_answers:
  "filter (accepted 10) [3, 16, 27] = [16, 27]" "spelled ''0123456789'' [16, 27] = ''67''"
  "length ''0123456789'' = (10 :: nat)" "set ''67'' \<subseteq> set ''0123456789''"
  by code_simp+

lemma password_uniform_witness:
  "map_option fst (password_with pin_options (map Some [3, 16, 27])) = Some (Ok ''67'')
   \<and> card (answers_for ''0123456789'' ''67'') = 429496729 ^ 2"
proof -
  have n: "po_length pin_options = 2" by (simp add: pin_options_def)
  have "1 \<le> po_length pin_options" "po_length pin_options \<le> 256" "alphabet pin_options \<noteq> []"
    by (simp_all add: n pin_alphabet)
  from password_uniform [OF this, of "[3, 16, 27]" "''67''" "[]", unfolded n pin_alphabet pin_answers Let_def]
  have "map_option fst (password_with pin_options (map Some [3, 16, 27]))
      = (if length [16, 27 :: 32 word] < 2 then None else Some (Ok (spelled ''0123456789'' (take 2 [16, 27]))))"
    and "length ''67'' = 2 \<and> True \<longrightarrow> card (answers_for ''0123456789'' ''67'') = (2 ^ 32 div 10) ^ 2"
    using pin_answers(4) by blast+
  then show ?thesis using pin_answers(2) by simp
qed

text \<open>
  The same holds for passphrases over a list of distinct words; the separator adds nothing.
\<close>

theorem passphrase_uniform:
  assumes "3 \<le> n" and "n \<le> 20" and "mapR word_of_line wordlist = Ok words"
    and "words \<noteq> []" and "distinct words" and "length words < 2 ^ 32"
    and "length separator * (n - 1) + n * 32 \<le> U64_MAX" and "reserve (length separator * (n - 1) + n * 32)"
  shows "map_option fst (passphrase_with wordlist reserve n separator (map Some ws)) =
      (let kept = filter (accepted (length words)) ws in
       if length kept < n then None else Some (Ok (separated separator (spelled words (take n kept)))))
    \<and> (length xs = n \<and> set xs \<subseteq> set words
        \<longrightarrow> card (answers_for words xs) = (2 ^ 32 div length words) ^ n)"
proof -
  have "map_option fst (passphrase_with wordlist reserve n separator (map Some ws))
      = map_option (map_sum id (separated separator)) (map_option fst (choose_items words n (map Some ws)))"
    using assms(1-3,7,8)
    by (auto simp: passphrase_with_def checked_add_def split: option.splits sum.splits)
  then show ?thesis
    using answers_uniform [OF assms(5,6)] by (auto simp: choose_answers Let_def)
qed

end
