(* ===== verification/Spec2Isabelle.thy ===== *)
theory Spec2Isabelle
  imports Core_Order Core_Schema Core_Values Trust_Invitation
    Doc_Tree Doc_Entry_Laws Doc_Write_Laws Doc_Lifecycle_Laws Doc_Command_Laws
    Store_Commit_Laws Sync_Exchange Sync_Node_Laws
    Svc_Values Svc_Generator
begin

text \<open>
  Verification of the core of Taypeer, a local-first password manager whose devices exchange
  encrypted objects without a server.

  \<^bold>\<open>The program.\<close> \<open>crates/taypeer-core\<close> holds the user values, the schema descriptor and
  the sibling order keys; \<open>crates/taypeer-trust\<close> the signed chain of authority and what is
  verified against it; \<open>crates/taypeer-document\<close> projects a CRDT replica (Automerge) to
  groups, entries and history and turns user commands into register writes;
  \<open>crates/taypeer-storage\<close> encrypts objects under the password, keeps them with the chain and
  the manifests in one archive file and replaces that file so that a crash loses nothing;
  \<open>crates/taypeer-sync\<close> holds one coordinator for each copy of a database, which takes objects,
  chains and manifests from peers, hands local commits to the archive and follows the transfer
  of management to another copy; \<open>crates/taypeer-services\<close> offers all of it to the user
  interfaces. Runtime processes and the applications build on them.

  \<^bold>\<open>Conventions\<close> (\<open>Prelude\<close>). A \<open>Result\<close> is a sum with \<open>bindR\<close> for the question mark
  operator, so every early return is a branch; a \<open>BTreeMap\<close> is an \<open>fmap\<close> iterated in key
  order, a \<open>BTreeSet\<close> an \<open>fset\<close>; a \<open>String\<close> is its list of UTF-8 bytes as characters, with
  Rust's byte order; bytes are \<open>8 word\<close>, the schema version \<open>16 word\<close>; \<open>u64\<close> counters are
  natural numbers with \<open>checked_add\<close> written out; a failed index of a map is the explicit
  error \<open>Panicked\<close>, and a theorem shows that validation never reaches it.

  \<^bold>\<open>Parameters.\<close> Third-party code is never modelled by an invented definition. The record
  \<open>crypto\<close> holds hashing, signatures and JSON encoding (\<open>crypto_laws\<close>: encoding is total and
  what a key signs it verifies); \<open>fi_lib\<close> the fractional index crate (\<open>fi_laws\<close>); \<open>reader\<close>
  the readable state of one Automerge replica (registers with the identities of their
  operations, object and key lookup, JSON decoding); \<open>changes\<close> its causal history.
  The storage theories add \<open>aead\<close> (Argon2id, XChaCha20-Poly1305 and the segment cipher, whose
  laws say that opening inverts sealing and that what opens was sealed), \<open>rng\<close>, and the two
  JSON codecs \<open>envelope_codec\<close> and \<open>archive_codec\<close>; a reader of bytes is a record whose steps
  may be short or fail, with the contract \<open>byte_source\<close>. The coordinator takes the clock and
  the encodings from the record \<open>host\<close>. Witnesses instantiate all of them with concrete
  functions (\<open>toy\<close> keys and codecs, rationals, \<open>Doc_Demo\<close>).

  \<^bold>\<open>Theories and code.\<close>
  \<^item> \<open>Core_Order\<close> (\<open>order.rs\<close>): allocation and comparison of sibling positions.
  \<^item> \<open>Core_Schema\<close> (\<open>compatibility.rs\<close>): what a client may read and write.
  \<^item> \<open>Core_Values\<close> (\<open>lib.rs\<close>, \<open>binary.rs\<close>, \<open>policy.rs\<close>, \<open>history.rs\<close>, \<open>patch.rs\<close>, \<open>session.rs\<close>
    of the core crate): the records and their validation.
  \<^item> \<open>Trust_Types\<close>, \<open>Trust_Identity\<close> (\<open>identity.rs\<close>): hex text, framing, keys and identities.
  \<^item> \<open>Trust_Control\<close>, \<open>Trust_Authority\<close>, \<open>Trust_Genesis\<close>, \<open>Trust_Chain\<close> (\<open>control.rs\<close>): the
    chain of controls, refined against an abstract machine with the steps admit, rotate,
    change policy and transfer; a successor is accepted exactly when it is such a step.
  \<^item> \<open>Trust_Manifest\<close> (\<open>manifest.rs\<close>), \<open>Trust_Invitation\<close> (\<open>invitation.rs\<close>): signed inventories,
    envelopes, source proofs, one-time admission. The locale \<open>origin_checked\<close> states once what
    survives the growth of a chain and is interpreted for each kind of signed object.
  \<^item> \<open>Doc_Reader\<close> (\<open>objects.rs\<close>, \<open>codec.rs\<close>): unique registers, generations, life marks,
    purges, content events. \<open>Doc_Groups\<close>, \<open>Doc_Tree\<close> (\<open>groups.rs\<close>): the tree of groups; cycles
    are cut and statuses settled round by round, an instance of the locale \<open>settling_loop\<close>
    whose measure gives termination. \<open>Doc_Entries\<close>, \<open>Doc_Entry_Laws\<close> (\<open>fields.rs\<close>,
    \<open>projection.rs\<close>): registers with concurrent variants, selection and projection to a form.
  \<^item> \<open>Doc_Writes\<close>, \<open>Doc_Write_Laws\<close> (\<open>fields.rs\<close>, \<open>binary.rs\<close>, \<open>operations.rs\<close>): the registers
    a confirmation or restoration sets, and that reading them back shows what was confirmed.
  \<^item> \<open>Doc_Lifecycle\<close>, \<open>Doc_Lifecycle_Laws\<close> (\<open>lifecycle/mod.rs\<close>): status of objects, exact
    selection (a second \<open>settling_loop\<close>), preparation and confirmation guards, entry queries.
  \<^item> \<open>Doc_History\<close>, \<open>Doc_Commands\<close>, \<open>Doc_Command_Laws\<close> (\<open>history.rs\<close>, \<open>metadata.rs\<close>,
    \<open>lifecycle/commands.rs\<close>, \<open>lifecycle/recovery.rs\<close>): saved revisions, confirmed metadata,
    positions, late sources and the structure check.
  \<^item> \<open>Store_Read\<close> (\<open>encrypted_object.rs\<close>): exact reads, copies and hashes over readers that
    return short; the locale \<open>byte_source\<close> is the contract of a reader, interpreted on the
    in-memory cursor and on the reader that limits another.
  \<^item> \<open>Store_Crypto\<close>, \<open>Store_Crypto_Laws\<close> (\<open>crypto.rs\<close>, \<open>kdf.rs\<close>, \<open>stream.rs\<close>): the header of a
    password, wrapped keys, the stream of sealed segments; a stream opens exactly when it was
    sealed, and the reader that pulls one segment at a time yields what the whole decoder does.
  \<^item> \<open>Store_Object\<close>, \<open>Store_Object_Laws\<close> (\<open>encrypted_object.rs\<close>): sealing, receiving and
    opening of one encrypted object.
  \<^item> \<open>Store_Archive\<close>, \<open>Store_Archive_Laws\<close> (\<open>archive/mod.rs\<close>, \<open>read.rs\<close>, \<open>write.rs\<close>): the layout
    of the archive, its snapshots and candidates; which byte strings open as an archive.
  \<^item> \<open>Store_Commit\<close>, \<open>Store_Commit_Laws\<close> (\<open>archive/write.rs\<close>, \<open>publication.rs\<close>): commit and
    confirmation over a disk on which every step can fail, with the marker \<open>pending\<close>, then
    \<open>published\<close>, beside the file. After a failure at any step the disk holds the old archive or
    the new one, the outcome never claims more than the disk holds, and a retry confirms.
  \<^item> \<open>Sync_Management\<close> (\<open>management.rs\<close>, \<open>lib.rs\<close>): the intent to hand management over, when a
    chain carries it out, the search for the transfer that was committed.
  \<^item> \<open>Sync_Coordinator\<close>, \<open>Sync_Coordinator_Laws\<close> (\<open>coordinator.rs\<close>): every call of the
    coordinator as one transaction on its copies, routes and events, since each holds the
    mutex throughout; a transaction that fails in Rust keeps what it had changed before, so the
    result is paired with the state. The locale \<open>preserving\<close> proves once that what every
    primitive keeps a composed transaction keeps; it is interpreted for the invariant of the
    copies and for their growth.
  \<^item> \<open>Sync_Exchange\<close>: the step relation of all calls, reachable coordinators, their invariant,
    and the promises to peers: who is served, what a received object becomes, that a repeated
    offer changes nothing, that a contradiction freezes a copy and a frozen copy answers no one,
    that a local commit is applied once. \<open>stray_receipt_blocks\<close> records a flaw: a receipt for
    a transfer that the copy never asked for leaves a marker that blocks its own request.
  \<^item> \<open>Sync_Observation\<close>, \<open>Sync_Observation_Laws\<close> (\<open>observation.rs\<close>): what is shown of peers, kept by
    numbers of attempts and generations, refines the specification by history \<open>presence\<close>: the
    phase of the latest attempt that still counts and the connections authorized while they did.
  \<^item> \<open>Sync_Wire\<close> (\<open>wire.rs\<close>, bodies of \<open>node.rs\<close>): frames and bodies over a stream that arrives in
    arbitrary pieces, stalls or breaks.
  \<^item> \<open>Sync_Node\<close>, \<open>Sync_Node_Laws\<close> (\<open>node.rs\<close>, \<open>persistence.rs\<close>): exchange, request and download
    against the serving loop of the other node. Each request has a fate (delivered, lost before
    or after it was served, body broken), so the theorems hold for every transport: both
    coordinators only make their own steps, and an exchange that reports success leaves both
    nodes with the same chain and the union of their objects.
  \<^item> \<open>Svc_Values\<close> (\<open>views.rs\<close>, \<open>patch.rs\<close>, \<open>operations.rs\<close> of the services crate): forms, patches and
    read-only views; what is shown and found without a reveal does not depend on any secret.
  \<^item> \<open>Svc_Generator\<close> (\<open>generator.rs\<close>): rejection sampling of passwords and passphrases over the
    list of answers of the random source; every secret is spelled by equally many answers.

  \<^bold>\<open>Bounds and termination.\<close> No fuel is used: every loop is structural or ends by a measure
  (unvisited groups on the way up, groups that can still be trashed, groups outside the
  selection, bytes still to be read). Limits of the code (members, controls, invitation window,
  object, segment, archive and manifest sizes, text lengths) are the constants of the source.

  \<^bold>\<open>Not modelled.\<close> The Automerge transactions that carry out document commands, whose merge
  the third-party crate decides; file locks, temporary files and the Windows branch of the
  publication, which are calls of the operating system; the transport (iroh) itself, binding,
  the accept loop with its limit of connections and shutdown; the older single-file password
  store and the local settings; sessions, drafts and saving of the services, runtime and worker processes, the desktop and Android
  applications, the experiments under \<open>spikes\<close> and the fuzz targets.
\<close>

end
